(* ===== verification/Rust_Prelude.thy ===== *)
theory Rust_Prelude
  imports Main "HOL-Library.Word" "HOL-Library.Sublist"
begin

section \<open>Prelude: the Rust standard library fragment the sources use\<close>

text \<open>
  Shared vocabulary of the development: octet strings and the operations of the Rust standard
  library that the sources call on them (ASCII case folding, trimming, searching, splitting,
  integer parsing and printing, UTF-8 validation), results as a sum type, and saturating and
  checked arithmetic on durations.

  A Rust \<open>str\<close> is a UTF-8 encoded octet sequence, and the sources index it by octet. The model
  therefore represents both \<open>str\<close> and byte buffers as \<^typ>\<open>char list\<close>, where \<^typ>\<open>char\<close> is an
  octet. Operations that look at Unicode white space recognise its UTF-8 encodings.
\<close>

subsection \<open>Collections of rules\<close>

named_theorems ascii_simps \<open>facts on ASCII classification and case folding\<close>
named_theorems scan_simps \<open>facts on searching and splitting octet strings\<close>
named_theorems txn_defs \<open>definitions of the transaction machines\<close>

type_synonym bytes = "char list"

subsection \<open>Results\<close>

text \<open>\<open>Result<T, E>\<close> is \<^typ>\<open>'e + 'a\<close>, the error on the left; the \<open>?\<close> operator is \<open>and_then\<close>.\<close>

definition and_then :: "'e + 'a \<Rightarrow> ('a \<Rightarrow> 'e + 'b) \<Rightarrow> 'e + 'b" where
  "and_then r f = (case r of Inl e \<Rightarrow> Inl e | Inr x \<Rightarrow> f x)"

definition map_err :: "('e \<Rightarrow> 'f) \<Rightarrow> 'e + 'a \<Rightarrow> 'f + 'a" where
  "map_err g r = (case r of Inl e \<Rightarrow> Inl (g e) | Inr x \<Rightarrow> Inr x)"

definition ok_or :: "'e \<Rightarrow> 'a option \<Rightarrow> 'e + 'a" where
  "ok_or e x = (case x of None \<Rightarrow> Inl e | Some v \<Rightarrow> Inr v)"

definition ok :: "'e + 'a \<Rightarrow> 'a option" where
  "ok r = (case r of Inl _ \<Rightarrow> None | Inr x \<Rightarrow> Some x)"

definition is_ok :: "'e + 'a \<Rightarrow> bool" where
  "is_ok r = (case r of Inl _ \<Rightarrow> False | Inr _ \<Rightarrow> True)"

lemma and_then_simps [simp]: "and_then (Inl e) f = Inl e" "and_then (Inr x) f = f x"
  by (simp_all add: and_then_def)

lemma map_err_simps [simp]: "map_err g (Inl e) = Inl (g e)" "map_err g (Inr x) = Inr x"
  by (simp_all add: map_err_def)

lemma ok_or_simps [simp]: "ok_or e None = Inl e" "ok_or e (Some x) = Inr x"
  by (simp_all add: ok_or_def)

lemma ok_simps [simp]: "ok (Inl e) = None" "ok (Inr x) = Some x"
  by (simp_all add: ok_def)

lemma is_ok_simps [simp]: "is_ok (Inl e) = False" "is_ok (Inr x) = True"
  by (simp_all add: is_ok_def)

lemma and_then_Inr_iff: "and_then r f = Inr y \<longleftrightarrow> (\<exists>x. r = Inr x \<and> f x = Inr y)"
  by (cases r) auto

lemma if_Inl_Inr_iff: "(if b then Inl e else r) = Inr y \<longleftrightarrow> \<not> b \<and> r = Inr y"
  by simp

lemma map_err_Inr_iff [simp]: "map_err g r = Inr y \<longleftrightarrow> r = Inr y"
  by (cases r) auto

lemma ok_or_Inr_iff [simp]: "ok_or e r = Inr y \<longleftrightarrow> r = Some y"
  by (cases r) auto

lemma ok_Some_iff [simp]: "ok r = Some y \<longleftrightarrow> r = Inr y"
  by (cases r) auto

lemma is_ok_iff: "is_ok r \<longleftrightarrow> (\<exists>x. r = Inr x)"
  by (cases r) auto

subsection \<open>Octets\<close>

definition code :: "char \<Rightarrow> nat" where
  "code c = of_char c"

definition octet :: "nat \<Rightarrow> char" where
  "octet n = char_of n"

definition CR :: char where "CR = octet 13"
definition LF :: char where "LF = octet 10"
definition HTAB :: char where "HTAB = octet 9"
definition DQUOTE :: char where "DQUOTE = octet 34"
definition BSLASH :: char where "BSLASH = octet 92"

definition is_ascii_digit :: "char \<Rightarrow> bool" where
  "is_ascii_digit c \<longleftrightarrow> 48 \<le> code c \<and> code c \<le> 57"

definition is_ascii_upper :: "char \<Rightarrow> bool" where
  "is_ascii_upper c \<longleftrightarrow> 65 \<le> code c \<and> code c \<le> 90"

definition is_ascii_lower :: "char \<Rightarrow> bool" where
  "is_ascii_lower c \<longleftrightarrow> 97 \<le> code c \<and> code c \<le> 122"

definition ascii_lower :: "char \<Rightarrow> char" where
  "ascii_lower c = (if is_ascii_upper c then octet (code c + 32) else c)"

definition ascii_upper :: "char \<Rightarrow> char" where
  "ascii_upper c = (if is_ascii_lower c then octet (code c - 32) else c)"

definition to_ascii_lowercase :: "string \<Rightarrow> string" where
  "to_ascii_lowercase s = map ascii_lower s"

definition to_ascii_uppercase :: "string \<Rightarrow> string" where
  "to_ascii_uppercase s = map ascii_upper s"

definition eq_ignore_ascii_case :: "string \<Rightarrow> string \<Rightarrow> bool" where
  "eq_ignore_ascii_case s t \<longleftrightarrow> to_ascii_lowercase s = to_ascii_lowercase t"

lemma code_octet: "code (octet n) = n mod 256"
  by (simp add: code_def octet_def)

lemma code_less [simp]: "code c < 256"
proof -
  have "of_char c = (of_char c :: nat) mod 256"
    by (metis of_char_mod_256)
  then show ?thesis
    unfolding code_def by (metis mod_less_divisor zero_less_numeral)
qed

lemma octet_code [simp]: "octet (code c) = c"
  by (simp add: code_def octet_def)

lemma code_Char [simp]:
  "code (Char b0 b1 b2 b3 b4 b5 b6 b7) =
     of_bool b0 + 2 * of_bool b1 + 4 * of_bool b2 + 8 * of_bool b3
     + 16 * of_bool b4 + 32 * of_bool b5 + 64 * of_bool b6 + 128 * of_bool b7"
  by (simp add: code_def)

lemma octet_eq_iff [ascii_simps]: "octet n = c \<longleftrightarrow> n mod 256 = code c"
  by (metis code_octet octet_code)

lemma eq_octet_iff [ascii_simps]: "c = octet n \<longleftrightarrow> n mod 256 = code c"
  by (metis code_octet octet_code)

lemmas ascii_eval [ascii_simps] =
  code_octet ascii_lower_def is_ascii_upper_def ascii_upper_def is_ascii_lower_def
  to_ascii_lowercase_def to_ascii_uppercase_def eq_ignore_ascii_case_def is_ascii_digit_def

lemma code_inject: "code c = code d \<longleftrightarrow> c = d"
  by (metis octet_code)

lemma code_special [simp]:
  "code CR = 13" "code LF = 10" "code HTAB = 9" "code DQUOTE = 34" "code BSLASH = 92"
  by (simp_all add: CR_def LF_def HTAB_def DQUOTE_def BSLASH_def code_octet)

lemma CR_not_LF [simp]: "CR \<noteq> LF" "LF \<noteq> CR"
  by (metis code_special Suc_n_not_n numeral_eq_iff semiring_norm(88,89))+

lemma ascii_lower_idem [simp]: "ascii_lower (ascii_lower c) = ascii_lower c"
  by (auto simp: ascii_lower_def is_ascii_upper_def code_octet)

lemma to_ascii_lowercase_idem [simp]:
  "to_ascii_lowercase (to_ascii_lowercase s) = to_ascii_lowercase s"
  by (simp add: to_ascii_lowercase_def)

lemma length_to_ascii_lowercase [simp]: "length (to_ascii_lowercase s) = length s"
  by (simp add: to_ascii_lowercase_def)

lemma eq_ignore_ascii_case_refl [simp]: "eq_ignore_ascii_case s s"
  by (simp add: eq_ignore_ascii_case_def)

lemma eq_ignore_ascii_case_sym:
  "eq_ignore_ascii_case s t \<longleftrightarrow> eq_ignore_ascii_case t s"
  by (auto simp: eq_ignore_ascii_case_def)

lemma eq_ignore_ascii_case_trans:
  "eq_ignore_ascii_case s t \<Longrightarrow> eq_ignore_ascii_case t u \<Longrightarrow> eq_ignore_ascii_case s u"
  by (simp add: eq_ignore_ascii_case_def)


subsection \<open>White space\<close>

text \<open>
  \<open>ws_len s\<close> is the number of octets of the Unicode \<open>White_Space\<close> scalar value that \<open>s\<close> starts
  with (0 if there is none), and \<open>ws_len_rev\<close> the same for the last scalar value of a reversed
  string. The encodings are those of U+0009-000D, U+0020, U+0085, U+00A0, U+1680, U+2000-200A,
  U+2028, U+2029, U+202F, U+205F and U+3000.
\<close>

definition ws1 :: "nat \<Rightarrow> bool" where
  "ws1 a \<longleftrightarrow> a = 32 \<or> (9 \<le> a \<and> a \<le> 13)"

definition ws2 :: "nat \<Rightarrow> nat \<Rightarrow> bool" where
  "ws2 a b \<longleftrightarrow> a = 194 \<and> (b = 133 \<or> b = 160)"

definition ws3 :: "nat \<Rightarrow> nat \<Rightarrow> nat \<Rightarrow> bool" where
  "ws3 a b c \<longleftrightarrow>
     (a = 225 \<and> b = 154 \<and> c = 128) \<or>
     (a = 226 \<and> b = 128 \<and> ((128 \<le> c \<and> c \<le> 138) \<or> c = 168 \<or> c = 169 \<or> c = 175)) \<or>
     (a = 226 \<and> b = 129 \<and> c = 159) \<or>
     (a = 227 \<and> b = 128 \<and> c = 128)"

fun ws_len :: "string \<Rightarrow> nat" where
  "ws_len [] = 0"
| "ws_len [a] = (if ws1 (code a) then 1 else 0)"
| "ws_len [a, b] = (if ws1 (code a) then 1 else if ws2 (code a) (code b) then 2 else 0)"
| "ws_len (a # b # c # s) =
     (if ws1 (code a) then 1
      else if ws2 (code a) (code b) then 2
      else if ws3 (code a) (code b) (code c) then 3 else 0)"

fun ws_len_rev :: "string \<Rightarrow> nat" where
  "ws_len_rev [] = 0"
| "ws_len_rev [a] = (if ws1 (code a) then 1 else 0)"
| "ws_len_rev [b, a] = (if ws1 (code b) then 1 else if ws2 (code a) (code b) then 2 else 0)"
| "ws_len_rev (c # b # a # s) =
     (if ws1 (code c) then 1
      else if ws2 (code b) (code c) then 2
      else if ws3 (code a) (code b) (code c) then 3 else 0)"

lemma ws_len_le: "ws_len s \<le> length s"
  by (induction s rule: ws_len.induct) auto

lemma ws_len_rev_le: "ws_len_rev s \<le> length s"
  by (induction s rule: ws_len_rev.induct) auto

text \<open>\<open>str::trim_start\<close>, \<open>str::trim_end\<close> and \<open>str::trim\<close>.\<close>

function trim_start :: "string \<Rightarrow> string" where
  "trim_start s = (if ws_len s = 0 then s else trim_start (drop (ws_len s) s))"
  by pat_completeness auto
termination
proof (relation "measure length")
  fix s :: string
  assume "ws_len s \<noteq> 0"
  with ws_len_le [of s] show "(drop (ws_len s) s, s) \<in> measure length"
    by simp
qed simp

function trim_rev :: "string \<Rightarrow> string" where
  "trim_rev s = (if ws_len_rev s = 0 then s else trim_rev (drop (ws_len_rev s) s))"
  by pat_completeness auto
termination
proof (relation "measure length")
  fix s :: string
  assume "ws_len_rev s \<noteq> 0"
  with ws_len_rev_le [of s] show "(drop (ws_len_rev s) s, s) \<in> measure length"
    by simp
qed simp

declare trim_start.simps [simp del] trim_rev.simps [simp del]

definition trim_end :: "string \<Rightarrow> string" where
  "trim_end s = rev (trim_rev (rev s))"

definition trim :: "string \<Rightarrow> string" where
  "trim s = trim_end (trim_start s)"

lemma trim_start_id: "ws_len s = 0 \<Longrightarrow> trim_start s = s"
  by (subst trim_start.simps) simp

lemma trim_rev_id: "ws_len_rev s = 0 \<Longrightarrow> trim_rev s = s"
  by (subst trim_rev.simps) simp

lemma ws_len_trim_start [simp]: "ws_len (trim_start s) = 0"
  by (induction s rule: trim_start.induct) (subst trim_start.simps, simp)

lemma trim_start_Nil [simp]: "trim_start [] = []"
  by (simp add: trim_start_id)

lemma trim_start_idem [simp]: "trim_start (trim_start s) = trim_start s"
  by (simp add: trim_start_id)

lemma trim_start_suffix: "suffix (trim_start s) s"
proof (induction s rule: trim_start.induct)
  case (1 s)
  show ?case
  proof (cases "ws_len s = 0")
    case True
    then show ?thesis by (simp add: trim_start_id)
  next
    case False
    with 1 have "suffix (trim_start (drop (ws_len s) s)) (drop (ws_len s) s)" by simp
    then have "suffix (trim_start (drop (ws_len s) s)) s"
      using suffix_drop suffix_order.trans by blast
    with False show ?thesis by (subst trim_start.simps) simp
  qed
qed

lemma trim_rev_suffix: "suffix (trim_rev s) s"
proof (induction s rule: trim_rev.induct)
  case (1 s)
  show ?case
  proof (cases "ws_len_rev s = 0")
    case True
    then show ?thesis by (simp add: trim_rev_id)
  next
    case False
    with 1 have "suffix (trim_rev (drop (ws_len_rev s) s)) (drop (ws_len_rev s) s)" by simp
    then have "suffix (trim_rev (drop (ws_len_rev s) s)) s"
      using suffix_drop suffix_order.trans by blast
    with False show ?thesis by (subst trim_rev.simps) simp
  qed
qed

lemma trim_end_prefix: "prefix (trim_end s) s"
  using trim_rev_suffix [of "rev s"] by (simp add: trim_end_def suffix_to_prefix)

lemma length_trim_start_le: "length (trim_start s) \<le> length s"
  using trim_start_suffix by (rule suffix_length_le)

lemma length_trim_le: "length (trim s) \<le> length s"
  unfolding trim_def
  using prefix_length_le [OF trim_end_prefix] length_trim_start_le le_trans by blast

lemma set_trim_subset: "set (trim s) \<subseteq> set s"
  unfolding trim_def
  by (meson set_mono_prefix set_mono_suffix subset_trans trim_end_prefix trim_start_suffix)

text \<open>
  \<open>tight s\<close>: trimming does not change \<open>s\<close>. This is what the round trip theorems ask of values.
\<close>

definition tight :: "string \<Rightarrow> bool" where
  "tight s \<longleftrightarrow> ws_len s = 0 \<and> ws_len_rev (rev s) = 0"

lemma trim_tight [simp]: "tight s \<Longrightarrow> trim s = s"
  by (simp add: tight_def trim_def trim_end_def trim_start_id trim_rev_id)

lemma tight_Nil [simp]: "tight []"
  by (simp add: tight_def)

lemma ws_len_ws1: "ws1 (code c) \<Longrightarrow> ws_len (c # s) = 1"
  by (cases s rule: ws_len.cases) auto

lemma ws_len_ascii: "code c < 128 \<Longrightarrow> \<not> ws1 (code c) \<Longrightarrow> ws_len (c # s) = 0"
  by (cases "c # s" rule: ws_len.cases) (auto simp: ws2_def ws3_def)

lemma trim_start_ws1: "ws1 (code c) \<Longrightarrow> trim_start (c # s) = trim_start s"
  by (subst trim_start.simps) (simp add: ws_len_ws1)

lemma trim_Cons_space [simp]: "trim (CHR '' '' # s) = trim s"
  by (simp add: trim_def trim_start_ws1 ws1_def)

lemma trim_Nil [simp]: "trim [] = []"
  by simp


subsection \<open>Searching and splitting\<close>

text \<open>\<open>str::find(char)\<close>, \<open>str::rfind(char)\<close>, \<open>str::find(&str)\<close> for a non-empty needle.\<close>

fun find_char :: "char \<Rightarrow> string \<Rightarrow> nat option" where
  "find_char c [] = None"
| "find_char c (x # xs) = (if x = c then Some 0 else map_option Suc (find_char c xs))"

fun rfind_char :: "char \<Rightarrow> string \<Rightarrow> nat option" where
  "rfind_char c [] = None"
| "rfind_char c (x # xs) =
     (case rfind_char c xs of Some i \<Rightarrow> Some (Suc i) | None \<Rightarrow> if x = c then Some 0 else None)"

fun find_sub :: "string \<Rightarrow> string \<Rightarrow> nat option" where
  "find_sub needle [] = None"
| "find_sub needle (x # xs) =
     (if take (length needle) (x # xs) = needle then Some 0
      else map_option Suc (find_sub needle xs))"

definition strip_prefix :: "string \<Rightarrow> string \<Rightarrow> string option" where
  "strip_prefix p s = (if take (length p) s = p then Some (drop (length p) s) else None)"

definition starts_with :: "string \<Rightarrow> string \<Rightarrow> bool" where
  "starts_with p s \<longleftrightarrow> take (length p) s = p"

definition contains_sub :: "string \<Rightarrow> string \<Rightarrow> bool" where
  "contains_sub needle s \<longleftrightarrow> needle = [] \<or> find_sub needle s \<noteq> None"

text \<open>\<open>str::split(char)\<close> yields at least one piece; \<open>str::splitn\<close> at most \<open>n\<close>.\<close>

fun split_char :: "char \<Rightarrow> string \<Rightarrow> string list" where
  "split_char c [] = [[]]"
| "split_char c (x # xs) =
     (if x = c then [] # split_char c xs
      else (case split_char c xs of [] \<Rightarrow> [[x]] | p # ps \<Rightarrow> (x # p) # ps))"

fun splitn_char :: "nat \<Rightarrow> char \<Rightarrow> string \<Rightarrow> string list" where
  "splitn_char 0 c s = []"
| "splitn_char (Suc 0) c s = [s]"
| "splitn_char (Suc (Suc n)) c s =
     (case find_char c s of
        None \<Rightarrow> [s]
      | Some i \<Rightarrow> take i s # splitn_char (Suc n) c (drop (Suc i) s))"

text \<open>\<open>str::split_whitespace\<close>: maximal runs of octets that are not white space.\<close>

function split_ws :: "string \<Rightarrow> string \<Rightarrow> string list" where
  "split_ws cur s =
     (case s of
        [] \<Rightarrow> if cur = [] then [] else [rev cur]
      | c # cs \<Rightarrow>
          if ws_len s = 0 then split_ws (c # cur) cs
          else (if cur = [] then [] else [rev cur]) @ split_ws [] (drop (ws_len s) s))"
  by pat_completeness auto
termination
proof (relation "measure (\<lambda>(cur, s). length s)")
  fix cur s c cs
  assume "s = c # cs" "ws_len s \<noteq> 0"
  with ws_len_le [of s]
  show "(([], drop (ws_len s) s), cur, s) \<in> measure (\<lambda>(cur, s). length s)"
    by simp
qed simp_all

declare split_ws.simps [simp del]

definition split_whitespace :: "string \<Rightarrow> string list" where
  "split_whitespace s = split_ws [] s"

text \<open>\<open>str::lines\<close>: pieces ended by LF, a CR before that LF removed; no final empty piece.\<close>

definition strip_cr :: "string \<Rightarrow> string" where
  "strip_cr l = (if l \<noteq> [] \<and> last l = CR then butlast l else l)"

fun str_lines_aux :: "string \<Rightarrow> string \<Rightarrow> string list" where
  "str_lines_aux cur [] = (if cur = [] then [] else [rev cur])"
| "str_lines_aux cur (x # xs) =
     (if x = LF then strip_cr (rev cur) # str_lines_aux [] xs
      else str_lines_aux (x # cur) xs)"

definition str_lines :: "string \<Rightarrow> string list" where
  "str_lines s = str_lines_aux [] s"

text \<open>\<open>[String]::join\<close>.\<close>

fun join :: "string \<Rightarrow> string list \<Rightarrow> string" where
  "join sep [] = []"
| "join sep [x] = x"
| "join sep (x # y # ys) = x @ sep @ join sep (y # ys)"

lemma find_char_None [scan_simps]: "find_char c s = None \<longleftrightarrow> c \<notin> set s"
  by (induction s) auto

lemma find_char_append [scan_simps]:
  "c \<notin> set s \<Longrightarrow> find_char c (s @ c # t) = Some (length s)"
  by (induction s) auto

lemma find_char_SomeD:
  "find_char c s = Some i \<Longrightarrow> i < length s \<and> s ! i = c \<and> c \<notin> set (take i s)"
  by (induction s arbitrary: i) (auto split: if_splits)

lemma find_char_split:
  assumes "find_char c s = Some i"
  shows "s = take i s @ c # drop (Suc i) s"
proof -
  from find_char_SomeD [OF assms] have "i < length s" "s ! i = c" by auto
  then show ?thesis by (metis id_take_nth_drop)
qed

lemma rfind_char_None [scan_simps]: "rfind_char c s = None \<longleftrightarrow> c \<notin> set s"
  by (induction s) (auto split: option.splits)

lemma rfind_char_append [scan_simps]:
  "c \<notin> set t \<Longrightarrow> rfind_char c (s @ c # t) = Some (length s)"
  by (induction s) (auto simp: scan_simps split: option.splits)

lemma rfind_char_SomeD:
  "rfind_char c s = Some i \<Longrightarrow> i < length s \<and> s ! i = c \<and> c \<notin> set (drop (Suc i) s)"
proof (induction s arbitrary: i)
  case (Cons x xs)
  show ?case
  proof (cases "rfind_char c xs")
    case None
    with Cons.prems show ?thesis by (auto simp: rfind_char_None split: if_splits)
  next
    case (Some j)
    with Cons show ?thesis by auto
  qed
qed simp

lemma find_sub_SomeD:
  "find_sub n s = Some i \<Longrightarrow> i < length s \<and> take (length n) (drop i s) = n"
  by (induction s arbitrary: i) (auto split: if_splits)

lemma find_sub_split:
  assumes "find_sub n s = Some i"
  shows "s = take i s @ n @ drop (i + length n) s"
proof -
  from find_sub_SomeD [OF assms] have "take (length n) (drop i s) = n" by simp
  then have "drop i s = n @ drop (length n) (drop i s)"
    by (metis append_take_drop_id)
  then show ?thesis
    by (metis add.commute append_take_drop_id drop_drop)
qed

lemma find_sub_too_short: "length s < length n \<Longrightarrow> find_sub n s = None"
proof (rule ccontr)
  assume len: "length s < length n" and "find_sub n s \<noteq> None"
  then obtain i where "find_sub n s = Some i" by blast
  from arg_cong [OF find_sub_split [OF this], of length] len show False by simp
qed

lemma find_sub_first:
  "find_sub n s = Some i \<Longrightarrow> j < i \<Longrightarrow> take (length n) (drop j s) \<noteq> n"
  by (induction s arbitrary: i j) (auto split: if_splits simp: less_Suc_eq_0_disj)

lemma find_sub_NoneD:
  "find_sub n s = None \<Longrightarrow> j < length s \<Longrightarrow> take (length n) (drop j s) \<noteq> n"
  by (induction s arbitrary: j) (auto split: if_splits simp: less_Suc_eq_0_disj)

lemma split_char_not_Nil [simp]: "split_char c s \<noteq> []"
  by (induction s) (auto split: list.splits)

lemma split_char_single [scan_simps]: "c \<notin> set s \<Longrightarrow> split_char c s = [s]"
  by (induction s) auto

lemma split_char_append [scan_simps]:
  "c \<notin> set s \<Longrightarrow> split_char c (s @ c # t) = s # split_char c t"
  by (induction s) auto

lemma split_char_no_sep: "p \<in> set (split_char c s) \<Longrightarrow> c \<notin> set p"
  by (induction s arbitrary: p) (auto split: list.splits if_splits)

lemma starts_with_simps [simp]:
  "starts_with [] s"
  "\<not> starts_with (c # p) []"
  "starts_with (c # p) (d # s) \<longleftrightarrow> c = d \<and> starts_with p s"
  by (auto simp: starts_with_def)

lemma strip_prefix_append [simp]: "strip_prefix p (p @ s) = Some s"
  by (simp add: strip_prefix_def)


subsection \<open>Decimal numbers\<close>

text \<open>
  \<open>to_dec\<close> is \<open>Display\<close> for unsigned integers. \<open>parse_uint b\<close> is \<open>str::parse\<close> for an unsigned type
  with values below \<open>b\<close>: an optional leading plus sign, at least one digit, nothing but digits,
  no overflow.
\<close>

fun to_dec :: "nat \<Rightarrow> string" where
  "to_dec n = (if n < 10 then [octet (48 + n)] else to_dec (n div 10) @ [octet (48 + n mod 10)])"

declare to_dec.simps [simp del]

fun digits_val :: "nat \<Rightarrow> string \<Rightarrow> nat option" where
  "digits_val acc [] = Some acc"
| "digits_val acc (c # cs) =
     (if is_ascii_digit c then digits_val (10 * acc + (code c - 48)) cs else None)"

definition parse_uint :: "nat \<Rightarrow> string \<Rightarrow> nat option" where
  "parse_uint b s =
     (let ds = (case s of c # cs \<Rightarrow> if c = CHR ''+'' \<and> cs \<noteq> [] then cs else s | [] \<Rightarrow> s)
      in if ds = [] then None
         else (case digits_val 0 ds of
                 None \<Rightarrow> None
               | Some n \<Rightarrow> if n < b then Some n else None))"

abbreviation parse_u8 :: "string \<Rightarrow> nat option" where "parse_u8 \<equiv> parse_uint (2 ^ 8)"
abbreviation parse_u16 :: "string \<Rightarrow> nat option" where "parse_u16 \<equiv> parse_uint (2 ^ 16)"
abbreviation parse_u32 :: "string \<Rightarrow> nat option" where "parse_u32 \<equiv> parse_uint (2 ^ 32)"
abbreviation parse_usize :: "string \<Rightarrow> nat option" where "parse_usize \<equiv> parse_uint (2 ^ 64)"

lemma parse_uint_bound: "parse_uint b s = Some n \<Longrightarrow> n < b"
  by (auto simp: parse_uint_def Let_def split: if_splits option.splits)

lemma digits_val_append:
  "digits_val a (s @ t) = (case digits_val a s of None \<Rightarrow> None | Some b \<Rightarrow> digits_val b t)"
  by (induction s arbitrary: a) auto

lemma to_dec_not_Nil [simp]: "to_dec n \<noteq> []"
  by (subst to_dec.simps) simp

lemma digit_octet: "n < 10 \<Longrightarrow> is_ascii_digit (octet (48 + n)) \<and> code (octet (48 + n)) = 48 + n"
  by (auto simp: is_ascii_digit_def code_octet)

lemma to_dec_digits: "c \<in> set (to_dec n) \<Longrightarrow> is_ascii_digit c"
proof (induction n rule: to_dec.induct)
  case (1 n)
  show ?case
  proof (cases "n < 10")
    case True
    with 1 show ?thesis using digit_octet [of n] by (subst (asm) to_dec.simps) auto
  next
    case False
    with "1.prems" have "c \<in> set (to_dec (n div 10)) \<or> c = octet (48 + n mod 10)"
      by (subst (asm) to_dec.simps) auto
    with False "1.IH" show ?thesis using digit_octet [of "n mod 10"] by auto
  qed
qed

lemma digits_val_to_dec: "digits_val 0 (to_dec n) = Some n"
proof (induction n rule: to_dec.induct)
  case (1 n)
  show ?case
  proof (cases "n < 10")
    case True
    then show ?thesis using digit_octet [of n] by (subst to_dec.simps) simp
  next
    case False
    with 1 have "digits_val 0 (to_dec (n div 10)) = Some (n div 10)" by simp
    with False show ?thesis using digit_octet [of "n mod 10"]
      by (subst to_dec.simps) (simp add: digits_val_append)
  qed
qed

lemma parse_uint_to_dec [simp]:
  assumes "n < b"
  shows "parse_uint b (to_dec n) = Some n"
proof (cases "to_dec n")
  case (Cons c cs)
  then have "is_ascii_digit c" using to_dec_digits [of c n] by simp
  then have "c \<noteq> CHR ''+''" by (auto simp: is_ascii_digit_def code_def)
  with Cons assms digits_val_to_dec [of n] show ?thesis
    by (simp add: parse_uint_def)
qed simp

subsection \<open>Searching a list\<close>

text \<open>\<open>Iterator::find_map\<close>: the first result that is not \<open>None\<close>.\<close>

fun find_map :: "('a \<Rightarrow> 'b option) \<Rightarrow> 'a list \<Rightarrow> 'b option" where
  "find_map f [] = None"
| "find_map f (x # xs) = (case f x of Some y \<Rightarrow> Some y | None \<Rightarrow> find_map f xs)"

lemma find_map_append:
  "find_map f (xs @ ys) = (case find_map f xs of Some y \<Rightarrow> Some y | None \<Rightarrow> find_map f ys)"
  by (induction xs) (simp_all split: option.splits)

lemma find_map_None_iff: "find_map f xs = None \<longleftrightarrow> (\<forall>x \<in> set xs. f x = None)"
  by (induction xs) (auto split: option.splits)

subsection \<open>UTF-8 validation\<close>

text \<open>\<open>std::str::from_utf8(..).is_ok()\<close>: the well-formed octet sequences of the Unicode standard.\<close>

definition cont :: "char \<Rightarrow> bool" where
  "cont c \<longleftrightarrow> 128 \<le> code c \<and> code c \<le> 191"

definition between :: "nat \<Rightarrow> nat \<Rightarrow> char \<Rightarrow> bool" where
  "between lo hi c \<longleftrightarrow> lo \<le> code c \<and> code c \<le> hi"

fun utf8_valid :: "string \<Rightarrow> bool" where
  "utf8_valid [] = True"
| "utf8_valid (a # s) =
     (if code a < 128 then utf8_valid s
      else (case s of
        [] \<Rightarrow> False
      | b # s \<Rightarrow>
          if between 194 223 a then cont b \<and> utf8_valid s
          else (case s of
            [] \<Rightarrow> False
          | c # s \<Rightarrow>
              if between 224 239 a then
                (if code a = 224 then between 160 191 b
                 else if code a = 237 then between 128 159 b else cont b)
                \<and> cont c \<and> utf8_valid s
              else (case s of
                [] \<Rightarrow> False
              | d # s \<Rightarrow>
                  between 240 244 a
                  \<and> (if code a = 240 then between 144 191 b
                     else if code a = 244 then between 128 143 b else cont b)
                  \<and> cont c \<and> cont d \<and> utf8_valid s))))"

definition ascii :: "string \<Rightarrow> bool" where
  "ascii s \<longleftrightarrow> (\<forall>c \<in> set s. code c < 128)"

lemma utf8_valid_ascii: "ascii s \<Longrightarrow> utf8_valid s"
  by (induction s) (auto simp: ascii_def)

lemma ascii_append [simp]: "ascii (s @ t) \<longleftrightarrow> ascii s \<and> ascii t"
  by (auto simp: ascii_def)

lemma ascii_to_dec [simp]: "ascii (to_dec n)"
  using to_dec_digits [of _ n] by (fastforce simp: ascii_def is_ascii_digit_def)

subsection \<open>Durations\<close>

text \<open>
  A \<open>std::time::Duration\<close> is a non-negative number of nanoseconds; the sources only ever build whole
  milliseconds, so durations are counted in milliseconds. The largest value a \<open>Duration\<close> holds is
  just below \<open>2 ^ 64\<close> seconds; multiplication and addition panic beyond it.
\<close>

type_synonym duration = nat

definition from_millis :: "nat \<Rightarrow> duration" where "from_millis n = n"
definition from_secs :: "nat \<Rightarrow> duration" where "from_secs n = 1000 * n"

definition duration_limit :: nat where
  "duration_limit = 1000 * 2 ^ 64"

definition duration_fits :: "nat \<Rightarrow> bool" where
  "duration_fits d \<longleftrightarrow> d < duration_limit"

text \<open>\<open>Iterator::min\<close> over the elements of a list.\<close>

fun list_min :: "nat list \<Rightarrow> nat option" where
  "list_min [] = None"
| "list_min (x # xs) = (case list_min xs of None \<Rightarrow> Some x | Some m \<Rightarrow> Some (min x m))"

lemma list_min_None [simp]: "list_min xs = None \<longleftrightarrow> xs = []"
  by (cases xs) (auto split: option.splits)

lemma list_min_Some: "list_min xs = Some m \<longleftrightarrow> xs \<noteq> [] \<and> m = Min (set xs)"
proof (induction xs arbitrary: m)
  case (Cons x xs)
  show ?case
  proof (cases "list_min xs")
    case None
    then show ?thesis by auto
  next
    case (Some k)
    with Cons have "xs \<noteq> []" "k = Min (set xs)" by auto
    with Some show ?thesis by auto
  qed
qed simp

lemma list_min_le: "list_min xs = Some m \<Longrightarrow> x \<in> set xs \<Longrightarrow> m \<le> x"
  by (auto simp: list_min_Some)

lemma list_min_mem: "list_min xs = Some m \<Longrightarrow> m \<in> set xs"
  by (metis List.finite_set Min_in list_min_Some set_empty)

lemma list_min_replicate_ge:
  "list_min xs = Some m \<Longrightarrow> \<forall>x \<in> set xs. k \<le> x \<Longrightarrow> k \<le> m"
  using list_min_mem by blast


subsection \<open>Graphic text\<close>

text \<open>Visible ASCII: what tokens, URIs and most header values are made of.\<close>

definition graphic :: "string \<Rightarrow> bool" where
  "graphic s \<longleftrightarrow> (\<forall>c \<in> set s. 33 \<le> code c \<and> code c \<le> 126)"

lemma graphic_append [simp]: "graphic (s @ t) \<longleftrightarrow> graphic s \<and> graphic t"
  by (auto simp: graphic_def)

lemma graphic_Cons [simp]: "graphic (c # s) \<longleftrightarrow> 33 \<le> code c \<and> code c \<le> 126 \<and> graphic s"
  by (auto simp: graphic_def)

lemma graphic_Nil [simp]: "graphic []"
  by (simp add: graphic_def)

lemma ws_len_rev_ascii: "code c < 128 \<Longrightarrow> \<not> ws1 (code c) \<Longrightarrow> ws_len_rev (c # s) = 0"
  by (cases "c # s" rule: ws_len_rev.cases) (auto simp: ws2_def ws3_def)

lemma ws_len_graphic [simp]: "33 \<le> code c \<Longrightarrow> code c \<le> 126 \<Longrightarrow> ws_len (c # s) = 0"
  by (rule ws_len_ascii) (auto simp: ws1_def)

lemma ws_len_rev_graphic [simp]: "33 \<le> code c \<Longrightarrow> code c \<le> 126 \<Longrightarrow> ws_len_rev (c # s) = 0"
  by (rule ws_len_rev_ascii) (auto simp: ws1_def)

lemma tight_ends:
  "33 \<le> code c \<Longrightarrow> code c \<le> 126 \<Longrightarrow> 33 \<le> code d \<Longrightarrow> code d \<le> 126 \<Longrightarrow> tight (c # s @ [d])"
  by (simp add: tight_def)

lemma tight_graphic: "graphic s \<Longrightarrow> tight s"
proof -
  assume g: "graphic s"
  have "ws_len s = 0" using g by (cases s) auto
  moreover have "ws_len_rev (rev s) = 0" using g by (cases s rule: rev_cases) auto
  ultimately show ?thesis by (simp add: tight_def)
qed

lemma graphic_to_dec [simp]: "graphic (to_dec n)"
  using to_dec_digits [of _ n] by (fastforce simp: graphic_def is_ascii_digit_def)

lemma to_dec_no_sep: "\<not> is_ascii_digit c \<Longrightarrow> c \<notin> set (to_dec n)"
  using to_dec_digits by blast

lemma to_dec_seps [simp]:
  "CHR ''@'' \<notin> set (to_dec n)" "CHR '';'' \<notin> set (to_dec n)" "CHR '':'' \<notin> set (to_dec n)"
  "CHR ''?'' \<notin> set (to_dec n)" "CHR '','' \<notin> set (to_dec n)" "CHR '' '' \<notin> set (to_dec n)"
  "CHR ''='' \<notin> set (to_dec n)" "CHR ''/'' \<notin> set (to_dec n)" "list_all is_ascii_digit (to_dec n)"
  by (auto simp: list_all_iff to_dec_digits intro!: to_dec_no_sep) (simp_all add: ascii_simps)

lemma length_to_dec: "n < 10 ^ Suc k \<Longrightarrow> length (to_dec n) \<le> Suc k"
proof (induction k arbitrary: n)
  case 0
  then show ?case by (subst to_dec.simps) simp
next
  case (Suc k)
  then have "n div 10 < 10 ^ Suc k" by (simp add: less_mult_imp_div_less mult.commute)
  with Suc.IH [of "n div 10"] show ?case by (subst to_dec.simps) simp
qed

lemma split_char_join:
  "xs \<noteq> [] \<Longrightarrow> \<forall>x \<in> set xs. c \<notin> set x \<Longrightarrow> split_char c (join [c] xs) = xs"
  by (induction "[c]" xs rule: join.induct) (auto simp: scan_simps)

lemma graphic_join: "graphic sep \<Longrightarrow> \<forall>x \<in> set xs. graphic x \<Longrightarrow> graphic (join sep xs)"
  by (induction sep xs rule: join.induct) auto

end
