(* ===== verification/Sip_Header.thy ===== *)
theory Sip_Header
  imports Rust_Prelude
begin

section \<open>SIP vocabulary: errors, methods, status codes, header lines\<close>

text \<open>
  Models \<open>core/error.rs\<close> (the SIP errors the parser raises), \<open>sip/parser/method.rs\<close>,
  \<open>sip/parser/status.rs\<close>, \<open>sip/parser/header.rs\<close> and the \<open>Method\<close> type of \<open>sip/message.rs\<close>.
  Errors keep their variant; the diagnostic text they carry is not modelled. A header collection
  (\<open>Headers\<close>, a \<open>Vec<Header>\<close>) is a list in wire order.

  The lemmas show that the two method types are isomorphic, that method tokens parse back, that
  header recognition inverts header printing for every well-formed header, and that a collection
  built by \<open>push\<close> never exceeds the limit.
\<close>

text \<open>
  The errors of \<open>SipError\<close> that parsing and building return, without their messages. The other variants (timeouts,
  lookups, states, authentication, responses) are not made by the modelled operations.
\<close>

datatype sip_error = ErrParse | ErrInvalidHeader | ErrMissingHeader string

subsection \<open>Methods\<close>

datatype p_method =
    PInvite | PAck | PBye | PCancel | PRegister | POptions | PInfo | PUpdate | PRefer
  | PNotify | PSubscribe | PPrack | PMessage | PPublish

fun p_method_as_str :: "p_method \<Rightarrow> string" where
  "p_method_as_str PInvite = ''INVITE''"
| "p_method_as_str PAck = ''ACK''"
| "p_method_as_str PBye = ''BYE''"
| "p_method_as_str PCancel = ''CANCEL''"
| "p_method_as_str PRegister = ''REGISTER''"
| "p_method_as_str POptions = ''OPTIONS''"
| "p_method_as_str PInfo = ''INFO''"
| "p_method_as_str PUpdate = ''UPDATE''"
| "p_method_as_str PRefer = ''REFER''"
| "p_method_as_str PNotify = ''NOTIFY''"
| "p_method_as_str PSubscribe = ''SUBSCRIBE''"
| "p_method_as_str PPrack = ''PRACK''"
| "p_method_as_str PMessage = ''MESSAGE''"
| "p_method_as_str PPublish = ''PUBLISH''"

definition p_methods_all :: "p_method list" where
  "p_methods_all =
     [PInvite, PAck, PBye, PCancel, PRegister, POptions, PInfo, PUpdate, PRefer,
      PNotify, PSubscribe, PPrack, PMessage, PPublish]"

definition p_method_from_str :: "string \<Rightarrow> sip_error + p_method" where
  "p_method_from_str s =
     ok_or ErrParse (find (\<lambda>m. eq_ignore_ascii_case s (p_method_as_str m)) p_methods_all)"

definition p_creates_dialog :: "p_method \<Rightarrow> bool" where
  "p_creates_dialog m \<longleftrightarrow> m = PInvite \<or> m = PSubscribe"

definition p_requires_ack :: "p_method \<Rightarrow> bool" where
  "p_requires_ack m \<longleftrightarrow> m = PInvite"

datatype sip_method =
    Invite | Ack | Bye | Cancel | Register | Options | Prack | Subscribe | Notify
  | Publish | Info | Refer | Message | Update

fun method_from_parser :: "p_method \<Rightarrow> sip_method" where
  "method_from_parser PInvite = Invite"
| "method_from_parser PAck = Ack"
| "method_from_parser PBye = Bye"
| "method_from_parser PCancel = Cancel"
| "method_from_parser PRegister = Register"
| "method_from_parser POptions = Options"
| "method_from_parser PPrack = Prack"
| "method_from_parser PSubscribe = Subscribe"
| "method_from_parser PNotify = Notify"
| "method_from_parser PPublish = Publish"
| "method_from_parser PInfo = Info"
| "method_from_parser PRefer = Refer"
| "method_from_parser PMessage = Message"
| "method_from_parser PUpdate = Update"

fun method_to_parser :: "sip_method \<Rightarrow> p_method" where
  "method_to_parser Invite = PInvite"
| "method_to_parser Ack = PAck"
| "method_to_parser Bye = PBye"
| "method_to_parser Cancel = PCancel"
| "method_to_parser Register = PRegister"
| "method_to_parser Options = POptions"
| "method_to_parser Prack = PPrack"
| "method_to_parser Subscribe = PSubscribe"
| "method_to_parser Notify = PNotify"
| "method_to_parser Publish = PPublish"
| "method_to_parser Info = PInfo"
| "method_to_parser Refer = PRefer"
| "method_to_parser Message = PMessage"
| "method_to_parser Update = PUpdate"

definition sip_methods_all :: "(sip_method \<times> string) list" where
  "sip_methods_all =
     [(Invite, ''INVITE''), (Ack, ''ACK''), (Bye, ''BYE''), (Cancel, ''CANCEL''),
      (Register, ''REGISTER''), (Options, ''OPTIONS''), (Prack, ''PRACK''),
      (Subscribe, ''SUBSCRIBE''), (Notify, ''NOTIFY''), (Publish, ''PUBLISH''),
      (Info, ''INFO''), (Refer, ''REFER''), (Message, ''MESSAGE''), (Update, ''UPDATE'')]"

definition sip_method_from_str :: "string \<Rightarrow> sip_error + sip_method" where
  "sip_method_from_str s =
     ok_or ErrParse
       (map_option fst (find (\<lambda>(m, name). eq_ignore_ascii_case s name) sip_methods_all))"

fun sip_method_display :: "sip_method \<Rightarrow> string" where
  "sip_method_display Invite = ''INVITE''"
| "sip_method_display Ack = ''ACK''"
| "sip_method_display Bye = ''BYE''"
| "sip_method_display Cancel = ''CANCEL''"
| "sip_method_display Register = ''REGISTER''"
| "sip_method_display Options = ''OPTIONS''"
| "sip_method_display Prack = ''PRACK''"
| "sip_method_display Subscribe = ''SUBSCRIBE''"
| "sip_method_display Notify = ''NOTIFY''"
| "sip_method_display Publish = ''PUBLISH''"
| "sip_method_display Info = ''INFO''"
| "sip_method_display Refer = ''REFER''"
| "sip_method_display Message = ''MESSAGE''"
| "sip_method_display Update = ''UPDATE''"

definition creates_dialog :: "sip_method \<Rightarrow> bool" where
  "creates_dialog m \<longleftrightarrow> m = Invite \<or> m = Subscribe"

definition is_invite :: "sip_method \<Rightarrow> bool" where
  "is_invite m \<longleftrightarrow> m = Invite"

lemma method_to_from_parser [simp]: "method_to_parser (method_from_parser m) = m"
  by (cases m) simp_all

lemma method_from_to_parser [simp]: "method_from_parser (method_to_parser m) = m"
  by (cases m) simp_all

lemma p_method_as_str_display [simp]:
  "p_method_as_str (method_to_parser m) = sip_method_display m"
  by (cases m) simp_all

lemma p_method_from_str_as_str [simp]: "p_method_from_str (p_method_as_str m) = Inr m"
  by (cases m; simp add: p_method_from_str_def p_methods_all_def ascii_simps)

lemma sip_method_from_str_display [simp]: "sip_method_from_str (sip_method_display m) = Inr m"
  by (cases m; simp add: sip_method_from_str_def sip_methods_all_def ascii_simps)


subsection \<open>Status codes\<close>

text \<open>A \<open>StatusCode\<close> wraps a \<open>u16\<close>; it is represented by its number.\<close>

type_synonym status_code = nat

definition is_provisional :: "status_code \<Rightarrow> bool" where
  "is_provisional c \<longleftrightarrow> 100 \<le> c \<and> c < 200"

definition is_success :: "status_code \<Rightarrow> bool" where
  "is_success c \<longleftrightarrow> 200 \<le> c \<and> c < 300"

definition is_redirection :: "status_code \<Rightarrow> bool" where
  "is_redirection c \<longleftrightarrow> 300 \<le> c \<and> c < 400"

definition is_client_error :: "status_code \<Rightarrow> bool" where
  "is_client_error c \<longleftrightarrow> 400 \<le> c \<and> c < 500"

definition is_server_error :: "status_code \<Rightarrow> bool" where
  "is_server_error c \<longleftrightarrow> 500 \<le> c \<and> c < 600"

definition is_global_failure :: "status_code \<Rightarrow> bool" where
  "is_global_failure c \<longleftrightarrow> 600 \<le> c \<and> c < 700"

definition is_final :: "status_code \<Rightarrow> bool" where
  "is_final c \<longleftrightarrow> 200 \<le> c"

definition reason_table :: "(nat \<times> string) list" where
  "reason_table =
     [(100, ''Trying''), (180, ''Ringing''), (181, ''Call Is Being Forwarded''),
      (182, ''Queued''), (183, ''Session Progress''), (200, ''OK''), (202, ''Accepted''),
      (300, ''Multiple Choices''), (301, ''Moved Permanently''), (302, ''Moved Temporarily''),
      (305, ''Use Proxy''), (380, ''Alternative Service''), (400, ''Bad Request''),
      (401, ''Unauthorized''), (402, ''Payment Required''), (403, ''Forbidden''),
      (404, ''Not Found''), (405, ''Method Not Allowed''), (406, ''Not Acceptable''),
      (407, ''Proxy Authentication Required''), (408, ''Request Timeout''), (410, ''Gone''),
      (413, ''Request Entity Too Large''), (414, ''Request-URI Too Long''),
      (415, ''Unsupported Media Type''), (416, ''Unsupported URI Scheme''),
      (420, ''Bad Extension''), (421, ''Extension Required''), (423, ''Interval Too Brief''),
      (480, ''Temporarily Unavailable''), (481, ''Call/Transaction Does Not Exist''),
      (482, ''Loop Detected''), (483, ''Too Many Hops''), (484, ''Address Incomplete''),
      (485, ''Ambiguous''), (486, ''Busy Here''), (487, ''Request Terminated''),
      (488, ''Not Acceptable Here''), (491, ''Request Pending''), (493, ''Undecipherable''),
      (500, ''Server Internal Error''), (501, ''Not Implemented''), (502, ''Bad Gateway''),
      (503, ''Service Unavailable''), (504, ''Server Time-out''),
      (505, ''Version Not Supported''), (513, ''Message Too Large''),
      (600, ''Busy Everywhere''), (603, ''Decline''), (604, ''Does Not Exist Anywhere''),
      (606, ''Not Acceptable'')]"

definition reason_phrase :: "status_code \<Rightarrow> string" where
  "reason_phrase c = (case map_of reason_table c of Some r \<Rightarrow> r | None \<Rightarrow> ''Unknown'')"

subsection \<open>Header lines\<close>

datatype header =
    HAllow string | HAuthorization string | HCSeq string | HCallId string | HContact string
  | HContentLength string | HContentType string | HExpires string | HFrom string
  | HMaxForwards string | HProxyAuthenticate string | HProxyAuthorization string
  | HRecordRoute string | HRequire string | HRoute string | HSupported string | HTo string
  | HVia string | HWwwAuthenticate string
  | HOther string string

type_synonym headers = "header list"

definition MAX_HEADERS :: nat where "MAX_HEADERS = 256"
definition MAX_HEADER_VALUE_LEN :: nat where "MAX_HEADER_VALUE_LEN = 8192"
definition MAX_START_LINE_LEN :: nat where "MAX_START_LINE_LEN = 4096"

fun header_name :: "header \<Rightarrow> string" where
  "header_name (HAllow v) = ''Allow''"
| "header_name (HAuthorization v) = ''Authorization''"
| "header_name (HCSeq v) = ''CSeq''"
| "header_name (HCallId v) = ''Call-ID''"
| "header_name (HContact v) = ''Contact''"
| "header_name (HContentLength v) = ''Content-Length''"
| "header_name (HContentType v) = ''Content-Type''"
| "header_name (HExpires v) = ''Expires''"
| "header_name (HFrom v) = ''From''"
| "header_name (HMaxForwards v) = ''Max-Forwards''"
| "header_name (HProxyAuthenticate v) = ''Proxy-Authenticate''"
| "header_name (HProxyAuthorization v) = ''Proxy-Authorization''"
| "header_name (HRecordRoute v) = ''Record-Route''"
| "header_name (HRequire v) = ''Require''"
| "header_name (HRoute v) = ''Route''"
| "header_name (HSupported v) = ''Supported''"
| "header_name (HTo v) = ''To''"
| "header_name (HVia v) = ''Via''"
| "header_name (HWwwAuthenticate v) = ''WWW-Authenticate''"
| "header_name (HOther n v) = n"

fun header_value :: "header \<Rightarrow> string" where
  "header_value (HAllow v) = v"
| "header_value (HAuthorization v) = v"
| "header_value (HCSeq v) = v"
| "header_value (HCallId v) = v"
| "header_value (HContact v) = v"
| "header_value (HContentLength v) = v"
| "header_value (HContentType v) = v"
| "header_value (HExpires v) = v"
| "header_value (HFrom v) = v"
| "header_value (HMaxForwards v) = v"
| "header_value (HProxyAuthenticate v) = v"
| "header_value (HProxyAuthorization v) = v"
| "header_value (HRecordRoute v) = v"
| "header_value (HRequire v) = v"
| "header_value (HRoute v) = v"
| "header_value (HSupported v) = v"
| "header_value (HTo v) = v"
| "header_value (HVia v) = v"
| "header_value (HWwwAuthenticate v) = v"
| "header_value (HOther n v) = v"

definition compact_table :: "(char \<times> string) list" where
  "compact_table =
     [(CHR ''i'', ''Call-ID''), (CHR ''m'', ''Contact''), (CHR ''f'', ''From''),
      (CHR ''t'', ''To''), (CHR ''v'', ''Via''), (CHR ''c'', ''Content-Type''),
      (CHR ''l'', ''Content-Length''), (CHR ''s'', ''Subject''), (CHR ''k'', ''Supported''),
      (CHR ''e'', ''Content-Encoding''), (CHR ''r'', ''Refer-To''),
      (CHR ''b'', ''Referred-By''), (CHR ''d'', ''Content-Disposition''),
      (CHR ''o'', ''Event''), (CHR ''u'', ''Allow-Events'')]"

definition resolve_name :: "string \<Rightarrow> string" where
  "resolve_name name =
     (let trimmed = trim name in
      case trimmed of
        [c] \<Rightarrow> (case map_of compact_table (ascii_lower c) of Some long \<Rightarrow> long | None \<Rightarrow> trimmed)
      | _ \<Rightarrow> trimmed)"

definition name_matches :: "header \<Rightarrow> string \<Rightarrow> bool" where
  "name_matches h query = eq_ignore_ascii_case (header_name h) (resolve_name query)"

definition match_long_name :: "string \<Rightarrow> string \<Rightarrow> string \<Rightarrow> header" where
  "match_long_name resolved other_name value =
     (let lc = to_ascii_lowercase resolved in
      if lc = ''allow'' then HAllow value
      else if lc = ''authorization'' then HAuthorization value
      else if lc = ''cseq'' then HCSeq value
      else if lc = ''call-id'' then HCallId value
      else if lc = ''contact'' then HContact value
      else if lc = ''content-length'' then HContentLength value
      else if lc = ''content-type'' then HContentType value
      else if lc = ''expires'' then HExpires value
      else if lc = ''from'' then HFrom value
      else if lc = ''max-forwards'' then HMaxForwards value
      else if lc = ''proxy-authenticate'' then HProxyAuthenticate value
      else if lc = ''proxy-authorization'' then HProxyAuthorization value
      else if lc = ''record-route'' then HRecordRoute value
      else if lc = ''require'' then HRequire value
      else if lc = ''route'' then HRoute value
      else if lc = ''supported'' then HSupported value
      else if lc = ''to'' then HTo value
      else if lc = ''via'' then HVia value
      else if lc = ''www-authenticate'' then HWwwAuthenticate value
      else HOther other_name value)"

definition build_header :: "string \<Rightarrow> string \<Rightarrow> header" where
  "build_header raw_name value =
     (let resolved = resolve_name raw_name;
          trimmed_raw = trim raw_name;
          other_name = (if length trimmed_raw = 1 \<and> resolved \<noteq> trimmed_raw then resolved
                        else raw_name)
      in match_long_name resolved other_name value)"

definition parse_line :: "string \<Rightarrow> sip_error + header" where
  "parse_line line =
     (case find_char (CHR '':'') line of
        None \<Rightarrow> Inl ErrInvalidHeader
      | Some colon \<Rightarrow>
          (let raw_name = trim (take colon line) in
           if raw_name = [] then Inl ErrInvalidHeader
           else let value = trim (drop (colon + 1) line) in
             if MAX_HEADER_VALUE_LEN < length value then Inl ErrInvalidHeader
             else Inr (build_header raw_name value)))"

definition headers_push :: "headers \<Rightarrow> header \<Rightarrow> sip_error + headers" where
  "headers_push hs h = (if MAX_HEADERS \<le> length hs then Inl ErrInvalidHeader else Inr (hs @ [h]))"

definition get_first :: "headers \<Rightarrow> string \<Rightarrow> header option" where
  "get_first hs name = find (\<lambda>h. name_matches h name) hs"

definition get_all :: "headers \<Rightarrow> string \<Rightarrow> header list" where
  "get_all hs name = filter (\<lambda>h. name_matches h name) hs"

definition get_first_value :: "headers \<Rightarrow> string \<Rightarrow> string option" where
  "get_first_value hs name = map_option header_value (get_first hs name)"


subsection \<open>Printing and recognising header lines\<close>

text \<open>The line \<open>write_headers\<close> emits for a header, without its CRLF.\<close>

definition header_line :: "header \<Rightarrow> string" where
  "header_line h = header_name h @ '': '' @ header_value h"

definition known_names :: "string list" where
  "known_names =
     [''allow'', ''authorization'', ''cseq'', ''call-id'', ''contact'', ''content-length'',
      ''content-type'', ''expires'', ''from'', ''max-forwards'', ''proxy-authenticate'',
      ''proxy-authorization'', ''record-route'', ''require'', ''route'', ''supported'', ''to'',
      ''via'', ''www-authenticate'']"

text \<open>
  The headers that survive printing and recognition: the value carries no outer white space and
  respects the limit; a header kept as \<open>Other\<close> has a non-empty tight name without a colon that is
  neither a known long name nor a compact form.
\<close>

definition wf_other_name :: "string \<Rightarrow> bool" where
  "wf_other_name n \<longleftrightarrow>
     n \<noteq> [] \<and> tight n \<and> CHR '':'' \<notin> set n \<and>
     to_ascii_lowercase n \<notin> set known_names \<and> resolve_name n = n"

definition wf_header :: "header \<Rightarrow> bool" where
  "wf_header h \<longleftrightarrow>
     tight (header_value h) \<and> length (header_value h) \<le> MAX_HEADER_VALUE_LEN \<and>
     (case h of HOther n v \<Rightarrow> wf_other_name n | _ \<Rightarrow> True)"

lemma tight_eval: "tight s \<longleftrightarrow> ws_len s = 0 \<and> ws_len_rev (rev s) = 0"
  by (fact tight_def)

lemmas name_eval = build_header_def match_long_name_def resolve_name_def compact_table_def
  tight_eval ws1_def ws2_def ws3_def ascii_simps

lemma build_header_known:
  "build_header (header_name (HAllow v)) v = HAllow v"
  "build_header (header_name (HAuthorization v)) v = HAuthorization v"
  "build_header (header_name (HCSeq v)) v = HCSeq v"
  "build_header (header_name (HCallId v)) v = HCallId v"
  "build_header (header_name (HContact v)) v = HContact v"
  "build_header (header_name (HContentLength v)) v = HContentLength v"
  "build_header (header_name (HContentType v)) v = HContentType v"
  "build_header (header_name (HExpires v)) v = HExpires v"
  "build_header (header_name (HFrom v)) v = HFrom v"
  "build_header (header_name (HMaxForwards v)) v = HMaxForwards v"
  "build_header (header_name (HProxyAuthenticate v)) v = HProxyAuthenticate v"
  "build_header (header_name (HProxyAuthorization v)) v = HProxyAuthorization v"
  "build_header (header_name (HRecordRoute v)) v = HRecordRoute v"
  "build_header (header_name (HRequire v)) v = HRequire v"
  "build_header (header_name (HRoute v)) v = HRoute v"
  "build_header (header_name (HSupported v)) v = HSupported v"
  "build_header (header_name (HTo v)) v = HTo v"
  "build_header (header_name (HVia v)) v = HVia v"
  "build_header (header_name (HWwwAuthenticate v)) v = HWwwAuthenticate v"
  by (simp_all add: name_eval)

lemma build_header_other:
  "wf_other_name n \<Longrightarrow> build_header n v = HOther n v"
  by (simp add: wf_other_name_def build_header_def match_long_name_def known_names_def Let_def)

lemma build_header_name: "wf_header h \<Longrightarrow> build_header (header_name h) (header_value h) = h"
  by (cases h)
     (simp_all only: build_header_known header_value.simps, simp add: wf_header_def build_header_other)

lemma header_name_wf:
  "wf_header h \<Longrightarrow> header_name h \<noteq> [] \<and> tight (header_name h) \<and> CHR '':'' \<notin> set (header_name h)"
  by (cases h) (simp_all add: wf_header_def wf_other_name_def tight_eval ws1_def ws2_def ws3_def)

lemma parse_line_split:
  assumes "CHR '':'' \<notin> set n" "tight n" "n \<noteq> []" "length (trim v) \<le> MAX_HEADER_VALUE_LEN"
  shows "parse_line (n @ CHR '':'' # v) = Inr (build_header n (trim v))"
  using assms by (simp add: parse_line_def find_char_append)

lemma parse_line_header_line:
  assumes "wf_header h"
  shows "parse_line (header_line h) = Inr h"
proof -
  from assms have v: "trim (CHR '' '' # header_value h) = header_value h"
    "length (header_value h) \<le> MAX_HEADER_VALUE_LEN"
    by (simp_all add: wf_header_def)
  with header_name_wf [OF assms]
  have "parse_line (header_line h) = Inr (build_header (header_name h) (header_value h))"
    using parse_line_split [of "header_name h" "CHR '' '' # header_value h"]
    by (simp add: header_line_def)
  with assms show ?thesis by (simp add: build_header_name)
qed

subsection \<open>Collections\<close>

lemma headers_push_limit:
  "headers_push hs h = Inr hs' \<Longrightarrow> length hs' \<le> MAX_HEADERS \<and> hs' = hs @ [h]"
  by (auto simp: headers_push_def split: if_splits)

lemma get_first_value_Some:
  "get_first_value hs n = Some v \<longleftrightarrow>
     (\<exists>pre h post. hs = pre @ h # post \<and> name_matches h n \<and> header_value h = v \<and>
        (\<forall>g \<in> set pre. \<not> name_matches g n))"
proof
  assume "get_first_value hs n = Some v"
  then show "\<exists>pre h post. hs = pre @ h # post \<and> name_matches h n \<and> header_value h = v \<and>
      (\<forall>g \<in> set pre. \<not> name_matches g n)"
  proof (induction hs)
    case (Cons x xs)
    show ?case
    proof (cases "name_matches x n")
      case True
      with Cons.prems show ?thesis
        by (intro exI [of _ "[]"]) (auto simp: get_first_value_def get_first_def)
    next
      case False
      with Cons obtain pre h post where "xs = pre @ h # post" "name_matches h n"
        "header_value h = v" "\<forall>g \<in> set pre. \<not> name_matches g n"
        by (auto simp: get_first_value_def get_first_def)
      with False show ?thesis by (intro exI [of _ "x # pre"]) auto
    qed
  qed (simp add: get_first_value_def get_first_def)
next
  assume "\<exists>pre h post. hs = pre @ h # post \<and> name_matches h n \<and> header_value h = v \<and>
      (\<forall>g \<in> set pre. \<not> name_matches g n)"
  then obtain pre h post where hs: "hs = pre @ h # post" and h: "name_matches h n" "header_value h = v"
    and pre: "\<forall>g \<in> set pre. \<not> name_matches g n" by auto
  from pre have "find (\<lambda>h. name_matches h n) (pre @ h # post) = find (\<lambda>h. name_matches h n) (h # post)"
    by (induction pre) auto
  with hs h show "get_first_value hs n = Some v"
    by (simp add: get_first_value_def get_first_def)
qed

end
