(* ===== verification/Sip_Uri.thy ===== *)
theory Sip_Uri
  imports Sip_Header
begin

section \<open>SIP URIs\<close>

text \<open>
  Models \<open>sip/uri.rs\<close>: the \<open>Scheme\<close> and \<open>SipUri\<close> types, \<open>SipUri::parse\<close>, its accessors, the \<open>Display\<close>
  form and the builder. \<open>parse\<close> is split where the source splits its work: scheme, URI headers,
  parameters, host and port.

  Scheme and parameter names are folded with \<open>str::to_lowercase\<close>. The source only compares the
  folded text with ASCII words, and no other scalar value folds to a letter of these words, so the
  model folds ASCII letters.

  The lemmas show that printing and parsing are inverse on well-formed URIs, and the bounds that
  every parsed URI satisfies.
\<close>

datatype scheme = Sip | Sips | Tel

fun scheme_as_str :: "scheme \<Rightarrow> string" where
  "scheme_as_str Sip = ''sip''"
| "scheme_as_str Sips = ''sips''"
| "scheme_as_str Tel = ''tel''"

type_synonym param = "string \<times> string option"

record sip_uri =
  uri_scheme :: scheme
  uri_user :: "string option"
  uri_host :: string
  uri_port :: "nat option"
  uri_params :: "param list"
  uri_headers :: "(string \<times> string) list"

definition MAX_URI_HEADERS :: nat where "MAX_URI_HEADERS = 32"
definition MAX_URI_HEADER_VALUE_LEN :: nat where "MAX_URI_HEADER_VALUE_LEN = 256"

subsection \<open>Parsing\<close>

definition parse_scheme :: "string \<Rightarrow> sip_error + (scheme \<times> string)" where
  "parse_scheme s =
     (case find_char (CHR '':'') s of
        None \<Rightarrow> Inl ErrParse
      | Some idx \<Rightarrow>
          (let scheme_str = to_ascii_lowercase (take idx s); rest = drop (idx + 1) s in
           if scheme_str = ''sip'' then Inr (Sip, rest)
           else if scheme_str = ''sips'' then Inr (Sips, rest)
           else if scheme_str = ''tel'' then Inr (Tel, rest)
           else Inl ErrParse))"

fun uri_header_loop :: "(string \<times> string) list \<Rightarrow> string list \<Rightarrow> sip_error + (string \<times> string) list"
  where
  "uri_header_loop hs [] = Inr hs"
| "uri_header_loop hs (h # rest) =
     (if h = [] then uri_header_loop hs rest
      else if MAX_URI_HEADERS \<le> length hs then Inl ErrParse
      else
        let (k, v) = (case find_char (CHR ''='') h of
                        Some eq \<Rightarrow> (take eq h, drop (eq + 1) h)
                      | None \<Rightarrow> (h, []))
        in if MAX_URI_HEADER_VALUE_LEN < length v then Inl ErrParse
           else uri_header_loop (hs @ [(k, v)]) rest)"

definition split_uri_headers :: "string \<Rightarrow> sip_error + (string \<times> (string \<times> string) list)" where
  "split_uri_headers rest =
     (case find_char (CHR ''?'') rest of
        Some idx \<Rightarrow>
          and_then (uri_header_loop [] (split_char (CHR ''&'') (drop (idx + 1) rest)))
            (\<lambda>hs. Inr (take idx rest, hs))
      | None \<Rightarrow> Inr (rest, []))"

definition split_uri_params :: "string \<Rightarrow> string \<times> string option" where
  "split_uri_params rest =
     (let userinfo_end = (case find_char (CHR ''@'') rest of Some i \<Rightarrow> i + 1 | None \<Rightarrow> 0) in
      case find_char (CHR '';'') (drop userinfo_end rest) of
        Some rel_idx \<Rightarrow>
          (let abs_idx = userinfo_end + rel_idx in
           (take abs_idx rest, Some (drop (abs_idx + 1) rest)))
      | None \<Rightarrow> (rest, None))"

definition parse_host_port :: "string \<Rightarrow> sip_error + (string \<times> nat option)" where
  "parse_host_port host_port =
     (if starts_with ''['' host_port then
        (case find_char (CHR '']'') host_port of
           Some bracket_end \<Rightarrow>
             (let ipv6_host = take (bracket_end + 1) host_port;
                  after_bracket = drop (bracket_end + 1) host_port;
                  port = (case strip_prefix '':'' after_bracket of
                            Some port_str \<Rightarrow> parse_u16 port_str
                          | None \<Rightarrow> None)
              in Inr (ipv6_host, port))
         | None \<Rightarrow> Inl ErrParse)
      else
        (case rfind_char (CHR '':'') host_port of
           Some idx \<Rightarrow>
             (let potential_port = drop (idx + 1) host_port in
              if list_all is_ascii_digit potential_port
              then Inr (take idx host_port, parse_u16 potential_port)
              else Inr (host_port, None))
         | None \<Rightarrow> Inr (host_port, None)))"

definition parse_user_host_port ::
  "scheme \<Rightarrow> string \<Rightarrow> sip_error + (string option \<times> string \<times> nat option)" where
  "parse_user_host_port sch uhp =
     (if sch = Tel then Inr (None, uhp, None)
      else
        let (user, host_port) = (case find_char (CHR ''@'') uhp of
                                   Some idx \<Rightarrow> (Some (take idx uhp), drop (idx + 1) uhp)
                                 | None \<Rightarrow> (None, uhp))
        in and_then (parse_host_port host_port) (\<lambda>(host, port). Inr (user, host, port)))"

definition parse_uri_param :: "string \<Rightarrow> param option" where
  "parse_uri_param raw =
     (let param = trim raw in
      if param = [] then None
      else (case find_char (CHR ''='') param of
              Some idx \<Rightarrow> Some (take idx param, Some (drop (idx + 1) param))
            | None \<Rightarrow> Some (param, None)))"

definition parse_uri_params :: "string option \<Rightarrow> param list" where
  "parse_uri_params ps =
     (case ps of None \<Rightarrow> [] | Some str \<Rightarrow> List.map_filter parse_uri_param (split_char (CHR '';'') str))"

definition uri_parse :: "string \<Rightarrow> sip_error + sip_uri" where
  "uri_parse input =
     and_then (parse_scheme (trim input)) (\<lambda>(sch, rest).
     and_then (split_uri_headers rest) (\<lambda>(rest, hs).
     let (user_host_port, params_str) = split_uri_params rest in
     and_then (parse_user_host_port sch user_host_port) (\<lambda>(user, host, port).
     Inr \<lparr>uri_scheme = sch, uri_user = user, uri_host = host, uri_port = port,
          uri_params = parse_uri_params params_str, uri_headers = hs\<rparr>)))"

subsection \<open>Accessors and printing\<close>

definition is_secure :: "sip_uri \<Rightarrow> bool" where
  "is_secure u \<longleftrightarrow> uri_scheme u = Sips"

definition is_tel :: "sip_uri \<Rightarrow> bool" where
  "is_tel u \<longleftrightarrow> uri_scheme u = Tel"

definition effective_port :: "sip_uri \<Rightarrow> nat" where
  "effective_port u =
     (case uri_port u of Some p \<Rightarrow> p | None \<Rightarrow> if is_secure u then 5061 else 5060)"

definition uri_get_param :: "sip_uri \<Rightarrow> string \<Rightarrow> string option" where
  "uri_get_param u name =
     (case find (\<lambda>(k, v). to_ascii_lowercase k = to_ascii_lowercase name) (uri_params u) of
        Some (k, v) \<Rightarrow> v
      | None \<Rightarrow> None)"

definition uri_has_param :: "sip_uri \<Rightarrow> string \<Rightarrow> bool" where
  "uri_has_param u name =
     list_ex (\<lambda>(k, v). to_ascii_lowercase k = to_ascii_lowercase name) (uri_params u)"

definition uri_transport :: "sip_uri \<Rightarrow> string option" where
  "uri_transport u = uri_get_param u ''transport''"

definition is_loose_route :: "sip_uri \<Rightarrow> bool" where
  "is_loose_route u = uri_has_param u ''lr''"

fun display_param :: "param \<Rightarrow> string" where
  "display_param (k, Some v) = '';'' @ k @ ''='' @ v"
| "display_param (k, None) = '';'' @ k"

definition display_uri_header :: "string \<times> string \<Rightarrow> string" where
  "display_uri_header kv = fst kv @ ''='' @ snd kv"

definition uri_display :: "sip_uri \<Rightarrow> string" where
  "uri_display u =
     scheme_as_str (uri_scheme u) @ '':'' @
     (case uri_user u of Some user \<Rightarrow> user @ ''@'' | None \<Rightarrow> []) @
     uri_host u @
     (case uri_port u of Some p \<Rightarrow> '':'' @ to_dec p | None \<Rightarrow> []) @
     concat (map display_param (uri_params u)) @
     (if uri_headers u = [] then []
      else ''?'' @ join ''&'' (map display_uri_header (uri_headers u)))"


subsection \<open>The builder\<close>

record uri_builder =
  ub_scheme :: "scheme option"
  ub_user :: "string option"
  ub_host :: "string option"
  ub_port :: "nat option"
  ub_params :: "param list"
  ub_headers :: "(string \<times> string) list"

definition ub_new :: uri_builder where
  "ub_new = \<lparr>ub_scheme = None, ub_user = None, ub_host = None, ub_port = None,
             ub_params = [], ub_headers = []\<rparr>"

definition ub_set_scheme :: "string \<Rightarrow> uri_builder \<Rightarrow> uri_builder" where
  "ub_set_scheme name b =
     (let s = to_ascii_lowercase name in
      b\<lparr>ub_scheme := Some (if s = ''sips'' then Sips else if s = ''tel'' then Tel else Sip)\<rparr>)"

definition ub_set_scheme_enum :: "scheme \<Rightarrow> uri_builder \<Rightarrow> uri_builder" where
  "ub_set_scheme_enum sch b = b\<lparr>ub_scheme := Some sch\<rparr>"

definition ub_set_user :: "string \<Rightarrow> uri_builder \<Rightarrow> uri_builder" where
  "ub_set_user user b = b\<lparr>ub_user := Some user\<rparr>"

definition ub_set_host :: "string \<Rightarrow> uri_builder \<Rightarrow> uri_builder" where
  "ub_set_host host b = b\<lparr>ub_host := Some host\<rparr>"

definition ub_set_port :: "nat \<Rightarrow> uri_builder \<Rightarrow> uri_builder" where
  "ub_set_port port b = b\<lparr>ub_port := Some port\<rparr>"

definition ub_param :: "string \<Rightarrow> string \<Rightarrow> uri_builder \<Rightarrow> uri_builder" where
  "ub_param k v b = b\<lparr>ub_params := ub_params b @ [(k, Some v)]\<rparr>"

definition ub_flag :: "string \<Rightarrow> uri_builder \<Rightarrow> uri_builder" where
  "ub_flag k b = b\<lparr>ub_params := ub_params b @ [(k, None)]\<rparr>"

definition ub_transport :: "string \<Rightarrow> uri_builder \<Rightarrow> uri_builder" where
  "ub_transport t b = ub_param ''transport'' t b"

definition ub_loose_route :: "uri_builder \<Rightarrow> uri_builder" where
  "ub_loose_route b = ub_flag ''lr'' b"

definition ub_header :: "string \<Rightarrow> string \<Rightarrow> uri_builder \<Rightarrow> uri_builder" where
  "ub_header k v b = b\<lparr>ub_headers := ub_headers b @ [(k, v)]\<rparr>"

definition ub_build :: "uri_builder \<Rightarrow> sip_error + sip_uri" where
  "ub_build b =
     (case ub_host b of
        None \<Rightarrow> Inl ErrInvalidHeader
      | Some host \<Rightarrow>
          Inr \<lparr>uri_scheme = (case ub_scheme b of Some s \<Rightarrow> s | None \<Rightarrow> Sip),
               uri_user = ub_user b, uri_host = host, uri_port = ub_port b,
               uri_params = ub_params b, uri_headers = ub_headers b\<rparr>)"

subsection \<open>Well-formed URIs\<close>

definition sep_free :: "string \<Rightarrow> string \<Rightarrow> bool" where
  "sep_free seps s \<longleftrightarrow> (\<forall>c \<in> set seps. c \<notin> set s)"

definition wf_param :: "param \<Rightarrow> bool" where
  "wf_param p \<longleftrightarrow>
     fst p \<noteq> [] \<and> graphic (fst p) \<and> sep_free '';=?@'' (fst p) \<and>
     (case snd p of None \<Rightarrow> True | Some v \<Rightarrow> graphic v \<and> sep_free '';?@'' v)"

definition wf_uri_header :: "string \<times> string \<Rightarrow> bool" where
  "wf_uri_header h \<longleftrightarrow>
     graphic (fst h) \<and> graphic (snd h) \<and> sep_free ''&='' (fst h) \<and> sep_free ''&'' (snd h) \<and>
     length (snd h) \<le> MAX_URI_HEADER_VALUE_LEN"

definition wf_host :: "string \<Rightarrow> bool" where
  "wf_host h \<longleftrightarrow>
     graphic h \<and> sep_free '';?@'' h \<and>
     (sep_free '':'' h \<and> \<not> starts_with ''['' h \<or>
      starts_with ''['' h \<and> last h = CHR '']'' \<and> sep_free '']'' (butlast h))"

definition wf_uri :: "sip_uri \<Rightarrow> bool" where
  "wf_uri u \<longleftrightarrow>
     (if uri_scheme u = Tel
      then uri_user u = None \<and> uri_port u = None \<and> graphic (uri_host u) \<and>
           sep_free '';?@'' (uri_host u)
      else wf_host (uri_host u) \<and>
           (case uri_user u of None \<Rightarrow> True | Some x \<Rightarrow> graphic x \<and> sep_free ''?@'' x) \<and>
           (case uri_port u of None \<Rightarrow> True | Some p \<Rightarrow> p < 2 ^ 16)) \<and>
     list_all wf_param (uri_params u) \<and> list_all wf_uri_header (uri_headers u) \<and>
     length (uri_headers u) \<le> MAX_URI_HEADERS"

lemma sep_free_simps [simp]:
  "sep_free seps []"
  "sep_free seps (s @ t) \<longleftrightarrow> sep_free seps s \<and> sep_free seps t"
  "sep_free seps (c # s) \<longleftrightarrow> c \<notin> set seps \<and> sep_free seps s"
  by (auto simp: sep_free_def)

lemma sep_freeD: "sep_free seps s \<Longrightarrow> c \<in> set seps \<Longrightarrow> c \<notin> set s"
  by (simp add: sep_free_def)

lemma sep_free_to_dec: "\<forall>c \<in> set seps. \<not> is_ascii_digit c \<Longrightarrow> sep_free seps (to_dec n)"
  by (auto simp: sep_free_def to_dec_no_sep)


subsection \<open>Parsing inverts printing\<close>

lemma parse_scheme_display:
  "parse_scheme (scheme_as_str sch @ CHR '':'' # r) = Inr (sch, r)"
  by (cases sch) (simp_all add: parse_scheme_def ascii_simps)

lemma find_char_display_uri_header:
  "wf_uri_header h \<Longrightarrow>
     find_char (CHR ''='') (display_uri_header h) = Some (length (fst h))"
  by (simp add: wf_uri_header_def display_uri_header_def sep_free_def find_char_append)

lemma uri_header_loop_display:
  "list_all wf_uri_header hs \<Longrightarrow> length acc + length hs \<le> MAX_URI_HEADERS \<Longrightarrow>
     uri_header_loop acc (map display_uri_header hs) = Inr (acc @ hs)"
proof (induction hs arbitrary: acc)
  case (Cons h hs)
  then have h: "wf_uri_header h" and ne: "display_uri_header h \<noteq> []"
    by (simp_all add: display_uri_header_def)
  have len: "length (snd h) \<le> MAX_URI_HEADER_VALUE_LEN"
    using h by (simp add: wf_uri_header_def)
  have "uri_header_loop acc (map display_uri_header (h # hs)) =
      uri_header_loop (acc @ [h]) (map display_uri_header hs)"
    using ne len Cons.prems(2) find_char_display_uri_header [OF h]
    by (cases h) (simp add: display_uri_header_def)
  also have "\<dots> = Inr ((acc @ [h]) @ hs)"
    using Cons.prems by (intro Cons.IH) auto
  finally show ?case by simp
qed simp

lemma split_uri_headers_display:
  assumes "CHR ''?'' \<notin> set b" "list_all wf_uri_header hs" "length hs \<le> MAX_URI_HEADERS"
  shows "split_uri_headers (b @ (if hs = [] then [] else ''?'' @ join ''&'' (map display_uri_header hs)))
       = Inr (b, hs)"
proof (cases "hs = []")
  case True
  with assms show ?thesis by (simp add: split_uri_headers_def find_char_None [THEN iffD2])
next
  case False
  have "\<forall>x \<in> set (map display_uri_header hs). CHR ''&'' \<notin> set x"
    using assms(2) by (auto simp: list_all_iff wf_uri_header_def display_uri_header_def sep_free_def)
  then have "split_char (CHR ''&'') (join ''&'' (map display_uri_header hs)) = map display_uri_header hs"
    using False by (intro split_char_join) simp_all
  with False assms show ?thesis
    by (simp add: split_uri_headers_def find_char_append uri_header_loop_display)
qed

lemma display_param_Cons: "display_param p = CHR '';'' # tl (display_param p)"
  by (cases p rule: display_param.cases) simp_all

lemma param_text:
  assumes "wf_param p"
  shows "CHR '';'' \<notin> set (tl (display_param p))" "parse_uri_param (tl (display_param p)) = Some p"
    "graphic (display_param p)" "sep_free ''?@'' (display_param p)"
proof -
  obtain k v where p: "p = (k, v)" by (cases p)
  show "CHR '';'' \<notin> set (tl (display_param p))" "graphic (display_param p)"
    "sep_free ''?@'' (display_param p)"
    using assms by (cases v; auto simp: p wf_param_def sep_free_def graphic_def)+
  show "parse_uri_param (tl (display_param p)) = Some p"
  proof (cases v)
    case None
    with assms show ?thesis
      by (simp add: p wf_param_def parse_uri_param_def tight_graphic sep_free_def
          find_char_None [THEN iffD2])
  next
    case (Some w)
    with assms have "graphic (k @ CHR ''='' # w)" "CHR ''='' \<notin> set k"
      by (simp_all add: p wf_param_def sep_free_def)
    with Some show ?thesis
      by (simp add: p parse_uri_param_def tight_graphic find_char_append)
  qed
qed

lemma split_char_params:
  "\<forall>q \<in> set (p # ps). CHR '';'' \<notin> set (tl (display_param q)) \<Longrightarrow>
     split_char (CHR '';'') (tl (concat (map display_param (p # ps)))) =
       map (tl \<circ> display_param) (p # ps)"
proof (induction ps arbitrary: p)
  case Nil
  then show ?case by (simp add: split_char_single)
next
  case (Cons q ps)
  have eq: "tl (concat (map display_param (p # q # ps))) =
      tl (display_param p) @ CHR '';'' # tl (concat (map display_param (q # ps)))"
    using display_param_Cons [of p] display_param_Cons [of q]
    by (metis append.assoc append_Cons concat.simps(2) list.sel(3) list.simps(9))
  from Cons have "split_char (CHR '';'') (tl (concat (map display_param (q # ps)))) =
      map (tl \<circ> display_param) (q # ps)" by simp
  with Cons.prems show ?case
    unfolding eq by (simp add: split_char_append)
qed

lemma parse_uri_params_display:
  assumes "list_all wf_param ps"
  shows "parse_uri_params (if ps = [] then None else Some (tl (concat (map display_param ps)))) = ps"
proof (cases ps)
  case (Cons p qs)
  have "List.map_filter parse_uri_param (map (tl \<circ> display_param) ps) = ps"
    using assms by (induction ps) (simp_all add: List.map_filter_simps param_text)
  moreover have "split_char (CHR '';'') (tl (concat (map display_param ps))) =
      map (tl \<circ> display_param) ps"
    unfolding Cons using assms by (intro split_char_params) (auto simp: Cons list_all_iff param_text)
  ultimately show ?thesis
    by (simp add: parse_uri_params_def Cons)
qed (simp add: parse_uri_params_def)

lemma concat_params_props:
  assumes "list_all wf_param ps"
  shows "graphic (concat (map display_param ps))" "sep_free ''?@'' (concat (map display_param ps))"
    "ps \<noteq> [] \<Longrightarrow> concat (map display_param ps) = CHR '';'' # tl (concat (map display_param ps))"
proof -
  show "graphic (concat (map display_param ps))" "sep_free ''?@'' (concat (map display_param ps))"
    using assms by (induction ps) (simp_all add: param_text)
  show "ps \<noteq> [] \<Longrightarrow> concat (map display_param ps) = CHR '';'' # tl (concat (map display_param ps))"
    by (cases ps) (simp_all, metis append_Cons display_param_Cons list.sel(3))
qed

text \<open>The user-information prefix of a URI, and the text between it and the parameters.\<close>

definition user_text :: "string option \<Rightarrow> string" where
  "user_text user = (case user of Some x \<Rightarrow> x @ ''@'' | None \<Rightarrow> [])"

definition port_text :: "nat option \<Rightarrow> string" where
  "port_text port = (case port of Some p \<Rightarrow> '':'' @ to_dec p | None \<Rightarrow> [])"

lemma split_uri_params_display:
  assumes "case user of None \<Rightarrow> True | Some x \<Rightarrow> CHR ''@'' \<notin> set x"
    and "sep_free '';@'' mid" "CHR ''@'' \<notin> set t" "t = [] \<or> t = CHR '';'' # tl t"
  shows "split_uri_params (user_text user @ mid @ t) =
           (user_text user @ mid, if t = [] then None else Some (tl t))"
proof -
  have at: "(case find_char (CHR ''@'') (user_text user @ mid @ t) of Some i \<Rightarrow> i + 1 | None \<Rightarrow> 0)
      = length (user_text user)"
    using assms(1-3)
    by (cases user) (simp_all add: user_text_def sep_free_def find_char_append find_char_None [THEN iffD2])
  show ?thesis
  proof (cases "t = []")
    case True
    with assms(2) show ?thesis
      by (simp add: split_uri_params_def at [simplified True, simplified] sep_free_def
          find_char_None [THEN iffD2])
  next
    case False
    with assms(4) obtain t' where t: "t = CHR '';'' # t'" by auto
    have "find_char (CHR '';'') (mid @ t) = Some (length mid)"
      using assms(2) by (simp add: t sep_free_def find_char_append)
    then show ?thesis
      unfolding split_uri_params_def Let_def at by (simp add: t)
  qed
qed


lemma find_char_close_bracket:
  assumes "sep_free '']'' b" shows "find_char (CHR '']'') (b @ CHR '']'' # r) = Some (length b)"
  using assms by (simp add: sep_free_def find_char_append)

lemma parse_host_port_display:
  assumes "wf_host h" "case port of None \<Rightarrow> True | Some p \<Rightarrow> p < 2 ^ 16"
  shows "parse_host_port (h @ port_text port) = Inr (h, port)"
proof (cases "starts_with ''['' h")
  case True
  with assms(1) have h: "h = butlast h @ '']''" "sep_free '']'' (butlast h)"
    by (auto simp: wf_host_def) (metis append_butlast_last_id starts_with_simps(2))
  have "find_char (CHR '']'') (h @ port_text port) = Some (length (butlast h))"
    using find_char_close_bracket [OF h(2), of "port_text port"] h(1)
    by (metis append.assoc append_Cons append_Nil)
  moreover have "length (butlast h) + 1 = length h"
    using h(1) by (metis length_append_singleton Suc_eq_plus1)
  moreover have "starts_with ''['' (h @ port_text port)"
    using True by (cases h) simp_all
  ultimately show ?thesis
    using assms(2)
    by (cases port) (simp_all add: parse_host_port_def port_text_def parse_uint_to_dec Let_def strip_prefix_def)
next
  case False
  with assms(1) have colon: "CHR '':'' \<notin> set h"
    by (simp add: wf_host_def sep_free_def)
  have nb: "\<not> starts_with ''['' (h @ port_text port)"
    using False by (cases h) (simp_all add: port_text_def split: option.splits)
  show ?thesis
  proof (cases port)
    case None
    with nb colon show ?thesis
      by (simp add: parse_host_port_def port_text_def rfind_char_None [THEN iffD2])
  next
    case (Some p)
    then have "rfind_char (CHR '':'') (h @ port_text port) = Some (length h)"
      by (simp add: port_text_def rfind_char_append)
    with nb Some assms(2) show ?thesis
      by (simp add: parse_host_port_def port_text_def parse_uint_to_dec)
  qed
qed

lemma parse_user_host_port_display:
  assumes "sch \<noteq> Tel" "wf_host h" "case port of None \<Rightarrow> True | Some p \<Rightarrow> p < 2 ^ 16"
    "case user of None \<Rightarrow> True | Some x \<Rightarrow> CHR ''@'' \<notin> set x"
  shows "parse_user_host_port sch (user_text user @ h @ port_text port) = Inr (user, h, port)"
proof -
  have "CHR ''@'' \<notin> set (h @ port_text port)"
    using assms(2) by (auto simp: wf_host_def sep_free_def port_text_def split: option.splits)
  then show ?thesis
    using assms(1,4) parse_host_port_display [OF assms(2,3)]
    by (cases user) (simp_all add: parse_user_host_port_def user_text_def find_char_append
        find_char_None [THEN iffD2])
qed


lemma uri_display_text:
  "uri_display u =
     scheme_as_str (uri_scheme u) @ CHR '':'' #
     (user_text (uri_user u) @ (uri_host u @ port_text (uri_port u)) @
      concat (map display_param (uri_params u))) @
     (if uri_headers u = [] then []
      else ''?'' @ join ''&'' (map display_uri_header (uri_headers u)))"
  by (simp add: uri_display_def user_text_def port_text_def)

lemma graphic_uri_display:
  assumes "wf_uri u" shows "graphic (uri_display u)"
proof -
  have "graphic (user_text (uri_user u) @ (uri_host u @ port_text (uri_port u)))"
    using assms
    by (auto simp: wf_uri_def wf_host_def user_text_def port_text_def graphic_to_dec
        split: option.splits if_splits)
  moreover have "graphic (scheme_as_str (uri_scheme u))"
    by (cases "uri_scheme u") (simp_all add: ascii_simps)
  moreover have "graphic (join ''&'' (map display_uri_header (uri_headers u)))"
    using assms
    by (intro graphic_join) (auto simp: wf_uri_def list_all_iff wf_uri_header_def display_uri_header_def)
  ultimately show ?thesis
    using assms concat_params_props(1) [of "uri_params u"]
    by (simp add: uri_display_text wf_uri_def)
qed

lemma uri_parse_display:
  assumes "wf_uri u" shows "uri_parse (uri_display u) = Inr u"
proof -
  let ?mid = "uri_host u @ port_text (uri_port u)"
  let ?ps = "concat (map display_param (uri_params u))"
  have ps: "list_all wf_param (uri_params u)" and hs: "list_all wf_uri_header (uri_headers u)"
      "length (uri_headers u) \<le> MAX_URI_HEADERS"
    using assms by (simp_all add: wf_uri_def)
  have user: "case uri_user u of None \<Rightarrow> True | Some x \<Rightarrow> CHR ''@'' \<notin> set x"
    and mid: "sep_free '';@'' ?mid" and q: "CHR ''?'' \<notin> set (user_text (uri_user u) @ ?mid @ ?ps)"
    using assms concat_params_props(2) [OF ps]
    by (auto simp: wf_uri_def wf_host_def sep_free_def user_text_def port_text_def
        split: option.splits if_splits)
  have params: "split_uri_params (user_text (uri_user u) @ ?mid @ ?ps) =
      (user_text (uri_user u) @ ?mid, if uri_params u = [] then None else Some (tl ?ps))"
  proof (cases "uri_params u = []")
    case True
    then show ?thesis using split_uri_params_display [OF user mid, of "[]"] by simp
  next
    case False
    note semi = concat_params_props(3) [OF ps False]
    then have "?ps \<noteq> []" by (metis list.discI)
    moreover have "CHR ''@'' \<notin> set ?ps"
      using concat_params_props(2) [OF ps] by (rule sep_freeD) simp
    ultimately show ?thesis
      using split_uri_params_display [OF user mid _ disjI2 [OF semi]] False by simp
  qed
  have uhp: "parse_user_host_port (uri_scheme u) (user_text (uri_user u) @ ?mid) =
      Inr (uri_user u, uri_host u, uri_port u)"
  proof (cases "uri_scheme u = Tel")
    case True
    with assms show ?thesis
      by (simp add: wf_uri_def parse_user_host_port_def user_text_def port_text_def)
  next
    case False
    with assms user show ?thesis
      by (intro parse_user_host_port_display) (auto simp: wf_uri_def split: option.splits)
  qed
  have "trim (uri_display u) = uri_display u"
    using graphic_uri_display [OF assms] by (simp add: tight_graphic)
  then show ?thesis
    using split_uri_headers_display [OF q hs] params uhp parse_uri_params_display [OF ps]
    by (simp add: uri_parse_def uri_display_text [of u] parse_scheme_display)
qed


section \<open>Properties of URIs\<close>

definition sample_uri :: sip_uri where
  "sample_uri =
     \<lparr>uri_scheme = Sips, uri_user = Some ''al;x'', uri_host = ''[::1]'', uri_port = Some 5070,
      uri_params = [(''transport'', Some ''tcp''), (''lr'', None)], uri_headers = [(''a'', ''b=c'')]\<rparr>"

lemma sample_uri_wf: "wf_uri sample_uri"
  by (simp add: sample_uri_def wf_uri_def wf_host_def wf_param_def wf_uri_header_def
      MAX_URI_HEADERS_def MAX_URI_HEADER_VALUE_LEN_def)

text \<open>
  C40. Printing a URI and parsing the text gives the URI back, for all three schemes, with or without
  user, port, parameters and headers, and for bracketed IPv6 hosts.
\<close>
theorem uri_round_trip:
  "wf_uri u \<Longrightarrow> uri_parse (uri_display u) = Inr u"
  by (rule uri_parse_display)

theorem uri_round_trip_witness:
  "wf_uri sample_uri \<and> uri_parse (uri_display sample_uri) = Inr sample_uri \<and>
   uri_display sample_uri = ''sips:al;x@[::1]:5070;transport=tcp;lr?a=b=c''"
  using uri_round_trip [OF sample_uri_wf] sample_uri_wf
  by (simp add: sample_uri_def uri_display_def display_uri_header_def to_dec.simps ascii_simps)

end
