(* ===== verification/Rust_Text.thy ===== *)
theory Rust_Text
  imports Rust_Prelude
begin

text \<open>
  Facts on text shared by the parsers: what trimming and splitting at white space return, and that
  slicing valid UTF-8 at these places gives valid UTF-8 again.
\<close>

section \<open>White space\<close>

lemma ws_len_prefix:
  assumes "ws_len (p @ t) = 0" shows "ws_len p = 0"
proof (cases "length p \<ge> 3")
  case True
  then obtain a b c q where "p = a # b # c # q"
    by (metis Suc_le_length_iff numeral_3_eq_3)
  with assms show ?thesis by (simp split: if_splits)
next
  case False
  then consider "p = []" | a where "p = [a]" | a b where "p = [a, b]"
    by (cases p rule: ws_len.cases) auto
  then show ?thesis
    using assms by cases (cases t rule: ws_len.cases; simp split: if_splits)+
qed

lemma ws_len_rev_trim_rev [simp]: "ws_len_rev (trim_rev s) = 0"
  by (induction s rule: trim_rev.induct) (subst trim_rev.simps, simp)

lemma tight_trim [simp]: "tight (trim s)"
proof -
  obtain t where "trim_start s = trim s @ t"
    using trim_end_prefix [of "trim_start s"] by (auto simp: trim_def prefix_def)
  then have "ws_len (trim s) = 0"
    using ws_len_prefix [of "trim s" t] ws_len_trim_start [of s] by simp
  then show ?thesis by (simp add: tight_def) (simp add: trim_def trim_end_def)
qed

lemma trim_trim [simp]: "trim (trim s) = trim s"
  by simp

text \<open>No white space character starts anywhere in the text.\<close>

fun ws_free :: "string \<Rightarrow> bool" where
  "ws_free [] = True"
| "ws_free (c # s) \<longleftrightarrow> ws_len (c # s) = 0 \<and> ws_free s"

lemma ws_free_ws_len: "ws_free s \<Longrightarrow> ws_len s = 0"
  by (cases s) simp_all

lemma ws_len_before_space: "t \<noteq> [] \<Longrightarrow> ws_len (t @ CHR '' '' # s) = ws_len t"
  by (cases t rule: ws_len.cases; cases s) (auto simp: ws2_def ws3_def)

lemma ws_free_no_ws1: "ws_free s \<Longrightarrow> c \<in> set s \<Longrightarrow> \<not> ws1 (code c)"
proof (induction s)
  case (Cons x s)
  then show ?case using ws_len_ws1 [of x s] by auto
qed simp

lemma ws_free_no_LF: "ws_free s \<Longrightarrow> LF \<notin> set s"
  using ws_free_no_ws1 [of s LF] by (auto simp: ws1_def)

lemma ws_len_rev_space: "ws_len_rev (CHR '' '' # s) = 1"
  by (cases s rule: ws_len_rev.cases) (simp_all add: ws1_def)

lemma ws_free_graphic: "graphic s \<Longrightarrow> ws_free s"
  by (induction s) simp_all

lemma graphic_ascii: "graphic s \<Longrightarrow> ascii s"
  by (auto simp: graphic_def ascii_def)

lemma ws_freeI: "(\<And>i. i < length p \<Longrightarrow> ws_len (drop i p @ t) = 0) \<Longrightarrow> ws_free p"
proof (induction p)
  case (Cons c p)
  have "ws_len (c # p) = 0"
    using Cons.prems [of 0] ws_len_prefix [of "c # p" t] by simp
  moreover have "ws_free p"
    using Cons.prems [of "Suc i" for i] by (intro Cons.IH) auto
  ultimately show ?case by simp
qed simp

section \<open>Splitting at white space\<close>

lemma split_ws_Nil: "split_ws cur [] = (if cur = [] then [] else [rev cur])"
  by (subst split_ws.simps) simp

lemma split_ws_char: "ws_len (c # cs) = 0 \<Longrightarrow> split_ws cur (c # cs) = split_ws (c # cur) cs"
  by (subst split_ws.simps) simp

lemma split_ws_gap:
  "ws_len s \<noteq> 0 \<Longrightarrow>
     split_ws cur s = (if cur = [] then [] else [rev cur]) @ split_ws [] (drop (ws_len s) s)"
  by (subst split_ws.simps) (cases s, simp_all)

lemma split_ws_free:
  "ws_free p \<Longrightarrow> split_ws cur (p @ CHR '' '' # s) =
     (if cur = [] \<and> p = [] then [] else [rev cur @ p]) @ split_ws [] s"
proof (induction p arbitrary: cur)
  case Nil
  then show ?case
    by (subst split_ws.simps) (simp add: ws_len_ws1 ws1_def)
next
  case (Cons c p)
  then have "ws_len ((c # p) @ CHR '' '' # s) = 0"
    using ws_len_before_space [of "c # p" s] by simp
  with Cons show ?case by (subst split_ws.simps) simp
qed

lemma split_ws_free_end:
  "ws_free p \<Longrightarrow> split_ws cur p = (if cur = [] \<and> p = [] then [] else [rev cur @ p])"
proof (induction p arbitrary: cur)
  case Nil
  then show ?case by (subst split_ws.simps) simp
next
  case (Cons c p)
  then show ?case by (subst split_ws.simps) simp
qed

lemma split_whitespace_three:
  assumes "ws_free a" "a \<noteq> []" "ws_free b" "b \<noteq> []" "ws_free c" "c \<noteq> []"
  shows "split_whitespace (a @ CHR '' '' # b @ CHR '' '' # c) = [a, b, c]"
  using assms by (simp add: split_whitespace_def split_ws_free split_ws_free_end)

lemma split_whitespace_two:
  assumes "ws_free a" "a \<noteq> []" "ws_free b" "b \<noteq> []"
  shows "split_whitespace (a @ CHR '' '' # b) = [a, b]"
  using assms by (simp add: split_whitespace_def split_ws_free split_ws_free_end)

text \<open>The pieces are non-empty, free of white space and no longer than the text.\<close>

lemma split_ws_pieces:
  "(\<And>i. i < length cur \<Longrightarrow> ws_len (drop i (rev cur) @ s) = 0) \<Longrightarrow>
   p \<in> set (split_ws cur s) \<Longrightarrow> p \<noteq> [] \<and> ws_free p"
proof (induction cur s rule: split_ws.induct)
  case (1 cur s)
  show ?case
  proof (cases s)
    case Nil
    with 1(4) have "p = rev cur" "cur \<noteq> []"
      by (auto simp: split_ws_Nil split: if_splits)
    moreover from this have "ws_free p"
      using 1(3) by (intro ws_freeI [of _ s]) simp
    ultimately show ?thesis by simp
  next
    case (Cons c cs)
    show ?thesis
    proof (cases "ws_len s = 0")
      case True
      have "ws_len (drop i (rev (c # cur)) @ cs) = 0" if "i < length (c # cur)" for i
        using that 1(3) [of i] True Cons by (cases "i < length cur") auto
      moreover have "p \<in> set (split_ws (c # cur) cs)"
        using 1(4) True Cons by (simp add: split_ws_char)
      ultimately show ?thesis using 1(1) [OF Cons True] by blast
    next
      case False
      then consider "p = rev cur" "cur \<noteq> []" | "p \<in> set (split_ws [] (drop (ws_len s) s))"
        using 1(4) unfolding split_ws_gap [OF False] by (auto split: if_splits)
      then show ?thesis
      proof cases
        case 1
        moreover from this have "ws_free p"
          using \<open>\<And>i. i < length cur \<Longrightarrow> ws_len (drop i (rev cur) @ s) = 0\<close>
          by (intro ws_freeI [of _ s]) simp
        ultimately show ?thesis by simp
      next
        case 2
        then show ?thesis using 1(2) [OF Cons False] by simp
      qed
    qed
  qed
qed

lemma split_ws_length:
  "sum_list (map length (split_ws cur s)) + length (split_ws cur s) \<le> length cur + length s + 1"
proof (induction cur s rule: split_ws.induct)
  case (1 cur s)
  show ?case
  proof (cases s)
    case Nil
    then show ?thesis by (simp add: split_ws_Nil)
  next
    case (Cons c cs)
    show ?thesis
    proof (cases "ws_len s = 0")
      case True
      with 1(1) [OF Cons True] Cons show ?thesis by (simp add: split_ws_char)
    next
      case False
      then have "0 < ws_len s" by simp
      with 1(2) [OF Cons False] ws_len_le [of s] show ?thesis
        unfolding split_ws_gap [OF False, of cur] by (cases "cur = []") auto
    qed
  qed
qed

lemmas split_whitespace_pieces =
  split_ws_pieces [where cur = "[]", simplified, folded split_whitespace_def]
lemmas split_whitespace_length =
  split_ws_length [where cur = "[]", simplified, folded split_whitespace_def]


section \<open>Slices of valid UTF-8\<close>

lemma between_cont:
  "between 160 191 c \<Longrightarrow> cont c" "between 128 159 c \<Longrightarrow> cont c"
  "between 144 191 c \<Longrightarrow> cont c" "between 128 143 c \<Longrightarrow> cont c"
  by (simp_all add: between_def cont_def)

text \<open>Valid text starts with one encoded character, whose further octets are continuation octets.\<close>

lemma utf8_first_char:
  assumes "utf8_valid (x # s)"
  shows "\<exists>u r. s = u @ r \<and> (\<forall>c \<in> set u. cont c) \<and> (\<forall>t. utf8_valid (x # u @ t) = utf8_valid t)"
proof (cases "code x < 128")
  case True
  then show ?thesis by (intro exI [of _ "[]"] exI [of _ s]) simp
next
  case hi: False
  with assms obtain y s1 where s: "s = y # s1" by (cases s) auto
  show ?thesis
  proof (cases "between 194 223 x")
    case True
    with hi s assms show ?thesis by (intro exI [of _ "[y]"] exI [of _ s1]) simp
  next
    case F2: False
    with hi s assms obtain z s2 where s1: "s1 = z # s2" by (cases s1) auto
    show ?thesis
    proof (cases "between 224 239 x")
      case True
      with hi F2 s s1 assms show ?thesis
        by (intro exI [of _ "[y, z]"] exI [of _ s2]) (auto split: if_splits intro: between_cont)
    next
      case F3: False
      with hi F2 s s1 assms obtain w s3 where "s2 = w # s3" by (cases s2) auto
      with hi F2 F3 s s1 assms show ?thesis
        by (intro exI [of _ "[y, z, w]"] exI [of _ s3]) (auto split: if_splits intro: between_cont)
    qed
  qed
qed

lemma utf8_append: "utf8_valid a \<Longrightarrow> utf8_valid (a @ b) = utf8_valid b"
proof (induction a rule: length_induct)
  case (1 a)
  show ?case
  proof (cases a)
    case (Cons x s)
    with 1(2) obtain u r where u: "s = u @ r" "\<forall>t. utf8_valid (x # u @ t) = utf8_valid t"
      using utf8_first_char [of x s] by blast
    with 1 Cons show ?thesis by simp
  qed simp
qed

text \<open>A cut in front of an octet that is not a continuation octet leaves two valid halves.\<close>

lemma utf8_cut_left:
  "utf8_valid (a @ b) \<Longrightarrow> b = [] \<or> \<not> cont (hd b) \<Longrightarrow> utf8_valid a"
proof (induction a rule: length_induct)
  case (1 a)
  note IH = 1(1) and b = 1(3)
  show ?case
  proof (cases a)
    case (Cons x s)
    then obtain u r where u: "s @ b = u @ r" "\<forall>c \<in> set u. cont c"
        "\<forall>t. utf8_valid (x # u @ t) = utf8_valid t"
      using utf8_first_char [of x "s @ b"] 1(2) by auto
    then consider d where "s = u @ d" "d @ b = r" | d where "s @ d = u" "b = d @ r" "d \<noteq> []"
      unfolding append_eq_append_conv2 by (metis append_Nil append_Nil2)
    then show ?thesis
    proof cases
      case 1: 1
      with u Cons \<open>utf8_valid (a @ b)\<close> have "utf8_valid (d @ b)" by (metis append_Cons append.assoc)
      with 1 u Cons IH b show ?thesis by simp
    next
      case 2
      then have "cont (hd b)" using u(2) by (cases d) auto
      with 2 b show ?thesis by simp
    qed
  qed simp
qed

lemma utf8_cut:
  assumes "utf8_valid (a @ b)" "b = [] \<or> \<not> cont (hd b)"
  shows "utf8_valid a" "utf8_valid b"
  using utf8_cut_left [OF assms] utf8_append [of a b] assms(1) by simp_all

lemma ascii_not_cont: "code c < 128 \<Longrightarrow> \<not> cont c"
  by (simp add: cont_def)

lemma utf8_cut_ascii:
  assumes "utf8_valid (a @ c # b)" "code c < 128"
  shows "utf8_valid a" "utf8_valid b"
  using utf8_cut [of a "c # b"] assms by (simp_all add: ascii_not_cont)

lemma ws_octets:
  "ws1 n \<Longrightarrow> n < 128"
  "ws2 m n \<Longrightarrow> m = 194 \<and> 128 \<le> n \<and> n \<le> 191"
  "ws3 l m n \<Longrightarrow> 225 \<le> l \<and> l \<le> 227 \<and> 128 \<le> m \<and> m \<le> 191 \<and> 128 \<le> n \<and> n \<le> 191"
  by (auto simp: ws1_def ws2_def ws3_def)

lemma ws_lenE:
  assumes "ws_len s \<noteq> 0"
  obtains (one) a t where "s = a # t" "ws_len s = 1" "ws1 (code a)"
    | (two) a b t where "s = a # b # t" "ws_len s = 2" "ws2 (code a) (code b)"
    | (three) a b c t where "s = a # b # c # t" "ws_len s = 3" "ws3 (code a) (code b) (code c)"
  using assms by (cases s rule: ws_len.cases) (auto split: if_splits)

lemma ws_len_revE:
  assumes "ws_len_rev s \<noteq> 0"
  obtains (one) a t where "s = a # t" "ws_len_rev s = 1" "ws1 (code a)"
    | (two) a b t where "s = b # a # t" "ws_len_rev s = 2" "ws2 (code a) (code b)"
    | (three) a b c t where "s = c # b # a # t" "ws_len_rev s = 3" "ws3 (code a) (code b) (code c)"
  using assms by (cases s rule: ws_len_rev.cases) (auto split: if_splits)

lemma ws_char_valid:
  assumes "ws_len s \<noteq> 0" shows "utf8_valid (take (ws_len s) s) \<and> \<not> cont (hd s)"
  using assms
proof (cases rule: ws_lenE)
  case one
  then show ?thesis using ws_octets(1) [OF one(3)] by (simp add: cont_def)
next
  case two
  then show ?thesis using ws_octets(2) [OF two(3)]
    by (simp add: cont_def between_def numeral_2_eq_2)
next
  case three
  then show ?thesis using ws_octets(3) [OF three(3)]
    by (simp add: cont_def between_def numeral_3_eq_3)
qed

lemma ws_rev_char_valid:
  assumes "ws_len_rev s \<noteq> 0"
  shows "rev (take (ws_len_rev s) s) \<noteq> [] \<and> \<not> cont (hd (rev (take (ws_len_rev s) s)))"
  using assms
proof (cases rule: ws_len_revE)
  case one
  then show ?thesis using ws_octets(1) [OF one(3)] by (simp add: cont_def)
next
  case two
  then show ?thesis using ws_octets(2) [OF two(3)] by (simp add: cont_def numeral_2_eq_2)
next
  case three
  then show ?thesis using ws_octets(3) [OF three(3)] by (simp add: cont_def numeral_3_eq_3)
qed

lemma utf8_drop_ws:
  assumes "utf8_valid s" "ws_len s \<noteq> 0" shows "utf8_valid (drop (ws_len s) s)"
  using utf8_append [of "take (ws_len s) s" "drop (ws_len s) s"] ws_char_valid [OF assms(2)] assms(1)
  by simp

lemma utf8_trim_start: "utf8_valid s \<Longrightarrow> utf8_valid (trim_start s)"
proof (induction s rule: trim_start.induct)
  case (1 s)
  show ?case
  proof (cases "ws_len s = 0")
    case False
    with 1 show ?thesis by (subst trim_start.simps) (simp add: utf8_drop_ws)
  qed (use 1 in \<open>simp add: trim_start_id\<close>)
qed

lemma utf8_trim_rev: "utf8_valid (rev s) \<Longrightarrow> utf8_valid (rev (trim_rev s))"
proof (induction s rule: trim_rev.induct)
  case (1 s)
  show ?case
  proof (cases "ws_len_rev s = 0")
    case False
    have "rev s = rev (drop (ws_len_rev s) s) @ rev (take (ws_len_rev s) s)"
      by (metis append_take_drop_id rev_append)
    with 1(2) ws_rev_char_valid [OF False] have "utf8_valid (rev (drop (ws_len_rev s) s))"
      by (metis utf8_cut(1))
    with 1(1) [OF False] False show ?thesis by (subst trim_rev.simps) simp
  qed (use 1 in \<open>simp add: trim_rev_id\<close>)
qed

lemma utf8_trim: "utf8_valid s \<Longrightarrow> utf8_valid (trim s)"
  using utf8_trim_rev [of "rev (trim_start s)"]
  by (simp add: trim_def trim_end_def utf8_trim_start)

lemma utf8_split_ws:
  "utf8_valid (rev cur @ s) \<Longrightarrow> p \<in> set (split_ws cur s) \<Longrightarrow> utf8_valid p"
proof (induction cur s rule: split_ws.induct)
  case (1 cur s)
  show ?case
  proof (cases s)
    case Nil
    with 1(3,4) show ?thesis by (auto simp: split_ws_Nil split: if_splits)
  next
    case (Cons c cs)
    show ?thesis
    proof (cases "ws_len s = 0")
      case True
      with 1(1) [OF Cons True] 1(3,4) Cons show ?thesis by (simp add: split_ws_char)
    next
      case False
      have "utf8_valid (rev cur)" "utf8_valid s"
        using utf8_cut [OF 1(3)] ws_char_valid [OF False] by simp_all
      with 1(2) [OF Cons False] 1(4) utf8_drop_ws [OF _ False] show ?thesis
        unfolding split_ws_gap [OF False, of cur] by (auto split: if_splits)
    qed
  qed
qed

lemmas utf8_split_whitespace =
  utf8_split_ws [where cur = "[]", simplified, folded split_whitespace_def]


section \<open>Splitting once, and text made of words\<close>

text \<open>\<open>str::split_once(char)\<close> and \<open>u8::is_ascii_alphabetic\<close>.\<close>

definition split_once :: "char \<Rightarrow> string \<Rightarrow> (string \<times> string) option" where
  "split_once c s = (case find_char c s of None \<Rightarrow> None | Some i \<Rightarrow> Some (take i s, drop (Suc i) s))"

definition is_ascii_alphabetic :: "char \<Rightarrow> bool" where
  "is_ascii_alphabetic c \<longleftrightarrow> is_ascii_upper c \<or> is_ascii_lower c"

lemma split_once_append [simp]: "c \<notin> set a \<Longrightarrow> split_once c (a @ c # b) = Some (a, b)"
  by (simp add: split_once_def scan_simps)

lemma split_once_None [simp]: "split_once c s = None \<longleftrightarrow> c \<notin> set s"
  using find_char_None [of c s] by (auto simp: split_once_def split: option.split)

lemma split_once_Some: "split_once c s = Some (a, b) \<longleftrightarrow> s = a @ c # b \<and> c \<notin> set a"
proof
  assume "split_once c s = Some (a, b)"
  then obtain i where "find_char c s = Some i" "a = take i s" "b = drop (Suc i) s"
    by (auto simp: split_once_def split: option.splits)
  then show "s = a @ c # b \<and> c \<notin> set a"
    using find_char_split [of c s i] find_char_SomeD [of c s i] by simp
qed simp

text \<open>Words: non-empty text without white space.\<close>

definition word_text :: "string \<Rightarrow> bool" where
  "word_text s \<longleftrightarrow> s \<noteq> [] \<and> ws_free s"

lemma word_text_graphic: "graphic s \<Longrightarrow> s \<noteq> [] \<Longrightarrow> word_text s"
  by (simp add: word_text_def ws_free_graphic)

lemma word_text_to_dec [simp]: "word_text (to_dec n)"
  by (simp add: word_text_graphic)

lemma split_whitespace_word_text: "p \<in> set (split_whitespace s) \<Longrightarrow> word_text p"
  using split_whitespace_pieces by (simp add: word_text_def)

lemma split_whitespace_join:
  "\<forall>w \<in> set ws. word_text w \<Longrightarrow> split_whitespace (join '' '' ws) = ws"
  by (induction "'' ''" ws rule: join.induct)
    (auto simp: split_whitespace_def split_ws_free split_ws_free_end split_ws_Nil word_text_def)

lemma ws_free_append2: "ws_free (a @ b) \<Longrightarrow> ws_free b"
  by (induction a) simp_all

lemma ws23_ascii: "a < 128 \<Longrightarrow> \<not> ws2 a b" "a < 128 \<Longrightarrow> \<not> ws3 a b c" "b < 128 \<Longrightarrow> \<not> ws3 a b c"
  by (auto simp: ws2_def ws3_def)

lemma ws_len_rev_word:
  assumes "ws_free t" "t \<noteq> []" "code c < 128"
  shows "ws_len_rev (rev t @ c # r) = 0"
proof -
  obtain z u where t: "t = u @ [z]" using assms(2) by (cases t rule: rev_cases) auto
  show ?thesis
  proof (cases u rule: rev_cases)
    case Nil
    with t assms show ?thesis by (cases r) (simp_all add: ws23_ascii split: if_splits)
  next
    case (snoc v y)
    then have yz: "ws_free [y, z]" using assms(1) t ws_free_append2 [of v "[y, z]"] by simp
    show ?thesis
    proof (cases v rule: rev_cases)
      case Nil
      with snoc t yz assms(3) show ?thesis by (simp add: ws23_ascii split: if_splits)
    next
      case (snoc w x)
      then have "ws_free [x, y, z]" using assms(1) t \<open>u = v @ [y]\<close> ws_free_append2 [of w "[x, y, z]"] by simp
      with snoc t \<open>u = v @ [y]\<close> show ?thesis by (simp split: if_splits)
    qed
  qed
qed

lemma tight_line_word:
  assumes "33 \<le> code c" "code c \<le> 126" "word_text t" "code d < 128"
  shows "tight (c # s @ d # t)"
  using assms ws_len_rev_word [of t d "rev s @ [c]"] by (simp add: tight_def word_text_def)

lemma word_text_no_LF: "word_text s \<Longrightarrow> LF \<notin> set s"
  by (simp add: word_text_def ws_free_no_LF)

text \<open>Lines written with \<open>writeln!\<close>.\<close>

definition writeln :: "string \<Rightarrow> string" where
  "writeln l = l @ [LF]"

lemma ws_len_rev_ws1: "ws1 (code c) \<Longrightarrow> ws_len_rev (c # s) = 1"
  by (cases "c # s" rule: ws_len_rev.cases) auto

lemma tight_last: "tight l \<Longrightarrow> l \<noteq> [] \<Longrightarrow> last l \<noteq> CR"
  using ws_len_rev_ws1 [of CR "rev (butlast l)"]
  by (cases l rule: rev_cases) (auto simp: tight_def ws1_def CR_def code_octet)

lemma str_lines_aux_line:
  "LF \<notin> set l \<Longrightarrow> str_lines_aux cur (l @ LF # r) = strip_cr (rev cur @ l) # str_lines_aux [] r"
  by (induction l arbitrary: cur) auto

lemma str_lines_writeln:
  "\<forall>l \<in> set ls. LF \<notin> set l \<and> tight l \<Longrightarrow> str_lines (concat (map writeln ls)) = ls"
proof (induction ls)
  case (Cons l ls)
  then have "strip_cr l = l" using tight_last [of l] by (auto simp: strip_cr_def)
  with Cons show ?case by (simp add: str_lines_def writeln_def str_lines_aux_line)
qed (simp add: str_lines_def)

end
