(* ===== verification/Sip_Framing.thy ===== *)
theory Sip_Framing
  imports Sip_Uri Rust_Text
begin

text \<open>
  Message framing (\<open>sip/parser/framing.rs\<close>) and the parsed message types
  (\<open>sip/parser/message.rs\<close>): splitting the octets into start line, header block and body, unfolding
  the header block, the request and status lines, and the printers. The lemmas show that every
  message the parser accepts is printed to octets that parse again to the same message, up to the
  Content-Length value, which the printer recomputes.
\<close>

section \<open>Framing\<close>

definition MAX_FOLD_LINES_PER_HEADER :: nat where "MAX_FOLD_LINES_PER_HEADER = 32"

definition CRLF :: string where "CRLF = [CR, LF]"

definition find_subslice :: "string \<Rightarrow> string \<Rightarrow> nat option" where
  "find_subslice haystack needle =
     (if needle = [] \<or> length haystack < length needle then None else find_sub needle haystack)"

definition find_separator :: "string \<Rightarrow> (nat \<times> nat) option" where
  "find_separator data =
     (case find_subslice data [CR, LF, CR, LF] of
        Some pos \<Rightarrow> Some (pos, 4)
      | None \<Rightarrow>
          (case find_subslice data [LF, LF] of
             Some pos \<Rightarrow> Some (pos, 2)
           | None \<Rightarrow> None))"

definition split_first_line :: "string \<Rightarrow> string \<times> string" where
  "split_first_line head =
     (case find_sub [CR, LF] head of
        Some pos \<Rightarrow> (take pos head, drop (pos + 2) head)
      | None \<Rightarrow>
          (case find_char LF head of
             Some pos \<Rightarrow> (take pos head, drop (pos + 1) head)
           | None \<Rightarrow> (head, [])))"

definition split_message :: "string \<Rightarrow> sip_error + (string \<times> string \<times> string)" where
  "split_message data =
     and_then (ok_or ErrParse (find_separator data)) (\<lambda>(sep_start, sep_len).
     let head = take sep_start data; body = drop (sep_start + sep_len) data in
     if \<not> utf8_valid head then Inl ErrParse
     else let (start_line, header_block) = split_first_line head in
       if MAX_START_LINE_LEN < length start_line then Inl ErrParse
       else Inr (start_line, header_block, body))"

text \<open>
  The loop of \<open>parse_header_block\<close>: the headers pushed so far, the logical line being accumulated and
  the number of continuation lines it has absorbed.
\<close>

definition flush_line :: "headers \<Rightarrow> string option \<Rightarrow> sip_error + headers" where
  "flush_line hs current =
     (case current of
        Some line \<Rightarrow> and_then (parse_line line) (headers_push hs)
      | None \<Rightarrow> Inr hs)"

definition is_fold :: "string \<Rightarrow> bool" where
  "is_fold raw_line \<longleftrightarrow> hd raw_line = CHR '' '' \<or> hd raw_line = HTAB"

fun header_block_loop ::
  "headers \<Rightarrow> string option \<Rightarrow> nat \<Rightarrow> string list \<Rightarrow> sip_error + headers" where
  "header_block_loop hs current folds [] = flush_line hs current"
| "header_block_loop hs current folds (raw_line # rest) =
     (if raw_line = [] then header_block_loop hs current folds rest
      else if is_fold raw_line then
        (case current of
           None \<Rightarrow> Inl ErrInvalidHeader
         | Some folded \<Rightarrow>
             if MAX_FOLD_LINES_PER_HEADER < folds + 1 then Inl ErrInvalidHeader
             else let folded = folded @ '' '' @ trim raw_line in
               if MAX_HEADER_VALUE_LEN + MAX_START_LINE_LEN < length folded
               then Inl ErrInvalidHeader
               else header_block_loop hs (Some folded) (folds + 1) rest)
      else and_then (flush_line hs current) (\<lambda>hs'. header_block_loop hs' (Some raw_line) 0 rest))"

definition parse_header_block :: "string \<Rightarrow> sip_error + headers" where
  "parse_header_block block = header_block_loop [] None 0 (str_lines block)"

definition parse_request_line :: "string \<Rightarrow> sip_error + (p_method \<times> string \<times> string)" where
  "parse_request_line line =
     (if MAX_START_LINE_LEN < length line then Inl ErrParse
      else case split_whitespace line of
        [meth, uri_str, version] \<Rightarrow>
          and_then (p_method_from_str meth) (\<lambda>method.
          if version \<noteq> ''SIP/2.0'' then Inl ErrParse
          else and_then (map_err (\<lambda>_. ErrParse) (uri_parse uri_str)) (\<lambda>_.
            Inr (method, uri_str, version)))
      | _ \<Rightarrow> Inl ErrParse)"

definition forbidden_ctl :: "char \<Rightarrow> bool" where
  "forbidden_ctl b \<longleftrightarrow> code b = 127 \<or> code b < 32 \<and> code b \<noteq> 9"

definition parse_status_line :: "string \<Rightarrow> sip_error + (string \<times> status_code \<times> string)" where
  "parse_status_line line =
     (if MAX_START_LINE_LEN < length line then Inl ErrParse
      else case splitn_char 3 (CHR '' '') line of
        [version, code_str, reason] \<Rightarrow>
          if version \<noteq> ''SIP/2.0'' then Inl ErrParse
          else if length code_str \<noteq> 3 then Inl ErrParse
          else and_then (ok_or ErrParse (parse_u16 code_str)) (\<lambda>cd.
            if \<not> (100 \<le> cd \<and> cd \<le> 699) then Inl ErrParse
            else if list_ex forbidden_ctl reason then Inl ErrParse
            else Inr (version, cd, reason))
      | _ \<Rightarrow> Inl ErrParse)"

section \<open>Messages\<close>

record request =
  rq_method :: p_method
  rq_uri :: string
  rq_version :: string
  rq_headers :: headers
  rq_body :: string

record response =
  rs_version :: string
  rs_status_code :: status_code
  rs_reason :: string
  rs_headers :: headers
  rs_body :: string

datatype message = MRequest request | MResponse response

definition trim_body :: "headers \<Rightarrow> string \<Rightarrow> string" where
  "trim_body hs body =
     (case get_first_value hs ''Content-Length'' of
        Some v \<Rightarrow>
          (case parse_usize (trim v) of
             Some n \<Rightarrow> if n \<le> length body then take n body else body
           | None \<Rightarrow> body)
      | None \<Rightarrow> body)"

definition request_parse :: "string \<Rightarrow> sip_error + request" where
  "request_parse data =
     and_then (split_message data) (\<lambda>(start_line, header_block, body).
     and_then (parse_request_line start_line) (\<lambda>(method, uri, version).
     and_then (parse_header_block header_block) (\<lambda>hs.
     Inr \<lparr>rq_method = method, rq_uri = uri, rq_version = version, rq_headers = hs,
          rq_body = trim_body hs body\<rparr>)))"

definition response_parse :: "string \<Rightarrow> sip_error + response" where
  "response_parse data =
     and_then (split_message data) (\<lambda>(start_line, header_block, body).
     and_then (parse_status_line start_line) (\<lambda>(version, status, reason).
     and_then (parse_header_block header_block) (\<lambda>hs.
     Inr \<lparr>rs_version = version, rs_status_code = status, rs_reason = reason, rs_headers = hs,
          rs_body = trim_body hs body\<rparr>)))"

definition first_line_bytes :: "string \<Rightarrow> string" where
  "first_line_bytes data = takeWhile (\<lambda>b. \<not> (b = CR \<or> b = LF)) data"

definition message_parse :: "string \<Rightarrow> sip_error + message" where
  "message_parse data =
     (if starts_with ''SIP/'' (first_line_bytes data)
      then and_then (response_parse data) (\<lambda>r. Inr (MResponse r))
      else and_then (request_parse data) (\<lambda>r. Inr (MRequest r)))"

definition write_header :: "nat \<Rightarrow> header \<Rightarrow> string" where
  "write_header body_len h =
     (case h of
        HContentLength _ \<Rightarrow> ''Content-Length: '' @ to_dec body_len @ CRLF
      | _ \<Rightarrow> header_name h @ '': '' @ header_value h @ CRLF)"

definition write_headers :: "headers \<Rightarrow> nat \<Rightarrow> string" where
  "write_headers hs body_len = concat (map (write_header body_len) hs)"

definition request_to_bytes :: "request \<Rightarrow> string" where
  "request_to_bytes r =
     p_method_as_str (rq_method r) @ '' '' @ rq_uri r @ '' '' @ rq_version r @ CRLF @
     write_headers (rq_headers r) (length (rq_body r)) @ CRLF @ rq_body r"

definition response_to_bytes :: "response \<Rightarrow> string" where
  "response_to_bytes r =
     rs_version r @ '' '' @ to_dec (rs_status_code r) @ '' '' @ rs_reason r @ CRLF @
     write_headers (rs_headers r) (length (rs_body r)) @ CRLF @ rs_body r"

fun message_to_bytes :: "message \<Rightarrow> string" where
  "message_to_bytes (MRequest r) = request_to_bytes r"
| "message_to_bytes (MResponse r) = response_to_bytes r"


section \<open>Printed messages are framed again\<close>

lemma find_subslice_eq: "needle \<noteq> [] \<Longrightarrow> find_subslice d needle = find_sub needle d"
  by (simp add: find_subslice_def find_sub_too_short)

abbreviation separator :: string where "separator \<equiv> [CR, LF, CR, LF]"

lemma find_sub_separator:
  "LF \<notin> set l \<Longrightarrow> find_sub separator (l @ CR # LF # r) =
     (if take 2 r = [CR, LF] then Some (length l)
      else map_option (\<lambda>i. length l + 2 + i) (find_sub separator r))"
proof (induction l)
  case Nil
  show ?case by (auto simp: numeral_2_eq_2 option.map_comp o_def)
next
  case (Cons x l)
  have "take 4 (x # l @ CR # LF # r) \<noteq> separator"
    using Cons.prems by (cases l) (auto simp: numeral_eq_Suc)
  with Cons show ?case by (auto simp: option.map_comp o_def numeral_eq_Suc)
qed

lemma find_sub_join:
  "ls \<noteq> [] \<Longrightarrow> \<forall>l \<in> set ls. LF \<notin> set l \<Longrightarrow> \<forall>l \<in> set (tl ls). l \<noteq> [] \<Longrightarrow>
     find_sub separator (join CRLF ls @ separator @ body) = Some (length (join CRLF ls))"
proof (induction CRLF ls rule: join.induct)
  case (2 x)
  then show ?case using find_sub_separator [of x "[CR, LF] @ body"] by simp
next
  case (3 x y ys)
  let ?r = "join CRLF (y # ys) @ separator @ body"
  have "take 2 ?r \<noteq> [CR, LF]"
    using "3.prems" by (cases y; cases "tl y"; cases ys) (auto simp: numeral_2_eq_2 CRLF_def)
  moreover have "find_sub separator ?r = Some (length (join CRLF (y # ys)))"
    using "3.prems" by (intro "3.hyps") auto
  ultimately show ?case
    using find_sub_separator [of x ?r] "3.prems" by (simp add: CRLF_def)
qed simp

lemma find_sub_crlf:
  "LF \<notin> set l \<Longrightarrow> find_sub [CR, LF] (l @ CR # LF # r) = Some (length l)"
proof (induction l)
  case (Cons x l)
  then show ?case by (cases l) auto
qed simp

lemma find_sub_crlf_None: "LF \<notin> set l \<Longrightarrow> find_sub [CR, LF] l = None"
proof (induction l)
  case (Cons x l)
  then show ?case by (cases l) auto
qed simp

lemma split_first_line_join:
  "LF \<notin> set start \<Longrightarrow> split_first_line (join CRLF (start # hdrs)) = (start, join CRLF hdrs)"
  by (cases hdrs)
     (simp_all add: split_first_line_def find_sub_crlf_None find_sub_crlf CRLF_def find_char_None [THEN iffD2])

lemma split_message_join:
  assumes "LF \<notin> set start" "\<forall>l \<in> set hdrs. LF \<notin> set l \<and> l \<noteq> []"
    "utf8_valid (join CRLF (start # hdrs))" "length start \<le> MAX_START_LINE_LEN"
  shows "split_message (join CRLF (start # hdrs) @ separator @ body) = Inr (start, join CRLF hdrs, body)"
proof -
  have "find_sub separator (join CRLF (start # hdrs) @ separator @ body) =
      Some (length (join CRLF (start # hdrs)))"
    using assms(1,2) by (intro find_sub_join) auto
  then have "find_separator (join CRLF (start # hdrs) @ separator @ body) =
      Some (length (join CRLF (start # hdrs)), 4)"
    by (simp add: find_separator_def find_subslice_def)
  with assms show ?thesis
    by (simp add: split_message_def split_first_line_join)
qed

lemma str_lines_aux_crlf:
  "LF \<notin> set l \<Longrightarrow> str_lines_aux cur (l @ CR # LF # r) = (rev cur @ l) # str_lines_aux [] r"
  by (induction l arbitrary: cur) (auto simp: strip_cr_def)

lemma str_lines_aux_end:
  "LF \<notin> set l \<Longrightarrow> str_lines_aux cur l = (if cur = [] \<and> l = [] then [] else [rev cur @ l])"
  by (induction l arbitrary: cur) auto

lemma str_lines_join:
  "\<forall>l \<in> set ls. LF \<notin> set l \<and> l \<noteq> [] \<Longrightarrow> str_lines (join CRLF ls) = ls"
  by (induction CRLF ls rule: join.induct)
     (auto simp: str_lines_def CRLF_def str_lines_aux_crlf str_lines_aux_end)

lemma header_block_loop_lines:
  "\<forall>l \<in> set ls. l \<noteq> [] \<and> \<not> is_fold l \<Longrightarrow> map parse_line (l # ls) = map Inr (h # hs) \<Longrightarrow>
     length acc + length (h # hs) \<le> MAX_HEADERS \<Longrightarrow>
     header_block_loop acc (Some l) folds ls = Inr (acc @ h # hs)"
proof (induction ls arbitrary: acc l h hs folds)
  case Nil
  then show ?case by (simp add: flush_line_def headers_push_def)
next
  case (Cons l' ls)
  then obtain h' hs' where hs: "hs = h' # hs'" by auto
  with Cons have "header_block_loop (acc @ [h]) (Some l') 0 ls = Inr ((acc @ [h]) @ h' # hs')"
    by (intro Cons.IH) auto
  with Cons.prems hs show ?case by (simp add: flush_line_def headers_push_def)
qed

lemma parse_header_block_join:
  assumes "\<forall>l \<in> set ls. LF \<notin> set l \<and> l \<noteq> [] \<and> \<not> is_fold l"
    "map parse_line ls = map Inr hs" "length hs \<le> MAX_HEADERS"
  shows "parse_header_block (join CRLF ls) = Inr hs"
proof -
  have "str_lines (join CRLF ls) = ls" using assms(1) by (intro str_lines_join) auto
  then show ?thesis
    using assms header_block_loop_lines [of "tl ls" "hd ls" "hd hs" "tl hs" "[]" 0]
    by (cases ls; cases hs) (simp_all add: parse_header_block_def flush_line_def)
qed

subsection \<open>The headers of a printable message\<close>

definition set_length :: "nat \<Rightarrow> header \<Rightarrow> header" where
  "set_length n h = (case h of HContentLength _ \<Rightarrow> HContentLength (to_dec n) | _ \<Rightarrow> h)"

definition wire_header :: "header \<Rightarrow> bool" where
  "wire_header h \<longleftrightarrow> wf_header h \<and> LF \<notin> set (header_name h) \<and> LF \<notin> set (header_value h) \<and>
     utf8_valid (header_name h) \<and> utf8_valid (header_value h)"

lemma write_header_line: "write_header n h = header_line (set_length n h) @ CRLF"
  by (cases h) (simp_all add: write_header_def set_length_def header_line_def)

lemma write_headers_join:
  "hs \<noteq> [] \<Longrightarrow> write_headers hs n = join CRLF (map (header_line \<circ> set_length n) hs) @ CRLF"
proof (induction hs)
  case (Cons h hs)
  then show ?case by (cases hs) (simp_all add: write_headers_def write_header_line)
qed simp


lemma LF_text [simp]:
  "LF \<noteq> CHR '':''" "LF \<noteq> CHR '' ''" "LF \<notin> set (to_dec n)"
  using ws_free_no_LF [OF ws_free_graphic [OF graphic_to_dec]] by (simp_all add: LF_def ascii_simps)

lemma set_length_wire:
  assumes "wire_header h" "n < 2 ^ 64" shows "wire_header (set_length n h)"
proof (cases "\<exists>v. h = HContentLength v")
  case True
  have "length (to_dec n) \<le> MAX_HEADER_VALUE_LEN"
    using assms(2) length_to_dec [of n 19] by (simp add: MAX_HEADER_VALUE_LEN_def)
  with True assms(1) show ?thesis
    by (auto simp: set_length_def wire_header_def wf_header_def tight_graphic utf8_valid_ascii)
next
  case False
  then have "set_length n h = h" by (cases h) (auto simp: set_length_def)
  with assms show ?thesis by simp
qed

lemma wire_header_line:
  assumes "wire_header h"
  shows "LF \<notin> set (header_line h)" "header_line h \<noteq> []" "\<not> is_fold (header_line h)"
    "utf8_valid (header_line h)" "parse_line (header_line h) = Inr h"
proof -
  have wf: "wf_header h" using assms by (simp add: wire_header_def)
  show "LF \<notin> set (header_line h)"
    using assms by (auto simp: wire_header_def header_line_def ascii_simps)
  show ne: "header_line h \<noteq> []" by (simp add: header_line_def)
  show "parse_line (header_line h) = Inr h" by (rule parse_line_header_line [OF wf])
  have "utf8_valid ('': '' @ header_value h)"
    using assms by (simp add: wire_header_def)
  then show "utf8_valid (header_line h)"
    using assms by (simp only: header_line_def utf8_append wire_header_def)
  obtain c n where n: "header_name h = c # n" "tight (header_name h)"
    using header_name_wf [OF wf] by (cases "header_name h") auto
  then have "\<not> ws1 (code c)"
    using ws_len_ws1 [of c n] by (auto simp: tight_def)
  then show "\<not> is_fold (header_line h)"
    using n by (auto simp: is_fold_def header_line_def ws1_def)
qed

lemma utf8_join_crlf:
  "\<forall>l \<in> set ls. utf8_valid l \<Longrightarrow> utf8_valid (join CRLF ls)"
  by (induction CRLF ls rule: join.induct) (simp_all add: utf8_append, simp add: CRLF_def)

lemma name_matches_lowercase:
  "name_matches h ''Content-Length'' \<longleftrightarrow> to_ascii_lowercase (header_name h) = ''content-length''"
proof -
  have "resolve_name ''Content-Length'' = ''Content-Length''"
    by (simp add: name_eval)
  moreover have "to_ascii_lowercase ''Content-Length'' = ''content-length''"
    by (simp add: ascii_simps)
  ultimately show ?thesis by (simp add: name_matches_def eq_ignore_ascii_case_def)
qed

lemma name_matches_content_length:
  assumes "wf_header h" "name_matches h ''Content-Length''" shows "\<exists>v. h = HContentLength v"
proof (cases "\<exists>n v. h = HOther n v")
  case True
  with assms show ?thesis
    by (auto simp: name_matches_lowercase wf_header_def wf_other_name_def known_names_def)
next
  case False
  with assms(2) show ?thesis
    by (cases h) (simp_all add: name_matches_lowercase ascii_simps)
qed

lemma trim_body_set_length:
  assumes "list_all wire_header hs" "length body < 2 ^ 64"
  shows "trim_body (map (set_length (length body)) hs) body = body"
proof (cases "get_first (map (set_length (length body)) hs) ''Content-Length''")
  case None
  then show ?thesis by (simp add: trim_body_def get_first_value_def)
next
  case (Some h)
  then have "name_matches h ''Content-Length''" and "h \<in> set (map (set_length (length body)) hs)"
    by (auto simp: get_first_def find_Some_iff)
  then obtain h0 where h0: "h = set_length (length body) h0" "h0 \<in> set hs" by auto
  with assms have "wf_header h"
    using set_length_wire [of h0 "length body"] by (auto simp: list_all_iff wire_header_def)
  then obtain v where "h = HContentLength v"
    using name_matches_content_length \<open>name_matches h _\<close> by blast
  with h0(1) have "h = HContentLength (to_dec (length body))"
    by (cases h0) (simp_all add: set_length_def)
  with Some assms(2) show ?thesis
    by (simp add: trim_body_def get_first_value_def tight_graphic)
qed

text \<open>What the framing needs of the parts of a message so that the printed octets split again.\<close>

lemma parts_split_again:
  assumes "LF \<notin> set start" "utf8_valid start" "length start \<le> MAX_START_LINE_LEN"
    "list_all wire_header hs" "length hs \<le> MAX_HEADERS" "length body < 2 ^ 64"
  shows "\<exists>block. split_message (start @ CRLF @ write_headers hs (length body) @ CRLF @ body) =
           Inr (start, block, body) \<and>
         parse_header_block block = Inr (map (set_length (length body)) hs)"
proof -
  let ?hs = "map (set_length (length body)) hs"
  let ?ls = "map header_line ?hs"
  have wire: "\<forall>h \<in> set ?hs. wire_header h"
    using assms(4,6) by (auto simp: list_all_iff set_length_wire)
  have eq: "start @ CRLF @ write_headers hs (length body) @ CRLF @ body =
      join CRLF (start # ?ls) @ separator @ body"
  proof (cases "hs = []")
    case True
    then show ?thesis by (simp add: write_headers_def CRLF_def)
  next
    case False
    then show ?thesis
      using write_headers_join [OF False, of "length body"]
      by (cases hs) (simp_all add: CRLF_def)
  qed
  have "split_message (join CRLF (start # ?ls) @ separator @ body) = Inr (start, join CRLF ?ls, body)"
    using assms(1-3) wire
    by (intro split_message_join utf8_join_crlf) (auto dest: wire_header_line)
  moreover have "parse_header_block (join CRLF ?ls) = Inr ?hs"
    using wire assms(5) by (intro parse_header_block_join) (auto simp: wire_header_line)
  ultimately show ?thesis unfolding eq by blast
qed


subsection \<open>Start lines\<close>

definition request_line :: "request \<Rightarrow> string" where
  "request_line r = p_method_as_str (rq_method r) @ '' '' @ rq_uri r @ '' '' @ rq_version r"

definition status_line :: "response \<Rightarrow> string" where
  "status_line r = rs_version r @ '' '' @ to_dec (rs_status_code r) @ '' '' @ rs_reason r"

definition wf_request :: "request \<Rightarrow> bool" where
  "wf_request r \<longleftrightarrow>
     rq_version r = ''SIP/2.0'' \<and> is_ok (uri_parse (rq_uri r)) \<and> rq_uri r \<noteq> [] \<and> ws_free (rq_uri r) \<and>
     utf8_valid (rq_uri r) \<and> length (request_line r) \<le> MAX_START_LINE_LEN \<and>
     list_all wire_header (rq_headers r) \<and> length (rq_headers r) \<le> MAX_HEADERS \<and>
     length (rq_body r) < 2 ^ 64"

definition wf_response :: "response \<Rightarrow> bool" where
  "wf_response r \<longleftrightarrow>
     rs_version r = ''SIP/2.0'' \<and> 100 \<le> rs_status_code r \<and> rs_status_code r \<le> 699 \<and>
     \<not> list_ex forbidden_ctl (rs_reason r) \<and> utf8_valid (rs_reason r) \<and>
     length (status_line r) \<le> MAX_START_LINE_LEN \<and>
     list_all wire_header (rs_headers r) \<and> length (rs_headers r) \<le> MAX_HEADERS \<and>
     length (rs_body r) < 2 ^ 64"

fun wf_message :: "message \<Rightarrow> bool" where
  "wf_message (MRequest r) = wf_request r"
| "wf_message (MResponse r) = wf_response r"

text \<open>The message a reader sees: Content-Length states the length of the body.\<close>

definition canonical_request :: "request \<Rightarrow> request" where
  "canonical_request r = r\<lparr>rq_headers := map (set_length (length (rq_body r))) (rq_headers r)\<rparr>"

definition canonical_response :: "response \<Rightarrow> response" where
  "canonical_response r = r\<lparr>rs_headers := map (set_length (length (rs_body r))) (rs_headers r)\<rparr>"

fun canonical :: "message \<Rightarrow> message" where
  "canonical (MRequest r) = MRequest (canonical_request r)"
| "canonical (MResponse r) = MResponse (canonical_response r)"

lemma method_text:
  "graphic (p_method_as_str m)" "p_method_as_str m \<noteq> []" "\<not> starts_with ''SIP/'' (p_method_as_str m @ t)"
  by (cases m; simp)+

lemma graphic_version: "graphic ''SIP/2.0''"
  by simp

lemma parse_request_line_again:
  assumes "wf_request r"
  shows "parse_request_line (request_line r) = Inr (rq_method r, rq_uri r, rq_version r)"
proof -
  have "split_whitespace (request_line r) = [p_method_as_str (rq_method r), rq_uri r, rq_version r]"
    using assms ws_free_graphic [OF graphic_version]
      split_whitespace_three [OF ws_free_graphic [OF method_text(1)] method_text(2),
        of "rq_uri r" "rq_version r" "rq_method r"]
    by (simp del: ws_free.simps add: request_line_def wf_request_def)
  with assms show ?thesis
    by (auto simp: parse_request_line_def wf_request_def is_ok_iff)
qed

lemma to_dec_status: "100 \<le> c \<Longrightarrow> c \<le> 699 \<Longrightarrow> length (to_dec c) = 3"
proof -
  assume c: "100 \<le> c" "c \<le> 699"
  then have "\<not> c < 10" "\<not> c div 10 < 10" "c div 10 div 10 < 10" by linarith+
  then show ?thesis
    by (simp only: to_dec.simps [of c] to_dec.simps [of "c div 10"] to_dec.simps [of "c div 10 div 10"]
        if_False if_True) simp
qed

lemma parse_status_line_again:
  assumes "wf_response r"
  shows "parse_status_line (status_line r) = Inr (rs_version r, rs_status_code r, rs_reason r)"
proof -
  have "find_char (CHR '' '') (status_line r) = Some (length ''SIP/2.0'')"
    using assms find_char_append [of "CHR '' ''" "''SIP/2.0''"]
    by (simp add: status_line_def wf_response_def)
  then have "splitn_char 3 (CHR '' '') (status_line r) =
      [''SIP/2.0'', to_dec (rs_status_code r), rs_reason r]"
    using assms
    by (simp add: numeral_3_eq_3 status_line_def wf_response_def find_char_append)
  with assms show ?thesis
    by (simp add: parse_status_line_def wf_response_def to_dec_status)
qed

lemma request_line_text:
  assumes "wf_request r" shows "LF \<notin> set (request_line r)" "utf8_valid (request_line r)"
proof -
  have m: "LF \<notin> set (p_method_as_str (rq_method r))" "utf8_valid (p_method_as_str (rq_method r))"
    using method_text(1) [of "rq_method r"] graphic_ascii ws_free_no_LF [OF ws_free_graphic]
    by (auto intro: utf8_valid_ascii)
  show "LF \<notin> set (request_line r)"
    using assms m ws_free_no_LF ws_free_no_LF [OF ws_free_graphic [OF graphic_version]]
    by (auto simp: request_line_def wf_request_def)
  show "utf8_valid (request_line r)"
    using assms m by (simp add: request_line_def wf_request_def utf8_append)
qed

lemma status_line_text:
  assumes "wf_response r" shows "LF \<notin> set (status_line r)" "utf8_valid (status_line r)"
proof -
  have "LF \<notin> set (rs_reason r)"
    using assms by (auto simp: wf_response_def list_ex_iff forbidden_ctl_def)
  then show "LF \<notin> set (status_line r)"
    using assms ws_free_no_LF [OF ws_free_graphic [OF graphic_version]]
    by (auto simp: status_line_def wf_response_def)
  have "utf8_valid (to_dec (rs_status_code r))" by (intro utf8_valid_ascii) simp
  then show "utf8_valid (status_line r)"
    using assms by (simp add: status_line_def wf_response_def utf8_append)
qed

subsection \<open>Parsing inverts printing\<close>

lemma request_parse_to_bytes:
  assumes "wf_request r" shows "request_parse (request_to_bytes r) = Inr (canonical_request r)"
proof -
  have hs: "list_all wire_header (rq_headers r)" "length (rq_body r) < 2 ^ 64"
    using assms by (simp_all add: wf_request_def)
  have eq: "request_to_bytes r = request_line r @ CRLF @
      write_headers (rq_headers r) (length (rq_body r)) @ CRLF @ rq_body r"
    by (simp add: request_to_bytes_def request_line_def)
  obtain block where "split_message (request_to_bytes r) = Inr (request_line r, block, rq_body r)"
    "parse_header_block block = Inr (map (set_length (length (rq_body r))) (rq_headers r))"
    using parts_split_again [of "request_line r" "rq_headers r" "rq_body r"] assms hs
      request_line_text [OF assms]
    unfolding eq by (auto simp: wf_request_def)
  then show ?thesis
    by (simp add: request_parse_def parse_request_line_again [OF assms] trim_body_set_length [OF hs]
        canonical_request_def)
qed

lemma response_parse_to_bytes:
  assumes "wf_response r" shows "response_parse (response_to_bytes r) = Inr (canonical_response r)"
proof -
  have hs: "list_all wire_header (rs_headers r)" "length (rs_body r) < 2 ^ 64"
    using assms by (simp_all add: wf_response_def)
  have eq: "response_to_bytes r = status_line r @ CRLF @
      write_headers (rs_headers r) (length (rs_body r)) @ CRLF @ rs_body r"
    by (simp add: response_to_bytes_def status_line_def)
  obtain block where "split_message (response_to_bytes r) = Inr (status_line r, block, rs_body r)"
    "parse_header_block block = Inr (map (set_length (length (rs_body r))) (rs_headers r))"
    using parts_split_again [of "status_line r" "rs_headers r" "rs_body r"] assms hs
      status_line_text [OF assms]
    unfolding eq by (auto simp: wf_response_def)
  then show ?thesis
    by (simp add: response_parse_def parse_status_line_again [OF assms] trim_body_set_length [OF hs]
        canonical_response_def)
qed

lemma first_line_response:
  "wf_response r \<Longrightarrow> starts_with ''SIP/'' (first_line_bytes (response_to_bytes r))"
  by (simp add: first_line_bytes_def response_to_bytes_def wf_response_def CR_def LF_def ascii_simps)

lemma first_line_request: "\<not> starts_with ''SIP/'' (first_line_bytes (request_to_bytes r))"
  by (cases "rq_method r")
     (simp_all add: first_line_bytes_def request_to_bytes_def CR_def LF_def ascii_simps)

lemma message_parse_to_bytes:
  "wf_message m \<Longrightarrow> message_parse (message_to_bytes m) = Inr (canonical m)"
  by (cases m) (simp_all add: message_parse_def first_line_response first_line_request
      request_parse_to_bytes response_parse_to_bytes)

lemma set_length_idem [simp]: "set_length n (set_length n h) = set_length n h"
  by (cases h) (simp_all add: set_length_def)

lemma write_headers_set_length [simp]: "write_headers (map (set_length n) hs) n = write_headers hs n"
  by (induction hs) (simp_all add: write_headers_def write_header_line)

lemma message_to_bytes_canonical: "message_to_bytes (canonical m) = message_to_bytes m"
  by (cases m) (simp_all add: canonical_request_def canonical_response_def request_to_bytes_def
      response_to_bytes_def)

section \<open>Everything the parser accepts is printable\<close>

lemma compact_known:
  "to_ascii_lowercase ''Call-ID'' \<in> set known_names" "to_ascii_lowercase ''Contact'' \<in> set known_names"
  "to_ascii_lowercase ''From'' \<in> set known_names" "to_ascii_lowercase ''To'' \<in> set known_names"
  "to_ascii_lowercase ''Via'' \<in> set known_names" "to_ascii_lowercase ''Content-Type'' \<in> set known_names"
  "to_ascii_lowercase ''Content-Length'' \<in> set known_names"
  "to_ascii_lowercase ''Supported'' \<in> set known_names"
  by (simp_all add: known_names_def ascii_simps)

lemma wf_other_nameI:
  assumes "graphic (a # b # n)" "CHR '':'' \<notin> set (a # b # n)"
    "to_ascii_lowercase (a # b # n) \<notin> set known_names"
  shows "wf_other_name (a # b # n) \<and> graphic (a # b # n)"
proof -
  have "trim (a # b # n) = a # b # n" using assms(1) by (intro trim_tight tight_graphic)
  then have "resolve_name (a # b # n) = a # b # n" by (simp add: resolve_name_def)
  with assms show ?thesis by (simp add: wf_other_name_def tight_graphic)
qed

lemma compact_other:
  assumes "map_of compact_table c = Some long" "to_ascii_lowercase long \<notin> set known_names"
  shows "wf_other_name long \<and> graphic long"
proof -
  have "(c, long) \<in> set compact_table" using assms(1) by (rule map_of_SomeD)
  then consider "long = ''Subject''" | "long = ''Content-Encoding''" | "long = ''Refer-To''"
    | "long = ''Referred-By''" | "long = ''Content-Disposition''" | "long = ''Event''"
    | "long = ''Allow-Events''"
    using assms(2) compact_known
    unfolding compact_table_def list.set insert_iff empty_iff prod.inject
    by (elim disjE conjE) (iprover | (hypsubst, erule (1) notE) | erule FalseE)+
  then show ?thesis
    by (cases; use assms(2) in \<open>simp only:, intro wf_other_nameI, simp_all\<close>)
qed

lemma match_long_name_other:
  "match_long_name r n v = HOther n v \<and> to_ascii_lowercase r \<notin> set known_names \<or>
   (\<forall>k x. match_long_name r n v \<noteq> HOther k x) \<and> graphic (header_name (match_long_name r n v))"
  by (simp add: match_long_name_def known_names_def Let_def)

lemma match_long_name_value [simp]: "header_value (match_long_name r n v) = v"
  by (simp add: match_long_name_def Let_def)

lemma graphic_no_LF: "graphic s \<Longrightarrow> LF \<notin> set s"
  by (rule ws_free_no_LF [OF ws_free_graphic])

lemma graphic_utf8: "graphic s \<Longrightarrow> utf8_valid s"
  by (rule utf8_valid_ascii [OF graphic_ascii])

lemma build_header_wire:
  assumes n: "tight n" "n \<noteq> []" "CHR '':'' \<notin> set n" "LF \<notin> set n" "utf8_valid n"
    and v: "tight v" "length v \<le> MAX_HEADER_VALUE_LEN" "LF \<notin> set v" "utf8_valid v"
  shows "wire_header (build_header n v)"
proof -
  define other where
    "other = (if length n = 1 \<and> resolve_name n \<noteq> n then resolve_name n else n)"
  have bh: "build_header n v = match_long_name (resolve_name n) other v"
    using n(1) by (simp add: build_header_def other_def Let_def)
  have other: "wf_other_name other \<and> LF \<notin> set other \<and> utf8_valid other"
    if low: "to_ascii_lowercase (resolve_name n) \<notin> set known_names"
  proof (cases "length n = 1 \<and> resolve_name n \<noteq> n")
    case True
    then obtain c where c: "n = [c]" by (cases n) auto
    with True n(1) have "map_of compact_table (ascii_lower c) = Some (resolve_name n)"
      by (auto simp: resolve_name_def split: option.splits)
    with low True show ?thesis
      using compact_other graphic_no_LF graphic_utf8 unfolding other_def by auto
  next
    case False
    have "resolve_name n = n"
    proof (cases "length n = 1")
      case F: False
      then show ?thesis using n(1) by (auto simp: resolve_name_def Let_def split: list.splits)
    qed (use False in simp)
    with low n False show ?thesis by (auto simp: other_def wf_other_name_def)
  qed
  show ?thesis
  proof (cases "match_long_name (resolve_name n) other v = HOther other v \<and>
      to_ascii_lowercase (resolve_name n) \<notin> set known_names")
    case True
    with other v show ?thesis by (simp add: bh wire_header_def wf_header_def)
  next
    case False
    then have known: "\<forall>k x. match_long_name (resolve_name n) other v \<noteq> HOther k x"
      "graphic (header_name (match_long_name (resolve_name n) other v))"
      using match_long_name_other [of "resolve_name n" other v] by auto
    have "case build_header n v of HOther n v \<Rightarrow> wf_other_name n | _ \<Rightarrow> True"
      unfolding bh using known(1) by (simp split: header.splits)
    with known(2) v show ?thesis
      by (simp add: bh wire_header_def wf_header_def graphic_no_LF graphic_utf8)
  qed
qed

lemma parse_line_wire:
  assumes "parse_line line = Inr h" "LF \<notin> set line" "utf8_valid line"
  shows "wire_header h"
proof -
  from assms(1) obtain i where i: "find_char (CHR '':'') line = Some i"
    and ne: "trim (take i line) \<noteq> []" and len: "length (trim (drop (Suc i) line)) \<le> MAX_HEADER_VALUE_LEN"
    and h: "h = build_header (trim (take i line)) (trim (drop (Suc i) line))"
    by (auto simp: parse_line_def Let_def split: option.splits if_splits)
  from find_char_split [OF i] have line: "line = take i line @ CHR '':'' # drop (Suc i) line"
    and colon: "CHR '':'' \<notin> set (take i line)" using find_char_SomeD [OF i] by auto
  have "utf8_valid (take i line)" "utf8_valid (drop (Suc i) line)"
    using utf8_cut_ascii [of "take i line" "CHR '':''" "drop (Suc i) line"] line assms(3) by simp_all
  moreover have "LF \<notin> set (trim (take i line))" "LF \<notin> set (trim (drop (Suc i) line))"
    using assms(2) set_trim_subset set_take_subset set_drop_subset by (meson subsetD)+
  moreover have "CHR '':'' \<notin> set (trim (take i line))"
    using colon set_trim_subset by blast
  ultimately show ?thesis
    unfolding h using ne len by (intro build_header_wire) (simp_all add: utf8_trim)
qed

lemma str_lines_aux_text:
  "utf8_valid (rev cur @ s) \<Longrightarrow> LF \<notin> set cur \<Longrightarrow> l \<in> set (str_lines_aux cur s) \<Longrightarrow>
     utf8_valid l \<and> LF \<notin> set l"
proof (induction cur s rule: str_lines_aux.induct)
  case (1 cur)
  then show ?case by (auto split: if_splits)
next
  case (2 cur x xs)
  show ?case
  proof (cases "x = LF")
    case True
    have cut: "utf8_valid (rev cur)" "utf8_valid xs"
      using utf8_cut_ascii [of "rev cur" x xs] "2.prems"(1) True by simp_all
    have "utf8_valid (strip_cr (rev cur)) \<and> LF \<notin> set (strip_cr (rev cur))"
      using cut "2.prems"(2) utf8_cut_ascii(1) [of _ CR "[]"]
      by (cases cur) (auto simp: strip_cr_def)
    with 2 True cut show ?thesis by auto
  qed (use 2 in auto)
qed

lemma str_lines_text:
  "utf8_valid s \<Longrightarrow> l \<in> set (str_lines s) \<Longrightarrow> utf8_valid l \<and> LF \<notin> set l"
  using str_lines_aux_text [of "[]"] by (simp add: str_lines_def)

definition good_line :: "string \<Rightarrow> bool" where
  "good_line l \<longleftrightarrow> utf8_valid l \<and> LF \<notin> set l"

definition good_headers :: "headers \<Rightarrow> bool" where
  "good_headers hs \<longleftrightarrow> list_all wire_header hs \<and> length hs \<le> MAX_HEADERS"

lemma flush_line_good:
  "flush_line hs cur = Inr hs' \<Longrightarrow> good_headers hs \<Longrightarrow> pred_option good_line cur \<Longrightarrow> good_headers hs'"
  by (auto simp: flush_line_def and_then_Inr_iff good_headers_def good_line_def headers_push_def
      split: option.splits if_splits dest: parse_line_wire)

lemma good_line_fold: "good_line c \<Longrightarrow> good_line l \<Longrightarrow> good_line (c @ '' '' @ trim l)"
  using set_trim_subset [of l] by (auto simp: good_line_def utf8_append utf8_trim)

lemma header_block_loop_good:
  "header_block_loop hs cur folds ls = Inr hs' \<Longrightarrow> good_headers hs \<Longrightarrow> pred_option good_line cur \<Longrightarrow>
     \<forall>l \<in> set ls. good_line l \<Longrightarrow> good_headers hs'"
proof (induction hs cur folds ls rule: header_block_loop.induct)
  case (1 hs cur folds)
  then show ?case by (auto intro: flush_line_good)
next
  case (2 hs cur folds l ls)
  consider "l = []" | "l \<noteq> []" "is_fold l" | "l \<noteq> []" "\<not> is_fold l" by blast
  then show ?case
  proof cases
    case 1
    with 2 show ?thesis by simp
  next
    case fold: 2
    with "2.prems" obtain c where c: "cur = Some c"
      "header_block_loop hs (Some (c @ '' '' @ trim l)) (folds + 1) ls = Inr hs'"
      "\<not> MAX_FOLD_LINES_PER_HEADER < folds + 1"
      "\<not> MAX_HEADER_VALUE_LEN + MAX_START_LINE_LEN < length (c @ '' '' @ trim l)"
      by (auto simp: Let_def split: option.splits if_splits)
    with "2.prems" have "good_line (c @ '' '' @ trim l)" by (intro good_line_fold) simp_all
    with 2(2) [OF fold(1,2) c(1) c(3) refl c(4)] c "2.prems" show ?thesis by simp
  next
    case 3
    with "2.prems" obtain hs1 where "flush_line hs cur = Inr hs1"
      "header_block_loop hs1 (Some l) 0 ls = Inr hs'"
      by (auto simp: and_then_Inr_iff)
    with 3 2(3) [OF 3] "2.prems" flush_line_good show ?thesis by simp
  qed
qed

lemma parse_header_block_good:
  "parse_header_block b = Inr hs \<Longrightarrow> utf8_valid b \<Longrightarrow> good_headers hs"
  using header_block_loop_good [of "[]" None 0 "str_lines b" hs] str_lines_text [of b]
  by (simp add: parse_header_block_def good_headers_def good_line_def)


lemma split_message_text:
  assumes "split_message d = Inr (start, block, body)"
  shows "utf8_valid start" "utf8_valid block" "length start \<le> MAX_START_LINE_LEN"
    "length body \<le> length d"
proof -
  from assms obtain i n where "utf8_valid (take i d)"
    and first: "split_first_line (take i d) = (start, block)"
    and len: "length start \<le> MAX_START_LINE_LEN" and body: "body = drop (i + n) d"
    by (auto simp: split_message_def and_then_Inr_iff Let_def split: if_splits prod.splits)
  have "utf8_valid start \<and> utf8_valid block"
  proof (cases "find_sub [CR, LF] (take i d)")
    case (Some k)
    with find_sub_split [OF Some] utf8_cut_ascii [of "take k (take i d)" CR "LF # drop (k + 2) (take i d)"]
      first \<open>utf8_valid (take i d)\<close>
    show ?thesis by (simp add: split_first_line_def)
  next
    case None
    show ?thesis
    proof (cases "find_char LF (take i d)")
      case None2: None
      with None first \<open>utf8_valid (take i d)\<close> show ?thesis by (simp add: split_first_line_def)
    next
      case (Some k)
      with None find_char_split [OF Some] utf8_cut_ascii [of "take k (take i d)" LF "drop (Suc k) (take i d)"]
        first \<open>utf8_valid (take i d)\<close>
      show ?thesis by (simp add: split_first_line_def)
    qed
  qed
  with len body show "utf8_valid start" "utf8_valid block" "length start \<le> MAX_START_LINE_LEN"
    "length body \<le> length d" by simp_all
qed

lemma length_trim_body: "length (trim_body hs body) \<le> length body"
  by (simp add: trim_body_def split: option.splits)

lemma p_method_from_str_length:
  "p_method_from_str s = Inr m \<Longrightarrow> length (p_method_as_str m) = length s"
  by (auto simp: p_method_from_str_def find_Some_iff eq_ignore_ascii_case_def)
     (metis length_to_ascii_lowercase)

lemma list_case3_Inr:
  assumes "(case xs of [a, b, c] \<Rightarrow> f a b c | _ \<Rightarrow> Inl e) = Inr y"
  obtains a b c where "xs = [a, b, c]" "f a b c = Inr y"
  using assms by (auto split: list.splits)

lemma parse_request_line_Inr:
  assumes "parse_request_line line = Inr (m, u, v)"
  obtains meth where "split_whitespace line = [meth, u, v]" "p_method_from_str meth = Inr m"
    "v = ''SIP/2.0''" "is_ok (uri_parse u)"
proof -
  from assms have "\<not> MAX_START_LINE_LEN < length line"
    by (simp add: parse_request_line_def split: if_splits)
  with assms obtain a b c where "split_whitespace line = [a, b, c]"
    "and_then (p_method_from_str a) (\<lambda>method.
       if c \<noteq> ''SIP/2.0'' then Inl ErrParse
       else and_then (map_err (\<lambda>_. ErrParse) (uri_parse b)) (\<lambda>_. Inr (method, b, c))) = Inr (m, u, v)"
    unfolding parse_request_line_def by (auto elim: list_case3_Inr)
  then show thesis
    by (intro that [of a]) (simp_all add: and_then_Inr_iff is_ok_iff split: if_splits)
qed

lemma parse_status_line_Inr:
  assumes "parse_status_line line = Inr (v, cd, reason)"
  obtains cs where "splitn_char 3 (CHR '' '') line = [v, cs, reason]" "v = ''SIP/2.0''"
    "length cs = 3" "100 \<le> cd" "cd \<le> 699" "\<not> list_ex forbidden_ctl reason"
proof -
  from assms obtain a b c where split: "splitn_char 3 (CHR '' '') line = [a, b, c]" and
    "(if a \<noteq> ''SIP/2.0'' then Inl ErrParse
      else if length b \<noteq> 3 then Inl ErrParse
      else and_then (ok_or ErrParse (parse_u16 b)) (\<lambda>cd.
        if \<not> (100 \<le> cd \<and> cd \<le> 699) then Inl ErrParse
        else if list_ex forbidden_ctl c then Inl ErrParse
        else Inr (a, cd, c))) = Inr (v, cd, reason)"
    unfolding parse_status_line_def if_Inl_Inr_iff [of "MAX_START_LINE_LEN < length line"]
    by (elim conjE list_case3_Inr)
  then have "a = ''SIP/2.0'' \<and> length b = 3 \<and> v = a \<and> reason = c \<and> 100 \<le> cd \<and> cd \<le> 699 \<and>
      \<not> list_ex forbidden_ctl c"
    unfolding if_Inl_Inr_iff and_then_Inr_iff by blast
  with split show thesis by (intro that [of b]) simp_all
qed

lemma request_parse_wf:
  assumes "request_parse d = Inr r" "length d < 2 ^ 64" shows "wf_request r"
proof -
  from assms(1) obtain start block body where
      sm: "split_message d = Inr (start, block, body)"
    and rl: "parse_request_line start = Inr (rq_method r, rq_uri r, rq_version r)"
    and hb: "parse_header_block block = Inr (rq_headers r)"
    and b: "rq_body r = trim_body (rq_headers r) body"
    by (auto simp: request_parse_def and_then_Inr_iff)
  note sliced = split_message_text [OF sm]
  obtain meth where ws: "split_whitespace start = [meth, rq_uri r, rq_version r]"
    and m: "p_method_from_str meth = Inr (rq_method r)" and v: "rq_version r = ''SIP/2.0''"
    and u: "is_ok (uri_parse (rq_uri r))"
    by (rule parse_request_line_Inr [OF rl])
  have "length (request_line r) \<le> MAX_START_LINE_LEN"
    using split_whitespace_length [of start] ws p_method_from_str_length [OF m] sliced(3)
    by (simp add: request_line_def)
  moreover have "rq_uri r \<noteq> []" "ws_free (rq_uri r)" "utf8_valid (rq_uri r)"
    using split_whitespace_pieces [of "rq_uri r" start] utf8_split_whitespace [OF sliced(1), of "rq_uri r"] ws
    by simp_all
  moreover have "length (rq_body r) < 2 ^ 64"
    using length_trim_body [of "rq_headers r" body] sliced(4) assms(2) b by simp
  ultimately show ?thesis
    using v u parse_header_block_good [OF hb sliced(2)] by (simp add: wf_request_def good_headers_def)
qed

lemma splitn_three:
  assumes "splitn_char 3 c s = [x, y, z]" shows "s = x @ c # y @ c # z"
proof -
  from assms obtain i where i: "find_char c s = Some i" and x: "x = take i s"
    and "splitn_char 2 c (drop (Suc i) s) = [y, z]"
    by (auto simp: numeral_3_eq_3 numeral_2_eq_2 split: option.splits)
  then obtain j where j: "find_char c (drop (Suc i) s) = Some j"
    and yz: "y = take j (drop (Suc i) s)" "z = drop (Suc j) (drop (Suc i) s)"
    by (auto simp: numeral_2_eq_2 split: option.splits)
  show ?thesis
    using find_char_split [OF i] find_char_split [OF j] unfolding x yz by metis
qed

lemma response_parse_wf:
  assumes "response_parse d = Inr r" "length d < 2 ^ 64" shows "wf_response r"
proof -
  from assms(1) obtain start block body where
      sm: "split_message d = Inr (start, block, body)"
    and sl: "parse_status_line start = Inr (rs_version r, rs_status_code r, rs_reason r)"
    and hb: "parse_header_block block = Inr (rs_headers r)"
    and b: "rs_body r = trim_body (rs_headers r) body"
    by (auto simp: response_parse_def and_then_Inr_iff)
  note sliced = split_message_text [OF sm]
  obtain cs where sp: "splitn_char 3 (CHR '' '') start = [rs_version r, cs, rs_reason r]"
    and v: "rs_version r = ''SIP/2.0''" and c: "length cs = 3" "100 \<le> rs_status_code r"
      "rs_status_code r \<le> 699" and ctl: "\<not> list_ex forbidden_ctl (rs_reason r)"
    by (rule parse_status_line_Inr [OF sl])
  have start: "start = (rs_version r @ CHR '' '' # cs) @ CHR '' '' # rs_reason r"
    using splitn_three [OF sp] by simp
  have "utf8_valid (rs_reason r)"
    using sliced(1) utf8_cut_ascii(2) [of "rs_version r @ CHR '' '' # cs" "CHR '' ''" "rs_reason r"]
    by (simp add: start)
  moreover have "length (status_line r) \<le> MAX_START_LINE_LEN"
    using sliced(3) to_dec_status [OF c(2,3)] c(1) by (simp add: status_line_def start)
  moreover have "length (rs_body r) < 2 ^ 64"
    using length_trim_body [of "rs_headers r" body] sliced(4) assms(2) b by simp
  ultimately show ?thesis
    using v c ctl parse_header_block_good [OF hb sliced(2)]
    by (simp add: wf_response_def good_headers_def)
qed

lemma message_parse_wf:
  "message_parse d = Inr m \<Longrightarrow> length d < 2 ^ 64 \<Longrightarrow> wf_message m"
  by (auto simp: message_parse_def and_then_Inr_iff split: if_splits
      intro: request_parse_wf [simplified] response_parse_wf [simplified])


section \<open>Properties of the message parser\<close>

lemmas framing_eval =
  message_parse_def first_line_bytes_def request_parse_def split_message_def find_separator_def
  find_subslice_def split_first_line_def parse_request_line_def split_whitespace_def split_ws_Nil
  split_ws_char split_ws_gap p_method_from_str_def p_methods_all_def uri_parse_def parse_scheme_def
  split_uri_headers_def split_uri_params_def parse_user_host_port_def parse_host_port_def
  parse_uri_params_def parse_header_block_def str_lines_def flush_line_def is_fold_def parse_line_def
  headers_push_def trim_body_def get_first_value_def get_first_def name_matches_def name_eval
  known_names_def parse_uint_def MAX_START_LINE_LEN_def MAX_HEADER_VALUE_LEN_def MAX_HEADERS_def
  CR_def LF_def HTAB_def strip_cr_def trim_def trim_start_id trim_end_def trim_rev_id trim_start_ws1
  Let_def

definition sample_octets :: string where
  "sample_octets = ''OPTIONS sip:a SIP/2.0'' @ CRLF @ ''l: 0'' @ CRLF @ CRLF"

definition sample_request :: request where
  "sample_request =
     \<lparr>rq_method = POptions, rq_uri = ''sip:a'', rq_version = ''SIP/2.0'',
      rq_headers = [HContentLength ''0''], rq_body = []\<rparr>"

definition sample_response :: response where
  "sample_response =
     \<lparr>rs_version = ''SIP/2.0'', rs_status_code = 200, rs_reason = ''OK'',
      rs_headers = [HTo ''<sip:a>'', HContentLength ''7''], rs_body = ''v=0''\<rparr>"

lemma sample_parses: "message_parse sample_octets = Inr (MRequest sample_request)"
  by (simp add: sample_octets_def sample_request_def CRLF_def framing_eval)

lemma sample_request_parses: "request_parse sample_octets = Inr sample_request"
  by (simp add: sample_octets_def sample_request_def CRLF_def framing_eval)

lemma sample_short: "length sample_octets < 2 ^ 64"
  by (simp add: sample_octets_def CRLF_def)

text \<open>
  C7. A message the parser accepts is printed to octets that the parser accepts again, and the second
  parse returns the same message except that every Content-Length value states the length of the
  body; printing that message gives the same octets, so one round trip reaches a fixed point.
  \<open>length d < 2 ^ 64\<close> holds of every slice on a 64-bit platform.
\<close>
theorem parsed_message_reparses:
  assumes "message_parse d = Inr m" "length d < 2 ^ 64"
  shows "message_parse (message_to_bytes m) = Inr (canonical m) \<and>
         message_to_bytes (canonical m) = message_to_bytes m"
  using message_parse_to_bytes [OF message_parse_wf [OF assms]] by (simp add: message_to_bytes_canonical)

theorem parsed_message_reparses_witness:
  "message_parse sample_octets = Inr (MRequest sample_request) \<and>
   message_parse (message_to_bytes (MRequest sample_request)) =
     Inr (canonical (MRequest sample_request))"
  using parsed_message_reparses [OF sample_parses sample_short] by (simp add: sample_parses)

text \<open>
  C13. Printing then parsing is the identity up to Content-Length for every well-formed message, built
  or parsed: the version is SIP/2.0, the Request-URI parses and has no white space, the status code
  and reason phrase are legal, and the headers are printable lines within the limits.
\<close>
theorem print_parse_round_trip:
  "wf_message m \<Longrightarrow> message_parse (message_to_bytes m) = Inr (canonical m)"
  by (rule message_parse_to_bytes)

theorem print_parse_round_trip_witness:
  "wf_message (MResponse sample_response) \<and>
   message_parse (message_to_bytes (MResponse sample_response)) =
     Inr (MResponse (sample_response\<lparr>rs_headers := [HTo ''<sip:a>'', HContentLength ''3'']\<rparr>))"
proof -
  have wf: "wf_message (MResponse sample_response)"
    by (simp add: sample_response_def wf_response_def wire_header_def wf_header_def status_line_def
        forbidden_ctl_def to_dec.simps MAX_START_LINE_LEN_def MAX_HEADER_VALUE_LEN_def
        MAX_HEADERS_def LF_def ascii_simps tight_graphic)
  from print_parse_round_trip [OF wf] wf show ?thesis
    by (simp add: canonical_response_def sample_response_def set_length_def to_dec.simps ascii_simps)
qed

text \<open>
  A parsed request always carries a Request-URI that parses: the accessor that parses the stored
  text again cannot fail on any input a peer sends.
\<close>
theorem parsed_request_uri_parses:
  assumes "request_parse d = Inr r" shows "is_ok (uri_parse (rq_uri r))"
proof -
  from assms obtain start where "parse_request_line start = Inr (rq_method r, rq_uri r, rq_version r)"
    by (auto simp: request_parse_def and_then_Inr_iff)
  then show ?thesis by (rule parse_request_line_Inr)
qed

theorem parsed_request_uri_parses_witness:
  "request_parse sample_octets = Inr sample_request \<and> is_ok (uri_parse (rq_uri sample_request))"
  using parsed_request_uri_parses [OF sample_request_parses] by (simp add: sample_request_parses)

text \<open>
  The parser enforces its limits on every accepted message: at most 256 headers, no header value
  beyond 8192 octets, the printed start line within 4096 octets, and a status code in 100..699.
\<close>
theorem parsed_message_bounds:
  assumes "message_parse d = Inr m" "length d < 2 ^ 64"
  shows "case m of
      MRequest r \<Rightarrow> length (rq_headers r) \<le> 256 \<and> length (request_line r) \<le> 4096 \<and>
        list_all (\<lambda>h. length (header_value h) \<le> 8192) (rq_headers r)
    | MResponse r \<Rightarrow> length (rs_headers r) \<le> 256 \<and> length (status_line r) \<le> 4096 \<and>
        100 \<le> rs_status_code r \<and> rs_status_code r \<le> 699 \<and>
        list_all (\<lambda>h. length (header_value h) \<le> 8192) (rs_headers r)"
  using message_parse_wf [OF assms]
  by (cases m)
     (auto simp: wf_request_def wf_response_def list_all_iff wire_header_def wf_header_def
       MAX_HEADERS_def MAX_START_LINE_LEN_def MAX_HEADER_VALUE_LEN_def)

theorem parsed_message_bounds_witness:
  "message_parse sample_octets = Inr (MRequest sample_request) \<and>
   length (rq_headers sample_request) \<le> 256"
  using parsed_message_bounds [OF sample_parses sample_short] by (simp add: sample_parses)

text \<open>
  Splitting a message finds the header/body boundary at the first CRLFCRLF, or at the first LFLF
  when the octets have no CRLFCRLF, and loses nothing: the octets are the head, that separator and
  the body.
\<close>
theorem split_message_boundary:
  assumes "split_message d = Inr (start, block, body)"
  shows "\<exists>head sep. d = head @ sep @ body \<and> split_first_line head = (start, block) \<and>
    (sep = separator \<and> find_sub separator d = Some (length head) \<or>
     sep = [LF, LF] \<and> find_sub separator d = None \<and> find_sub [LF, LF] d = Some (length head))"
proof -
  from assms obtain i n where sep: "find_separator d = Some (i, n)"
    and first: "split_first_line (take i d) = (start, block)" and body: "body = drop (i + n) d"
    by (auto simp: split_message_def and_then_Inr_iff Let_def split: if_splits prod.splits)
  from sep have "n = 4 \<and> find_sub separator d = Some i \<or>
      n = 2 \<and> find_sub separator d = None \<and> find_sub [LF, LF] d = Some i"
    by (auto simp: find_separator_def find_subslice_eq split: option.splits)
  then show ?thesis
  proof (elim disjE conjE)
    assume f: "n = 4" "find_sub separator d = Some i"
    have "d = take i d @ separator @ body" "length (take i d) = i"
      using find_sub_split [OF f(2)] find_sub_SomeD [OF f(2)] body f(1) by (simp_all add: numeral_eq_Suc)
    with f first show ?thesis by metis
  next
    assume f: "n = 2" "find_sub separator d = None" "find_sub [LF, LF] d = Some i"
    have "d = take i d @ [LF, LF] @ body" "length (take i d) = i"
      using find_sub_split [OF f(3)] find_sub_SomeD [OF f(3)] body f(1) by (simp_all add: numeral_eq_Suc)
    with f first show ?thesis by metis
  qed
qed

theorem split_message_boundary_witness:
  "\<exists>head sep. sample_octets = head @ sep \<and> sep \<in> {separator, [LF, LF]} \<and>
     split_first_line head = (''OPTIONS sip:a SIP/2.0'', ''l: 0'')"
proof -
  have "split_message sample_octets = Inr (''OPTIONS sip:a SIP/2.0'', ''l: 0'', [])"
    by (simp add: sample_octets_def CRLF_def framing_eval)
  from split_message_boundary [OF this] show ?thesis by auto
qed

end
