(* ===== verification/Sip_Typed.thy ===== *)
theory Sip_Typed
  imports Sip_Framing
begin

text \<open>
  The typed header values: name-addresses (\<open>sip/parser/name_addr.rs\<close>), From, To, Contact, Via and
  CSeq (\<open>sip/parser/typed\<close>), and the wrappers of \<open>sip/headers.rs\<close> (Via, Record-Route, Route,
  option tags, session timers, reliable provisional responses). The lemmas show that printing a
  typed value and parsing the text gives the value back.
\<close>

section \<open>Parameter chains\<close>

text \<open>
  The length of the parameter text in front of the next \<open>;\<close> that is outside a quoted string, as the
  inner loop of \<open>parse_params\<close> finds it. The flag says whether the scan is inside quotes.
\<close>

fun chunk_len :: "bool \<Rightarrow> string \<Rightarrow> nat" where
  "chunk_len quoted [] = 0"
| "chunk_len True (b # bs) =
     (if b = BSLASH then (case bs of [] \<Rightarrow> 1 | c # cs \<Rightarrow> 2 + chunk_len True cs)
      else 1 + chunk_len (b \<noteq> DQUOTE) bs)"
| "chunk_len False (b # bs) =
     (if b = DQUOTE then 1 + chunk_len True bs
      else if b = CHR '';'' then 0
      else 1 + chunk_len False bs)"

definition chunk_param :: "string \<Rightarrow> param option" where
  "chunk_param raw =
     (let chunk = trim raw in
      if chunk = [] then None
      else (case find_char (CHR ''='') chunk of
              Some eq \<Rightarrow> Some (trim (take eq chunk), Some (trim (drop (eq + 1) chunk)))
            | None \<Rightarrow> Some (chunk, None)))"

function chunks :: "string \<Rightarrow> string list" where
  "chunks s =
     (if s = [] then []
      else take (chunk_len False s) s # chunks (drop (chunk_len False s + 1) s))"
  by pat_completeness auto
termination by (relation "measure length") auto

declare chunks.simps [simp del]

definition parse_params :: "string \<Rightarrow> sip_error + param list" where
  "parse_params input =
     (let s = trim_start input in
      if s = [] then Inr []
      else if \<not> starts_with '';'' s then Inl ErrInvalidHeader
      else Inr (List.map_filter chunk_param (chunks (tl s))))"

definition find_key :: "string \<Rightarrow> param list \<Rightarrow> string option" where
  "find_key name ps =
     (case find (\<lambda>(k, _). eq_ignore_ascii_case k name) ps of Some (_, v) \<Rightarrow> v | None \<Rightarrow> None)"

section \<open>Name-addresses\<close>

record name_addr =
  na_display_name :: "string option"
  na_uri :: sip_uri
  na_parameters :: "param list"

fun quoted_loop :: "string \<Rightarrow> string \<Rightarrow> sip_error + (string \<times> string)" where
  "quoted_loop out [] = Inl ErrInvalidHeader"
| "quoted_loop out (b # bs) =
     (if b = DQUOTE then
        (if utf8_valid out then Inr (out, bs) else Inl ErrInvalidHeader)
      else if b = BSLASH then
        (case bs of [] \<Rightarrow> Inl ErrInvalidHeader | c # cs \<Rightarrow> quoted_loop (out @ [c]) cs)
      else quoted_loop (out @ [b]) bs)"

definition parse_quoted_string :: "string \<Rightarrow> sip_error + (string \<times> string)" where
  "parse_quoted_string s = quoted_loop [] (drop 1 s)"

fun angle_scan :: "bool \<Rightarrow> string \<Rightarrow> nat option" where
  "angle_scan quoted [] = None"
| "angle_scan True (b # bs) =
     (if b = BSLASH then
        (case bs of [] \<Rightarrow> None | c # cs \<Rightarrow> map_option (\<lambda>i. i + 2) (angle_scan True cs))
      else map_option Suc (angle_scan (b \<noteq> DQUOTE) bs))"
| "angle_scan False (b # bs) =
     (if b = DQUOTE then map_option Suc (angle_scan True bs)
      else if b = CHR ''<'' then Some 0
      else map_option Suc (angle_scan False bs))"

definition find_angle_bracket :: "string \<Rightarrow> nat option" where
  "find_angle_bracket s = angle_scan False s"

definition split_display_name :: "string \<Rightarrow> sip_error + (string option \<times> string)" where
  "split_display_name s =
     (if starts_with [DQUOTE] s then
        and_then (parse_quoted_string s) (\<lambda>(name, after).
          let after = trim_start after in
          if \<not> starts_with ''<'' after then Inl ErrInvalidHeader else Inr (Some name, after))
      else
        (case find_angle_bracket s of
           Some lt \<Rightarrow>
             (let leading = trim (take lt s) in
              Inr (if leading = [] then None else Some leading, drop lt s))
         | None \<Rightarrow> Inr (None, s)))"

definition split_addr_spec :: "string \<Rightarrow> sip_error + (string \<times> string)" where
  "split_addr_spec rest =
     (case strip_prefix ''<'' rest of
        Some rest_inner \<Rightarrow>
          (case find_char (CHR ''>'') rest_inner of
             None \<Rightarrow> Inl ErrInvalidHeader
           | Some close \<Rightarrow> Inr (take close rest_inner, drop (close + 1) rest_inner))
      | None \<Rightarrow>
          (case find_char (CHR '';'') rest of
             Some i \<Rightarrow> Inr (take i rest, drop i rest)
           | None \<Rightarrow> Inr (rest, [])))"

definition name_addr_parse :: "string \<Rightarrow> sip_error + name_addr" where
  "name_addr_parse input =
     (let s = trim input in
      if s = [] then Inl ErrInvalidHeader
      else and_then (split_display_name s) (\<lambda>(display_name, rest).
           and_then (split_addr_spec rest) (\<lambda>(uri_text, after_uri).
           and_then (map_err (\<lambda>_. ErrInvalidHeader) (uri_parse (trim uri_text))) (\<lambda>uri.
           and_then (parse_params after_uri) (\<lambda>parameters.
           Inr \<lparr>na_display_name = display_name, na_uri = uri, na_parameters = parameters\<rparr>)))))"

definition na_tag :: "name_addr \<Rightarrow> string option" where
  "na_tag na = find_key ''tag'' (na_parameters na)"

definition is_token_char :: "char \<Rightarrow> bool" where
  "is_token_char b \<longleftrightarrow> is_ascii_lower b \<or> is_ascii_upper b \<or> is_ascii_digit b \<or> b \<in> set ''-.!%*_+`~'' \<or>
     code b = 39"

definition needs_quoting :: "string \<Rightarrow> bool" where
  "needs_quoting s \<longleftrightarrow> s = [] \<or> list_ex (\<lambda>b. \<not> is_token_char b) s"

definition escape_quoted :: "string \<Rightarrow> string" where
  "escape_quoted s = concat (map (\<lambda>c. if c = DQUOTE \<or> c = BSLASH then [BSLASH, c] else [c]) s)"

definition name_addr_display :: "name_addr \<Rightarrow> string" where
  "name_addr_display na =
     (case na_display_name na of
        Some name \<Rightarrow>
          (if needs_quoting name then [DQUOTE] @ escape_quoted name @ [DQUOTE] @ '' '' else name @ '' '')
      | None \<Rightarrow> []) @
     ''<'' @ uri_display (na_uri na) @ ''>'' @ concat (map display_param (na_parameters na))"

section \<open>From, To and Contact\<close>

record from_header =
  from_display_name :: "string option"
  from_uri_value :: sip_uri
  from_params :: "param list"

record to_header =
  to_display_name :: "string option"
  to_uri_value :: sip_uri
  to_params :: "param list"

definition from_parse :: "string \<Rightarrow> sip_error + from_header" where
  "from_parse value =
     and_then (name_addr_parse value) (\<lambda>na.
     Inr \<lparr>from_display_name = na_display_name na, from_uri_value = na_uri na,
          from_params = na_parameters na\<rparr>)"

definition from_header_tag :: "from_header \<Rightarrow> string option" where
  "from_header_tag f = find_key ''tag'' (from_params f)"

definition to_parse :: "string \<Rightarrow> sip_error + to_header" where
  "to_parse value =
     and_then (name_addr_parse value) (\<lambda>na.
     Inr \<lparr>to_display_name = na_display_name na, to_uri_value = na_uri na,
          to_params = na_parameters na\<rparr>)"

definition to_header_tag :: "to_header \<Rightarrow> string option" where
  "to_header_tag t = find_key ''tag'' (to_params t)"

record contact_addr =
  ca_display_name :: "string option"
  ca_uri :: sip_uri
  ca_params :: "param list"

datatype contact = CWildcard "param list" | CAddr contact_addr

definition is_wildcard :: "contact \<Rightarrow> bool" where
  "is_wildcard c \<longleftrightarrow> (case c of CWildcard _ \<Rightarrow> True | CAddr _ \<Rightarrow> False)"

definition parse_wildcard_params :: "string \<Rightarrow> sip_error + param list" where
  "parse_wildcard_params input =
     (let s = trim_start input in
      if s = [] then Inr []
      else if \<not> starts_with '';'' s then Inl ErrInvalidHeader
      else Inr (List.map_filter chunk_param (split_char (CHR '';'') (drop 1 s))))"

definition contact_parse :: "string \<Rightarrow> sip_error + contact" where
  "contact_parse value =
     (let trimmed = trim value in
      if trimmed = [] then Inl ErrInvalidHeader
      else case strip_prefix ''*'' trimmed of
        Some rest \<Rightarrow>
          and_then (parse_wildcard_params (trim_start rest)) (\<lambda>params. Inr (CWildcard params))
      | None \<Rightarrow>
          and_then (name_addr_parse trimmed) (\<lambda>na.
          Inr (CAddr \<lparr>ca_display_name = na_display_name na, ca_uri = na_uri na,
                      ca_params = na_parameters na\<rparr>)))"

definition contact_expires :: "contact \<Rightarrow> nat option" where
  "contact_expires c =
     (let params = (case c of CWildcard params \<Rightarrow> params | CAddr a \<Rightarrow> ca_params a) in
      Option.bind (find_key ''expires'' params) parse_u32)"

fun contact_display :: "contact \<Rightarrow> string" where
  "contact_display (CWildcard params) = ''*'' @ concat (map display_param params)"
| "contact_display (CAddr a) =
     name_addr_display
       \<lparr>na_display_name = ca_display_name a, na_uri = ca_uri a, na_parameters = ca_params a\<rparr>"


section \<open>Via and CSeq\<close>

record typed_via =
  tv_protocol :: string
  tv_transport :: string
  tv_sent_by :: string
  tv_params :: "param list"

text \<open>
  \<open>split_sent_by_params\<close>: the number of octets in front of the first \<open>;\<close> outside brackets, or an
  error on nested, unmatched or unterminated brackets.
\<close>

fun sent_by_scan :: "bool \<Rightarrow> string \<Rightarrow> sip_error + nat" where
  "sent_by_scan in_v6 [] = (if in_v6 then Inl ErrInvalidHeader else Inr 0)"
| "sent_by_scan in_v6 (b # bs) =
     (if b = CHR ''['' then
        (if in_v6 then Inl ErrInvalidHeader
         else and_then (sent_by_scan True bs) (\<lambda>n. Inr (n + 1)))
      else if b = CHR '']'' then
        (if \<not> in_v6 then Inl ErrInvalidHeader
         else and_then (sent_by_scan False bs) (\<lambda>n. Inr (n + 1)))
      else if b = CHR '';'' \<and> \<not> in_v6 then Inr 0
      else and_then (sent_by_scan in_v6 bs) (\<lambda>n. Inr (n + 1)))"

definition split_sent_by_params :: "string \<Rightarrow> sip_error + (string \<times> string)" where
  "split_sent_by_params rest = and_then (sent_by_scan False rest) (\<lambda>n. Inr (take n rest, drop n rest))"

definition typed_via_parse :: "string \<Rightarrow> sip_error + typed_via" where
  "typed_via_parse value =
     (let s = trim value in
      if s = [] then Inl ErrInvalidHeader
      else and_then (ok_or ErrInvalidHeader (find_char (CHR '' '') s)) (\<lambda>space.
        let proto_part = trim (take space s); rest = trim_start (drop (space + 1) s) in
        and_then (ok_or ErrInvalidHeader (rfind_char (CHR ''/'') proto_part)) (\<lambda>last_slash.
        let protocol = trim (take last_slash proto_part);
            transport = trim (drop (last_slash + 1) proto_part) in
        if protocol = [] \<or> transport = [] then Inl ErrInvalidHeader
        else if CHR ''/'' \<notin> set protocol then Inl ErrInvalidHeader
        else and_then (split_sent_by_params rest) (\<lambda>(sent_by, params_part).
          let sent_by = trim sent_by in
          if sent_by = [] then Inl ErrInvalidHeader
          else if list_ex (\<lambda>b. b = CHR '' '' \<or> b = HTAB) sent_by then Inl ErrInvalidHeader
          else and_then (parse_params params_part) (\<lambda>params.
            Inr \<lparr>tv_protocol = protocol, tv_transport = transport, tv_sent_by = sent_by,
                 tv_params = params\<rparr>)))))"

definition tv_branch :: "typed_via \<Rightarrow> string option" where
  "tv_branch v = find_key ''branch'' (tv_params v)"

definition tv_received :: "typed_via \<Rightarrow> string option" where
  "tv_received v = find_key ''received'' (tv_params v)"

definition tv_rport :: "typed_via \<Rightarrow> nat option option" where
  "tv_rport v =
     (case find (\<lambda>(k, _). eq_ignore_ascii_case k ''rport'') (tv_params v) of
        None \<Rightarrow> None
      | Some (_, None) \<Rightarrow> Some None
      | Some (_, Some t) \<Rightarrow> Some (parse_u16 t))"

definition tv_maddr :: "typed_via \<Rightarrow> string option" where
  "tv_maddr v = find_key ''maddr'' (tv_params v)"

definition tv_ttl :: "typed_via \<Rightarrow> nat option" where
  "tv_ttl v = Option.bind (find_key ''ttl'' (tv_params v)) parse_u8"

definition typed_via_display :: "typed_via \<Rightarrow> string" where
  "typed_via_display v =
     tv_protocol v @ ''/'' @ tv_transport v @ '' '' @ tv_sent_by v @
     concat (map display_param (tv_params v))"

record cseq_header =
  cs_seq :: nat
  cs_method :: p_method

definition cseq_parse :: "string \<Rightarrow> sip_error + cseq_header" where
  "cseq_parse value =
     (case split_whitespace value of
        [seq_tok, method_tok] \<Rightarrow>
          and_then (ok_or ErrInvalidHeader (parse_u32 seq_tok)) (\<lambda>seq.
          and_then (map_err (\<lambda>_. ErrInvalidHeader) (p_method_from_str method_tok)) (\<lambda>method.
          Inr \<lparr>cs_seq = seq, cs_method = method\<rparr>))
      | _ \<Rightarrow> Inl ErrInvalidHeader)"

definition cseq_display :: "cseq_header \<Rightarrow> string" where
  "cseq_display c = to_dec (cs_seq c) @ '' '' @ p_method_as_str (cs_method c)"

section \<open>The wrappers of the outer layer\<close>

record hdr_via =
  hv_protocol :: string
  hv_host :: string
  hv_port :: nat
  hv_branch :: string
  hv_received :: "string option"
  hv_rport :: "nat option"

definition hv_host_port :: "string \<Rightarrow> string \<times> nat" where
  "hv_host_port host_port =
     (case rfind_char (CHR '':'') host_port of
        Some idx \<Rightarrow>
          (let port_str = drop (idx + 1) host_port in
           if list_all is_ascii_digit port_str \<and> CHR ''['' \<notin> set host_port
           then (take idx host_port, case parse_u16 port_str of Some p \<Rightarrow> p | None \<Rightarrow> 5060)
           else (host_port, 5060))
      | None \<Rightarrow> (host_port, 5060))"

fun hv_params_loop ::
  "string \<times> string option \<times> nat option \<Rightarrow> string list \<Rightarrow> string \<times> string option \<times> nat option"
where
  "hv_params_loop acc [] = acc"
| "hv_params_loop (branch, received, rport) (raw # rest) =
     (let param = trim raw in
      hv_params_loop
        (case strip_prefix ''branch='' param of
           Some value \<Rightarrow> (value, received, rport)
         | None \<Rightarrow>
            (case strip_prefix ''received='' param of
               Some value \<Rightarrow> (branch, Some value, rport)
             | None \<Rightarrow>
                (case strip_prefix ''rport='' param of
                   Some value \<Rightarrow> (branch, received, parse_u16 value)
                 | None \<Rightarrow> if param = ''rport'' then (branch, received, None)
                           else (branch, received, rport))))
        rest)"

definition hdr_via_parse :: "string \<Rightarrow> sip_error + hdr_via" where
  "hdr_via_parse input =
     (case splitn_char 2 (CHR '' '') (trim input) of
        [proto, rest] \<Rightarrow>
          (let protocol = last (split_char (CHR ''/'') proto) in
           if protocol = [] then Inl ErrParse
           else
             let (host_port, params) =
                   (case find_char (CHR '';'') rest of
                      Some idx \<Rightarrow> (take idx rest, Some (drop (idx + 1) rest))
                    | None \<Rightarrow> (rest, None));
                 (host, port) = hv_host_port host_port;
                 (branch, received, rport) =
                   (case params of
                      Some str \<Rightarrow> hv_params_loop ([], None, None) (split_char (CHR '';'') str)
                    | None \<Rightarrow> ([], None, None))
             in if branch = [] then Inl ErrParse
                else Inr \<lparr>hv_protocol = protocol, hv_host = host, hv_port = port,
                          hv_branch = branch, hv_received = received, hv_rport = rport\<rparr>)
      | _ \<Rightarrow> Inl ErrParse)"

definition hdr_via_display :: "hdr_via \<Rightarrow> string" where
  "hdr_via_display v =
     ''SIP/2.0/'' @ hv_protocol v @ '' '' @ hv_host v @ '':'' @ to_dec (hv_port v) @
     '';branch='' @ hv_branch v @
     (case hv_received v of Some r \<Rightarrow> '';received='' @ r | None \<Rightarrow> []) @
     (case hv_rport v of Some p \<Rightarrow> '';rport='' @ to_dec p | None \<Rightarrow> [])"

record route_header =
  rt_uri :: sip_uri
  rt_lr :: bool

definition route_parse :: "string \<Rightarrow> sip_error + route_header" where
  "route_parse input =
     (let value = trim input in
      if starts_with ''<'' value then
        (case find_char (CHR ''>'') value of
           None \<Rightarrow> Inl ErrParse
         | Some gt_pos \<Rightarrow>
             (let uri_str = drop 1 (take gt_pos value);
                  params = (if gt_pos + 1 < length value then Some (drop (gt_pos + 1) value) else None)
              in and_then (uri_parse uri_str) (\<lambda>uri.
                 Inr \<lparr>rt_uri = uri,
                      rt_lr = (case params of Some p \<Rightarrow> contains_sub ''lr'' p | None \<Rightarrow> False)\<rparr>)))
      else Inl ErrParse)"

definition route_parse_all :: "string list \<Rightarrow> route_header list" where
  "route_parse_all values =
     List.map_filter (\<lambda>part. ok (route_parse part))
       (concat (map (split_char (CHR '','')) values))"

definition route_display :: "route_header \<Rightarrow> string" where
  "route_display r = ''<'' @ uri_display (rt_uri r) @ ''>'' @ (if rt_lr r then '';lr'' else [])"

type_synonym route_set = "route_header list"

definition from_record_routes :: "route_header list \<Rightarrow> bool \<Rightarrow> route_set" where
  "from_record_routes record_routes reverse = (if reverse then rev record_routes else record_routes)"

definition route_set_first :: "route_set \<Rightarrow> route_header option" where
  "route_set_first rs = (case rs of [] \<Rightarrow> None | r # _ \<Rightarrow> Some r)"

definition route_set_push :: "route_set \<Rightarrow> route_header \<Rightarrow> route_set" where
  "route_set_push rs r = rs @ [r]"

subsection \<open>Option tags, session timers and reliable provisional responses\<close>

definition parse_option_tags :: "string \<Rightarrow> sip_error + string list" where
  "parse_option_tags value =
     (let tags = filter (\<lambda>t. t \<noteq> [])
                   (map (\<lambda>t. to_ascii_lowercase (trim t)) (split_char (CHR '','') value))
      in if tags = [] then Inl ErrParse else Inr tags)"

definition require_parse :: "string \<Rightarrow> sip_error + string list" where
  "require_parse value = parse_option_tags value"

definition supported_parse :: "string \<Rightarrow> sip_error + string list" where
  "supported_parse value = parse_option_tags value"

definition option_tags_display :: "string list \<Rightarrow> string" where
  "option_tags_display tags = join '', '' tags"

datatype refresher = Uac | Uas

definition refresher_parse :: "string \<Rightarrow> sip_error + refresher" where
  "refresher_parse value =
     (let t = to_ascii_lowercase (trim value) in
      if t = ''uac'' then Inr Uac else if t = ''uas'' then Inr Uas else Inl ErrParse)"

fun refresher_display :: "refresher \<Rightarrow> string" where
  "refresher_display Uac = ''uac''"
| "refresher_display Uas = ''uas''"

record session_expires =
  se_delta_seconds :: nat
  se_refresher :: "refresher option"

fun se_params_loop :: "refresher option \<Rightarrow> string list \<Rightarrow> sip_error + refresher option" where
  "se_params_loop acc [] = Inr acc"
| "se_params_loop acc (raw # rest) =
     (let param = trim raw in
      if param = [] then se_params_loop acc rest
      else (case find_char (CHR ''='') param of
              Some i \<Rightarrow>
                if eq_ignore_ascii_case (trim (take i param)) ''refresher''
                then and_then (refresher_parse (trim (drop (i + 1) param)))
                       (\<lambda>r. se_params_loop (Some r) rest)
                else se_params_loop acc rest
            | None \<Rightarrow> se_params_loop acc rest))"

definition session_expires_parse :: "string \<Rightarrow> sip_error + session_expires" where
  "session_expires_parse input =
     (let value = trim input;
          (head, params) =
            (case find_char (CHR '';'') value of
               Some idx \<Rightarrow> (take idx value, Some (drop (idx + 1) value))
             | None \<Rightarrow> (value, None))
      in and_then (ok_or ErrParse (parse_u32 (trim head))) (\<lambda>delta.
         and_then (case params of
                     Some str \<Rightarrow> se_params_loop None (split_char (CHR '';'') str)
                   | None \<Rightarrow> Inr None) (\<lambda>r.
         Inr \<lparr>se_delta_seconds = delta, se_refresher = r\<rparr>)))"

definition session_expires_display :: "session_expires \<Rightarrow> string" where
  "session_expires_display se =
     (case se_refresher se of
        Some r \<Rightarrow> to_dec (se_delta_seconds se) @ '';refresher='' @ refresher_display r
      | None \<Rightarrow> to_dec (se_delta_seconds se))"

definition min_se_parse :: "string \<Rightarrow> sip_error + nat" where
  "min_se_parse value =
     (let head = (case find_char (CHR '';'') value of Some idx \<Rightarrow> take idx value | None \<Rightarrow> value)
      in ok_or ErrParse (parse_u32 (trim head)))"

definition rseq_parse :: "string \<Rightarrow> sip_error + nat" where
  "rseq_parse value = ok_or ErrParse (parse_u32 (trim value))"

record rack =
  rack_rseq :: nat
  rack_cseq :: nat
  rack_method :: sip_method

definition parse_method :: "string \<Rightarrow> sip_error + sip_method" where
  "parse_method value =
     ok_or ErrParse
       (map_option fst (find (\<lambda>(m, name). to_ascii_uppercase value = name) sip_methods_all))"

definition rack_parse :: "string \<Rightarrow> sip_error + rack" where
  "rack_parse value =
     (case split_whitespace value of
        [p0, p1, p2] \<Rightarrow>
          and_then (ok_or ErrParse (parse_u32 p0)) (\<lambda>rseq.
          and_then (ok_or ErrParse (parse_u32 p1)) (\<lambda>cseq.
          and_then (parse_method p2) (\<lambda>method.
          Inr \<lparr>rack_rseq = rseq, rack_cseq = cseq, rack_method = method\<rparr>)))
      | _ \<Rightarrow> Inl ErrParse)"

definition rack_display :: "rack \<Rightarrow> string" where
  "rack_display r =
     to_dec (rack_rseq r) @ '' '' @ to_dec (rack_cseq r) @ '' '' @ sip_method_display (rack_method r)"


section \<open>Texts and their parsers\<close>

text \<open>
  A printer and a parser for one kind of value: what is printed of a well-formed value parses back.
  The second interface puts the printed text into a header line.
\<close>

locale codec =
  fixes print :: "'a \<Rightarrow> string" and parse :: "string \<Rightarrow> sip_error + 'a" and wf :: "'a \<Rightarrow> bool"
  assumes parse_print: "wf x \<Longrightarrow> parse (print x) = Inr x"
begin

lemma print_inj: "wf x \<Longrightarrow> wf y \<Longrightarrow> print x = print y \<longleftrightarrow> x = y"
  by (metis parse_print sum.inject(2))

end

locale header_codec = codec +
  fixes mk :: "string \<Rightarrow> header"
  assumes mk_value: "header_value (mk v) = v"
    and mk_wf: "wf x \<Longrightarrow> length (print x) \<le> MAX_HEADER_VALUE_LEN \<Longrightarrow> wf_header (mk (print x))"
begin

lemma line_round_trip:
  assumes "wf x" "length (print x) \<le> MAX_HEADER_VALUE_LEN"
  shows "and_then (parse_line (header_line (mk (print x)))) (\<lambda>h. parse (header_value h)) = Inr x"
  using parse_line_header_line [OF mk_wf [OF assms]] assms(1) by (simp add: mk_value parse_print)

end

subsection \<open>URIs, CSeq, RAck and Session-Expires\<close>

interpretation uri_codec: codec uri_display uri_parse wf_uri
  by unfold_locales (rule uri_parse_display)

definition wf_cseq :: "cseq_header \<Rightarrow> bool" where
  "wf_cseq c \<longleftrightarrow> cs_seq c < 2 ^ 32"

definition wf_rack :: "rack \<Rightarrow> bool" where
  "wf_rack r \<longleftrightarrow> rack_rseq r < 2 ^ 32 \<and> rack_cseq r < 2 ^ 32"

definition wf_session_expires :: "session_expires \<Rightarrow> bool" where
  "wf_session_expires se \<longleftrightarrow> se_delta_seconds se < 2 ^ 32"

lemma tight_tokens:
  assumes "graphic a" "a \<noteq> []" "graphic c" "c \<noteq> []" shows "tight (a @ b @ c)"
proof -
  obtain x a' where a: "a = x # a'" using assms(2) by (cases a) auto
  obtain y c' where c: "rev c = y # c'" using assms(4) by (cases "rev c") auto
  then have "y \<in> set c" by (metis list.set_intros(1) set_rev)
  with assms(3) have "33 \<le> code y \<and> code y \<le> 126" by (simp add: graphic_def)
  with assms(1) a c show ?thesis by (simp add: tight_def)
qed

lemma to_dec_token [simp]: "ws_free (to_dec n)"
  by (rule ws_free_graphic [OF graphic_to_dec])

lemma cseq_parse_display: "wf_cseq c \<Longrightarrow> cseq_parse (cseq_display c) = Inr c"
  by (simp add: cseq_parse_def cseq_display_def wf_cseq_def split_whitespace_two
      ws_free_graphic method_text)

lemma tight_cseq: "tight (cseq_display c)"
  unfolding cseq_display_def by (intro tight_tokens) (simp_all add: method_text)

interpretation cseq_codec: header_codec cseq_display cseq_parse wf_cseq HCSeq
  by unfold_locales (simp_all add: cseq_parse_display wf_header_def tight_cseq)

lemma graphic_sip_method: "graphic (sip_method_display m)" "sip_method_display m \<noteq> []"
  by (cases m; simp)+

lemma parse_method_display: "parse_method (sip_method_display m) = Inr m"
  by (cases m) (simp_all add: parse_method_def sip_methods_all_def ascii_simps)

lemma rack_parse_display: "wf_rack r \<Longrightarrow> rack_parse (rack_display r) = Inr r"
  by (simp add: rack_parse_def rack_display_def wf_rack_def split_whitespace_three
      ws_free_graphic graphic_sip_method parse_method_display)

lemma tight_rack: "tight (rack_display r)"
  using tight_tokens [of "to_dec (rack_rseq r)" "sip_method_display (rack_method r)"
      "'' '' @ to_dec (rack_cseq r) @ '' ''"]
  by (simp add: rack_display_def graphic_sip_method)

lemma wf_other_names: "wf_other_name ''RAck''" "wf_other_name ''Session-Expires''"
  by (simp_all add: wf_other_name_def known_names_def name_eval tight_graphic)

interpretation rack_codec: header_codec rack_display rack_parse wf_rack "HOther ''RAck''"
  by unfold_locales (simp_all add: rack_parse_display wf_header_def tight_rack wf_other_names)

lemma refresher_text: "trim (refresher_display r) = refresher_display r"
  "CHR '';'' \<notin> set (refresher_display r)" "graphic (refresher_display r)"
  by (cases r; simp add: tight_graphic)+

lemma refresher_parse_display: "refresher_parse (refresher_display r) = Inr r"
  by (cases r) (simp_all add: refresher_parse_def tight_graphic ascii_simps)

lemma se_param:
  "se_params_loop None [''refresher='' @ refresher_display r] = Inr (Some r)"
proof -
  have "trim (''refresher='' @ refresher_display r) = ''refresher='' @ refresher_display r"
    by (intro trim_tight tight_graphic) (simp add: refresher_text)
  moreover have "find_char (CHR ''='') (''refresher='' @ refresher_display r) = Some 9"
    by simp
  ultimately show ?thesis
    by (simp add: refresher_text refresher_parse_display tight_graphic)
qed

lemma graphic_session_expires: "graphic (session_expires_display se)"
  by (simp add: session_expires_display_def refresher_text split: option.splits)

lemma session_expires_parse_display:
  assumes "wf_session_expires se"
  shows "session_expires_parse (session_expires_display se) = Inr se"
proof (cases "se_refresher se")
  case None
  with assms show ?thesis
    by (simp add: session_expires_parse_def session_expires_display_def wf_session_expires_def
        tight_graphic find_char_None [THEN iffD2])
next
  case (Some r)
  have "split_char (CHR '';'') (''refresher='' @ refresher_display r) = [''refresher='' @ refresher_display r]"
    by (intro split_char_single) (simp add: refresher_text)
  with Some assms se_param [of r] graphic_session_expires [of se] show ?thesis
    by (simp add: session_expires_parse_def session_expires_display_def wf_session_expires_def
        tight_graphic find_char_append)
qed

interpretation session_expires_codec: header_codec session_expires_display session_expires_parse
  wf_session_expires "HOther ''Session-Expires''"
  by unfold_locales (simp_all add: session_expires_parse_display wf_header_def wf_other_names
      tight_graphic graphic_session_expires)


subsection \<open>Parameter chains\<close>

text \<open>Without quotes the scanner cuts at every semicolon.\<close>

lemma chunk_len_append:
  "DQUOTE \<notin> set s \<Longrightarrow> CHR '';'' \<notin> set s \<Longrightarrow> chunk_len False (s @ t) = length s + chunk_len False t"
  by (induction s) auto

lemma chunks_Nil [simp]: "chunks [] = []"
  by (subst chunks.simps) simp

lemma chunks_single: "DQUOTE \<notin> set s \<Longrightarrow> CHR '';'' \<notin> set s \<Longrightarrow> s \<noteq> [] \<Longrightarrow> chunks s = [s]"
  using chunk_len_append [of s "[]"] by (subst chunks.simps) simp

lemma semicolon_not_quote [simp]: "CHR '';'' \<noteq> DQUOTE" "DQUOTE \<noteq> CHR '';''"
  by (simp_all add: DQUOTE_def ascii_simps)

lemma chunks_Cons:
  assumes "DQUOTE \<notin> set s" "CHR '';'' \<notin> set s"
  shows "chunks (s @ CHR '';'' # t) = s # chunks t"
  using chunk_len_append [OF assms, of "CHR '';'' # t"] by (subst chunks.simps) simp

lemma chunk_param_Nil [simp]: "chunk_param [] = None"
  by (simp add: chunk_param_def)

lemma chunks_split_char:
  "DQUOTE \<notin> set s \<Longrightarrow>
     List.map_filter chunk_param (chunks s) = List.map_filter chunk_param (split_char (CHR '';'') s)"
proof (induction "length s" arbitrary: s rule: less_induct)
  case less
  show ?case
  proof (cases "CHR '';'' \<in> set s")
    case False
    with less.prems show ?thesis
      by (cases "s = []") (simp_all add: chunks_single split_char_single map_filter_simps)
  next
    case True
    then obtain a b where s: "s = a @ CHR '';'' # b" "CHR '';'' \<notin> set a"
      by (meson split_list_first)
    with less.hyps [of b] less.prems show ?thesis
      by (simp add: chunks_Cons split_char_append map_filter_simps split: option.split)
  qed
qed

definition wf_hparam :: "param \<Rightarrow> bool" where
  "wf_hparam p \<longleftrightarrow>
     fst p \<noteq> [] \<and> graphic (fst p) \<and> sep_free [CHR ''='', CHR '';'', DQUOTE] (fst p) \<and>
     (case snd p of None \<Rightarrow> True | Some v \<Rightarrow> graphic v \<and> sep_free [CHR '';'', DQUOTE] v)"

lemma hparam_text:
  assumes "wf_hparam p"
  shows "CHR '';'' \<notin> set (tl (display_param p))" "DQUOTE \<notin> set (display_param p)"
    "graphic (display_param p)" "chunk_param (tl (display_param p)) = Some p"
proof -
  obtain k v where p: "p = (k, v)" by (cases p)
  show "CHR '';'' \<notin> set (tl (display_param p))" "graphic (display_param p)"
    using assms by (cases v; auto simp: p wf_hparam_def sep_free_def)+
  show "DQUOTE \<notin> set (display_param p)"
    using assms by (cases v) (auto simp: p wf_hparam_def sep_free_def DQUOTE_def ascii_simps)
  show "chunk_param (tl (display_param p)) = Some p"
  proof (cases v)
    case None
    with assms show ?thesis
      by (simp add: p wf_hparam_def chunk_param_def tight_graphic sep_free_def
          find_char_None [THEN iffD2])
  next
    case (Some w)
    with assms have "graphic (k @ CHR ''='' # w)" "CHR ''='' \<notin> set k" "graphic k" "graphic w"
      by (simp_all add: p wf_hparam_def sep_free_def)
    with Some show ?thesis
      by (simp add: p chunk_param_def tight_graphic find_char_append)
  qed
qed

lemma params_text:
  assumes "list_all wf_hparam ps"
  shows "graphic (concat (map display_param ps))" "DQUOTE \<notin> set (concat (map display_param ps))"
    "parse_params (concat (map display_param ps)) = Inr ps"
proof -
  show g: "graphic (concat (map display_param ps))" and q: "DQUOTE \<notin> set (concat (map display_param ps))"
    using assms by (induction ps) (simp_all add: hparam_text)
  show "parse_params (concat (map display_param ps)) = Inr ps"
  proof (cases ps)
    case (Cons p qs)
    define t where "t = tl (concat (map display_param ps))"
    have shape: "concat (map display_param ps) = CHR '';'' # t"
      unfolding t_def using display_param_Cons [of p] by (simp add: Cons) (metis append_Cons list.sel(3))
    have "split_char (CHR '';'') t = map (tl \<circ> display_param) ps"
      unfolding Cons t_def using assms
      by (intro split_char_params) (auto simp: Cons list_all_iff hparam_text)
    moreover have "List.map_filter chunk_param (map (tl \<circ> display_param) ps) = ps"
      using assms by (induction ps) (simp_all add: map_filter_simps hparam_text)
    moreover have "DQUOTE \<notin> set t" using q unfolding shape by simp
    ultimately have "List.map_filter chunk_param (chunks t) = ps"
      by (simp add: chunks_split_char)
    then show ?thesis
      unfolding parse_params_def shape by (simp add: trim_start_id)
  qed (simp add: parse_params_def)
qed

subsection \<open>Via\<close>

definition wf_via :: "typed_via \<Rightarrow> bool" where
  "wf_via v \<longleftrightarrow>
     graphic (tv_protocol v) \<and> CHR ''/'' \<in> set (tv_protocol v) \<and>
     graphic (tv_transport v) \<and> tv_transport v \<noteq> [] \<and> CHR ''/'' \<notin> set (tv_transport v) \<and>
     graphic (tv_sent_by v) \<and> tv_sent_by v \<noteq> [] \<and>
     sent_by_scan False (tv_sent_by v) = Inr (length (tv_sent_by v)) \<and>
     list_all wf_hparam (tv_params v)"

lemma sent_by_scan_append:
  "sent_by_scan q s = Inr (length s) \<Longrightarrow> sent_by_scan q (s @ CHR '';'' # t) = Inr (length s)"
proof (induction q s rule: sent_by_scan.induct)
  case (2 q b bs)
  then show ?case
    by (auto simp: and_then_Inr_iff split: if_splits)
qed (simp split: if_splits)

lemma split_sent_by_display:
  assumes "wf_via v"
  shows "split_sent_by_params (tv_sent_by v @ concat (map display_param (tv_params v))) =
     Inr (tv_sent_by v, concat (map display_param (tv_params v)))"
proof (cases "tv_params v")
  case (Cons p ps)
  then obtain t where t: "concat (map display_param (tv_params v)) = CHR '';'' # t"
    using display_param_Cons [of p] by simp (metis append_Cons)
  with assms sent_by_scan_append [of False "tv_sent_by v" t] show ?thesis
    by (simp add: split_sent_by_params_def wf_via_def)
qed (use assms in \<open>simp add: split_sent_by_params_def wf_via_def\<close>)

lemma graphic_no_blank: "graphic s \<Longrightarrow> \<not> list_ex (\<lambda>b. b = CHR '' '' \<or> b = HTAB) s"
  by (auto simp: list_ex_iff graphic_def)

lemma graphic_no_space: "graphic s \<Longrightarrow> CHR '' '' \<notin> set s"
  by (auto simp: graphic_def)

text \<open>The steps of the parser on a text \<open>P R\<close> with one space and on a sent-protocol \<open>a/b\<close>.\<close>

lemma typed_via_parse_parts:
  assumes P: "graphic P" "P = a @ CHR ''/'' # b" "CHR ''/'' \<notin> set b" "b \<noteq> []" "CHR ''/'' \<in> set a"
    and R: "graphic R" "R \<noteq> []" "split_sent_by_params R = Inr (sb, ps)" "graphic sb" "sb \<noteq> []"
    and ps: "parse_params ps = Inr params"
  shows "typed_via_parse (P @ CHR '' '' # R) =
     Inr \<lparr>tv_protocol = a, tv_transport = b, tv_sent_by = sb, tv_params = params\<rparr>"
proof -
  define D where "D = P @ CHR '' '' # R"
  have D: "trim D = D" "D \<noteq> []" "find_char (CHR '' '') D = Some (length P)"
    "take (length P) D = P" "drop (length P + 1) D = R"
  proof -
    have "P \<noteq> []" using P(2) by simp
    then have "tight D" using P(1) R(1,2) tight_tokens [of P R "'' ''"] by (simp add: D_def)
    then show "trim D = D" by (rule trim_tight)
    show "find_char (CHR '' '') D = Some (length P)"
      unfolding D_def by (rule find_char_append [OF graphic_no_space [OF P(1)]])
  qed (simp_all add: D_def)
  have "trim_start R = R" using R(1,2) by (cases R) (simp_all add: trim_start_id)
  moreover have "graphic a" "graphic b" "a \<noteq> []" using P(1,2,5) by auto
  then have "trim P = P" "trim a = a" "trim b = b" "trim sb = sb" "a \<noteq> []"
    using P(1) R(4) by (simp_all add: tight_graphic)
  moreover have "rfind_char (CHR ''/'') P = Some (length a)" "take (length a) P = a"
    "drop (length a + 1) P = b"
    using P(2,3) by (simp_all add: rfind_char_append)
  ultimately show ?thesis
    unfolding D_def [symmetric] typed_via_parse_def Let_def D(1)
    using D(2-) P(4,5) R(3,5) ps graphic_no_blank [OF R(4)]
    by (simp only: ok_or_simps and_then_simps if_False if_True simp_thms prod.case)
qed

lemma typed_via_parse_display:
  assumes "wf_via v" shows "typed_via_parse (typed_via_display v) = Inr v"
proof -
  have eq: "typed_via_display v =
      (tv_protocol v @ CHR ''/'' # tv_transport v) @ CHR '' '' #
      (tv_sent_by v @ concat (map display_param (tv_params v)))"
    by (simp add: typed_via_display_def)
  have "typed_via_parse (typed_via_display v) =
      Inr \<lparr>tv_protocol = tv_protocol v, tv_transport = tv_transport v, tv_sent_by = tv_sent_by v,
           tv_params = tv_params v\<rparr>"
    unfolding eq
    by (rule typed_via_parse_parts [OF _ refl _ _ _ _ _ split_sent_by_display [OF assms]])
       (use assms in \<open>auto simp: wf_via_def params_text\<close>)
  then show ?thesis by simp
qed

lemma tight_via: "wf_via v \<Longrightarrow> tight (typed_via_display v)"
  using tight_tokens [of "tv_protocol v @ CHR ''/'' # tv_transport v"
      "tv_sent_by v @ concat (map display_param (tv_params v))" "'' ''"]
  by (simp add: typed_via_display_def wf_via_def params_text)

interpretation via_codec: header_codec typed_via_display typed_via_parse wf_via HVia
  by unfold_locales (simp_all add: typed_via_parse_display wf_header_def tight_via)


subsection \<open>Name-addresses\<close>

definition wf_name_addr :: "name_addr \<Rightarrow> bool" where
  "wf_name_addr na \<longleftrightarrow>
     (case na_display_name na of None \<Rightarrow> True | Some n \<Rightarrow> utf8_valid n) \<and>
     wf_uri (na_uri na) \<and> CHR ''>'' \<notin> set (uri_display (na_uri na)) \<and>
     list_all wf_hparam (na_parameters na)"

definition addr_text :: "name_addr \<Rightarrow> string" where
  "addr_text na =
     ''<'' @ uri_display (na_uri na) @ ''>'' @ concat (map display_param (na_parameters na))"

definition quote_text :: "string \<Rightarrow> string" where
  "quote_text name = (if needs_quoting name then [DQUOTE] @ escape_quoted name @ [DQUOTE] else name)"

lemma name_addr_display_text:
  "name_addr_display na =
     (case na_display_name na of Some name \<Rightarrow> quote_text name @ '' '' | None \<Rightarrow> []) @ addr_text na"
  by (simp add: name_addr_display_def quote_text_def addr_text_def split: option.splits)

lemma escape_not_quote [simp]: "BSLASH \<noteq> DQUOTE" "DQUOTE \<noteq> BSLASH"
  by (simp_all add: DQUOTE_def BSLASH_def ascii_simps)

lemma quoted_loop_escape:
  "quoted_loop out (escape_quoted s @ DQUOTE # r) =
     (if utf8_valid (out @ s) then Inr (out @ s, r) else Inl ErrInvalidHeader)"
  by (induction s arbitrary: out) (simp_all add: escape_quoted_def)

lemma token_graphic: "is_token_char c \<Longrightarrow> 33 \<le> code c \<and> code c \<le> 126 \<and> c \<noteq> DQUOTE \<and> c \<noteq> CHR ''<''"
  by (auto simp: is_token_char_def is_ascii_lower_def is_ascii_upper_def is_ascii_digit_def DQUOTE_def
      ascii_simps)

lemma token_name:
  assumes "\<not> needs_quoting n"
  shows "n \<noteq> []" "graphic n" "DQUOTE \<notin> set n" "CHR ''<'' \<notin> set n"
  using assms token_graphic by (auto simp: needs_quoting_def list_ex_iff graphic_def)

lemma angle_scan_append:
  "DQUOTE \<notin> set s \<Longrightarrow> CHR ''<'' \<notin> set s \<Longrightarrow>
     angle_scan False (s @ t) = map_option (\<lambda>i. length s + i) (angle_scan False t)"
proof (induction s)
  case Nil
  show ?case by (cases "angle_scan False t") simp_all
next
  case (Cons c s)
  then show ?case by (cases "angle_scan False t") auto
qed

lemma angle_start [simp]: "angle_scan False (CHR ''<'' # r) = Some 0"
  by (simp add: DQUOTE_def ascii_simps)

lemma trim_end_space: "tight n \<Longrightarrow> trim (n @ '' '') = n"
proof (cases n)
  case (Cons c m)
  assume t: "tight n"
  have "ws_len (n @ '' '') = 0"
    using t ws_len_before_space [of n "[]"] Cons by (simp add: tight_def)
  then have "trim (n @ '' '') = rev (trim_rev (CHR '' '' # rev n))"
    by (simp add: trim_def trim_end_def trim_start_id)
  also have "trim_rev (CHR '' '' # rev n) = rev n"
    using t by (subst trim_rev.simps) (simp add: ws_len_rev_space trim_rev_id tight_def)
  finally show ?thesis by simp
qed simp

lemma split_display_name_none: "split_display_name (CHR ''<'' # r) = Inr (None, CHR ''<'' # r)"
  by (simp add: split_display_name_def find_angle_bracket_def DQUOTE_def ascii_simps)

lemma split_display_name_some:
  assumes "utf8_valid n"
  shows "split_display_name (quote_text n @ '' '' @ CHR ''<'' # r) = Inr (Some n, CHR ''<'' # r)"
proof (cases "needs_quoting n")
  case True
  have "trim_start (CHR '' '' # CHR ''<'' # r) = CHR ''<'' # r"
    by (simp add: trim_start_ws1 ws1_def trim_start_id)
  with True assms quoted_loop_escape [of "[]" n "'' '' @ CHR ''<'' # r"] show ?thesis
    by (simp add: split_display_name_def quote_text_def parse_quoted_string_def)
next
  case False
  note n = token_name [OF False]
  have "find_angle_bracket (n @ '' '' @ CHR ''<'' # r) = Some (length n + 1)"
    using angle_scan_append [OF n(3,4), of "'' '' @ CHR ''<'' # r"]
    by (simp add: find_angle_bracket_def DQUOTE_def ascii_simps)
  moreover have "\<not> starts_with [DQUOTE] (n @ '' '' @ CHR ''<'' # r)"
    using n(1,3) by (cases n) auto
  moreover have "trim (n @ '' '') = n"
    using n(2) by (intro trim_end_space tight_graphic)
  ultimately show ?thesis
    using False n(1) by (simp add: split_display_name_def quote_text_def)
qed

lemma addr_text_ends:
  assumes "wf_name_addr na"
  shows "\<exists>r. addr_text na = CHR ''<'' # r" "\<exists>a y. addr_text na = a @ [y] \<and> 33 \<le> code y \<and> code y \<le> 126"
proof -
  show "\<exists>r. addr_text na = CHR ''<'' # r" by (simp add: addr_text_def)
  have g: "graphic (''>'' @ concat (map display_param (na_parameters na)))"
    using assms by (simp add: wf_name_addr_def params_text)
  obtain a y where "''>'' @ concat (map display_param (na_parameters na)) = a @ [y]"
    by (metis append_Cons list.distinct(1) rev_exhaust)
  moreover from this g have "33 \<le> code y \<and> code y \<le> 126" by simp
  ultimately show "\<exists>a y. addr_text na = a @ [y] \<and> 33 \<le> code y \<and> code y \<le> 126"
    by (metis addr_text_def append.assoc)
qed

lemma tight_name_addr:
  assumes "wf_name_addr na" shows "tight (name_addr_display na)"
proof -
  obtain a y where y: "addr_text na = a @ [y]" "33 \<le> code y" "code y \<le> 126"
    using addr_text_ends(2) [OF assms] by auto
  obtain r where r: "addr_text na = CHR ''<'' # r" using addr_text_ends(1) [OF assms] by auto
  obtain x t where x: "name_addr_display na = x # t" "33 \<le> code x" "code x \<le> 126"
  proof (cases "na_display_name na")
    case None
    with r that [of "CHR ''<''" r] show ?thesis by (simp add: name_addr_display_text)
  next
    case (Some n)
    show ?thesis
    proof (cases "needs_quoting n")
      case True
      with Some that show ?thesis by (simp add: name_addr_display_text quote_text_def)
    next
      case False
      with Some that token_name [OF False] show ?thesis
        by (cases n) (simp_all add: name_addr_display_text quote_text_def)
    qed
  qed
  have "rev (name_addr_display na) = y # rev a @ rev (case na_display_name na of
      Some name \<Rightarrow> quote_text name @ '' '' | None \<Rightarrow> [])"
    using y(1) by (simp add: name_addr_display_text)
  with x y show ?thesis by (simp add: tight_def)
qed

lemma name_addr_parse_display:
  assumes "wf_name_addr na" shows "name_addr_parse (name_addr_display na) = Inr na"
proof -
  obtain r where r: "addr_text na = CHR ''<'' # r" using addr_text_ends(1) [OF assms] by auto
  have ne: "name_addr_display na \<noteq> []" by (simp add: name_addr_display_text r)
  have name: "split_display_name (name_addr_display na) = Inr (na_display_name na, addr_text na)"
    using assms split_display_name_none [of r] split_display_name_some [of _ r]
    by (cases "na_display_name na") (simp_all add: name_addr_display_text r wf_name_addr_def)
  have "split_addr_spec (addr_text na) =
      Inr (uri_display (na_uri na), concat (map display_param (na_parameters na)))"
    using assms by (simp add: split_addr_spec_def addr_text_def strip_prefix_def wf_name_addr_def find_char_append)
  moreover have "uri_parse (trim (uri_display (na_uri na))) = Inr (na_uri na)"
    using assms by (simp add: wf_name_addr_def tight_graphic graphic_uri_display uri_parse_display)
  ultimately show ?thesis
    using name assms tight_name_addr [OF assms] ne
    by (simp add: name_addr_parse_def wf_name_addr_def params_text)
qed

interpretation name_addr_codec: codec name_addr_display name_addr_parse wf_name_addr
  by unfold_locales (rule name_addr_parse_display)

interpretation contact_codec: header_codec name_addr_display name_addr_parse wf_name_addr HContact
  by unfold_locales (simp_all add: wf_header_def tight_name_addr)


section \<open>Properties of the typed headers\<close>

definition sample_addr :: name_addr where
  "sample_addr =
     \<lparr>na_display_name = Some (''A '' @ [DQUOTE] @ ''B''), na_uri = sample_uri,
      na_parameters = [(''tag'', Some ''x1''), (''lr'', None)]\<rparr>"

lemma sample_addr_wf: "wf_name_addr sample_addr"
proof -
  have "CHR ''>'' \<notin> set (uri_display sample_uri)"
    by (simp add: sample_uri_def uri_display_def display_uri_header_def to_dec.simps ascii_simps)
  then show ?thesis
    using sample_uri_wf
    by (simp add: sample_addr_def wf_name_addr_def wf_hparam_def DQUOTE_def ascii_simps)
qed

text \<open>
  C39. Printing a name-address (the value of From, To and Contact) and parsing the text gives it back
  for every display name that is valid UTF-8: token names are printed bare, all others quoted with
  their quotes and backslashes escaped, and the parser undoes exactly that. In particular the tag
  survives.
\<close>
theorem name_addr_round_trip:
  assumes "wf_name_addr na"
  shows "name_addr_parse (name_addr_display na) = Inr na \<and>
         map_option na_tag (ok (name_addr_parse (name_addr_display na))) = Some (na_tag na)"
  using name_addr_codec.parse_print [OF assms] by simp

theorem name_addr_round_trip_witness:
  "wf_name_addr sample_addr \<and> name_addr_parse (name_addr_display sample_addr) = Inr sample_addr \<and>
   na_tag sample_addr = Some ''x1''"
  using name_addr_round_trip [OF sample_addr_wf] sample_addr_wf
  by (simp add: sample_addr_def na_tag_def find_key_def ascii_simps)

text \<open>
  The headers that key transactions survive a trip over the wire: for a well-formed Via or CSeq
  value within the length limit, the header line that carries the printed value is recognised and its
  value parses to the original, and no two different values share a text. Equal branch parameters and
  sequence numbers on the wire therefore come from equal values.
\<close>
theorem transaction_headers_round_trip:
  assumes "wf_via v" "wf_via v'" "wf_cseq c" "wf_cseq c'"
    and "length (typed_via_display v) \<le> MAX_HEADER_VALUE_LEN"
    and "length (cseq_display c) \<le> MAX_HEADER_VALUE_LEN"
  shows "and_then (parse_line (header_line (HVia (typed_via_display v))))
           (\<lambda>h. typed_via_parse (header_value h)) = Inr v \<and>
         and_then (parse_line (header_line (HCSeq (cseq_display c))))
           (\<lambda>h. cseq_parse (header_value h)) = Inr c \<and>
         (typed_via_display v = typed_via_display v' \<longleftrightarrow> v = v') \<and>
         (cseq_display c = cseq_display c' \<longleftrightarrow> c = c')"
  using via_codec.line_round_trip [OF assms(1,5)] cseq_codec.line_round_trip [OF assms(3,6)]
    via_codec.print_inj [OF assms(1,2)] cseq_codec.print_inj [OF assms(3,4)]
  by blast

definition sample_via :: typed_via where
  "sample_via =
     \<lparr>tv_protocol = ''SIP/2.0'', tv_transport = ''UDP'', tv_sent_by = ''[::1]:5060'',
      tv_params = [(''branch'', Some ''z9hG4bK1''), (''rport'', None)]\<rparr>"

lemma sample_via_wf:
  "wf_via sample_via" "length (typed_via_display sample_via) \<le> MAX_HEADER_VALUE_LEN"
  by (simp_all add: sample_via_def wf_via_def wf_hparam_def typed_via_display_def DQUOTE_def
      MAX_HEADER_VALUE_LEN_def ascii_simps)

theorem transaction_headers_round_trip_witness:
  "and_then (parse_line (header_line (HVia (typed_via_display sample_via))))
     (\<lambda>h. typed_via_parse (header_value h)) = Inr sample_via \<and>
   tv_branch sample_via = Some ''z9hG4bK1''"
proof -
  let ?c = "\<lparr>cs_seq = 1, cs_method = PInvite\<rparr>"
  have "wf_cseq ?c" "length (cseq_display ?c) \<le> MAX_HEADER_VALUE_LEN"
    by (simp_all add: wf_cseq_def cseq_display_def to_dec.simps MAX_HEADER_VALUE_LEN_def)
  from transaction_headers_round_trip [OF sample_via_wf(1) sample_via_wf(1) this(1,1)
      sample_via_wf(2) this(2)]
  show ?thesis by (simp add: sample_via_def tv_branch_def find_key_def ascii_simps)
qed


section \<open>The Via wrapper of the outer layer\<close>

definition wf_hdr_via :: "hdr_via \<Rightarrow> bool" where
  "wf_hdr_via v \<longleftrightarrow>
     graphic (hv_protocol v) \<and> hv_protocol v \<noteq> [] \<and> CHR ''/'' \<notin> set (hv_protocol v) \<and>
     graphic (hv_host v) \<and> sep_free '':;['' (hv_host v) \<and> hv_port v < 2 ^ 16 \<and>
     graphic (hv_branch v) \<and> hv_branch v \<noteq> [] \<and> CHR '';'' \<notin> set (hv_branch v) \<and>
     (case hv_received v of None \<Rightarrow> True | Some r \<Rightarrow> graphic r \<and> CHR '';'' \<notin> set r) \<and>
     (case hv_rport v of None \<Rightarrow> True | Some p \<Rightarrow> p < 2 ^ 16)"

definition hv_param_texts :: "hdr_via \<Rightarrow> string list" where
  "hv_param_texts v =
     [''branch='' @ hv_branch v] @
     (case hv_received v of Some r \<Rightarrow> [''received='' @ r] | None \<Rightarrow> []) @
     (case hv_rport v of Some p \<Rightarrow> [''rport='' @ to_dec p] | None \<Rightarrow> [])"

lemma hdr_via_display_text:
  "hdr_via_display v =
     (''SIP/2.0/'' @ hv_protocol v) @ CHR '' '' #
     (hv_host v @ CHR '':'' # to_dec (hv_port v)) @ CHR '';'' # join '';'' (hv_param_texts v)"
  by (simp add: hdr_via_display_def hv_param_texts_def split: option.splits)

lemma hv_param_texts_props:
  assumes "wf_hdr_via v"
  shows "\<forall>t \<in> set (hv_param_texts v). CHR '';'' \<notin> set t \<and> graphic t"
    "hv_params_loop ([], None, None) (hv_param_texts v) = (hv_branch v, hv_received v, hv_rport v)"
proof -
  show *: "\<forall>t \<in> set (hv_param_texts v). CHR '';'' \<notin> set t \<and> graphic t"
    using assms by (auto simp: hv_param_texts_def wf_hdr_via_def split: option.splits)
  have trim: "trim t = t" if "t \<in> set (hv_param_texts v)" for t
    using that * by (simp add: tight_graphic)
  show "hv_params_loop ([], None, None) (hv_param_texts v) = (hv_branch v, hv_received v, hv_rport v)"
    using assms trim
    by (auto simp: hv_param_texts_def wf_hdr_via_def strip_prefix_def split: option.splits)
qed

lemma split_slash_last:
  "CHR ''/'' \<notin> set p \<Longrightarrow> last (split_char (CHR ''/'') (''SIP/2.0/'' @ p)) = p"
  by (simp add: split_char_single)

lemma hv_host_port_display:
  assumes "wf_hdr_via v"
  shows "hv_host_port (hv_host v @ CHR '':'' # to_dec (hv_port v)) = (hv_host v, hv_port v)"
  using assms to_dec_no_sep [of "CHR ''[''" "hv_port v"]
  by (simp add: hv_host_port_def rfind_char_append wf_hdr_via_def sep_free_def is_ascii_digit_def)

lemma hdr_via_parse_display:
  assumes "wf_hdr_via v" shows "hdr_via_parse (hdr_via_display v) = Inr v"
proof -
  define P where "P = ''SIP/2.0/'' @ hv_protocol v"
  define H where "H = hv_host v @ CHR '':'' # to_dec (hv_port v)"
  define J where "J = join '';'' (hv_param_texts v)"
  have D: "hdr_via_display v = P @ CHR '' '' # H @ CHR '';'' # J"
    unfolding hdr_via_display_text P_def H_def J_def ..
  note pt = hv_param_texts_props [OF assms]
  have g: "graphic P" "P \<noteq> []" "graphic H" "CHR '';'' \<notin> set H" "graphic J"
    using assms pt(1) graphic_join [of "'';''" "hv_param_texts v"]
    by (auto simp: P_def H_def J_def wf_hdr_via_def sep_free_def)
  have "tight (hdr_via_display v)"
    using g tight_tokens [of P "H @ CHR '';'' # J" "'' ''"] by (simp add: D)
  then have "splitn_char 2 (CHR '' '') (trim (hdr_via_display v)) = [P, H @ CHR '';'' # J]"
    using find_char_append [OF graphic_no_space [OF g(1)], of "H @ CHR '';'' # J"]
    by (simp add: D numeral_2_eq_2)
  moreover have "last (split_char (CHR ''/'') P) = hv_protocol v" "hv_protocol v \<noteq> []"
    using assms split_slash_last [of "hv_protocol v"] by (simp_all add: P_def wf_hdr_via_def)
  moreover have "find_char (CHR '';'') (H @ CHR '';'' # J) = Some (length H)"
    by (rule find_char_append [OF g(4)])
  moreover have "split_char (CHR '';'') J = hv_param_texts v"
    unfolding J_def using pt(1) by (intro split_char_join) (auto simp: hv_param_texts_def)
  moreover have "hv_host_port H = (hv_host v, hv_port v)"
    unfolding H_def by (rule hv_host_port_display [OF assms])
  ultimately show ?thesis
    using pt(2) assms by (simp add: hdr_via_parse_def wf_hdr_via_def)
qed

interpretation hdr_via_codec: codec hdr_via_display hdr_via_parse wf_hdr_via
  by unfold_locales (rule hdr_via_parse_display)

text \<open>
  With a bracketed IPv6 host the port stays in the host text and the default port is appended on
  printing; an \<open>lr\<close> parameter inside the angle brackets is not seen by the route wrappers.
\<close>

lemma hdr_via_ipv6_port_doubled:
  "map_option hdr_via_display (ok (hdr_via_parse ''SIP/2.0/UDP [::1]:5070;branch=b'')) =
     Some ''SIP/2.0/UDP [::1]:5070:5060;branch=b''"
  by (simp add: hdr_via_parse_def hv_host_port_def hdr_via_display_def strip_prefix_def
      tight_tokens [of "''SIP/2.0/UDP''" "''[::1]:5070;branch=b''" "'' ''", simplified] tight_graphic
      to_dec.simps numeral_2_eq_2 ascii_simps)

lemma route_lr_inside_brackets:
  "map_option (\<lambda>r. (rt_lr r, is_loose_route (rt_uri r))) (ok (route_parse ''<sip:p;lr>'')) =
     Some (False, True)"
  by (simp add: route_parse_def is_loose_route_def uri_has_param_def tight_graphic uri_parse_def
      parse_scheme_def split_uri_headers_def split_uri_params_def parse_user_host_port_def
      parse_host_port_def parse_uri_params_def parse_uri_param_def map_filter_simps ascii_simps Let_def)

end
