(* ===== verification/Sip_Message.thy ===== *)
theory Sip_Message
  imports Sip_Typed
begin

text \<open>
  The message wrappers of \<open>sip/message.rs\<close>: the accessors of \<open>SipRequest\<close> and \<open>SipResponse\<close>, which
  find a header and parse its value, and the two builders. The lemmas relate builders and accessors:
  what was set is what is read, and a response built from a request mirrors its routing headers.
\<close>

section \<open>Accessors\<close>

text \<open>The wrappers hold one parsed message each; the accessors both of them share read its headers.\<close>

type_synonym sip_request = request
type_synonym sip_response = response

definition find_other_header :: "headers \<Rightarrow> string \<Rightarrow> string option" where
  "find_other_header hs name =
     find_map
       (\<lambda>h. case h of
          HOther key value \<Rightarrow> if eq_ignore_ascii_case key name then Some (trim value) else None
        | _ \<Rightarrow> None) hs"

definition require_values :: "headers \<Rightarrow> string list" where
  "require_values hs =
     List.map_filter
       (\<lambda>h. case h of
          HRequire value \<Rightarrow> Some value
        | HOther key value \<Rightarrow> if eq_ignore_ascii_case key ''Require'' then Some value else None
        | _ \<Rightarrow> None) hs"

definition find_require :: "headers \<Rightarrow> string list option" where
  "find_require hs =
     (let tags = concat (List.map_filter (\<lambda>v. ok (require_parse v)) (require_values hs)) in
      if tags = [] then None else Some tags)"

definition find_allow :: "headers \<Rightarrow> sip_method list option" where
  "find_allow hs =
     (let values =
        List.map_filter
          (\<lambda>h. case h of
             HAllow value \<Rightarrow> Some value
           | HOther key value \<Rightarrow> if eq_ignore_ascii_case key ''Allow'' then Some value else None
           | _ \<Rightarrow> None) hs
      in if values = [] then None
         else Some (List.map_filter
                (\<lambda>tok. let trimmed = trim tok in
                       if trimmed = [] then None else ok (sip_method_from_str trimmed))
                (concat (map (split_char (CHR '','')) values))))"

definition find_supported :: "headers \<Rightarrow> string list option" where
  "find_supported hs =
     (let values =
        List.map_filter
          (\<lambda>h. case h of
             HSupported value \<Rightarrow> Some value
           | HOther key value \<Rightarrow> if eq_ignore_ascii_case key ''Supported'' then Some value else None
           | _ \<Rightarrow> None) hs;
          tags = concat (List.map_filter (\<lambda>v. ok (supported_parse v)) values)
      in if tags = [] then None else Some tags)"

definition required_value :: "headers \<Rightarrow> string \<Rightarrow> sip_error + string" where
  "required_value hs name = ok_or (ErrMissingHeader name) (get_first_value hs name)"

definition h_from :: "headers \<Rightarrow> sip_error + from_header" where
  "h_from hs =
     and_then (required_value hs ''From'') (\<lambda>v. map_err (\<lambda>_. ErrParse) (from_parse v))"

definition h_from_tag :: "headers \<Rightarrow> sip_error + string" where
  "h_from_tag hs = and_then (h_from hs) (\<lambda>f. ok_or ErrInvalidHeader (from_header_tag f))"

definition h_to_tag :: "headers \<Rightarrow> string option" where
  "h_to_tag hs =
     Option.bind (get_first_value hs ''To'') (\<lambda>v. Option.bind (ok (to_parse v)) to_header_tag)"

definition h_via_branch :: "headers \<Rightarrow> sip_error + string" where
  "h_via_branch hs =
     and_then (required_value hs ''Via'') (\<lambda>v.
     and_then (map_err (\<lambda>_. ErrParse) (typed_via_parse v)) (\<lambda>via.
     ok_or ErrInvalidHeader (tv_branch via)))"

definition h_cseq :: "headers \<Rightarrow> sip_error + cseq_header" where
  "h_cseq hs =
     and_then (required_value hs ''CSeq'') (\<lambda>v. map_err (\<lambda>_. ErrParse) (cseq_parse v))"

definition h_contact_uri :: "headers \<Rightarrow> sip_uri option" where
  "h_contact_uri hs =
     Option.bind (get_first_value hs ''Contact'') (\<lambda>v.
     Option.bind (ok (contact_parse v)) (\<lambda>c.
     case c of CWildcard _ \<Rightarrow> None | CAddr a \<Rightarrow> Some (ca_uri a)))"

definition h_session_expires :: "headers \<Rightarrow> session_expires option" where
  "h_session_expires hs =
     Option.bind
       (case find_other_header hs ''Session-Expires'' of
          Some v \<Rightarrow> Some v
        | None \<Rightarrow> find_other_header hs ''x'')
       (\<lambda>v. ok (session_expires_parse v))"

definition h_min_se :: "headers \<Rightarrow> nat option" where
  "h_min_se hs = Option.bind (find_other_header hs ''Min-SE'') (\<lambda>v. ok (min_se_parse v))"

definition via_values :: "headers \<Rightarrow> string list" where
  "via_values hs = List.map_filter (\<lambda>h. case h of HVia v \<Rightarrow> Some v | _ \<Rightarrow> None) hs"

definition record_route_values :: "headers \<Rightarrow> string list" where
  "record_route_values hs = List.map_filter (\<lambda>h. case h of HRecordRoute v \<Rightarrow> Some v | _ \<Rightarrow> None) hs"

definition h_content_type :: "headers \<Rightarrow> string option" where
  "h_content_type hs =
     find_map (\<lambda>h. case h of HContentType v \<Rightarrow> Some v | _ \<Rightarrow> None) hs"

subsection \<open>Requests\<close>

definition req_method :: "sip_request \<Rightarrow> sip_method" where
  "req_method r = method_from_parser (rq_method r)"

text \<open>\<open>SipRequest::uri\<close> panics (\<open>None\<close>) if the stored text does not parse.\<close>

definition req_uri :: "sip_request \<Rightarrow> sip_uri option" where
  "req_uri r = ok (uri_parse (rq_uri r))"

definition req_call_id :: "sip_request \<Rightarrow> sip_error + string" where
  "req_call_id r = required_value (rq_headers r) ''Call-ID''"

definition req_from_tag :: "sip_request \<Rightarrow> sip_error + string" where
  "req_from_tag r = h_from_tag (rq_headers r)"

definition req_from_tag_and_uri :: "sip_request \<Rightarrow> sip_error + (string \<times> sip_uri)" where
  "req_from_tag_and_uri r =
     and_then (h_from (rq_headers r)) (\<lambda>f.
     and_then (ok_or ErrInvalidHeader (from_header_tag f)) (\<lambda>tag. Inr (tag, from_uri_value f)))"

definition req_to_tag :: "sip_request \<Rightarrow> string option" where
  "req_to_tag r = h_to_tag (rq_headers r)"

definition req_via_branch :: "sip_request \<Rightarrow> sip_error + string" where
  "req_via_branch r = h_via_branch (rq_headers r)"

definition req_cseq :: "sip_request \<Rightarrow> sip_error + nat" where
  "req_cseq r = and_then (h_cseq (rq_headers r)) (\<lambda>c. Inr (cs_seq c))"

definition req_cseq_method :: "sip_request \<Rightarrow> sip_error + sip_method" where
  "req_cseq_method r = and_then (h_cseq (rq_headers r)) (\<lambda>c. Inr (method_from_parser (cs_method c)))"

definition req_from_uri :: "sip_request \<Rightarrow> sip_error + sip_uri" where
  "req_from_uri r = and_then (h_from (rq_headers r)) (\<lambda>f. Inr (from_uri_value f))"

definition req_to_uri :: "sip_request \<Rightarrow> sip_error + sip_uri" where
  "req_to_uri r =
     and_then (required_value (rq_headers r) ''To'') (\<lambda>v.
     and_then (map_err (\<lambda>_. ErrParse) (to_parse v)) (\<lambda>t. Inr (to_uri_value t)))"

definition req_contact_uri :: "sip_request \<Rightarrow> sip_uri option" where
  "req_contact_uri r = h_contact_uri (rq_headers r)"

definition req_content_type :: "sip_request \<Rightarrow> string option" where
  "req_content_type r = h_content_type (rq_headers r)"

definition req_record_routes :: "sip_request \<Rightarrow> string list" where
  "req_record_routes r = record_route_values (rq_headers r)"

definition req_via_headers_raw :: "sip_request \<Rightarrow> string list" where
  "req_via_headers_raw r = via_values (rq_headers r)"

definition req_require :: "sip_request \<Rightarrow> string list option" where
  "req_require r = find_require (rq_headers r)"

definition req_supported :: "sip_request \<Rightarrow> string list option" where
  "req_supported r = find_supported (rq_headers r)"

definition req_session_expires :: "sip_request \<Rightarrow> session_expires option" where
  "req_session_expires r = h_session_expires (rq_headers r)"

definition req_min_se :: "sip_request \<Rightarrow> nat option" where
  "req_min_se r = h_min_se (rq_headers r)"

definition req_rack :: "sip_request \<Rightarrow> rack option" where
  "req_rack r = Option.bind (find_other_header (rq_headers r) ''RAck'') (\<lambda>v. ok (rack_parse v))"

definition req_allow :: "sip_request \<Rightarrow> sip_method list option" where
  "req_allow r = find_allow (rq_headers r)"

definition req_route_headers :: "sip_request \<Rightarrow> string list" where
  "req_route_headers r =
     List.map_filter (\<lambda>h. case h of HRoute v \<Rightarrow> Some (trim v) | _ \<Rightarrow> None) (rq_headers r)"

subsection \<open>Responses\<close>

definition resp_status_code :: "sip_response \<Rightarrow> status_code" where
  "resp_status_code r = rs_status_code r"

definition resp_reason :: "sip_response \<Rightarrow> string" where
  "resp_reason r = (if rs_reason r \<noteq> [] then rs_reason r else reason_phrase (rs_status_code r))"

definition resp_is_provisional :: "sip_response \<Rightarrow> bool" where
  "resp_is_provisional r \<longleftrightarrow> 100 \<le> rs_status_code r \<and> rs_status_code r < 200"

definition resp_is_success :: "sip_response \<Rightarrow> bool" where
  "resp_is_success r \<longleftrightarrow> 200 \<le> rs_status_code r \<and> rs_status_code r < 300"

definition resp_is_failure :: "sip_response \<Rightarrow> bool" where
  "resp_is_failure r \<longleftrightarrow> 300 \<le> rs_status_code r"

definition resp_call_id :: "sip_response \<Rightarrow> sip_error + string" where
  "resp_call_id r = required_value (rs_headers r) ''Call-ID''"

definition resp_from_tag :: "sip_response \<Rightarrow> sip_error + string" where
  "resp_from_tag r = h_from_tag (rs_headers r)"

definition resp_to_tag :: "sip_response \<Rightarrow> string option" where
  "resp_to_tag r = h_to_tag (rs_headers r)"

definition resp_via_branch :: "sip_response \<Rightarrow> sip_error + string" where
  "resp_via_branch r = h_via_branch (rs_headers r)"

definition resp_cseq :: "sip_response \<Rightarrow> sip_error + nat" where
  "resp_cseq r = and_then (h_cseq (rs_headers r)) (\<lambda>c. Inr (cs_seq c))"

definition resp_cseq_method :: "sip_response \<Rightarrow> sip_error + sip_method" where
  "resp_cseq_method r =
     and_then (h_cseq (rs_headers r)) (\<lambda>c. Inr (method_from_parser (cs_method c)))"

definition resp_contact_uri :: "sip_response \<Rightarrow> sip_uri option" where
  "resp_contact_uri r = h_contact_uri (rs_headers r)"

definition resp_content_type :: "sip_response \<Rightarrow> string option" where
  "resp_content_type r = h_content_type (rs_headers r)"

definition resp_record_routes :: "sip_response \<Rightarrow> string list" where
  "resp_record_routes r = record_route_values (rs_headers r)"

definition resp_via_headers_raw :: "sip_response \<Rightarrow> string list" where
  "resp_via_headers_raw r = via_values (rs_headers r)"

definition resp_www_authenticate :: "sip_response \<Rightarrow> string option" where
  "resp_www_authenticate r =
     find_map (\<lambda>h. case h of HWwwAuthenticate v \<Rightarrow> Some v | _ \<Rightarrow> None) (rs_headers r)"

definition resp_proxy_authenticate :: "sip_response \<Rightarrow> string option" where
  "resp_proxy_authenticate r =
     find_map (\<lambda>h. case h of HProxyAuthenticate v \<Rightarrow> Some v | _ \<Rightarrow> None) (rs_headers r)"

definition resp_security_server :: "sip_response \<Rightarrow> string option" where
  "resp_security_server r = find_other_header (rs_headers r) ''Security-Server''"

definition resp_require :: "sip_response \<Rightarrow> string list option" where
  "resp_require r = find_require (rs_headers r)"

definition resp_supported :: "sip_response \<Rightarrow> string list option" where
  "resp_supported r = find_supported (rs_headers r)"

definition resp_session_expires :: "sip_response \<Rightarrow> session_expires option" where
  "resp_session_expires r = h_session_expires (rs_headers r)"

definition resp_min_se :: "sip_response \<Rightarrow> nat option" where
  "resp_min_se r = h_min_se (rs_headers r)"

definition resp_rseq :: "sip_response \<Rightarrow> nat option" where
  "resp_rseq r = Option.bind (find_other_header (rs_headers r) ''RSeq'') (\<lambda>v. ok (rseq_parse v))"

definition resp_allow :: "sip_response \<Rightarrow> sip_method list option" where
  "resp_allow r = find_allow (rs_headers r)"


section \<open>The request builder\<close>

text \<open>The texts kept for invalid URIs only serve as error messages; they are flags here.\<close>

record request_builder =
  qb_method :: "p_method option"
  qb_uri :: "sip_uri option"
  qb_uri_error :: bool
  qb_via_branch :: "string option"
  qb_via_host :: "string option"
  qb_via_port :: "nat option"
  qb_via_transport :: "string option"
  qb_from_uri :: "sip_uri option"
  qb_from_uri_error :: bool
  qb_from_tag :: "string option"
  qb_from_display :: "string option"
  qb_to_uri :: "sip_uri option"
  qb_to_uri_error :: bool
  qb_to_tag :: "string option"
  qb_call_id :: "string option"
  qb_cseq :: "nat option"
  qb_contact_uri :: "sip_uri option"
  qb_max_forwards :: "nat option"
  qb_body :: "string option"
  qb_content_type :: "string option"
  qb_authorization :: "string option"
  qb_proxy_authorization :: "string option"
  qb_expires :: "nat option"
  qb_require :: "string list option"
  qb_supported :: "string list option"
  qb_session_expires :: "session_expires option"
  qb_min_se :: "nat option"
  qb_rack :: "rack option"
  qb_allow :: "sip_method list option"
  qb_routes :: "string list option"
  qb_other_headers :: "(string \<times> string) list"

definition qb_new :: request_builder where
  "qb_new =
     \<lparr>qb_method = None, qb_uri = None, qb_uri_error = False, qb_via_branch = None,
      qb_via_host = None, qb_via_port = None, qb_via_transport = None, qb_from_uri = None,
      qb_from_uri_error = False, qb_from_tag = None, qb_from_display = None, qb_to_uri = None,
      qb_to_uri_error = False, qb_to_tag = None, qb_call_id = None, qb_cseq = None,
      qb_contact_uri = None, qb_max_forwards = None, qb_body = None, qb_content_type = None,
      qb_authorization = None, qb_proxy_authorization = None, qb_expires = None,
      qb_require = None, qb_supported = None, qb_session_expires = None, qb_min_se = None,
      qb_rack = None, qb_allow = None, qb_routes = None, qb_other_headers = []\<rparr>"

definition qb_set_method :: "sip_method \<Rightarrow> request_builder \<Rightarrow> request_builder" where
  "qb_set_method m b = b\<lparr>qb_method := Some (method_to_parser m)\<rparr>"

definition qb_set_uri :: "string \<Rightarrow> request_builder \<Rightarrow> request_builder" where
  "qb_set_uri uri b =
     (case uri_parse uri of
        Inr u \<Rightarrow> b\<lparr>qb_uri := Some u, qb_uri_error := False\<rparr>
      | Inl _ \<Rightarrow> b\<lparr>qb_uri_error := True\<rparr>)"

definition qb_via :: "string \<Rightarrow> nat \<Rightarrow> string \<Rightarrow> string \<Rightarrow> request_builder \<Rightarrow> request_builder" where
  "qb_via host port transport branch b =
     b\<lparr>qb_via_host := Some host, qb_via_port := Some port, qb_via_transport := Some transport,
       qb_via_branch := Some branch\<rparr>"

definition qb_from :: "string \<Rightarrow> string \<Rightarrow> request_builder \<Rightarrow> request_builder" where
  "qb_from uri tag b =
     (case uri_parse uri of
        Inr u \<Rightarrow> b\<lparr>qb_from_uri := Some u, qb_from_uri_error := False\<rparr>
      | Inl _ \<Rightarrow> b\<lparr>qb_from_uri_error := True\<rparr>)\<lparr>qb_from_tag := Some tag\<rparr>"

definition qb_set_from_display :: "string \<Rightarrow> request_builder \<Rightarrow> request_builder" where
  "qb_set_from_display name b = b\<lparr>qb_from_display := Some name\<rparr>"

definition qb_to :: "string \<Rightarrow> request_builder \<Rightarrow> request_builder" where
  "qb_to uri b =
     (case uri_parse uri of
        Inr u \<Rightarrow> b\<lparr>qb_to_uri := Some u, qb_to_uri_error := False\<rparr>
      | Inl _ \<Rightarrow> b\<lparr>qb_to_uri_error := True\<rparr>)"

definition qb_set_to_tag :: "string \<Rightarrow> request_builder \<Rightarrow> request_builder" where
  "qb_set_to_tag tag b = b\<lparr>qb_to_tag := Some tag\<rparr>"

definition qb_set_call_id :: "string \<Rightarrow> request_builder \<Rightarrow> request_builder" where
  "qb_set_call_id c b = b\<lparr>qb_call_id := Some c\<rparr>"

definition qb_set_cseq :: "nat \<Rightarrow> request_builder \<Rightarrow> request_builder" where
  "qb_set_cseq s b = b\<lparr>qb_cseq := Some s\<rparr>"

definition qb_contact :: "string \<Rightarrow> request_builder \<Rightarrow> request_builder" where
  "qb_contact uri b = (case uri_parse uri of Inr u \<Rightarrow> b\<lparr>qb_contact_uri := Some u\<rparr> | Inl _ \<Rightarrow> b)"

definition qb_set_max_forwards :: "nat \<Rightarrow> request_builder \<Rightarrow> request_builder" where
  "qb_set_max_forwards mf b = b\<lparr>qb_max_forwards := Some mf\<rparr>"

definition qb_set_body :: "string \<Rightarrow> string \<Rightarrow> request_builder \<Rightarrow> request_builder" where
  "qb_set_body body ct b = b\<lparr>qb_body := Some body, qb_content_type := Some ct\<rparr>"

definition qb_set_authorization :: "string \<Rightarrow> request_builder \<Rightarrow> request_builder" where
  "qb_set_authorization auth b = b\<lparr>qb_authorization := Some auth\<rparr>"

definition qb_set_proxy_authorization :: "string \<Rightarrow> request_builder \<Rightarrow> request_builder" where
  "qb_set_proxy_authorization auth b = b\<lparr>qb_proxy_authorization := Some auth\<rparr>"

definition qb_set_expires :: "nat \<Rightarrow> request_builder \<Rightarrow> request_builder" where
  "qb_set_expires s b = b\<lparr>qb_expires := Some s\<rparr>"

definition nonempty :: "'a list \<Rightarrow> 'a list option" where
  "nonempty xs = (if xs = [] then None else Some xs)"

definition qb_set_require :: "string list \<Rightarrow> request_builder \<Rightarrow> request_builder" where
  "qb_set_require tags b = b\<lparr>qb_require := nonempty tags\<rparr>"

definition qb_set_supported :: "string list \<Rightarrow> request_builder \<Rightarrow> request_builder" where
  "qb_set_supported tags b = b\<lparr>qb_supported := nonempty tags\<rparr>"

definition qb_set_session_expires ::
  "nat \<Rightarrow> refresher option \<Rightarrow> request_builder \<Rightarrow> request_builder" where
  "qb_set_session_expires secs r b =
     b\<lparr>qb_session_expires := Some \<lparr>se_delta_seconds = secs, se_refresher = r\<rparr>\<rparr>"

definition qb_set_min_se :: "nat \<Rightarrow> request_builder \<Rightarrow> request_builder" where
  "qb_set_min_se secs b = b\<lparr>qb_min_se := Some secs\<rparr>"

definition qb_set_rack :: "nat \<Rightarrow> nat \<Rightarrow> sip_method \<Rightarrow> request_builder \<Rightarrow> request_builder" where
  "qb_set_rack rseq cseq m b =
     b\<lparr>qb_rack := Some \<lparr>rack_rseq = rseq, rack_cseq = cseq, rack_method = m\<rparr>\<rparr>"

definition qb_set_allow :: "sip_method list \<Rightarrow> request_builder \<Rightarrow> request_builder" where
  "qb_set_allow methods b = b\<lparr>qb_allow := nonempty methods\<rparr>"

definition qb_set_route :: "string list \<Rightarrow> request_builder \<Rightarrow> request_builder" where
  "qb_set_route routes b = b\<lparr>qb_routes := nonempty routes\<rparr>"

definition qb_header :: "string \<Rightarrow> string \<Rightarrow> request_builder \<Rightarrow> request_builder" where
  "qb_header name value b = b\<lparr>qb_other_headers := qb_other_headers b @ [(name, value)]\<rparr>"

subsection \<open>Building a request\<close>

definition emit :: "('a \<Rightarrow> header) \<Rightarrow> 'a option \<Rightarrow> headers" where
  "emit f x = (case x of Some v \<Rightarrow> [f v] | None \<Rightarrow> [])"

fun push_all :: "headers \<Rightarrow> headers \<Rightarrow> sip_error + headers" where
  "push_all hs [] = Inr hs"
| "push_all hs (h # rest) =
     and_then (map_err (\<lambda>_. ErrInvalidHeader) (headers_push hs h)) (\<lambda>hs'. push_all hs' rest)"

definition addr_with_tag :: "sip_uri \<Rightarrow> string \<Rightarrow> string" where
  "addr_with_tag uri tag = ''<'' @ uri_display uri @ ''>;tag='' @ tag"

definition bracketed :: "sip_uri \<Rightarrow> string" where
  "bracketed uri = ''<'' @ uri_display uri @ ''>''"

definition allow_value :: "sip_method list \<Rightarrow> string" where
  "allow_value methods = join '', '' (map sip_method_display methods)"

definition body_headers :: "string \<Rightarrow> string option \<Rightarrow> headers" where
  "body_headers body ct =
     (if body \<noteq> [] then emit HContentType ct else []) @ [HContentLength (to_dec (length body))]"

definition request_headers ::
  "request_builder \<Rightarrow> p_method \<Rightarrow> sip_uri \<Rightarrow> string \<Rightarrow> sip_uri \<Rightarrow> string \<Rightarrow> nat \<Rightarrow> string \<Rightarrow> string \<Rightarrow> headers"
where
  "request_headers b method from_uri from_tag to_uri call_id cseq via_host via_branch =
     [HVia (''SIP/2.0/'' @ (case qb_via_transport b of Some t \<Rightarrow> t | None \<Rightarrow> ''UDP'') @ '' '' @
            via_host @ '':'' @ to_dec (case qb_via_port b of Some p \<Rightarrow> p | None \<Rightarrow> 5060) @
            '';branch='' @ via_branch),
      HFrom (case qb_from_display b of
               Some display \<Rightarrow> [DQUOTE] @ display @ [DQUOTE] @ '' '' @ addr_with_tag from_uri from_tag
             | None \<Rightarrow> addr_with_tag from_uri from_tag),
      HTo (case qb_to_tag b of
             Some tag \<Rightarrow> addr_with_tag to_uri tag
           | None \<Rightarrow> bracketed to_uri),
      HCallId call_id,
      HCSeq (to_dec cseq @ '' '' @ sip_method_display (method_from_parser method)),
      HMaxForwards (to_dec (case qb_max_forwards b of Some mf \<Rightarrow> mf | None \<Rightarrow> 70))] @
     emit (\<lambda>u. HContact (bracketed u)) (qb_contact_uri b) @
     emit HAuthorization (qb_authorization b) @
     emit HProxyAuthorization (qb_proxy_authorization b) @
     emit (\<lambda>e. HExpires (to_dec e)) (qb_expires b) @
     emit (\<lambda>tags. HRequire (option_tags_display tags)) (qb_require b) @
     emit (\<lambda>tags. HSupported (option_tags_display tags)) (qb_supported b) @
     emit (\<lambda>se. HOther ''Session-Expires'' (session_expires_display se)) (qb_session_expires b) @
     emit (\<lambda>m. HOther ''Min-SE'' (to_dec m)) (qb_min_se b) @
     emit (\<lambda>r. HOther ''RAck'' (rack_display r)) (qb_rack b) @
     emit (\<lambda>ms. HAllow (allow_value ms)) (qb_allow b) @
     (case qb_routes b of Some routes \<Rightarrow> map HRoute routes | None \<Rightarrow> []) @
     map (\<lambda>(n, v). HOther n v) (qb_other_headers b) @
     body_headers (case qb_body b of Some x \<Rightarrow> x | None \<Rightarrow> []) (qb_content_type b)"

definition qb_build :: "request_builder \<Rightarrow> sip_error + sip_request" where
  "qb_build b =
     (if qb_uri_error b then Inl ErrInvalidHeader
      else if qb_from_uri_error b then Inl ErrInvalidHeader
      else if qb_to_uri_error b then Inl ErrInvalidHeader
      else
        and_then (ok_or ErrInvalidHeader (qb_method b)) (\<lambda>method.
        and_then (ok_or ErrInvalidHeader (qb_uri b)) (\<lambda>uri.
        and_then (ok_or ErrInvalidHeader (qb_from_uri b)) (\<lambda>from_uri.
        and_then (ok_or ErrInvalidHeader (qb_from_tag b)) (\<lambda>from_tag.
        and_then (ok_or ErrInvalidHeader (qb_to_uri b)) (\<lambda>to_uri.
        and_then (ok_or ErrInvalidHeader (qb_call_id b)) (\<lambda>call_id.
        and_then (ok_or ErrInvalidHeader (qb_cseq b)) (\<lambda>cseq.
        and_then (ok_or ErrInvalidHeader (qb_via_host b)) (\<lambda>via_host.
        and_then (ok_or ErrInvalidHeader (qb_via_branch b)) (\<lambda>via_branch.
        and_then (push_all [] (request_headers b method from_uri from_tag to_uri call_id cseq
                                 via_host via_branch)) (\<lambda>hs.
        Inr \<lparr>rq_method = method, rq_uri = uri_display uri, rq_version = ''SIP/2.0'',
             rq_headers = hs,
             rq_body = (case qb_body b of Some x \<Rightarrow> x | None \<Rightarrow> [])\<rparr>)))))))))))"


section \<open>The response builder\<close>

record response_builder =
  pb_status_code :: "nat option"
  pb_reason :: "string option"
  pb_via :: "string list"
  pb_from :: "string option"
  pb_to :: "string option"
  pb_call_id :: "string option"
  pb_cseq :: "string option"
  pb_contact_uri :: "sip_uri option"
  pb_body :: "string option"
  pb_content_type :: "string option"
  pb_require :: "string list option"
  pb_supported :: "string list option"
  pb_session_expires :: "session_expires option"
  pb_min_se :: "nat option"
  pb_rseq :: "nat option"
  pb_allow :: "sip_method list option"

definition pb_new :: response_builder where
  "pb_new =
     \<lparr>pb_status_code = None, pb_reason = None, pb_via = [], pb_from = None, pb_to = None,
      pb_call_id = None, pb_cseq = None, pb_contact_uri = None, pb_body = None,
      pb_content_type = None, pb_require = None, pb_supported = None,
      pb_session_expires = None, pb_min_se = None, pb_rseq = None, pb_allow = None\<rparr>"

definition pb_status :: "nat \<Rightarrow> string \<Rightarrow> response_builder \<Rightarrow> response_builder" where
  "pb_status c reason b = b\<lparr>pb_status_code := Some c, pb_reason := Some reason\<rparr>"

definition overwrite :: "'a option \<Rightarrow> 'a option \<Rightarrow> 'a option" where
  "overwrite new old = (case new of Some v \<Rightarrow> Some v | None \<Rightarrow> old)"

definition mirrored_cseq :: "sip_request \<Rightarrow> string \<Rightarrow> string" where
  "mirrored_cseq req c =
     (case (req_cseq req, req_cseq_method req) of
        (Inr seq, Inr method) \<Rightarrow> to_dec seq @ '' '' @ sip_method_display method
      | _ \<Rightarrow> c)"

definition pb_from_request :: "sip_request \<Rightarrow> response_builder \<Rightarrow> response_builder" where
  "pb_from_request req b =
     b\<lparr>pb_via := pb_via b @ via_values (rq_headers req),
       pb_from := overwrite
         (find_map (\<lambda>h. case h of HFrom f \<Rightarrow> Some f | _ \<Rightarrow> None) (rq_headers req)) (pb_from b),
       pb_to := overwrite
         (find_map (\<lambda>h. case h of HTo t \<Rightarrow> Some t | _ \<Rightarrow> None) (rq_headers req)) (pb_to b),
       pb_call_id := overwrite
         (find_map (\<lambda>h. case h of HCallId c \<Rightarrow> Some c | _ \<Rightarrow> None) (rq_headers req)) (pb_call_id b),
       pb_cseq := overwrite
         (find_map (\<lambda>h. case h of HCSeq c \<Rightarrow> Some (mirrored_cseq req c) | _ \<Rightarrow> None) (rq_headers req))
         (pb_cseq b)\<rparr>"

definition pb_to_tag :: "string \<Rightarrow> response_builder \<Rightarrow> response_builder" where
  "pb_to_tag tag b =
     (case pb_to b of
        Some to \<Rightarrow>
          if contains_sub ''tag='' to then b else b\<lparr>pb_to := Some (to @ '';tag='' @ tag)\<rparr>
      | None \<Rightarrow> b)"

definition pb_contact :: "string \<Rightarrow> response_builder \<Rightarrow> response_builder" where
  "pb_contact uri b = (case uri_parse uri of Inr u \<Rightarrow> b\<lparr>pb_contact_uri := Some u\<rparr> | Inl _ \<Rightarrow> b)"

definition pb_set_body :: "string \<Rightarrow> string \<Rightarrow> response_builder \<Rightarrow> response_builder" where
  "pb_set_body body ct b = b\<lparr>pb_body := Some body, pb_content_type := Some ct\<rparr>"

definition pb_set_require :: "string list \<Rightarrow> response_builder \<Rightarrow> response_builder" where
  "pb_set_require tags b = b\<lparr>pb_require := nonempty tags\<rparr>"

definition pb_set_supported :: "string list \<Rightarrow> response_builder \<Rightarrow> response_builder" where
  "pb_set_supported tags b = b\<lparr>pb_supported := nonempty tags\<rparr>"

definition pb_set_session_expires ::
  "nat \<Rightarrow> refresher option \<Rightarrow> response_builder \<Rightarrow> response_builder" where
  "pb_set_session_expires secs r b =
     b\<lparr>pb_session_expires := Some \<lparr>se_delta_seconds = secs, se_refresher = r\<rparr>\<rparr>"

definition pb_set_min_se :: "nat \<Rightarrow> response_builder \<Rightarrow> response_builder" where
  "pb_set_min_se secs b = b\<lparr>pb_min_se := Some secs\<rparr>"

definition pb_set_rseq :: "nat \<Rightarrow> response_builder \<Rightarrow> response_builder" where
  "pb_set_rseq n b = b\<lparr>pb_rseq := Some n\<rparr>"

definition pb_set_allow :: "sip_method list \<Rightarrow> response_builder \<Rightarrow> response_builder" where
  "pb_set_allow methods b = b\<lparr>pb_allow := nonempty methods\<rparr>"

definition response_headers :: "response_builder \<Rightarrow> headers" where
  "response_headers b =
     map HVia (pb_via b) @ emit HFrom (pb_from b) @ emit HTo (pb_to b) @
     emit HCallId (pb_call_id b) @ emit HCSeq (pb_cseq b) @
     emit (\<lambda>u. HContact (bracketed u)) (pb_contact_uri b) @
     emit (\<lambda>tags. HRequire (option_tags_display tags)) (pb_require b) @
     emit (\<lambda>tags. HSupported (option_tags_display tags)) (pb_supported b) @
     emit (\<lambda>se. HOther ''Session-Expires'' (session_expires_display se)) (pb_session_expires b) @
     emit (\<lambda>m. HOther ''Min-SE'' (to_dec m)) (pb_min_se b) @
     emit (\<lambda>n. HOther ''RSeq'' (to_dec n)) (pb_rseq b) @
     emit (\<lambda>ms. HAllow (allow_value ms)) (pb_allow b) @
     body_headers (case pb_body b of Some x \<Rightarrow> x | None \<Rightarrow> []) (pb_content_type b)"

definition pb_build :: "response_builder \<Rightarrow> sip_error + sip_response" where
  "pb_build b =
     and_then (ok_or ErrInvalidHeader (pb_status_code b)) (\<lambda>status.
     and_then (push_all [] (response_headers b)) (\<lambda>hs.
     Inr \<lparr>rs_version = ''SIP/2.0'', rs_status_code = status,
          rs_reason = (case pb_reason b of Some r \<Rightarrow> r | None \<Rightarrow> reason_phrase status),
          rs_headers = hs, rs_body = (case pb_body b of Some x \<Rightarrow> x | None \<Rightarrow> [])\<rparr>))"

section \<open>Reading what was built\<close>

lemma push_all_eq:
  "push_all hs hs' = (if hs' = [] \<or> length hs + length hs' \<le> MAX_HEADERS then Inr (hs @ hs') else Inl ErrInvalidHeader)"
proof (induction hs' arbitrary: hs)
  case (Cons h hs')
  then show ?case by (cases hs') (auto simp: headers_push_def)
qed simp

lemma push_all_Inr: "push_all [] hs = Inr hs' \<Longrightarrow> hs' = hs \<and> length hs \<le> MAX_HEADERS"
  by (auto simp: push_all_eq split: if_splits)

text \<open>Looking up a name by its canonical spelling among known headers.\<close>

lemma resolve_canonical:
  "resolve_name ''Via'' = ''Via''" "resolve_name ''From'' = ''From''" "resolve_name ''To'' = ''To''"
  "resolve_name ''Call-ID'' = ''Call-ID''" "resolve_name ''CSeq'' = ''CSeq''"
  "resolve_name ''Contact'' = ''Contact''"
  by (simp_all add: name_eval)

lemma lower_canonical:
  "to_ascii_lowercase ''Via'' = ''via''" "to_ascii_lowercase ''From'' = ''from''"
  "to_ascii_lowercase ''To'' = ''to''" "to_ascii_lowercase ''Call-ID'' = ''call-id''"
  "to_ascii_lowercase ''CSeq'' = ''cseq''" "to_ascii_lowercase ''Contact'' = ''contact''"
  by (simp_all add: ascii_simps)

lemma name_matches_known:
  "name_matches h ''Via'' \<longleftrightarrow> to_ascii_lowercase (header_name h) = ''via''"
  "name_matches h ''From'' \<longleftrightarrow> to_ascii_lowercase (header_name h) = ''from''"
  "name_matches h ''To'' \<longleftrightarrow> to_ascii_lowercase (header_name h) = ''to''"
  "name_matches h ''Call-ID'' \<longleftrightarrow> to_ascii_lowercase (header_name h) = ''call-id''"
  "name_matches h ''CSeq'' \<longleftrightarrow> to_ascii_lowercase (header_name h) = ''cseq''"
  by (simp_all only: name_matches_def resolve_canonical eq_ignore_ascii_case_def lower_canonical)

lemma known_lowercase:
  "to_ascii_lowercase (header_name (HAllow v)) = ''allow''"
  "to_ascii_lowercase (header_name (HAuthorization v)) = ''authorization''"
  "to_ascii_lowercase (header_name (HCSeq v)) = ''cseq''"
  "to_ascii_lowercase (header_name (HCallId v)) = ''call-id''"
  "to_ascii_lowercase (header_name (HContact v)) = ''contact''"
  "to_ascii_lowercase (header_name (HContentLength v)) = ''content-length''"
  "to_ascii_lowercase (header_name (HContentType v)) = ''content-type''"
  "to_ascii_lowercase (header_name (HExpires v)) = ''expires''"
  "to_ascii_lowercase (header_name (HFrom v)) = ''from''"
  "to_ascii_lowercase (header_name (HMaxForwards v)) = ''max-forwards''"
  "to_ascii_lowercase (header_name (HProxyAuthenticate v)) = ''proxy-authenticate''"
  "to_ascii_lowercase (header_name (HProxyAuthorization v)) = ''proxy-authorization''"
  "to_ascii_lowercase (header_name (HRecordRoute v)) = ''record-route''"
  "to_ascii_lowercase (header_name (HRequire v)) = ''require''"
  "to_ascii_lowercase (header_name (HRoute v)) = ''route''"
  "to_ascii_lowercase (header_name (HSupported v)) = ''supported''"
  "to_ascii_lowercase (header_name (HTo v)) = ''to''"
  "to_ascii_lowercase (header_name (HVia v)) = ''via''"
  "to_ascii_lowercase (header_name (HWwwAuthenticate v)) = ''www-authenticate''"
  by (simp_all add: ascii_simps)

text \<open>
  Every header but \<open>Other\<close>, and every \<open>Other\<close> whose name is not that of a known header. Parsing only
  yields such headers.
\<close>

definition plain_header :: "header \<Rightarrow> bool" where
  "plain_header h \<longleftrightarrow>
     (case h of HOther n _ \<Rightarrow> to_ascii_lowercase n \<notin> set known_names | _ \<Rightarrow> True)"

lemma wf_header_plain: "wf_header h \<Longrightarrow> plain_header h"
  by (cases h) (simp_all add: wf_header_def wf_other_name_def plain_header_def)

lemma plain_matches:
  assumes "plain_header h"
  shows "name_matches h ''Via'' \<longleftrightarrow> (\<exists>v. h = HVia v)" "name_matches h ''From'' \<longleftrightarrow> (\<exists>v. h = HFrom v)"
    "name_matches h ''To'' \<longleftrightarrow> (\<exists>v. h = HTo v)" "name_matches h ''Call-ID'' \<longleftrightarrow> (\<exists>v. h = HCallId v)"
    "name_matches h ''CSeq'' \<longleftrightarrow> (\<exists>v. h = HCSeq v)"
  using assms
  by (cases h; auto simp: name_matches_known known_lowercase plain_header_def known_names_def
      simp del: header_name.simps(1-19))+


definition as_via :: "header \<Rightarrow> string option" where
  "as_via h = (case h of HVia v \<Rightarrow> Some v | _ \<Rightarrow> None)"
definition as_from :: "header \<Rightarrow> string option" where
  "as_from h = (case h of HFrom v \<Rightarrow> Some v | _ \<Rightarrow> None)"
definition as_to :: "header \<Rightarrow> string option" where
  "as_to h = (case h of HTo v \<Rightarrow> Some v | _ \<Rightarrow> None)"
definition as_call_id :: "header \<Rightarrow> string option" where
  "as_call_id h = (case h of HCallId v \<Rightarrow> Some v | _ \<Rightarrow> None)"
definition as_cseq :: "header \<Rightarrow> string option" where
  "as_cseq h = (case h of HCSeq v \<Rightarrow> Some v | _ \<Rightarrow> None)"

lemmas as_defs = as_via_def as_from_def as_to_def as_call_id_def as_cseq_def

lemma get_first_value_find_map:
  assumes "\<And>h. h \<in> set hs \<Longrightarrow> f h = (if name_matches h n then Some (header_value h) else None)"
  shows "get_first_value hs n = find_map f hs"
  using assms by (induction hs) (auto simp: get_first_value_def get_first_def)

lemma get_first_value_plain:
  assumes "list_all plain_header hs"
  shows "get_first_value hs ''Via'' = find_map as_via hs"
    "get_first_value hs ''From'' = find_map as_from hs"
    "get_first_value hs ''To'' = find_map as_to hs"
    "get_first_value hs ''Call-ID'' = find_map as_call_id hs"
    "get_first_value hs ''CSeq'' = find_map as_cseq hs"
  using assms
  by (intro get_first_value_find_map;
      auto simp: list_all_iff plain_matches as_defs split: header.splits)+

lemma plain_simps [simp]:
  "plain_header (HAllow v)" "plain_header (HAuthorization v)" "plain_header (HCSeq v)"
  "plain_header (HCallId v)" "plain_header (HContact v)" "plain_header (HContentLength v)"
  "plain_header (HContentType v)" "plain_header (HExpires v)" "plain_header (HFrom v)"
  "plain_header (HMaxForwards v)" "plain_header (HProxyAuthorization v)" "plain_header (HRequire v)"
  "plain_header (HRoute v)" "plain_header (HSupported v)" "plain_header (HTo v)"
  "plain_header (HVia v)" "plain_header (HOther ''Session-Expires'' v)"
  "plain_header (HOther ''Min-SE'' v)" "plain_header (HOther ''RSeq'' v)"
  "plain_header (HOther ''RAck'' v)"
  by (simp_all add: plain_header_def known_names_def ascii_simps)

lemma list_all_emit [simp]: "(\<And>v. plain_header (f v)) \<Longrightarrow> list_all plain_header (emit f x)"
  by (simp add: emit_def split: option.splits)

lemma find_map_emit: "find_map g (emit f x) = Option.bind x (\<lambda>v. g (f v))"
  by (simp add: emit_def split: option.splits)

lemma plain_body_headers [simp]: "list_all plain_header (body_headers body ct)"
  by (simp add: body_headers_def)

lemma plain_response_headers: "list_all plain_header (response_headers b)"
  by (simp add: response_headers_def) (simp add: list_all_iff)

lemma find_map_as_known:
  "find_map as_via (map HVia vs) = (case vs of [] \<Rightarrow> None | v # _ \<Rightarrow> Some v)"
  "find_map as_from (map HVia vs) = None" "find_map as_to (map HVia vs) = None"
  "find_map as_call_id (map HVia vs) = None" "find_map as_cseq (map HVia vs) = None"
  by (induction vs) (simp_all add: as_defs)

lemma find_map_emit_None:
  "(\<And>v. g (f v) = None) \<Longrightarrow> find_map g (emit f x) = None"
  by (simp add: find_map_emit split: option.splits)

lemma find_map_body:
  "find_map as_via (body_headers body ct) = None" "find_map as_from (body_headers body ct) = None"
  "find_map as_to (body_headers body ct) = None" "find_map as_call_id (body_headers body ct) = None"
  "find_map as_cseq (body_headers body ct) = None"
  by (simp_all add: body_headers_def find_map_append find_map_emit_None as_defs)

lemma response_lookup:
  "find_map as_via (response_headers b) = (case pb_via b of [] \<Rightarrow> None | v # _ \<Rightarrow> Some v)"
  "find_map as_from (response_headers b) = pb_from b"
  "find_map as_to (response_headers b) = pb_to b"
  "find_map as_call_id (response_headers b) = pb_call_id b"
  "find_map as_cseq (response_headers b) = pb_cseq b"
  by (simp_all add: response_headers_def find_map_append find_map_as_known find_map_emit find_map_body
      as_defs split: option.splits list.splits)

lemma via_values_append: "via_values (xs @ ys) = via_values xs @ via_values ys"
  by (simp add: via_values_def map_filter_def)

lemma via_values_emit: "(\<And>v. as_via (f v) = None) \<Longrightarrow> via_values (emit f x) = []"
  by (simp add: emit_def via_values_def map_filter_simps as_via_def split: option.splits)

lemma via_values_map [simp]: "via_values (map HVia vs) = vs"
  by (induction vs) (simp_all add: via_values_def map_filter_simps)

lemma via_values_response: "via_values (response_headers b) = pb_via b"
  by (simp add: response_headers_def via_values_append via_values_emit as_via_def body_headers_def)
     (simp add: via_values_def map_filter_simps)

lemma hd_via_values: "find_map as_via hs = (case via_values hs of [] \<Rightarrow> None | v # _ \<Rightarrow> Some v)"
  by (induction hs) (auto simp: via_values_def map_filter_simps as_via_def split: header.splits)

subsection \<open>Responses mirror requests\<close>

definition reply :: "nat \<Rightarrow> string \<Rightarrow> sip_request \<Rightarrow> response_builder" where
  "reply c reason req = pb_from_request req (pb_status c reason pb_new)"

lemma overwrite_None [simp]: "overwrite x None = x"
  by (simp add: overwrite_def split: option.splits)

lemma reply_fields:
  "pb_via (reply c r req) = via_values (rq_headers req)"
  "pb_from (reply c r req) = find_map as_from (rq_headers req)"
  "pb_to (reply c r req) = find_map as_to (rq_headers req)"
  "pb_call_id (reply c r req) = find_map as_call_id (rq_headers req)"
  "pb_cseq (reply c r req) =
     find_map (\<lambda>h. map_option (mirrored_cseq req) (as_cseq h)) (rq_headers req)"
  "pb_status_code (reply c r req) = Some c" "pb_reason (reply c r req) = Some r"
proof -
  have "(\<lambda>h. map_option (mirrored_cseq req) (as_cseq h)) =
      (\<lambda>h. case h of HCSeq c \<Rightarrow> Some (mirrored_cseq req c) | _ \<Rightarrow> None)"
    by (rule ext) (simp add: as_cseq_def split: header.splits)
  then show "pb_cseq (reply c r req) =
     find_map (\<lambda>h. map_option (mirrored_cseq req) (as_cseq h)) (rq_headers req)"
    by (simp add: reply_def pb_from_request_def pb_status_def pb_new_def)
qed (simp_all add: reply_def pb_from_request_def pb_status_def pb_new_def as_defs [abs_def])

lemma find_map_map_option: "find_map (\<lambda>x. map_option f (g x)) xs = map_option f (find_map g xs)"
  by (induction xs) (auto split: option.splits)

lemma cseq_mirror:
  assumes "find_map as_cseq (rq_headers req) = Some c" "list_all plain_header (rq_headers req)"
  shows "cseq_parse (mirrored_cseq req c) = cseq_parse c"
proof (cases "cseq_parse c")
  case (Inl e)
  with assms show ?thesis
    by (simp add: mirrored_cseq_def req_cseq_def h_cseq_def required_value_def get_first_value_plain)
next
  case (Inr cs)
  then obtain st mt where st: "split_whitespace c = [st, mt]" "parse_u32 st = Some (cs_seq cs)"
    "p_method_from_str mt = Inr (cs_method cs)"
    by (auto simp: cseq_parse_def and_then_Inr_iff split: list.splits)
  have "mirrored_cseq req c = cseq_display cs"
    using assms Inr
    by (simp add: mirrored_cseq_def req_cseq_def req_cseq_method_def h_cseq_def required_value_def
        get_first_value_plain cseq_display_def p_method_as_str_display [symmetric])
  moreover have "wf_cseq cs" using st(2) parse_uint_bound by (simp add: wf_cseq_def)
  ultimately show ?thesis using Inr by (simp add: cseq_parse_display)
qed

lemma pb_build_Inr:
  assumes "pb_build b = Inr resp"
  shows "rs_headers resp = response_headers b" "Some (rs_status_code resp) = pb_status_code b"
    "rs_body resp = (case pb_body b of Some x \<Rightarrow> x | None \<Rightarrow> [])"
  using assms by (auto simp: pb_build_def and_then_Inr_iff dest: push_all_Inr)


lemma pb_to_tag_fields [simp]:
  "pb_via (pb_to_tag t b) = pb_via b" "pb_from (pb_to_tag t b) = pb_from b"
  "pb_call_id (pb_to_tag t b) = pb_call_id b" "pb_cseq (pb_to_tag t b) = pb_cseq b"
  "pb_status_code (pb_to_tag t b) = pb_status_code b" "pb_body (pb_to_tag t b) = pb_body b"
  by (simp_all add: pb_to_tag_def split: option.splits)

lemma name_addr_add_param:
  "name_addr_display na @ '';tag='' @ t =
     name_addr_display (na\<lparr>na_parameters := na_parameters na @ [(''tag'', Some t)]\<rparr>)"
  by (simp add: name_addr_display_def)

lemma find_append_None: "find P xs = None \<Longrightarrow> find P (xs @ ys) = find P ys"
  by (induction xs) (auto split: if_splits)

lemma to_tag_added:
  assumes "wf_name_addr na" "find (\<lambda>(k, _). eq_ignore_ascii_case k ''tag'') (na_parameters na) = None"
    "wf_hparam (''tag'', Some t)"
  shows "Option.bind (ok (to_parse (name_addr_display na @ '';tag='' @ t))) to_header_tag = Some t"
proof -
  let ?na = "na\<lparr>na_parameters := na_parameters na @ [(''tag'', Some t)]\<rparr>"
  have "wf_name_addr ?na" using assms(1,3) by (simp add: wf_name_addr_def)
  then have "to_parse (name_addr_display na @ '';tag='' @ t) =
      Inr \<lparr>to_display_name = na_display_name na, to_uri_value = na_uri na,
           to_params = na_parameters na @ [(''tag'', Some t)]\<rparr>"
    unfolding name_addr_add_param by (simp add: to_parse_def name_addr_parse_display)
  moreover have "find (\<lambda>(k, _). eq_ignore_ascii_case k ''tag'') (na_parameters na @ [(''tag'', Some t)]) =
      Some (''tag'', Some t)"
    using assms(2) by (simp add: find_append_None)
  ultimately show ?thesis by (simp add: to_header_tag_def find_key_def)
qed

subsection \<open>Requests read back\<close>

definition wf_request_builder :: "request_builder \<Rightarrow> bool" where
  "wf_request_builder b \<longleftrightarrow>
     list_all (\<lambda>(n, v). plain_header (HOther n v)) (qb_other_headers b) \<and>
     pred_option wf_uri (qb_uri b) \<and> pred_option (\<lambda>c. c < 2 ^ 32) (qb_cseq b) \<and>
     pred_option (\<lambda>t. graphic t \<and> t \<noteq> [] \<and> CHR ''/'' \<notin> set t) (qb_via_transport b) \<and>
     pred_option (\<lambda>h. graphic h \<and> h \<noteq> [] \<and> sent_by_scan False h = Inr (length h)) (qb_via_host b) \<and>
     pred_option (\<lambda>t. wf_hparam (''branch'', Some t)) (qb_via_branch b) \<and>
     qb_from_display b = None \<and>
     pred_option (\<lambda>t. wf_hparam (''tag'', Some t)) (qb_from_tag b) \<and>
     pred_option (\<lambda>t. wf_hparam (''tag'', Some t)) (qb_to_tag b) \<and>
     pred_option (\<lambda>u. wf_uri u \<and> CHR ''>'' \<notin> set (uri_display u)) (qb_from_uri b) \<and>
     pred_option (\<lambda>u. wf_uri u \<and> CHR ''>'' \<notin> set (uri_display u)) (qb_to_uri b)"

lemma qb_build_Inr:
  assumes "qb_build b = Inr r"
  obtains m u fu ft tu ci cs vh vb where
    "qb_method b = Some m" "qb_uri b = Some u" "qb_from_uri b = Some fu" "qb_from_tag b = Some ft"
    "qb_to_uri b = Some tu" "qb_call_id b = Some ci" "qb_cseq b = Some cs" "qb_via_host b = Some vh"
    "qb_via_branch b = Some vb" "rq_method r = m" "rq_uri r = uri_display u"
    "rq_headers r = request_headers b m fu ft tu ci cs vh vb" "length (rq_headers r) \<le> MAX_HEADERS"
    "rq_body r = (case qb_body b of Some x \<Rightarrow> x | None \<Rightarrow> [])"
proof -
  from assms obtain m u fu ft tu ci cs vh vb hs where *:
    "qb_method b = Some m" "qb_uri b = Some u" "qb_from_uri b = Some fu" "qb_from_tag b = Some ft"
    "qb_to_uri b = Some tu" "qb_call_id b = Some ci" "qb_cseq b = Some cs" "qb_via_host b = Some vh"
    "qb_via_branch b = Some vb"
    and push: "push_all [] (request_headers b m fu ft tu ci cs vh vb) = Inr hs"
    and r: "r = \<lparr>rq_method = m, rq_uri = uri_display u, rq_version = ''SIP/2.0'', rq_headers = hs,
             rq_body = (case qb_body b of Some x \<Rightarrow> x | None \<Rightarrow> [])\<rparr>"
    unfolding qb_build_def if_Inl_Inr_iff and_then_Inr_iff ok_or_Inr_iff by blast
  from push_all_Inr [OF push] r show thesis by (intro that [OF *]) simp_all
qed

lemma plain_request_headers:
  "list_all (\<lambda>(n, v). plain_header (HOther n v)) (qb_other_headers b) \<Longrightarrow>
     list_all plain_header (request_headers b m fu ft tu ci cs vh vb)"
  by (simp add: request_headers_def split: option.splits) (auto simp: list_all_iff)

lemma request_lookup:
  "find_map as_via (request_headers b m fu ft tu ci cs vh vb) =
     Some (''SIP/2.0/'' @ (case qb_via_transport b of Some t \<Rightarrow> t | None \<Rightarrow> ''UDP'') @ '' '' @ vh @ '':'' @
       to_dec (case qb_via_port b of Some p \<Rightarrow> p | None \<Rightarrow> 5060) @ '';branch='' @ vb)"
  "find_map as_call_id (request_headers b m fu ft tu ci cs vh vb) = Some ci"
  "find_map as_cseq (request_headers b m fu ft tu ci cs vh vb) =
     Some (to_dec cs @ '' '' @ sip_method_display (method_from_parser m))"
  "qb_from_display b = None \<Longrightarrow>
     find_map as_from (request_headers b m fu ft tu ci cs vh vb) = Some (addr_with_tag fu ft)"
  "find_map as_to (request_headers b m fu ft tu ci cs vh vb) =
     Some (case qb_to_tag b of Some tag \<Rightarrow> addr_with_tag tu tag | None \<Rightarrow> bracketed tu)"
  by (simp_all add: request_headers_def as_defs)

lemma addr_with_tag_parse:
  assumes "wf_uri u" "CHR ''>'' \<notin> set (uri_display u)" "wf_hparam (''tag'', Some t)"
  shows "name_addr_parse (addr_with_tag u t) =
      Inr \<lparr>na_display_name = None, na_uri = u, na_parameters = [(''tag'', Some t)]\<rparr>"
    "name_addr_parse (bracketed u) = Inr \<lparr>na_display_name = None, na_uri = u, na_parameters = []\<rparr>"
proof -
  let ?na = "\<lparr>na_display_name = None, na_uri = u, na_parameters = [(''tag'', Some t)]\<rparr> :: name_addr"
  let ?nb = "\<lparr>na_display_name = None, na_uri = u, na_parameters = []\<rparr> :: name_addr"
  have "wf_name_addr ?na" "wf_name_addr ?nb" using assms by (simp_all add: wf_name_addr_def)
  from name_addr_parse_display [OF this(1)] name_addr_parse_display [OF this(2)]
  show "name_addr_parse (addr_with_tag u t) = Inr ?na" "name_addr_parse (bracketed u) = Inr ?nb"
    by (simp_all add: name_addr_display_def addr_with_tag_def bracketed_def)
qed

lemma sent_by_scan_prefix:
  "sent_by_scan q s = Inr (length s) \<Longrightarrow>
     sent_by_scan q (s @ t) = and_then (sent_by_scan False t) (\<lambda>n. Inr (length s + n))"
proof (induction q s rule: sent_by_scan.induct)
  case (1 q)
  then show ?case by (cases "sent_by_scan False t") (simp_all split: if_splits)
next
  case (2 q b bs)
  then show ?case
    by (cases "sent_by_scan False t") (auto simp: and_then_Inr_iff split: if_splits)
qed

lemma sent_by_scan_plain:
  "sep_free ''[];'' t \<Longrightarrow> sent_by_scan False t = Inr (length t)"
  by (induction t) simp_all

lemma built_via:
  assumes "graphic tr" "tr \<noteq> []" "CHR ''/'' \<notin> set tr" "graphic vh" "vh \<noteq> []"
    "sent_by_scan False vh = Inr (length vh)" "wf_hparam (''branch'', Some vb)"
  shows "typed_via_parse (''SIP/2.0/'' @ tr @ '' '' @ vh @ '':'' @ to_dec p @ '';branch='' @ vb) =
     Inr \<lparr>tv_protocol = ''SIP/2.0'', tv_transport = tr, tv_sent_by = vh @ '':'' @ to_dec p,
          tv_params = [(''branch'', Some vb)]\<rparr>" (is "_ = Inr ?v")
proof -
  have "sep_free ''[];'' ('':'' @ to_dec p)"
    using to_dec_no_sep [of "CHR ''[''" p] to_dec_no_sep [of "CHR '']''" p]
    by (simp add: sep_free_def is_ascii_digit_def)
  then have "sent_by_scan False (vh @ '':'' @ to_dec p) = Inr (length (vh @ '':'' @ to_dec p))"
    using sent_by_scan_prefix [OF assms(6), of "'':'' @ to_dec p"] sent_by_scan_plain by simp
  then have "wf_via ?v" using assms by (simp add: wf_via_def)
  from typed_via_parse_display [OF this] show ?thesis by (simp add: typed_via_display_def)
qed

lemma built_request_fields:
  assumes "qb_build b = Inr r" "wf_request_builder b"
  shows "Some (req_method r) = map_option method_from_parser (qb_method b)"
    "req_uri r = qb_uri b" "Some (req_call_id r) = map_option Inr (qb_call_id b)"
    "Some (req_cseq r) = map_option Inr (qb_cseq b)" "req_cseq_method r = Inr (req_method r)"
    "Some (req_via_branch r) = map_option Inr (qb_via_branch b)"
    "Some (req_from_tag r) = map_option Inr (qb_from_tag b)" "req_to_tag r = qb_to_tag b"
proof -
  obtain m u fu ft tu ci cs vh vb where b: "qb_method b = Some m" "qb_uri b = Some u"
    "qb_from_uri b = Some fu" "qb_from_tag b = Some ft" "qb_to_uri b = Some tu"
    "qb_call_id b = Some ci" "qb_cseq b = Some cs" "qb_via_host b = Some vh"
    "qb_via_branch b = Some vb" and r: "rq_method r = m" "rq_uri r = uri_display u"
    and hs: "rq_headers r = request_headers b m fu ft tu ci cs vh vb"
    by (rule qb_build_Inr [OF assms(1)]) blast
  have plain: "list_all plain_header (rq_headers r)"
    unfolding hs using assms(2) by (intro plain_request_headers) (simp add: wf_request_builder_def)
  note wf = assms(2) [unfolded wf_request_builder_def b, simplified]
  note get = get_first_value_plain [OF plain, unfolded hs]
  show "Some (req_method r) = map_option method_from_parser (qb_method b)" "req_uri r = qb_uri b"
    "Some (req_call_id r) = map_option Inr (qb_call_id b)"
    using wf by (simp_all add: b r req_method_def req_uri_def uri_parse_display req_call_id_def
        required_value_def get hs request_lookup)
  have "cseq_parse (to_dec cs @ '' '' @ sip_method_display (method_from_parser m)) =
      Inr \<lparr>cs_seq = cs, cs_method = m\<rparr>"
    using cseq_parse_display [of "\<lparr>cs_seq = cs, cs_method = m\<rparr>"] wf
    by (simp add: cseq_display_def wf_cseq_def p_method_as_str_display [symmetric] del: p_method_as_str_display)
  then show "Some (req_cseq r) = map_option Inr (qb_cseq b)" "req_cseq_method r = Inr (req_method r)"
    by (simp_all add: b req_cseq_def req_cseq_method_def h_cseq_def required_value_def get hs
        request_lookup req_method_def r)
  have "graphic (case qb_via_transport b of Some t \<Rightarrow> t | None \<Rightarrow> ''UDP'')"
    "(case qb_via_transport b of Some t \<Rightarrow> t | None \<Rightarrow> ''UDP'') \<noteq> []"
    "CHR ''/'' \<notin> set (case qb_via_transport b of Some t \<Rightarrow> t | None \<Rightarrow> ''UDP'')"
    using wf by (cases "qb_via_transport b"; simp)+
  from built_via [OF this, of vh vb] wf
  show "Some (req_via_branch r) = map_option Inr (qb_via_branch b)"
    by (simp add: b req_via_branch_def h_via_branch_def required_value_def get hs request_lookup
        tv_branch_def find_key_def)
  show "Some (req_from_tag r) = map_option Inr (qb_from_tag b)"
    using wf addr_with_tag_parse(1) [of fu ft]
    by (simp add: b req_from_tag_def h_from_tag_def h_from_def required_value_def get hs request_lookup
        from_parse_def from_header_tag_def find_key_def)
  show "req_to_tag r = qb_to_tag b"
    using wf addr_with_tag_parse [of tu "the (qb_to_tag b)"] addr_with_tag_parse(2) [of tu "''t''"]
    by (cases "qb_to_tag b")
       (simp_all add: b req_to_tag_def h_to_tag_def get hs request_lookup to_parse_def
        to_header_tag_def find_key_def wf_hparam_def DQUOTE_def ascii_simps)
qed

section \<open>Properties of the wrappers\<close>

text \<open>
  C30. A response built from a request mirrors it: all Via values in order, the same branch, From tag,
  Call-ID, CSeq number and CSeq method (or the same error where the request lacks or garbles them),
  and the status that was set. The request may hold any headers a parsed message can hold. The response
  reports the tag given to \<open>to_tag\<close> where this is a legal parameter value and the To value of the request is
  the printed form of a well-formed address without a tag parameter that does not contain the text
  \<open>tag=\<close> elsewhere either, for example in its URI: there \<open>to_tag\<close> takes the tag for set.
\<close>
theorem response_mirrors_request:
  assumes "pb_build (pb_to_tag tag (reply c reason req)) = Inr resp"
    and "list_all wf_header (rq_headers req)"
  shows "via_values (rs_headers resp) = via_values (rq_headers req) \<and>
    resp_via_branch resp = req_via_branch req \<and> resp_from_tag resp = req_from_tag req \<and>
    resp_call_id resp = req_call_id req \<and> resp_cseq resp = req_cseq req \<and>
    resp_cseq_method resp = req_cseq_method req \<and> resp_status_code resp = c \<and>
    (\<forall>na. find_map as_to (rq_headers req) = Some (name_addr_display na) \<longrightarrow> wf_name_addr na \<longrightarrow>
       find (\<lambda>(k, _). eq_ignore_ascii_case k ''tag'') (na_parameters na) = None \<longrightarrow>
       \<not> contains_sub ''tag='' (name_addr_display na) \<longrightarrow> wf_hparam (''tag'', Some tag) \<longrightarrow>
       resp_to_tag resp = Some tag)"
proof -
  let ?b = "pb_to_tag tag (reply c reason req)"
  have plain: "list_all plain_header (rq_headers req)"
    using assms(2) by (auto simp: list_all_iff wf_header_plain)
  note hs = pb_build_Inr [OF assms(1)]
  have via: "via_values (rs_headers resp) = via_values (rq_headers req)"
    by (simp add: hs via_values_response reply_fields)
  have look: "get_first_value (rs_headers resp) ''Via'' = get_first_value (rq_headers req) ''Via''"
    "get_first_value (rs_headers resp) ''From'' = get_first_value (rq_headers req) ''From''"
    "get_first_value (rs_headers resp) ''Call-ID'' = get_first_value (rq_headers req) ''Call-ID''"
    "get_first_value (rs_headers resp) ''CSeq'' =
       map_option (mirrored_cseq req) (get_first_value (rq_headers req) ''CSeq'')"
    "get_first_value (rs_headers resp) ''To'' = pb_to ?b"
    by (simp_all add: hs get_first_value_plain plain plain_response_headers response_lookup reply_fields
        find_map_map_option hd_via_values [of "rq_headers req"])
  have cseq: "h_cseq (rs_headers resp) = h_cseq (rq_headers req)"
    using cseq_mirror [OF _ plain]
    by (cases "find_map as_cseq (rq_headers req)")
       (simp_all add: h_cseq_def required_value_def look get_first_value_plain plain)
  have "resp_to_tag resp = Some tag"
    if "find_map as_to (rq_headers req) = Some (name_addr_display na)" "wf_name_addr na"
      "find (\<lambda>(k, _). eq_ignore_ascii_case k ''tag'') (na_parameters na) = None"
      "\<not> contains_sub ''tag='' (name_addr_display na)" "wf_hparam (''tag'', Some tag)" for na
    using that to_tag_added [OF that(2,3,5)]
    by (simp add: resp_to_tag_def h_to_tag_def look pb_to_tag_def reply_fields)
  with via look cseq hs(2) show ?thesis
    by (simp add: resp_via_branch_def req_via_branch_def h_via_branch_def required_value_def
        resp_from_tag_def req_from_tag_def h_from_tag_def h_from_def resp_call_id_def req_call_id_def
        resp_cseq_def req_cseq_def resp_cseq_method_def req_cseq_method_def resp_status_code_def
        reply_fields)
qed


definition sample_invite :: sip_request where
  "sample_invite =
     \<lparr>rq_method = PInvite, rq_uri = ''sip:b'', rq_version = ''SIP/2.0'',
      rq_headers =
        [HVia ''SIP/2.0/UDP h:5060;branch=z9hG4bK1'', HFrom ''<sip:a>;tag=f1'', HTo ''<sip:b>'',
         HCallId ''c1'', HCSeq ''7 INVITE'', HContentLength ''0''],
      rq_body = []\<rparr>"

lemma sample_invite_headers: "list_all wf_header (rq_headers sample_invite)"
proof -
  have "tight ''SIP/2.0/UDP h:5060;branch=z9hG4bK1''" "tight ''7 INVITE''"
    using tight_tokens [of "''SIP/2.0/UDP''" "''h:5060;branch=z9hG4bK1''" "'' ''"]
      tight_tokens [of "''7''" "''INVITE''" "'' ''"] by simp_all
  then show ?thesis
    by (simp add: sample_invite_def wf_header_def tight_graphic MAX_HEADER_VALUE_LEN_def)
qed

lemma sample_to_value:
  "name_addr_display
     \<lparr>na_display_name = None,
      na_uri = \<lparr>uri_scheme = Sip, uri_user = None, uri_host = ''b'', uri_port = None,
                uri_params = [], uri_headers = []\<rparr>,
      na_parameters = []\<rparr> = ''<sip:b>''"
  by (simp add: name_addr_display_def uri_display_def)

lemma sample_invite_reads:
  "req_via_branch sample_invite = Inr ''z9hG4bK1''" "req_cseq sample_invite = Inr 7"
proof -
  let ?v = "\<lparr>tv_protocol = ''SIP/2.0'', tv_transport = ''UDP'', tv_sent_by = ''h:5060'',
      tv_params = [(''branch'', Some ''z9hG4bK1'')]\<rparr>"
  have "typed_via_display ?v = ''SIP/2.0/UDP h:5060;branch=z9hG4bK1''"
    by (simp add: typed_via_display_def)
  moreover have "wf_via ?v"
    by (simp add: wf_via_def wf_hparam_def DQUOTE_def ascii_simps)
  ultimately have via: "typed_via_parse ''SIP/2.0/UDP h:5060;branch=z9hG4bK1'' = Inr ?v"
    using typed_via_parse_display [of ?v] by simp
  have "cseq_display \<lparr>cs_seq = 7, cs_method = PInvite\<rparr> = ''7 INVITE''"
    by (simp add: cseq_display_def to_dec.simps ascii_simps)
  then have cseq: "cseq_parse ''7 INVITE'' = Inr \<lparr>cs_seq = 7, cs_method = PInvite\<rparr>"
    using cseq_parse_display [of "\<lparr>cs_seq = 7, cs_method = PInvite\<rparr>"] by (simp add: wf_cseq_def)
  have plain: "list_all plain_header (rq_headers sample_invite)"
    using sample_invite_headers by (auto simp: list_all_iff wf_header_plain)
  have "get_first_value (rq_headers sample_invite) ''Via'' = Some ''SIP/2.0/UDP h:5060;branch=z9hG4bK1''"
    "get_first_value (rq_headers sample_invite) ''CSeq'' = Some ''7 INVITE''"
    by (simp_all only: get_first_value_plain [OF plain]) (simp_all add: sample_invite_def as_defs)
  with via cseq show "req_via_branch sample_invite = Inr ''z9hG4bK1''" "req_cseq sample_invite = Inr 7"
    by (simp_all add: req_via_branch_def h_via_branch_def required_value_def tv_branch_def find_key_def
        req_cseq_def h_cseq_def)
qed

theorem response_mirrors_request_witness:
  "\<exists>resp. pb_build (pb_to_tag ''t9'' (reply 180 ''Ringing'' sample_invite)) = Inr resp \<and>
     resp_via_branch resp = Inr ''z9hG4bK1'' \<and> resp_cseq resp = Inr 7 \<and> resp_to_tag resp = Some ''t9''"
proof -
  let ?na = "\<lparr>na_display_name = None,
      na_uri = \<lparr>uri_scheme = Sip, uri_user = None, uri_host = ''b'', uri_port = None,
                uri_params = [], uri_headers = []\<rparr>,
      na_parameters = []\<rparr> :: name_addr"
  obtain resp where resp: "pb_build (pb_to_tag ''t9'' (reply 180 ''Ringing'' sample_invite)) = Inr resp"
    by (simp add: pb_build_def reply_fields push_all_eq response_headers_def emit_def body_headers_def
        via_values_def map_filter_simps sample_invite_def MAX_HEADERS_def pb_to_tag_def reply_def
        pb_from_request_def pb_status_def pb_new_def contains_sub_def split: option.splits)
  have "wf_name_addr ?na"
    by (simp add: wf_name_addr_def wf_uri_def wf_host_def uri_display_def MAX_URI_HEADERS_def)
  moreover have "find_map as_to (rq_headers sample_invite) = Some (name_addr_display ?na)"
    unfolding sample_to_value by (simp add: sample_invite_def as_to_def)
  moreover have "\<not> contains_sub ''tag='' (name_addr_display ?na)" "wf_hparam (''tag'', Some ''t9'')"
    unfolding sample_to_value by (simp_all add: contains_sub_def wf_hparam_def DQUOTE_def ascii_simps)
  moreover have "req_via_branch sample_invite = Inr ''z9hG4bK1''" "req_cseq sample_invite = Inr 7"
    by (rule sample_invite_reads)+
  ultimately show ?thesis
    using response_mirrors_request [OF resp sample_invite_headers] resp by auto
qed


text \<open>
  C31. A built request reports exactly what was set: its method (also as the CSeq method), Request-URI,
  Call-ID, CSeq number, Via branch, From tag and To tag, for every builder whose texts are legal
  tokens and URIs and that sets no display name in From. In particular the branch and method that key the client transaction are those of the caller.
\<close>
theorem built_request_reads_back:
  assumes "qb_build b = Inr r" "wf_request_builder b"
  shows "Some (req_method r) = map_option method_from_parser (qb_method b) \<and>
    req_cseq_method r = Inr (req_method r) \<and> req_uri r = qb_uri b \<and>
    Some (req_call_id r) = map_option Inr (qb_call_id b) \<and>
    Some (req_cseq r) = map_option Inr (qb_cseq b) \<and>
    Some (req_via_branch r) = map_option Inr (qb_via_branch b) \<and>
    Some (req_from_tag r) = map_option Inr (qb_from_tag b) \<and> req_to_tag r = qb_to_tag b"
  using built_request_fields [OF assms] by blast

definition sample_builder :: request_builder where
  "sample_builder =
     qb_set_cseq 7 (qb_set_call_id ''c1'' (qb_to ''sip:b'' (qb_from ''sip:a'' ''f1''
       (qb_via ''h'' 5060 ''TCP'' ''z9hG4bK1'' (qb_set_uri ''sip:b'' (qb_set_method Bye qb_new))))))"

lemma simple_uri_parses:
  "uri_parse ''sip:b'' = Inr \<lparr>uri_scheme = Sip, uri_user = None, uri_host = ''b'', uri_port = None,
     uri_params = [], uri_headers = []\<rparr>"
  "uri_parse ''sip:a'' = Inr \<lparr>uri_scheme = Sip, uri_user = None, uri_host = ''a'', uri_port = None,
     uri_params = [], uri_headers = []\<rparr>"
  by (simp_all add: framing_eval tight_graphic)

theorem built_request_reads_back_witness:
  "\<exists>r. qb_build sample_builder = Inr r \<and> req_method r = Bye \<and> req_via_branch r = Inr ''z9hG4bK1'' \<and>
     req_cseq r = Inr 7 \<and> req_from_tag r = Inr ''f1''"
proof -
  note defs = sample_builder_def qb_set_cseq_def qb_set_call_id_def qb_to_def qb_from_def qb_via_def
    qb_set_uri_def qb_set_method_def qb_new_def simple_uri_parses
  obtain r where r: "qb_build sample_builder = Inr r"
    by (simp add: qb_build_def defs push_all_eq request_headers_def emit_def body_headers_def MAX_HEADERS_def)
  have "wf_request_builder sample_builder"
    by (simp add: wf_request_builder_def defs wf_uri_def wf_host_def wf_hparam_def uri_display_def
        MAX_URI_HEADERS_def DQUOTE_def ascii_simps)
  from built_request_reads_back [OF r this] r show ?thesis by (simp add: defs)
qed

end
