(* ===== verification/Txn_Timer.thy ===== *)
theory Txn_Timer
  imports Sip_Message
begin

text \<open>
  The timers of the transaction layer (\<open>transaction/timer.rs\<close>), what the four transaction machines
  have in common (transaction identifiers, actions), and the two interfaces their proofs share: a
  machine that only moves forward, and a machine run against a clock that fires armed timers.
\<close>

section \<open>Timer values\<close>

record timer_values =
  tm_t1 :: duration
  tm_t2 :: duration
  tm_t4 :: duration

definition timer_default :: timer_values where
  "timer_default = \<lparr>tm_t1 = from_millis 500, tm_t2 = from_secs 4, tm_t4 = from_secs 5\<rparr>"

definition with_t1 :: "nat \<Rightarrow> timer_values" where
  "with_t1 t1_ms = timer_default\<lparr>tm_t1 := from_millis t1_ms\<rparr>"

definition timer_a :: "timer_values \<Rightarrow> duration" where
  "timer_a tv = tm_t1 tv"

definition timer_b :: "timer_values \<Rightarrow> duration" where
  "timer_b tv = tm_t1 tv * 64"

definition timer_c :: "timer_values \<Rightarrow> duration" where
  "timer_c tv = from_secs 180 + from_secs 1"

definition timer_d :: "timer_values \<Rightarrow> duration" where
  "timer_d tv = from_secs 32 + from_secs 1"

definition timer_e :: "timer_values \<Rightarrow> duration" where
  "timer_e tv = tm_t1 tv"

definition timer_f :: "timer_values \<Rightarrow> duration" where
  "timer_f tv = tm_t1 tv * 64"

definition timer_g :: "timer_values \<Rightarrow> duration" where
  "timer_g tv = tm_t1 tv"

definition timer_h :: "timer_values \<Rightarrow> duration" where
  "timer_h tv = tm_t1 tv * 64"

definition timer_i :: "timer_values \<Rightarrow> duration" where
  "timer_i tv = tm_t4 tv"

definition timer_j :: "timer_values \<Rightarrow> bool \<Rightarrow> duration" where
  "timer_j tv reliable = (if reliable then 0 else tm_t1 tv * 64)"

definition timer_k :: "timer_values \<Rightarrow> bool \<Rightarrow> duration" where
  "timer_k tv reliable = (if reliable then 0 else tm_t4 tv)"

definition next_retransmit :: "timer_values \<Rightarrow> duration \<Rightarrow> duration" where
  "next_retransmit tv current = (let doubled = current * 2 in min doubled (tm_t2 tv))"

datatype timer = TimerA | TimerB | TimerC | TimerD | TimerE | TimerF | TimerG | TimerH | TimerI
  | TimerJ | TimerK | TimerN

record active_timer =
  at_timer :: timer
  at_deadline_us :: nat

definition active_timer_new :: "timer \<Rightarrow> nat \<Rightarrow> active_timer" where
  "active_timer_new t deadline = \<lparr>at_timer = t, at_deadline_us = deadline\<rparr>"

definition is_expired :: "active_timer \<Rightarrow> nat \<Rightarrow> bool" where
  "is_expired at now_us \<longleftrightarrow> at_deadline_us at \<le> now_us"

lemmas timer_defs = timer_default_def from_millis_def from_secs_def timer_a_def timer_b_def
  timer_d_def timer_e_def timer_f_def timer_g_def timer_h_def timer_i_def timer_j_def timer_k_def
  next_retransmit_def

subsection \<open>The retransmission schedule\<close>

text \<open>The interval after \<open>n\<close> retransmissions: T1 doubled \<open>n\<close> times, cut off at T2.\<close>

definition backoff :: "timer_values \<Rightarrow> nat \<Rightarrow> duration" where
  "backoff tv n = (next_retransmit tv ^^ n) (tm_t1 tv)"

lemma min_double: "min (min (x * k) m * 2) m = min (x * (k * 2)) (m :: nat)"
  by (simp add: min_def)

lemma backoff_closed:
  assumes "tm_t1 tv \<le> tm_t2 tv" shows "backoff tv n = min (tm_t1 tv * 2 ^ n) (tm_t2 tv)"
  by (induction n) (use assms in \<open>simp_all add: backoff_def next_retransmit_def min_double mult.assoc\<close>)

lemma backoff_default: "backoff timer_default n = min (500 * 2 ^ n) 4000"
  using backoff_closed [of timer_default n] by (simp add: timer_defs)

section \<open>Transaction identifiers and actions\<close>

record transaction_id =
  ti_branch :: string
  ti_method :: sip_method

definition id_from_request :: "sip_request \<Rightarrow> transaction_id option" where
  "id_from_request req =
     Option.bind (ok (req_via_branch req)) (\<lambda>branch.
     Some \<lparr>ti_branch = branch, ti_method = req_method req\<rparr>)"

definition id_from_response :: "sip_response \<Rightarrow> transaction_id option" where
  "id_from_response resp =
     Option.bind (ok (resp_via_branch resp)) (\<lambda>branch.
     Option.bind (ok (resp_cseq_method resp)) (\<lambda>method.
     Some \<lparr>ti_branch = branch, ti_method = method\<rparr>))"

text \<open>The four machines declare the same actions over their own events.\<close>

datatype 'e action = Send string | Event 'e | SetTimer timer duration | CancelTimer timer

subsection \<open>Sample messages\<close>

definition sample_options :: sip_request where
  "sample_options = sample_invite\<lparr>rq_method := POptions\<rparr>"

definition sample_ok :: sip_response where
  "sample_ok = \<lparr>rs_version = ''SIP/2.0'', rs_status_code = 200, rs_reason = ''OK'',
     rs_headers = [], rs_body = []\<rparr>"

lemma sample_options_reads: "req_method sample_options = Options" "req_via_branch sample_options = Inr ''z9hG4bK1''"
  using sample_invite_reads by (simp_all add: sample_options_def req_method_def req_via_branch_def)

section \<open>Machines that only move forward\<close>

text \<open>
  What the four machines promise a user: the state never moves backwards, the identity of the
  transaction never changes, and actions are only ever added behind those already queued.
\<close>

locale forward_machine =
  fixes step :: "'i \<Rightarrow> 's \<Rightarrow> 's" and rank :: "'s \<Rightarrow> nat" and actions :: "'s \<Rightarrow> 'e action list"
    and key :: "'s \<Rightarrow> 'k" and top :: nat
  assumes rank_step: "rank s \<le> rank (step i s)"
    and rank_top: "rank s \<le> top"
    and key_step: "key (step i s) = key s"
    and actions_step: "\<exists>new. actions (step i s) = actions s @ new"
begin

lemma rank_run: "rank s \<le> rank (fold step is s)"
proof (induction "is" arbitrary: s)
  case (Cons i "is")
  have "rank s \<le> rank (step i s)" by (rule rank_step)
  also have "\<dots> \<le> rank (fold step is (step i s))" by (rule Cons)
  finally show ?case by simp
qed simp

lemma key_run: "key (fold step is s) = key s"
  by (induction "is" arbitrary: s) (simp_all add: key_step)

lemma actions_run: "\<exists>new. actions (fold step is s) = actions s @ new"
proof (induction "is" arbitrary: s)
  case (Cons i "is")
  obtain a where a: "actions (step i s) = actions s @ a" using actions_step by blast
  obtain b where "actions (fold step is (step i s)) = actions (step i s) @ b" using Cons by blast
  with a show ?case by simp
qed simp

lemma top_absorbs: "rank s = top \<Longrightarrow> rank (fold step is s) = top"
  using rank_run [of s "is"] rank_top [of "fold step is s"] by simp

end

section \<open>Machines under a clock\<close>

text \<open>
  The timers a sequence of actions leaves armed, and with which duration. Setting a timer replaces
  an earlier setting; cancelling disarms it.
\<close>

type_synonym armed = "timer \<rightharpoonup> duration"

fun arm :: "'e action \<Rightarrow> armed \<Rightarrow> armed" where
  "arm (SetTimer t d) A = A(t \<mapsto> d)"
| "arm (CancelTimer t) A = A(t := None)"
| "arm (Send _) A = A"
| "arm (Event _) A = A"

abbreviation arms :: "'e action list \<Rightarrow> armed \<Rightarrow> armed" where
  "arms as A \<equiv> fold arm as A"

text \<open>
  The configurations a machine reaches when its actions are drained after every step, as the manager
  does: a timer fires only while it is armed and is disarmed by firing; every other input may arrive
  at any moment.
\<close>

inductive clocked ::
  "('i \<Rightarrow> 's \<Rightarrow> 's) \<Rightarrow> (timer \<Rightarrow> 'i) \<Rightarrow> ('s \<Rightarrow> 'e action list \<times> 's) \<Rightarrow> 's \<Rightarrow> 's \<Rightarrow> armed \<Rightarrow> bool"
  for step :: "'i \<Rightarrow> 's \<Rightarrow> 's" and fire :: "timer \<Rightarrow> 'i" and poll :: "'s \<Rightarrow> 'e action list \<times> 's"
    and s0 :: 's
where
  clocked_start: "poll s0 = (as, s) \<Longrightarrow> clocked step fire poll s0 s (arms as Map.empty)"
| clocked_fire: "clocked step fire poll s0 s A \<Longrightarrow> A t = Some d \<Longrightarrow> poll (step (fire t) s) = (as, s') \<Longrightarrow>
     clocked step fire poll s0 s' (arms as (A(t := None)))"
| clocked_input: "clocked step fire poll s0 s A \<Longrightarrow> (\<And>t. i \<noteq> fire t) \<Longrightarrow> poll (step i s) = (as, s') \<Longrightarrow>
     clocked step fire poll s0 s' (arms as A)"

lemma clocked_invariant:
  assumes "clocked step fire poll s0 s A" "P (snd (poll s0))" "\<And>i s. P s \<Longrightarrow> P (snd (poll (step i s)))"
  shows "P s"
  using assms(1) by (induction rule: clocked.induct) (metis assms(2,3) snd_conv)+

text \<open>
  A deadline is a timer that ends the transaction when it fires. The interface asks that a state with
  a deadline is entered by arming it and left without touching it; then the deadline is armed, with
  its duration, in every reachable configuration of that state, and the transaction cannot hang.
\<close>

locale deadline_machine =
  fixes step :: "'i \<Rightarrow> 's \<Rightarrow> 's" and fire :: "timer \<Rightarrow> 'i" and poll :: "'s \<Rightarrow> 'e action list \<times> 's"
    and deadline :: "'s \<Rightarrow> (timer \<times> duration) option" and terminated :: "'s \<Rightarrow> bool"
    and initial :: "'s \<Rightarrow> bool"
  assumes initial_armed: "initial s \<Longrightarrow> poll s = (as, s') \<Longrightarrow> deadline s' = Some (t, d) \<Longrightarrow>
      arms as Map.empty t = Some d"
    and initial_drained: "initial s \<Longrightarrow> poll s = (as, s') \<Longrightarrow> poll s' = ([], s')"
    and poll_drains: "poll s = ([], s) \<Longrightarrow> poll (step i s) = (as, s') \<Longrightarrow> poll s' = ([], s')"
    and deadline_step: "poll s = ([], s) \<Longrightarrow> poll (step i s) = (as, s') \<Longrightarrow>
      deadline s' = Some (t, d) \<Longrightarrow>
      (\<forall>A. arms as A t = Some d) \<or>
      deadline s = Some (t, d) \<and> i \<noteq> fire t \<and> (\<forall>A. arms as A t = A t)"
    and deadline_fires: "deadline s = Some (t, d) \<Longrightarrow> poll (step (fire t) s) = (as, s') \<Longrightarrow> terminated s'"
begin

lemma clocked_drained:
  assumes "clocked step fire poll s0 s A" "initial s0" shows "poll s = ([], s)"
  using assms by (induction rule: clocked.induct) (auto intro: initial_drained poll_drains)

lemma deadline_armed:
  assumes "clocked step fire poll s0 s A" "initial s0" "deadline s = Some (t, d)"
  shows "A t = Some d"
  using assms
proof (induction arbitrary: t d rule: clocked.induct)
  case (clocked_start as s)
  then show ?case by (auto intro: initial_armed)
next
  case (clocked_fire s A t' d' as s')
  have "poll s = ([], s)" using clocked_drained clocked_fire.hyps(1) clocked_fire.prems(1) .
  from deadline_step [OF this clocked_fire.hyps(3) clocked_fire.prems(2)] show ?case
    using clocked_fire by auto
next
  case (clocked_input s A i as s')
  have "poll s = ([], s)" using clocked_drained clocked_input.hyps(1) clocked_input.prems(1) .
  from deadline_step [OF this clocked_input.hyps(3) clocked_input.prems(2)] show ?case
    using clocked_input by auto
qed

text \<open>A timer that only its own expiry rearms stays disarmed if the start does not arm it.\<close>

lemma never_armed:
  assumes "clocked step fire poll s0 s A" "initial s0" "\<And>t'. fire t' = fire t \<Longrightarrow> t' = t"
    and "\<And>as s. poll s0 = (as, s) \<Longrightarrow> arms as Map.empty t = None"
    and "\<And>i s as s' B. poll s = ([], s) \<Longrightarrow> i \<noteq> fire t \<Longrightarrow> poll (step i s) = (as, s') \<Longrightarrow> B t = None \<Longrightarrow>
      arms as B t = None"
  shows "A t = None"
  using assms(1)
proof (induction rule: clocked.induct)
  case (clocked_start as s)
  then show ?case by (rule assms(4))
next
  case (clocked_fire s A t' d as s')
  then have "t' \<noteq> t" by auto
  then have "fire t' \<noteq> fire t" using assms(3) by blast
  with clocked_fire show ?case by (intro assms(5) [OF clocked_drained [OF clocked_fire.hyps(1) assms(2)]]) auto
next
  case (clocked_input s A i as s')
  then show ?case by (intro assms(5) [OF clocked_drained [OF clocked_input.hyps(1) assms(2)]]) auto
qed

lemma not_stuck:
  assumes "clocked step fire poll s0 s A" "initial s0" "deadline s = Some (t, d)"
  shows "A t = Some d \<and> terminated (snd (poll (step (fire t) s)))"
  using deadline_armed [OF assms] deadline_fires [OF assms(3)]
  by (metis prod.collapse)

end

text \<open>
  Both contracts together: draining the actions keeps the identity and the state, so what holds of the
  identity when the transaction starts holds in every configuration it reaches.
\<close>

locale transaction_machine =
  forward_machine step rank actions key top +
  deadline_machine step fire poll deadline terminated initial
  for step :: "'i \<Rightarrow> 's \<Rightarrow> 's" and rank actions key top fire poll deadline terminated initial +
  assumes poll_actions: "fst (poll s) = actions s"
    and poll_key: "key (snd (poll s)) = key s"
    and poll_rank: "rank (snd (poll s)) = rank s"
begin

lemma clocked_key:
  assumes "clocked step fire poll s0 s A" shows "key s = key s0"
  using assms by (induction rule: clocked.induct) (metis key_step poll_key snd_conv)+

lemma clocked_rank:
  assumes "clocked step fire poll s0 s A" shows "rank s0 \<le> rank s"
  using assms
  by (induction rule: clocked.induct)
     (metis poll_rank snd_conv order_refl, (metis rank_step poll_rank snd_conv order_trans)+)

end

section \<open>What the user of a client transaction is told\<close>

fun event_of :: "'e action \<Rightarrow> 'e option" where
  "event_of (Event e) = Some e"
| "event_of (Send _) = None"
| "event_of (SetTimer _ _) = None"
| "event_of (CancelTimer _) = None"

definition events :: "'e action list \<Rightarrow> 'e list" where
  "events as = List.map_filter event_of as"

fun sent_of :: "'e action \<Rightarrow> string option" where
  "sent_of (Send m) = Some m"
| "sent_of (Event _) = None"
| "sent_of (SetTimer _ _) = None"
| "sent_of (CancelTimer _) = None"

definition sent :: "'e action list \<Rightarrow> string list" where
  "sent as = List.map_filter sent_of as"

lemma events_simps [simp]:
  "events [] = []" "events (Event e # as) = e # events as" "events (Send m # as) = events as"
  "events (SetTimer t d # as) = events as" "events (CancelTimer t # as) = events as"
  "events (as @ bs) = events as @ events bs" "events (map CancelTimer ts) = []"
  by (simp_all add: events_def List.map_filter_def o_def)

lemma sent_simps [simp]:
  "sent [] = []" "sent (Event e # as) = sent as" "sent (Send m # as) = m # sent as"
  "sent (SetTimer t d # as) = sent as" "sent (CancelTimer t # as) = sent as"
  "sent (as @ bs) = sent as @ sent bs" "sent (map CancelTimer ts) = []"
  by (simp_all add: sent_def List.map_filter_def o_def)

lemma sent_schedule:
  "sent (concat (map (\<lambda>k. [Send m, SetTimer t (f k)]) ks)) = replicate (length ks) m"
  by (induction ks) simp_all

text \<open>
  A transaction settles once: the step that settles it reports exactly one outcome, no step before it
  reports one, and the steps after it report only outcomes of the repeatable kind.
\<close>

locale outcome_machine = forward_machine step rank actions key top
  for step :: "'i \<Rightarrow> 's \<Rightarrow> 's" and rank and actions :: "'s \<Rightarrow> 'e action list" and key top +
  fixes settled :: "'s \<Rightarrow> bool" and outcome :: "'e \<Rightarrow> bool" and again :: "'e \<Rightarrow> bool"
  assumes settled_step: "settled s \<Longrightarrow> settled (step i s)"
    and outcome_before: "actions (step i s) = actions s @ new \<Longrightarrow> \<not> settled (step i s) \<Longrightarrow>
      filter outcome (events new) = []"
    and outcome_once: "actions (step i s) = actions s @ new \<Longrightarrow> \<not> settled s \<Longrightarrow> settled (step i s) \<Longrightarrow>
      length (filter outcome (events new)) = 1"
    and outcome_after: "actions (step i s) = actions s @ new \<Longrightarrow> settled s \<Longrightarrow>
      list_all again (filter outcome (events new))"
begin

definition told :: "'s \<Rightarrow> bool" where
  "told s \<longleftrightarrow> (case filter outcome (events (actions s)) of
     [] \<Rightarrow> \<not> settled s
   | e # es \<Rightarrow> settled s \<and> list_all again es)"

lemma told_step: assumes "told s" shows "told (step i s)"
proof -
  obtain new where new: "actions (step i s) = actions s @ new" using actions_step by blast
  consider "settled s" | "\<not> settled s" "settled (step i s)" | "\<not> settled (step i s)"
    by blast
  then show ?thesis
  proof cases
    case 1
    with assms outcome_after [OF new] settled_step [OF 1, of i] show ?thesis
      by (auto simp: told_def new split: list.splits)
  next
    case 2
    with assms outcome_once [OF new] show ?thesis
      by (auto simp: told_def new length_Suc_conv split: list.splits)
  next
    case 3
    with assms outcome_before [OF new] settled_step [of s i] show ?thesis
      by (auto simp: told_def new split: list.splits)
  qed
qed

lemma told_run: "told s \<Longrightarrow> told (fold step is s)"
  by (induction "is" arbitrary: s) (simp_all add: told_step)

end

end
