(* ===== verification/Txn_Client_Invite.thy ===== *)
theory Txn_Client_Invite
  imports Txn_Timer
begin

text \<open>
  The INVITE client transaction (\<open>transaction/client/invite.rs\<close>): its state, the handlers for timers,
  responses and transport errors, and the ACK it sends for a failure response. The lemmas show that
  it only moves forward, always has a deadline armed until it terminates, retransmits on the doubling
  schedule, and acknowledges every failure response with an ACK that carries the INVITE's branch.
\<close>

section \<open>The machine\<close>

datatype ic_state = IC_Calling | IC_Proceeding | IC_Completed | IC_Terminated

datatype ic_event = IC_Provisional sip_response | IC_Success sip_response | IC_Failure sip_response
  | IC_Timeout | IC_TransportError

record invite_client =
  ic_id :: transaction_id
  ic_st :: ic_state
  ic_request :: sip_request
  ic_timers :: timer_values
  ic_reliable :: bool
  ic_interval :: duration
  ic_actions :: "ic_event action list"

definition ic_push :: "ic_event action list \<Rightarrow> invite_client \<Rightarrow> invite_client" where
  "ic_push as tx = tx\<lparr>ic_actions := ic_actions tx @ as\<rparr>"

definition ic_new :: "sip_request \<Rightarrow> bool \<Rightarrow> invite_client option" where
  "ic_new request reliable =
     (if req_method request \<noteq> Invite then None
      else Option.bind (id_from_request request) (\<lambda>id.
        let timers = timer_default; interval = timer_a timers;
            tx = \<lparr>ic_id = id, ic_st = IC_Calling, ic_request = request, ic_timers = timers,
                  ic_reliable = reliable, ic_interval = interval, ic_actions = []\<rparr>
        in Some (ic_push
             ([Send (request_to_bytes request)] @
              (if \<not> reliable then [SetTimer TimerA interval] else []) @
              [SetTimer TimerB (timer_b timers)]) tx)))"

definition ic_is_terminated :: "invite_client \<Rightarrow> bool" where
  "ic_is_terminated tx \<longleftrightarrow> ic_st tx = IC_Terminated"

definition ic_handle_timeout :: "timer \<Rightarrow> invite_client \<Rightarrow> invite_client" where
  "ic_handle_timeout t tx =
     (case (ic_st tx, t) of
        (IC_Calling, TimerA) \<Rightarrow>
          (let interval = next_retransmit (ic_timers tx) (ic_interval tx) in
           (ic_push [Send (request_to_bytes (ic_request tx)), SetTimer TimerA interval] tx)
             \<lparr>ic_interval := interval\<rparr>)
      | (IC_Calling, TimerB) \<Rightarrow> ic_push [Event IC_Timeout] (tx\<lparr>ic_st := IC_Terminated\<rparr>)
      | (IC_Proceeding, TimerB) \<Rightarrow> ic_push [Event IC_Timeout] (tx\<lparr>ic_st := IC_Terminated\<rparr>)
      | (IC_Completed, TimerD) \<Rightarrow> tx\<lparr>ic_st := IC_Terminated\<rparr>
      | _ \<Rightarrow> tx)"

subsection \<open>The ACK for a failure response\<close>

definition parse_via_or_default :: "string option \<Rightarrow> string \<Rightarrow> hdr_via" where
  "parse_via_or_default via_raw branch =
     (case Option.bind via_raw (\<lambda>v. ok (hdr_via_parse v)) of
        Some via \<Rightarrow> via
      | None \<Rightarrow> \<lparr>hv_protocol = ''UDP'', hv_host = ''0.0.0.0'', hv_port = 5060, hv_branch = branch,
                 hv_received = None, hv_rport = None\<rparr>)"

text \<open>
  \<open>invite.uri()\<close> panics on a text that does not parse; the model gives no ACK there. No request the
  parser accepted and no built request is affected.
\<close>

definition build_ack_for_non_2xx :: "sip_request \<Rightarrow> sip_request option" where
  "build_ack_for_non_2xx invite =
     Option.bind (ok (req_via_branch invite)) (\<lambda>branch.
     Option.bind (ok (req_call_id invite)) (\<lambda>call_id.
     Option.bind (ok (req_from_tag_and_uri invite)) (\<lambda>(from_tag, from_uri).
     let via = parse_via_or_default
                 (case req_via_headers_raw invite of v # _ \<Rightarrow> Some v | [] \<Rightarrow> None) branch in
     Option.bind (req_uri invite) (\<lambda>uri.
     Option.bind (ok (req_to_uri invite)) (\<lambda>to_uri.
     Option.bind (ok (req_cseq invite)) (\<lambda>cseq.
     ok (qb_build
          (qb_set_cseq cseq (qb_set_call_id call_id (qb_to (uri_display to_uri)
            (qb_from (uri_display from_uri) from_tag
              (qb_via (hv_host via) (hv_port via) (hv_protocol via) branch
                (qb_set_uri (uri_display uri) (qb_set_method Ack qb_new))))))))))))))"

definition ic_send_ack :: "sip_response \<Rightarrow> invite_client \<Rightarrow> invite_client" where
  "ic_send_ack response tx =
     (case build_ack_for_non_2xx (ic_request tx) of
        Some ack \<Rightarrow> ic_push [Send (request_to_bytes ack)] tx
      | None \<Rightarrow> tx)"

text \<open>Entering Completed: the failure response, the ACK and Timer D, shared by two branches.\<close>

definition ic_failure :: "timer list \<Rightarrow> sip_response \<Rightarrow> invite_client \<Rightarrow> invite_client" where
  "ic_failure cancel response tx =
     (let tx = ic_push (map CancelTimer cancel) (tx\<lparr>ic_st := IC_Completed\<rparr>);
          tx = ic_push [Event (IC_Failure response)] (ic_send_ack response tx);
          timer_d' = (if ic_reliable tx then 0 else timer_d (ic_timers tx))
      in if timer_d' = 0 then tx\<lparr>ic_st := IC_Terminated\<rparr>
         else ic_push [SetTimer TimerD timer_d'] tx)"

definition ic_handle_response :: "sip_response \<Rightarrow> invite_client \<Rightarrow> invite_client" where
  "ic_handle_response response tx =
     (let cd = resp_status_code response in
      case ic_st tx of
        IC_Calling \<Rightarrow>
          if 100 \<le> cd \<and> cd < 200 then
            ic_push [Event (IC_Provisional response)]
              (ic_push (if \<not> ic_reliable tx then [CancelTimer TimerA] else [])
                (tx\<lparr>ic_st := IC_Proceeding\<rparr>))
          else if 200 \<le> cd \<and> cd < 300 then
            ic_push [CancelTimer TimerA, CancelTimer TimerB, Event (IC_Success response)]
              (tx\<lparr>ic_st := IC_Terminated\<rparr>)
          else if 300 \<le> cd then ic_failure [TimerA, TimerB] response tx
          else tx
      | IC_Proceeding \<Rightarrow>
          if 100 \<le> cd \<and> cd < 200 then ic_push [Event (IC_Provisional response)] tx
          else if 200 \<le> cd \<and> cd < 300 then
            ic_push [CancelTimer TimerB, Event (IC_Success response)] (tx\<lparr>ic_st := IC_Terminated\<rparr>)
          else if 300 \<le> cd then ic_failure [TimerB] response tx
          else tx
      | IC_Completed \<Rightarrow> if 300 \<le> cd then ic_send_ack response tx else tx
      | IC_Terminated \<Rightarrow>
          if 200 \<le> cd \<and> cd < 300 then ic_push [Event (IC_Success response)] tx else tx)"

definition ic_handle_transport_error :: "invite_client \<Rightarrow> invite_client" where
  "ic_handle_transport_error tx =
     (case ic_st tx of
        IC_Calling \<Rightarrow> ic_push [Event IC_TransportError] (tx\<lparr>ic_st := IC_Terminated\<rparr>)
      | IC_Proceeding \<Rightarrow> ic_push [Event IC_TransportError] (tx\<lparr>ic_st := IC_Terminated\<rparr>)
      | _ \<Rightarrow> tx)"

definition ic_poll_actions :: "invite_client \<Rightarrow> ic_event action list \<times> invite_client" where
  "ic_poll_actions tx = (ic_actions tx, tx\<lparr>ic_actions := []\<rparr>)"

text \<open>The inputs a transaction takes, as one type.\<close>

datatype ic_input = IC_Fire timer | IC_Response sip_response | IC_Error

fun ic_step :: "ic_input \<Rightarrow> invite_client \<Rightarrow> invite_client" where
  "ic_step (IC_Fire t) tx = ic_handle_timeout t tx"
| "ic_step (IC_Response r) tx = ic_handle_response r tx"
| "ic_step IC_Error tx = ic_handle_transport_error tx"

section \<open>The machine moves forward\<close>

fun ic_rank :: "ic_state \<Rightarrow> nat" where
  "ic_rank IC_Calling = 0"
| "ic_rank IC_Proceeding = 1"
| "ic_rank IC_Completed = 2"
| "ic_rank IC_Terminated = 3"

definition ic_key :: "invite_client \<Rightarrow> transaction_id \<times> sip_request \<times> timer_values \<times> bool" where
  "ic_key tx = (ic_id tx, ic_request tx, ic_timers tx, ic_reliable tx)"

lemma ic_push_simps [simp]:
  "ic_id (ic_push as tx) = ic_id tx" "ic_st (ic_push as tx) = ic_st tx"
  "ic_request (ic_push as tx) = ic_request tx" "ic_timers (ic_push as tx) = ic_timers tx"
  "ic_reliable (ic_push as tx) = ic_reliable tx" "ic_interval (ic_push as tx) = ic_interval tx"
  "ic_actions (ic_push as tx) = ic_actions tx @ as"
  by (simp_all add: ic_push_def)

definition ack_actions :: "sip_request \<Rightarrow> ic_event action list" where
  "ack_actions req =
     (case build_ack_for_non_2xx req of Some ack \<Rightarrow> [Send (request_to_bytes ack)] | None \<Rightarrow> [])"

lemma ic_send_ack_simps [simp]:
  "ic_id (ic_send_ack r tx) = ic_id tx" "ic_st (ic_send_ack r tx) = ic_st tx"
  "ic_request (ic_send_ack r tx) = ic_request tx" "ic_timers (ic_send_ack r tx) = ic_timers tx"
  "ic_reliable (ic_send_ack r tx) = ic_reliable tx" "ic_interval (ic_send_ack r tx) = ic_interval tx"
  "ic_actions (ic_send_ack r tx) = ic_actions tx @ ack_actions (ic_request tx)"
  by (simp_all add: ic_send_ack_def ack_actions_def split: option.splits)

lemma ic_failure_simps [simp]:
  "ic_id (ic_failure c r tx) = ic_id tx" "ic_request (ic_failure c r tx) = ic_request tx"
  "ic_timers (ic_failure c r tx) = ic_timers tx" "ic_reliable (ic_failure c r tx) = ic_reliable tx"
  "ic_interval (ic_failure c r tx) = ic_interval tx"
  "ic_st (ic_failure c r tx) = (if ic_reliable tx then IC_Terminated else IC_Completed)"
  "ic_actions (ic_failure c r tx) =
     ic_actions tx @ map CancelTimer c @ ack_actions (ic_request tx) @ [Event (IC_Failure r)] @
     (if ic_reliable tx then [] else [SetTimer TimerD 33000])"
  by (simp_all add: ic_failure_def Let_def timer_defs)

lemmas ic_defs = ic_handle_timeout_def ic_handle_response_def ic_handle_transport_error_def Let_def

lemma ic_step_shape:
  "ic_key (ic_step i tx) = ic_key tx \<and> ic_rank (ic_st tx) \<le> ic_rank (ic_st (ic_step i tx)) \<and>
   (\<exists>new. ic_actions (ic_step i tx) = ic_actions tx @ new)"
proof (cases i)
  case (IC_Fire t)
  then show ?thesis
    by (cases "ic_st tx"; cases t) (simp_all add: ic_defs ic_key_def)
next
  case (IC_Response r)
  then show ?thesis
    by (cases "ic_st tx") (simp_all add: ic_defs ic_key_def)
next
  case IC_Error
  then show ?thesis
    by (cases "ic_st tx") (simp_all add: ic_defs ic_key_def)
qed

section \<open>Deadlines and outcomes\<close>

definition ic_deadline :: "invite_client \<Rightarrow> (timer \<times> duration) option" where
  "ic_deadline tx =
     (case ic_st tx of
        IC_Calling \<Rightarrow> Some (TimerB, timer_b (ic_timers tx))
      | IC_Proceeding \<Rightarrow> Some (TimerB, timer_b (ic_timers tx))
      | IC_Completed \<Rightarrow> Some (TimerD, timer_d (ic_timers tx))
      | IC_Terminated \<Rightarrow> None)"

lemma ic_deadline_drained [simp]: "ic_deadline (tx\<lparr>ic_actions := as\<rparr>) = ic_deadline tx"
  by (simp add: ic_deadline_def cong: ic_state.case_cong)

abbreviation ic_initial :: "invite_client \<Rightarrow> bool" where
  "ic_initial tx \<equiv> \<exists>request reliable. ic_new request reliable = Some tx"

lemma ic_new_Some:
  assumes "ic_new request reliable = Some tx"
  shows "ic_st tx = IC_Calling" "ic_request tx = request" "ic_timers tx = timer_default"
    "ic_reliable tx = reliable" "ic_interval tx = timer_a timer_default"
    "id_from_request request = Some (ic_id tx)" "req_method request = Invite"
    "ic_actions tx = [Send (request_to_bytes request)] @
       (if \<not> reliable then [SetTimer TimerA 500] else []) @ [SetTimer TimerB 32000]"
  using assms
  by (auto simp: ic_new_def Let_def timer_defs bind_eq_Some_conv split: if_splits)

lemma ack_actions_arm [simp]:
  "arms (ack_actions req) A = A" "events (ack_actions req) = []"
  by (simp_all add: ack_actions_def split: option.splits)

lemma ic_deadline_step:
  assumes "ic_actions tx = []" "ic_deadline (ic_step i tx) = Some (t, d)"
  shows "(\<forall>A. arms (ic_actions (ic_step i tx)) A t = Some d) \<or>
    ic_deadline tx = Some (t, d) \<and> i \<noteq> IC_Fire t \<and> (\<forall>A. arms (ic_actions (ic_step i tx)) A t = A t)"
proof (cases i)
  case (IC_Fire t')
  then show ?thesis using assms
    by (cases "ic_st tx"; cases t') (auto simp: ic_deadline_def ic_defs)
next
  case (IC_Response r)
  then show ?thesis using assms
    by (cases "ic_st tx") (auto simp: ic_deadline_def ic_defs timer_defs split: if_splits)
next
  case IC_Error
  then show ?thesis using assms
    by (cases "ic_st tx") (auto simp: ic_deadline_def ic_defs)
qed

lemma ic_deadline_fires:
  "ic_deadline tx = Some (t, d) \<Longrightarrow> ic_is_terminated (ic_step (IC_Fire t) tx)"
  by (cases "ic_st tx") (auto simp: ic_deadline_def ic_is_terminated_def ic_handle_timeout_def)

interpretation ic_machine: transaction_machine
  ic_step "\<lambda>tx. ic_rank (ic_st tx)" ic_actions ic_key 3 IC_Fire ic_poll_actions ic_deadline
  ic_is_terminated ic_initial
proof unfold_locales
  fix tx :: invite_client and as tx' t d
  assume "ic_initial tx" "ic_poll_actions tx = (as, tx')" "ic_deadline tx' = Some (t, d)"
  then show "arms as Map.empty t = Some d"
    by (auto simp: ic_deadline_def ic_new_Some ic_poll_actions_def timer_defs)
next
  fix tx :: invite_client
  show "ic_rank (ic_st tx) \<le> 3" by (cases "ic_st tx") simp_all
next
  fix tx as i tx' t d
  assume "ic_poll_actions tx = ([], tx)" "ic_poll_actions (ic_step i tx) = (as, tx')"
    "ic_deadline tx' = Some (t, d)"
  then show "(\<forall>A. arms as A t = Some d) \<or>
      ic_deadline tx = Some (t, d) \<and> i \<noteq> IC_Fire t \<and> (\<forall>A. arms as A t = A t)"
    using ic_deadline_step [of tx i t d] by (auto simp: ic_poll_actions_def)
next
  fix tx t d as tx'
  assume "ic_deadline tx = Some (t, d)" "ic_poll_actions (ic_step (IC_Fire t) tx) = (as, tx')"
  then show "ic_is_terminated tx'"
    using ic_deadline_fires [of tx t d] by (auto simp: ic_poll_actions_def ic_is_terminated_def)
qed (use ic_step_shape in \<open>auto simp: ic_poll_actions_def ic_key_def\<close>)

fun ic_outcome :: "ic_event \<Rightarrow> bool" where
  "ic_outcome (IC_Provisional _) = False"
| "ic_outcome (IC_Success _) = True"
| "ic_outcome (IC_Failure _) = True"
| "ic_outcome IC_Timeout = True"
| "ic_outcome IC_TransportError = True"

fun ic_late_success :: "ic_event \<Rightarrow> bool" where
  "ic_late_success (IC_Success _) = True"
| "ic_late_success _ = False"

definition ic_settled :: "invite_client \<Rightarrow> bool" where
  "ic_settled tx \<longleftrightarrow> 2 \<le> ic_rank (ic_st tx)"

lemma ic_outcome_step:
  assumes "ic_actions (ic_step i tx) = ic_actions tx @ new"
  shows "if ic_settled tx then list_all ic_late_success (filter ic_outcome (events new))
    else length (filter ic_outcome (events new)) = (if ic_settled (ic_step i tx) then 1 else 0)"
proof (cases i)
  case (IC_Fire t)
  then show ?thesis using assms
    by (cases "ic_st tx"; cases t) (auto simp: ic_defs ic_settled_def)
next
  case (IC_Response r)
  then show ?thesis using assms
    by (cases "ic_st tx") (auto simp: ic_defs ic_settled_def split: if_splits)
next
  case IC_Error
  then show ?thesis using assms
    by (cases "ic_st tx") (auto simp: ic_defs ic_settled_def)
qed

interpretation ic_report: outcome_machine
  ic_step "\<lambda>tx. ic_rank (ic_st tx)" ic_actions ic_key 3 ic_settled ic_outcome ic_late_success
proof unfold_locales
  fix tx i assume "ic_settled tx"
  then show "ic_settled (ic_step i tx)"
    using ic_step_shape [of i tx] by (simp add: ic_settled_def)
next
  fix i tx new assume "ic_actions (ic_step i tx) = ic_actions tx @ new" "\<not> ic_settled (ic_step i tx)"
  then show "filter ic_outcome (events new) = []"
    using ic_outcome_step [of i tx new] ic_step_shape [of i tx]
    by (simp add: ic_settled_def split: if_splits)
next
  fix i tx new
  assume "ic_actions (ic_step i tx) = ic_actions tx @ new" "\<not> ic_settled tx" "ic_settled (ic_step i tx)"
  then show "length (filter ic_outcome (events new)) = 1"
    using ic_outcome_step [of i tx new] by simp
next
  fix i tx new assume "ic_actions (ic_step i tx) = ic_actions tx @ new" "ic_settled tx"
  then show "list_all ic_late_success (filter ic_outcome (events new))"
    using ic_outcome_step [of i tx new] by simp
qed

section \<open>The ACK of a built INVITE\<close>

definition via_texts_plain :: "request_builder \<Rightarrow> bool" where
  "via_texts_plain b \<longleftrightarrow>
     pred_option (\<lambda>h. sep_free '':;['' h) (qb_via_host b) \<and> pred_option (\<lambda>p. p < 2 ^ 16) (qb_via_port b) \<and>
     pred_option (\<lambda>t. t \<noteq> []) (qb_via_branch b)"

lemma built_request_addresses:
  assumes "qb_build b = Inr r" "wf_request_builder b"
  shows "req_to_uri r = Inr (the (qb_to_uri b))"
    "req_from_tag_and_uri r = Inr (the (qb_from_tag b), the (qb_from_uri b))"
    "via_values (rq_headers r) =
       [''SIP/2.0/'' @ (case qb_via_transport b of Some t \<Rightarrow> t | None \<Rightarrow> ''UDP'') @ '' '' @
        the (qb_via_host b) @ '':'' @ to_dec (case qb_via_port b of Some p \<Rightarrow> p | None \<Rightarrow> 5060) @
        '';branch='' @ the (qb_via_branch b)]"
proof -
  obtain m u fu ft tu ci cs vh vb where b: "qb_method b = Some m" "qb_uri b = Some u"
    "qb_from_uri b = Some fu" "qb_from_tag b = Some ft" "qb_to_uri b = Some tu"
    "qb_call_id b = Some ci" "qb_cseq b = Some cs" "qb_via_host b = Some vh"
    "qb_via_branch b = Some vb"
    and hs: "rq_headers r = request_headers b m fu ft tu ci cs vh vb"
    by (rule qb_build_Inr [OF assms(1)]) blast
  have plain: "list_all plain_header (rq_headers r)"
    unfolding hs using assms(2) by (intro plain_request_headers) (simp add: wf_request_builder_def)
  note wf = assms(2) [unfolded wf_request_builder_def b, simplified]
  note get = get_first_value_plain [OF plain, unfolded hs]
  show "req_from_tag_and_uri r = Inr (the (qb_from_tag b), the (qb_from_uri b))"
    using wf addr_with_tag_parse(1) [of fu ft]
    by (simp add: b req_from_tag_and_uri_def h_from_def required_value_def get hs request_lookup
        from_parse_def from_header_tag_def find_key_def)
  show "req_to_uri r = Inr (the (qb_to_uri b))"
    using wf addr_with_tag_parse [of tu "the (qb_to_tag b)"] addr_with_tag_parse(2) [of tu "''t''"]
    by (cases "qb_to_tag b")
       (simp_all add: b req_to_uri_def required_value_def get hs request_lookup to_parse_def
        wf_hparam_def DQUOTE_def ascii_simps)
  have other: "via_values (map (\<lambda>(n, v). HOther n v) xs) = []" "via_values (map HRoute ys) = []" for xs ys
    by (auto simp: via_values_def List.map_filter_def split_beta)
  have emit: "via_values (emit f x) = []" if "\<And>y. via_values [f y] = []" for f :: "'a \<Rightarrow> header" and x
    using that by (cases x) (simp_all add: emit_def via_values_def map_filter_simps)
  have app: "via_values (xs @ ys) = via_values xs @ via_values ys" for xs ys
    by (simp add: via_values_def List.map_filter_def)
  show "via_values (rq_headers r) =
       [''SIP/2.0/'' @ (case qb_via_transport b of Some t \<Rightarrow> t | None \<Rightarrow> ''UDP'') @ '' '' @
        the (qb_via_host b) @ '':'' @ to_dec (case qb_via_port b of Some p \<Rightarrow> p | None \<Rightarrow> 5060) @
        '';branch='' @ the (qb_via_branch b)]"
    unfolding hs request_headers_def body_headers_def app b
    by (simp add: other emit app via_values_def [of "_ # _"] map_filter_simps split: option.splits)
       (simp add: via_values_def map_filter_simps)
qed

lemma built_via_or_default:
  assumes "qb_build b = Inr r" "wf_request_builder b" "via_texts_plain b" "qb_via_branch b = Some br"
  shows "parse_via_or_default (case req_via_headers_raw r of v # _ \<Rightarrow> Some v | [] \<Rightarrow> None) br' =
    \<lparr>hv_protocol = case qb_via_transport b of Some t \<Rightarrow> t | None \<Rightarrow> ''UDP'', hv_host = the (qb_via_host b),
     hv_port = case qb_via_port b of Some p \<Rightarrow> p | None \<Rightarrow> 5060, hv_branch = br,
     hv_received = None, hv_rport = None\<rparr>" (is "_ = ?v")
proof -
  obtain vh where vh: "qb_via_host b = Some vh" by (rule qb_build_Inr [OF assms(1)]) blast
  have "wf_hdr_via ?v"
    using assms(2,3) vh assms(4)
    by (cases "qb_via_transport b"; cases "qb_via_port b")
       (simp_all add: wf_hdr_via_def wf_request_builder_def via_texts_plain_def wf_hparam_def sep_free_def)
  from hdr_via_parse_display [OF this] show ?thesis
    using built_request_addresses(3) [OF assms(1,2)] assms(4)
    by (simp add: parse_via_or_default_def req_via_headers_raw_def hdr_via_display_def)
qed

text \<open>The builder the ACK comes from.\<close>

definition ack_builder :: "request_builder \<Rightarrow> request_builder" where
  "ack_builder b =
     qb_new\<lparr>qb_method := Some PAck, qb_uri := qb_uri b, qb_via_host := qb_via_host b,
       qb_via_port := Some (case qb_via_port b of Some p \<Rightarrow> p | None \<Rightarrow> 5060),
       qb_via_transport := Some (case qb_via_transport b of Some t \<Rightarrow> t | None \<Rightarrow> ''UDP''),
       qb_via_branch := qb_via_branch b, qb_from_uri := qb_from_uri b, qb_from_tag := qb_from_tag b,
       qb_to_uri := qb_to_uri b, qb_call_id := qb_call_id b, qb_cseq := qb_cseq b\<rparr>"

lemma build_ack_built:
  assumes "qb_build b = Inr invite" "wf_request_builder b" "via_texts_plain b"
  obtains ack where "build_ack_for_non_2xx invite = Some ack" "qb_build (ack_builder b) = Inr ack"
    "wf_request_builder (ack_builder b)"
proof -
  obtain m u fu ft tu ci cs vh vb where b: "qb_method b = Some m" "qb_uri b = Some u"
    "qb_from_uri b = Some fu" "qb_from_tag b = Some ft" "qb_to_uri b = Some tu"
    "qb_call_id b = Some ci" "qb_cseq b = Some cs" "qb_via_host b = Some vh"
    "qb_via_branch b = Some vb"
    by (rule qb_build_Inr [OF assms(1)]) blast
  note wf = assms(2) [unfolded wf_request_builder_def b, simplified]
  obtain ack where ack: "qb_build (ack_builder b) = Inr ack"
    by (simp add: qb_build_def ack_builder_def qb_new_def b push_all_eq request_headers_def emit_def
        body_headers_def MAX_HEADERS_def)
  have "build_ack_for_non_2xx invite = ok (qb_build (ack_builder b))"
    using wf built_request_fields [OF assms(1,2)] built_request_addresses [OF assms(1,2)]
    by (simp add: build_ack_for_non_2xx_def b built_via_or_default [OF assms] ack_builder_def
        qb_set_cseq_def qb_set_call_id_def qb_to_def qb_from_def qb_via_def qb_set_uri_def
        qb_set_method_def qb_new_def uri_parse_display)
  with ack have "build_ack_for_non_2xx invite = Some ack" by simp
  moreover have "wf_request_builder (ack_builder b)"
    using wf b
    by (cases "qb_via_transport b") (simp_all add: wf_request_builder_def ack_builder_def qb_new_def)
  ultimately show thesis using ack that by blast
qed

lemma build_ack_fields:
  assumes "qb_build b = Inr invite" "wf_request_builder b" "via_texts_plain b"
    "build_ack_for_non_2xx invite = Some ack"
  shows "req_method ack = Ack" "req_cseq_method ack = Inr Ack" "req_cseq ack = req_cseq invite"
    "req_uri ack = req_uri invite" "req_call_id ack = req_call_id invite"
    "req_from_tag_and_uri ack = req_from_tag_and_uri invite" "req_to_uri ack = req_to_uri invite"
    "req_via_headers_raw ack = req_via_headers_raw invite" "req_via_branch ack = req_via_branch invite"
proof -
  have qb: "qb_build (ack_builder b) = Inr ack" and wf: "wf_request_builder (ack_builder b)"
    using build_ack_built [OF assms(1-3)] assms(4) by auto
  obtain m u fu ft tu ci cs vh vb where b: "qb_method b = Some m" "qb_uri b = Some u"
    "qb_from_uri b = Some fu" "qb_from_tag b = Some ft" "qb_to_uri b = Some tu"
    "qb_call_id b = Some ci" "qb_cseq b = Some cs" "qb_via_host b = Some vh"
    "qb_via_branch b = Some vb"
    by (rule qb_build_Inr [OF assms(1)]) blast
  note i = built_request_fields [OF assms(1,2), unfolded b, simplified]
    built_request_addresses [OF assms(1,2), unfolded b]
  note a = built_request_fields [OF qb wf, unfolded ack_builder_def qb_new_def, simplified, unfolded b, simplified]
    built_request_addresses [OF qb wf, unfolded ack_builder_def qb_new_def, simplified, unfolded b]
  show "req_method ack = Ack" "req_cseq_method ack = Inr Ack" "req_cseq ack = req_cseq invite"
    "req_uri ack = req_uri invite" "req_call_id ack = req_call_id invite"
    "req_via_branch ack = req_via_branch invite"
    by (simp_all add: a(1-7) i(1-7))
  show "req_from_tag_and_uri ack = req_from_tag_and_uri invite" "req_to_uri ack = req_to_uri invite"
    "req_via_headers_raw ack = req_via_headers_raw invite"
    by (simp_all add: a(8-) i(8-) req_via_headers_raw_def)
qed

section \<open>Properties\<close>

definition sample_ic :: "bool \<Rightarrow> invite_client" where
  "sample_ic reliable = the (ic_new sample_invite reliable)"

lemma sample_ic_new: "ic_new sample_invite reliable = Some (sample_ic reliable)"
  by (simp add: sample_ic_def ic_new_def id_from_request_def sample_invite_reads Let_def
      req_method_def sample_invite_def [THEN arg_cong [of _ _ rq_method]])

text \<open>
  C3. An INVITE client transaction cannot hang. In every configuration it reaches, from any mix of
  responses, transport errors and expiring timers, it has either terminated or has the timer armed
  that will end it: Timer B with 32 s before a final response, Timer D with 33 s after a failure
  response. Firing that timer terminates it, and Timer B reports a timeout.
\<close>
theorem ic_never_stuck:
  assumes "ic_new request reliable = Some tx0"
    and "clocked ic_step IC_Fire ic_poll_actions tx0 tx A"
  shows "case ic_st tx of
      IC_Terminated \<Rightarrow> True
    | IC_Completed \<Rightarrow> A TimerD = Some 33000 \<and> ic_st (ic_handle_timeout TimerD tx) = IC_Terminated
    | _ \<Rightarrow> A TimerB = Some 32000 \<and> ic_st (ic_handle_timeout TimerB tx) = IC_Terminated \<and>
        ic_actions (ic_handle_timeout TimerB tx) = ic_actions tx @ [Event IC_Timeout]"
proof -
  have "ic_initial tx0" using assms(1) by blast
  note armed = ic_machine.deadline_armed [OF assms(2) this]
  have "ic_timers tx = timer_default"
    using ic_machine.clocked_key [OF assms(2)] ic_new_Some(3) [OF assms(1)] by (simp add: ic_key_def)
  then show ?thesis
    using armed
    by (cases "ic_st tx") (auto simp: ic_deadline_def ic_handle_timeout_def timer_defs)
qed

theorem ic_never_stuck_witness:
  "\<exists>tx A. clocked ic_step IC_Fire ic_poll_actions (sample_ic False) tx A \<and> ic_st tx = IC_Calling \<and>
     A TimerB = Some 32000 \<and> A TimerA = Some 1000"
proof -
  note new = sample_ic_new [of False] ic_new_Some [OF sample_ic_new [of False]]
  let ?tx = "snd (ic_poll_actions (sample_ic False))"
  let ?A = "arms (fst (ic_poll_actions (sample_ic False))) Map.empty"
  let ?tx' = "snd (ic_poll_actions (ic_step (IC_Fire TimerA) ?tx))"
  let ?A' = "arms (fst (ic_poll_actions (ic_step (IC_Fire TimerA) ?tx))) (?A(TimerA := None))"
  have "clocked ic_step IC_Fire ic_poll_actions (sample_ic False) ?tx ?A"
    by (rule clocked_start) simp
  moreover have "?A TimerA = Some 500" by (simp add: ic_poll_actions_def new)
  ultimately have c: "clocked ic_step IC_Fire ic_poll_actions (sample_ic False) ?tx' ?A'"
    by (rule clocked_fire) simp
  have "ic_st ?tx' = IC_Calling" "?A' TimerA = Some 1000"
    by (simp_all add: ic_poll_actions_def new ic_handle_timeout_def Let_def timer_defs)
  with ic_never_stuck [OF new(1) c] c show ?thesis by auto
qed

text \<open>Only the expiry of Timer A rearms it.\<close>

lemma ic_timer_a_step:
  assumes "ic_actions tx = []" "i \<noteq> IC_Fire TimerA" "B TimerA = None"
  shows "arms (ic_actions (ic_step i tx)) B TimerA = None"
proof (cases i)
  case (IC_Fire t)
  then show ?thesis using assms by (cases "ic_st tx"; cases t) (auto simp: ic_defs)
next
  case (IC_Response r)
  then show ?thesis using assms by (cases "ic_st tx") (auto simp: ic_defs)
next
  case IC_Error
  then show ?thesis using assms by (cases "ic_st tx") (auto simp: ic_defs)
qed

text \<open>
  C29. Retransmission of an INVITE. Over a reliable transport Timer A is not armed in any configuration the
  transaction reaches, so that nothing is retransmitted. Over an unreliable one, while no response arrives,
  each expiry of Timer A sends the same INVITE bytes again and rearms Timer A: after \<open>n\<close> expiries the request
  has been sent \<open>n + 1\<close> times, the intervals are 500, 1000, 2000 and 4000 ms, each twice the one before,
  and no later interval is shorter than its predecessor.
\<close>
theorem ic_retransmission_schedule:
  assumes "ic_new request reliable = Some tx0"
  shows "if reliable then \<forall>tx A. clocked ic_step IC_Fire ic_poll_actions tx0 tx A \<longrightarrow> A TimerA = None
     else sent (ic_actions ((ic_handle_timeout TimerA ^^ n) tx0)) = replicate (Suc n) (request_to_bytes request) \<and>
       (\<exists>d. (\<forall>k \<le> 3. d k = 500 * 2 ^ k) \<and> mono d \<and>
         ic_actions ((ic_handle_timeout TimerA ^^ n) tx0) =
           [Send (request_to_bytes request), SetTimer TimerA (d 0), SetTimer TimerB 32000] @
           concat (map (\<lambda>k. [Send (request_to_bytes request), SetTimer TimerA (d (Suc k))]) [0..<n]))"
proof (cases reliable)
  case True
  have "A TimerA = None" if "clocked ic_step IC_Fire ic_poll_actions tx0 tx A" for tx A
  proof (rule ic_machine.never_armed [OF that])
    show "ic_initial tx0" using assms by blast
    show "arms as Map.empty TimerA = None" if "ic_poll_actions tx0 = (as, s)" for as s
    proof -
      have "as = ic_actions tx0" using that by (simp add: ic_poll_actions_def)
      then show ?thesis by (simp add: ic_new_Some(8) [OF assms] True)
    qed
    show "arms as B TimerA = None"
      if "ic_poll_actions s = ([], s)" "i \<noteq> IC_Fire TimerA" "ic_poll_actions (ic_step i s) = (as, s')"
        "B TimerA = None" for i s as s' B
      using that ic_timer_a_step [of s i B] by (auto simp: ic_poll_actions_def)
  qed simp
  with True show ?thesis by simp
next
  case False
  note new = ic_new_Some [OF assms]
  have run: "ic_st ((ic_handle_timeout TimerA ^^ n) tx0) = IC_Calling \<and>
      ic_request ((ic_handle_timeout TimerA ^^ n) tx0) = request \<and>
      ic_timers ((ic_handle_timeout TimerA ^^ n) tx0) = timer_default \<and>
      ic_interval ((ic_handle_timeout TimerA ^^ n) tx0) = backoff timer_default n \<and>
      ic_actions ((ic_handle_timeout TimerA ^^ n) tx0) = ic_actions tx0 @
        concat (map (\<lambda>k. [Send (request_to_bytes request), SetTimer TimerA (backoff timer_default (Suc k))])
          [0..<n])" for n
    by (induction n) (simp_all add: new ic_handle_timeout_def Let_def backoff_def timer_a_def)
  let ?d = "\<lambda>k. min (500 * 2 ^ k) 4000 :: nat"
  have doubling: "\<forall>k \<le> 3. ?d k = 500 * 2 ^ k"
  proof (intro allI impI)
    fix k :: nat assume "k \<le> 3"
    then have "(2 :: nat) ^ k \<le> 2 ^ 3" by (intro power_increasing) simp_all
    then show "?d k = 500 * 2 ^ k" by simp
  qed
  have "mono ?d" by (intro monoI min.mono) (simp_all add: power_increasing)
  with doubling run [of n] False show ?thesis
    by (intro if_not_P [THEN iffD2] conjI exI [of _ ?d])
       (simp_all add: new backoff_default sent_schedule)
qed

theorem ic_retransmission_schedule_witness:
  "sent (ic_actions ((ic_handle_timeout TimerA ^^ 3) (sample_ic False))) =
     replicate (Suc 3) (request_to_bytes sample_invite)"
  using ic_retransmission_schedule [OF sample_ic_new [of False], of 3]
  unfolding if_False by (rule conjunct1)

text \<open>
  C27. Failure responses are acknowledged. Let the INVITE be made by the request builder from legal texts,
  without a display name in From and with a Via host free of colons, semicolons and brackets (so no IPv6
  literal). Then a response with a status of 300 or more that arrives before the transaction has terminated
  makes it send exactly one message, an ACK with the INVITE's Request-URI, top Via (so the same branch), From
  address and tag, To address, Call-ID and CSeq number, and with the CSeq method ACK. The claim is about the
  address in To: the tag of the response is not added by this code.
\<close>
theorem ic_failure_acknowledged:
  assumes "qb_build b = Inr invite" "wf_request_builder b" "via_texts_plain b"
    and "ic_request tx = invite" "ic_st tx \<noteq> IC_Terminated" "300 \<le> resp_status_code response"
  shows "\<exists>ack. sent (ic_actions (ic_handle_response response tx)) =
        sent (ic_actions tx) @ [request_to_bytes ack] \<and>
      req_method ack = Ack \<and> req_cseq_method ack = Inr Ack \<and> req_cseq ack = req_cseq invite \<and>
      req_uri ack = req_uri invite \<and> req_call_id ack = req_call_id invite \<and>
      req_via_headers_raw ack = req_via_headers_raw invite \<and>
      req_via_branch ack = req_via_branch invite \<and>
      req_from_tag_and_uri ack = req_from_tag_and_uri invite \<and> req_to_uri ack = req_to_uri invite"
proof -
  obtain ack where ack: "build_ack_for_non_2xx invite = Some ack"
    using build_ack_built [OF assms(1-3)] by blast
  then have "ack_actions (ic_request tx) = [Send (request_to_bytes ack)]"
    by (simp add: ack_actions_def assms(4))
  then have "sent (ic_actions (ic_handle_response response tx)) =
      sent (ic_actions tx) @ [request_to_bytes ack]"
    using assms(5,6) by (cases "ic_st tx") (simp_all add: ic_handle_response_def Let_def)
  with build_ack_fields [OF assms(1-3) ack] show ?thesis by blast
qed

definition sample_invite_builder :: request_builder where
  "sample_invite_builder = qb_set_method Invite sample_builder"

lemmas sample_invite_builder_defs = sample_invite_builder_def sample_builder_def qb_set_cseq_def
  qb_set_call_id_def qb_to_def qb_from_def qb_via_def qb_set_uri_def qb_set_method_def qb_new_def
  simple_uri_parses

lemma sample_invite_builder:
  "wf_request_builder sample_invite_builder" "via_texts_plain sample_invite_builder"
  "\<exists>r. qb_build sample_invite_builder = Inr r"
  by (simp_all add: sample_invite_builder_defs wf_request_builder_def wf_uri_def wf_host_def wf_hparam_def
      uri_display_def MAX_URI_HEADERS_def DQUOTE_def ascii_simps via_texts_plain_def qb_build_def
      push_all_eq request_headers_def emit_def body_headers_def MAX_HEADERS_def)

definition sample_busy :: sip_response where
  "sample_busy = \<lparr>rs_version = ''SIP/2.0'', rs_status_code = 486, rs_reason = ''Busy Here'',
     rs_headers = [], rs_body = []\<rparr>"

theorem ic_failure_acknowledged_witness:
  "\<exists>invite ack. qb_build sample_invite_builder = Inr invite \<and>
     sent (ic_actions (ic_handle_response sample_busy ((sample_ic False)\<lparr>ic_request := invite\<rparr>))) =
       [request_to_bytes sample_invite, request_to_bytes ack] \<and>
     req_method ack = Ack \<and> req_via_branch ack = req_via_branch invite"
proof -
  obtain invite where i: "qb_build sample_invite_builder = Inr invite"
    using sample_invite_builder(3) by blast
  note new = ic_new_Some [OF sample_ic_new [of False]]
  show ?thesis
    using ic_failure_acknowledged [OF i sample_invite_builder(1,2),
        of "(sample_ic False)\<lparr>ic_request := invite\<rparr>" sample_busy]
    by (auto simp: i new sample_busy_def resp_status_code_def)
qed

text \<open>
  C28. The user of the transaction learns the outcome exactly once. Whatever sequence of responses,
  timer expiries and transport errors a fresh transaction goes through, it has reported no outcome
  (success, failure, timeout or transport error) while it is calling or proceeding, and one outcome
  afterwards; any further outcome is a late 2xx, which it passes on from forked branches.
\<close>
theorem ic_outcome_once:
  assumes "ic_new request reliable = Some tx0"
  shows "case filter ic_outcome (events (ic_actions (fold ic_step inputs tx0))) of
      [] \<Rightarrow> ic_st (fold ic_step inputs tx0) \<in> {IC_Calling, IC_Proceeding}
    | e # es \<Rightarrow> ic_st (fold ic_step inputs tx0) \<in> {IC_Completed, IC_Terminated} \<and>
        list_all ic_late_success es"
proof -
  have "ic_report.told tx0"
    using ic_new_Some(1,8) [OF assms] by (simp add: ic_report.told_def ic_settled_def)
  from ic_report.told_run [OF this, of inputs] show ?thesis
    by (cases "ic_st (fold ic_step inputs tx0)")
       (auto simp: ic_report.told_def ic_settled_def split: list.splits)
qed

theorem ic_outcome_once_witness:
  "filter ic_outcome (events (ic_actions (fold ic_step
     [IC_Fire TimerA, IC_Response sample_busy, IC_Response sample_busy] (sample_ic False)))) =
     [IC_Failure sample_busy]"
proof -
  note new = ic_new_Some [OF sample_ic_new [of False]]
  have "events (ic_actions (fold ic_step
     [IC_Fire TimerA, IC_Response sample_busy, IC_Response sample_busy] (sample_ic False))) =
       [IC_Failure sample_busy]"
    by (simp add: new ic_defs sample_busy_def resp_status_code_def)
  with ic_outcome_once [OF sample_ic_new [of False],
      of "[IC_Fire TimerA, IC_Response sample_busy, IC_Response sample_busy]"]
  show ?thesis by simp
qed

end
