(* ===== verification/Txn_Client_NonInvite.thy ===== *)
theory Txn_Client_NonInvite
  imports Txn_Timer
begin

text \<open>
  The non-INVITE client transaction (\<open>transaction/client/non_invite.rs\<close>): its state and handlers, with
  the same contracts as the INVITE client (forward motion, armed deadline, a single outcome).
\<close>

section \<open>The machine\<close>

datatype nc_state = NC_Trying | NC_Proceeding | NC_Completed | NC_Terminated

datatype nc_event = NC_Provisional sip_response | NC_FinalResponse sip_response | NC_Timeout
  | NC_TransportError

record non_invite_client =
  nc_id :: transaction_id
  nc_st :: nc_state
  nc_request :: sip_request
  nc_timers :: timer_values
  nc_reliable :: bool
  nc_interval :: duration
  nc_actions :: "nc_event action list"

definition nc_push :: "nc_event action list \<Rightarrow> non_invite_client \<Rightarrow> non_invite_client" where
  "nc_push as tx = tx\<lparr>nc_actions := nc_actions tx @ as\<rparr>"

definition nc_new :: "sip_request \<Rightarrow> bool \<Rightarrow> non_invite_client option" where
  "nc_new request reliable =
     (if req_method request = Invite then None
      else Option.bind (id_from_request request) (\<lambda>id.
        let timers = timer_default; interval = timer_e timers;
            tx = \<lparr>nc_id = id, nc_st = NC_Trying, nc_request = request, nc_timers = timers,
                  nc_reliable = reliable, nc_interval = interval, nc_actions = []\<rparr>
        in Some (nc_push
             ([Send (request_to_bytes request)] @
              (if \<not> reliable then [SetTimer TimerE interval] else []) @
              [SetTimer TimerF (timer_f timers)]) tx)))"

definition nc_is_terminated :: "non_invite_client \<Rightarrow> bool" where
  "nc_is_terminated tx \<longleftrightarrow> nc_st tx = NC_Terminated"

definition nc_retransmit :: "non_invite_client \<Rightarrow> non_invite_client" where
  "nc_retransmit tx =
     (let interval = next_retransmit (nc_timers tx) (nc_interval tx) in
      (nc_push [Send (request_to_bytes (nc_request tx)), SetTimer TimerE interval] tx)
        \<lparr>nc_interval := interval\<rparr>)"

definition nc_handle_timeout :: "timer \<Rightarrow> non_invite_client \<Rightarrow> non_invite_client" where
  "nc_handle_timeout t tx =
     (case (nc_st tx, t) of
        (NC_Trying, TimerE) \<Rightarrow> nc_retransmit tx
      | (NC_Proceeding, TimerE) \<Rightarrow> nc_retransmit tx
      | (NC_Trying, TimerF) \<Rightarrow> nc_push [Event NC_Timeout] (tx\<lparr>nc_st := NC_Terminated\<rparr>)
      | (NC_Proceeding, TimerF) \<Rightarrow> nc_push [Event NC_Timeout] (tx\<lparr>nc_st := NC_Terminated\<rparr>)
      | (NC_Completed, TimerK) \<Rightarrow> tx\<lparr>nc_st := NC_Terminated\<rparr>
      | _ \<Rightarrow> tx)"

text \<open>The final-response branch, which the source writes twice.\<close>

definition nc_final :: "sip_response \<Rightarrow> non_invite_client \<Rightarrow> non_invite_client" where
  "nc_final response tx =
     (let tx = nc_push ((if \<not> nc_reliable tx then [CancelTimer TimerE] else []) @
                 [CancelTimer TimerF, Event (NC_FinalResponse response)])
                 (tx\<lparr>nc_st := NC_Completed\<rparr>);
          timer_k' = timer_k (nc_timers tx) (nc_reliable tx)
      in if timer_k' = 0 then tx\<lparr>nc_st := NC_Terminated\<rparr>
         else nc_push [SetTimer TimerK timer_k'] tx)"

definition nc_handle_response :: "sip_response \<Rightarrow> non_invite_client \<Rightarrow> non_invite_client" where
  "nc_handle_response response tx =
     (let cd = resp_status_code response in
      case nc_st tx of
        NC_Trying \<Rightarrow>
          if 100 \<le> cd \<and> cd < 200 then
            nc_push [Event (NC_Provisional response)] (tx\<lparr>nc_st := NC_Proceeding\<rparr>)
          else if 200 \<le> cd then nc_final response tx
          else tx
      | NC_Proceeding \<Rightarrow>
          if 100 \<le> cd \<and> cd < 200 then nc_push [Event (NC_Provisional response)] tx
          else if 200 \<le> cd then nc_final response tx
          else tx
      | _ \<Rightarrow> tx)"

definition nc_handle_transport_error :: "non_invite_client \<Rightarrow> non_invite_client" where
  "nc_handle_transport_error tx =
     (case nc_st tx of
        NC_Trying \<Rightarrow> nc_push [Event NC_TransportError] (tx\<lparr>nc_st := NC_Terminated\<rparr>)
      | NC_Proceeding \<Rightarrow> nc_push [Event NC_TransportError] (tx\<lparr>nc_st := NC_Terminated\<rparr>)
      | _ \<Rightarrow> tx)"

definition nc_poll_actions :: "non_invite_client \<Rightarrow> nc_event action list \<times> non_invite_client" where
  "nc_poll_actions tx = (nc_actions tx, tx\<lparr>nc_actions := []\<rparr>)"

datatype nc_input = NC_Fire timer | NC_Response sip_response | NC_Error

fun nc_step :: "nc_input \<Rightarrow> non_invite_client \<Rightarrow> non_invite_client" where
  "nc_step (NC_Fire t) tx = nc_handle_timeout t tx"
| "nc_step (NC_Response r) tx = nc_handle_response r tx"
| "nc_step NC_Error tx = nc_handle_transport_error tx"

section \<open>Forward motion, deadlines and outcomes\<close>

fun nc_rank :: "nc_state \<Rightarrow> nat" where
  "nc_rank NC_Trying = 0"
| "nc_rank NC_Proceeding = 1"
| "nc_rank NC_Completed = 2"
| "nc_rank NC_Terminated = 3"

definition nc_key :: "non_invite_client \<Rightarrow> transaction_id \<times> sip_request \<times> timer_values \<times> bool" where
  "nc_key tx = (nc_id tx, nc_request tx, nc_timers tx, nc_reliable tx)"

definition nc_deadline :: "non_invite_client \<Rightarrow> (timer \<times> duration) option" where
  "nc_deadline tx =
     (case nc_st tx of
        NC_Trying \<Rightarrow> Some (TimerF, timer_f (nc_timers tx))
      | NC_Proceeding \<Rightarrow> Some (TimerF, timer_f (nc_timers tx))
      | NC_Completed \<Rightarrow> Some (TimerK, timer_k (nc_timers tx) (nc_reliable tx))
      | NC_Terminated \<Rightarrow> None)"

fun nc_outcome :: "nc_event \<Rightarrow> bool" where
  "nc_outcome (NC_Provisional _) = False"
| "nc_outcome (NC_FinalResponse _) = True"
| "nc_outcome NC_Timeout = True"
| "nc_outcome NC_TransportError = True"

definition nc_settled :: "non_invite_client \<Rightarrow> bool" where
  "nc_settled tx \<longleftrightarrow> 2 \<le> nc_rank (nc_st tx)"

abbreviation nc_initial :: "non_invite_client \<Rightarrow> bool" where
  "nc_initial tx \<equiv> \<exists>request reliable. nc_new request reliable = Some tx"

lemma nc_push_simps [simp]:
  "nc_id (nc_push as tx) = nc_id tx" "nc_st (nc_push as tx) = nc_st tx"
  "nc_request (nc_push as tx) = nc_request tx" "nc_timers (nc_push as tx) = nc_timers tx"
  "nc_reliable (nc_push as tx) = nc_reliable tx" "nc_interval (nc_push as tx) = nc_interval tx"
  "nc_actions (nc_push as tx) = nc_actions tx @ as"
  by (simp_all add: nc_push_def)

lemma nc_deadline_drained [simp]: "nc_deadline (tx\<lparr>nc_actions := as\<rparr>) = nc_deadline tx"
  by (simp add: nc_deadline_def cong: nc_state.case_cong)

lemmas nc_defs = nc_handle_timeout_def nc_handle_response_def nc_handle_transport_error_def
  nc_final_def nc_retransmit_def Let_def

lemma nc_new_Some:
  assumes "nc_new request reliable = Some tx"
  shows "nc_st tx = NC_Trying" "nc_request tx = request" "nc_timers tx = timer_default"
    "nc_reliable tx = reliable" "nc_interval tx = timer_e timer_default"
    "id_from_request request = Some (nc_id tx)" "req_method request \<noteq> Invite"
    "nc_actions tx = [Send (request_to_bytes request)] @
       (if \<not> reliable then [SetTimer TimerE 500] else []) @ [SetTimer TimerF 32000]"
  using assms
  by (auto simp: nc_new_def Let_def timer_defs bind_eq_Some_conv split: if_splits)

lemma nc_step_shape:
  "nc_key (nc_step i tx) = nc_key tx \<and> nc_rank (nc_st tx) \<le> nc_rank (nc_st (nc_step i tx)) \<and>
   (\<exists>new. nc_actions (nc_step i tx) = nc_actions tx @ new)"
proof (cases i)
  case (NC_Fire t)
  then show ?thesis by (cases "nc_st tx"; cases t) (simp_all add: nc_defs nc_key_def)
next
  case (NC_Response r)
  then show ?thesis by (cases "nc_st tx") (simp_all add: nc_defs nc_key_def)
next
  case NC_Error
  then show ?thesis by (cases "nc_st tx") (simp_all add: nc_defs nc_key_def)
qed

lemma nc_deadline_step:
  assumes "nc_actions tx = []" "nc_deadline (nc_step i tx) = Some (t, d)"
  shows "(\<forall>A. arms (nc_actions (nc_step i tx)) A t = Some d) \<or>
    nc_deadline tx = Some (t, d) \<and> i \<noteq> NC_Fire t \<and> (\<forall>A. arms (nc_actions (nc_step i tx)) A t = A t)"
proof (cases i)
  case (NC_Fire t')
  then show ?thesis using assms
    by (cases "nc_st tx"; cases t') (auto simp: nc_defs nc_deadline_def)
next
  case (NC_Response r)
  then show ?thesis using assms
    by (cases "nc_st tx") (auto simp: nc_defs nc_deadline_def split: if_splits)
next
  case NC_Error
  then show ?thesis using assms
    by (cases "nc_st tx") (auto simp: nc_defs nc_deadline_def)
qed

lemma nc_deadline_fires:
  "nc_deadline tx = Some (t, d) \<Longrightarrow> nc_is_terminated (nc_step (NC_Fire t) tx)"
  by (cases "nc_st tx") (auto simp: nc_deadline_def nc_is_terminated_def nc_handle_timeout_def)

interpretation nc_machine: transaction_machine
  nc_step "\<lambda>tx. nc_rank (nc_st tx)" nc_actions nc_key 3 NC_Fire nc_poll_actions nc_deadline
  nc_is_terminated nc_initial
proof unfold_locales
  fix tx :: non_invite_client and as tx' t d
  assume "nc_initial tx" "nc_poll_actions tx = (as, tx')" "nc_deadline tx' = Some (t, d)"
  then show "arms as Map.empty t = Some d"
    by (auto simp: nc_deadline_def nc_new_Some nc_poll_actions_def timer_defs)
next
  fix tx :: non_invite_client
  show "nc_rank (nc_st tx) \<le> 3" by (cases "nc_st tx") simp_all
next
  fix tx as i tx' t d
  assume "nc_poll_actions tx = ([], tx)" "nc_poll_actions (nc_step i tx) = (as, tx')"
    "nc_deadline tx' = Some (t, d)"
  then show "(\<forall>A. arms as A t = Some d) \<or>
      nc_deadline tx = Some (t, d) \<and> i \<noteq> NC_Fire t \<and> (\<forall>A. arms as A t = A t)"
    using nc_deadline_step [of tx i t d] by (auto simp: nc_poll_actions_def)
next
  fix tx t d as tx'
  assume "nc_deadline tx = Some (t, d)" "nc_poll_actions (nc_step (NC_Fire t) tx) = (as, tx')"
  then show "nc_is_terminated tx'"
    using nc_deadline_fires [of tx t d] by (auto simp: nc_poll_actions_def nc_is_terminated_def)
qed (use nc_step_shape in \<open>auto simp: nc_poll_actions_def nc_key_def\<close>)

lemma nc_outcome_step:
  assumes "nc_actions (nc_step i tx) = nc_actions tx @ new"
  shows "length (filter nc_outcome (events new)) =
    (if \<not> nc_settled tx \<and> nc_settled (nc_step i tx) then 1 else 0)"
proof (cases i)
  case (NC_Fire t)
  then show ?thesis using assms
    by (cases "nc_st tx"; cases t) (auto simp: nc_defs nc_settled_def)
next
  case (NC_Response r)
  then show ?thesis using assms
    by (cases "nc_st tx") (auto simp: nc_defs nc_settled_def split: if_splits)
next
  case NC_Error
  then show ?thesis using assms
    by (cases "nc_st tx") (auto simp: nc_defs nc_settled_def)
qed

interpretation nc_report: outcome_machine
  nc_step "\<lambda>tx. nc_rank (nc_st tx)" nc_actions nc_key 3 nc_settled nc_outcome "\<lambda>_. False"
proof unfold_locales
  fix tx i assume "nc_settled tx"
  then show "nc_settled (nc_step i tx)"
    using nc_step_shape [of i tx] by (simp add: nc_settled_def)
next
  fix i tx new assume "nc_actions (nc_step i tx) = nc_actions tx @ new" "\<not> nc_settled (nc_step i tx)"
  then show "filter nc_outcome (events new) = []" using nc_outcome_step [of i tx new] by simp
next
  fix i tx new
  assume "nc_actions (nc_step i tx) = nc_actions tx @ new" "\<not> nc_settled tx" "nc_settled (nc_step i tx)"
  then show "length (filter nc_outcome (events new)) = 1" using nc_outcome_step [of i tx new] by simp
next
  fix i tx new assume "nc_actions (nc_step i tx) = nc_actions tx @ new" "nc_settled tx"
  then show "list_all (\<lambda>_. False) (filter nc_outcome (events new))"
    using nc_outcome_step [of i tx new] by simp
qed

section \<open>Properties\<close>

definition sample_nc :: "bool \<Rightarrow> non_invite_client" where
  "sample_nc reliable = the (nc_new sample_options reliable)"

lemma sample_nc_new: "nc_new sample_options reliable = Some (sample_nc reliable)"
  by (simp add: sample_nc_def nc_new_def id_from_request_def sample_options_reads Let_def)

text \<open>Over a reliable transport Timer K is zero, and a final response terminates the transaction at once.\<close>

lemma nc_reliable_step:
  assumes "nc_timers tx = timer_default \<and> (nc_reliable tx \<longrightarrow> nc_st tx \<noteq> NC_Completed)"
  shows "nc_timers (nc_step i tx) = timer_default \<and> (nc_reliable (nc_step i tx) \<longrightarrow> nc_st (nc_step i tx) \<noteq> NC_Completed)"
proof (cases i)
  case (NC_Fire t)
  then show ?thesis using assms by (cases "nc_st tx"; cases t) (auto simp: nc_defs)
next
  case (NC_Response r)
  then show ?thesis using assms by (cases "nc_st tx") (auto simp: nc_defs timer_defs)
next
  case NC_Error
  then show ?thesis using assms by (cases "nc_st tx") (auto simp: nc_defs)
qed

text \<open>
  C34. A non-INVITE client transaction cannot hang: in every configuration it reaches it has terminated,
  or waits for a final response with Timer F armed at 32 s (whose expiry terminates it with a timeout
  report), or has its final response and Timer K armed at 5 s (whose expiry terminates it). Over a reliable
  transport it is never in Completed: the final response has terminated it.
\<close>
theorem nc_never_stuck:
  assumes "nc_new request reliable = Some tx0"
    and "clocked nc_step NC_Fire nc_poll_actions tx0 tx A"
  shows "case nc_st tx of
      NC_Terminated \<Rightarrow> True
    | NC_Completed \<Rightarrow> \<not> reliable \<and> A TimerK = Some 5000 \<and>
        nc_st (nc_handle_timeout TimerK tx) = NC_Terminated
    | _ \<Rightarrow> A TimerF = Some 32000 \<and> nc_st (nc_handle_timeout TimerF tx) = NC_Terminated \<and>
        nc_actions (nc_handle_timeout TimerF tx) = nc_actions tx @ [Event NC_Timeout]"
proof -
  have "nc_initial tx0" using assms(1) by blast
  note armed = nc_machine.deadline_armed [OF assms(2) this]
  have key: "nc_timers tx = timer_default" "nc_reliable tx = reliable"
    using nc_machine.clocked_key [OF assms(2)] nc_new_Some(3,4) [OF assms(1)]
    by (simp_all add: nc_key_def)
  have "nc_timers tx = timer_default \<and> (nc_reliable tx \<longrightarrow> nc_st tx \<noteq> NC_Completed)"
    by (rule clocked_invariant [OF assms(2)])
      (use nc_new_Some(1,3) [OF assms(1)] nc_reliable_step in \<open>simp_all add: nc_poll_actions_def\<close>)
  with key show ?thesis
    using armed
    by (cases "nc_st tx") (auto simp: nc_deadline_def nc_handle_timeout_def timer_defs)
qed

theorem nc_never_stuck_witness:
  "\<exists>tx A. clocked nc_step NC_Fire nc_poll_actions (sample_nc False) tx A \<and> nc_st tx = NC_Completed \<and>
     A TimerK = Some 5000 \<and> A TimerF = None"
proof -
  note new = sample_nc_new [of False] nc_new_Some [OF sample_nc_new [of False]]
  let ?tx = "snd (nc_poll_actions (sample_nc False))"
  let ?A = "arms (fst (nc_poll_actions (sample_nc False))) Map.empty"
  let ?tx' = "snd (nc_poll_actions (nc_step (NC_Response sample_ok) ?tx))"
  let ?A' = "arms (fst (nc_poll_actions (nc_step (NC_Response sample_ok) ?tx))) ?A"
  have "clocked nc_step NC_Fire nc_poll_actions (sample_nc False) ?tx ?A"
    by (rule clocked_start) simp
  then have c: "clocked nc_step NC_Fire nc_poll_actions (sample_nc False) ?tx' ?A'"
    by (rule clocked_input [where i = "NC_Response sample_ok"]) simp_all
  have "nc_st ?tx' = NC_Completed" "?A' TimerF = None"
    by (simp_all add: nc_poll_actions_def new nc_defs timer_defs sample_ok_def resp_status_code_def)
  with nc_never_stuck [OF new(1) c] c show ?thesis by auto
qed

text \<open>
  C35. The user of a non-INVITE client transaction gets exactly one outcome. After any sequence of
  inputs, no final response, timeout or transport error has been reported while the transaction is
  trying or proceeding, and exactly one of them once it is completed or terminated: a retransmitted
  final response is never reported twice.
\<close>
theorem nc_outcome_once:
  assumes "nc_new request reliable = Some tx0"
  shows "length (filter nc_outcome (events (nc_actions (fold nc_step inputs tx0)))) =
    (if nc_st (fold nc_step inputs tx0) \<in> {NC_Trying, NC_Proceeding} then 0 else 1)"
proof -
  have "nc_report.told tx0"
    using nc_new_Some(1,8) [OF assms] by (simp add: nc_report.told_def nc_settled_def)
  from nc_report.told_run [OF this, of inputs] show ?thesis
    by (cases "nc_st (fold nc_step inputs tx0)")
       (auto simp: nc_report.told_def nc_settled_def list_all_iff split: list.splits)
qed

theorem nc_outcome_once_witness:
  "length (filter nc_outcome (events (nc_actions (fold nc_step
     [NC_Response sample_ok, NC_Response sample_ok, NC_Error] (sample_nc False))))) = 1"
proof -
  note new = nc_new_Some [OF sample_nc_new [of False]]
  have "nc_st (fold nc_step [NC_Response sample_ok, NC_Response sample_ok, NC_Error] (sample_nc False)) =
      NC_Completed"
    by (simp add: new nc_defs timer_defs sample_ok_def resp_status_code_def)
  with nc_outcome_once [OF sample_nc_new [of False],
      of "[NC_Response sample_ok, NC_Response sample_ok, NC_Error]"]
  show ?thesis by simp
qed

end
