(* ===== verification/Txn_Reliable.thy ===== *)
theory Txn_Reliable
  imports Txn_Timer
begin

text \<open>
  Stamping of reliable provisional responses (RFC 3262, \<open>transaction/server/invite.rs\<close>): the merge of
  \<open>100rel\<close> into the \<open>Require\<close> header of a response and the added \<open>RSeq\<close> header, and that the result
  announces both without losing an option tag or any other header. Assertions that only debug builds check are
  not part of the definitions.
\<close>

section \<open>Stamping reliable provisional responses\<close>

definition merge_require_with_100rel :: "string \<Rightarrow> string" where
  "merge_require_with_100rel value =
     (let tags = (case require_parse value of Inr ts \<Rightarrow> ts | Inl _ \<Rightarrow> []) in
      join '', '' (if list_ex (\<lambda>t. eq_ignore_ascii_case t ''100rel'') tags then tags
                   else tags @ [''100rel'']))"

fun add_missing_tags :: "string list \<Rightarrow> string list \<Rightarrow> string list" where
  "add_missing_tags tags [] = tags"
| "add_missing_tags tags (tag # extra) =
     add_missing_tags (if list_ex (\<lambda>t. eq_ignore_ascii_case t tag) tags then tags else tags @ [tag]) extra"

text \<open>The loop runs to the last Require header, which is the first of the reversed list.\<close>

fun merge_into_first_require :: "string list \<Rightarrow> headers \<Rightarrow> headers" where
  "merge_into_first_require extra [] = []"
| "merge_into_first_require extra (h # hs) =
     (case h of
        HRequire value \<Rightarrow>
          HRequire (join '', '' (add_missing_tags
            (case require_parse value of Inr ts \<Rightarrow> ts | Inl _ \<Rightarrow> []) extra)) # hs
      | _ \<Rightarrow> h # merge_into_first_require extra hs)"

definition merge_into_last_require :: "headers \<Rightarrow> string list \<Rightarrow> headers" where
  "merge_into_last_require hs extra = rev (merge_into_first_require extra (rev hs))"

text \<open>The value of a header that counts as \<open>Require\<close>.\<close>

definition require_value :: "header \<Rightarrow> string option" where
  "require_value h =
     (case h of
        HRequire value \<Rightarrow> Some value
      | HOther key value \<Rightarrow> if eq_ignore_ascii_case key ''Require'' then Some value else None
      | _ \<Rightarrow> None)"

text \<open>Pushing beyond the header limit panics, which is \<open>None\<close> here.\<close>

fun stamp_loop :: "headers \<Rightarrow> bool \<Rightarrow> headers \<Rightarrow> (headers \<times> bool) option" where
  "stamp_loop new handled [] = Some (new, handled)"
| "stamp_loop new handled (h # hs) =
     (case require_value h of
        Some value \<Rightarrow>
          if handled then
            stamp_loop
              (case require_parse value of
                 Inr extra \<Rightarrow> merge_into_last_require new extra
               | Inl _ \<Rightarrow> new) True hs
          else
            Option.bind (ok (headers_push new (HRequire (merge_require_with_100rel value))))
              (\<lambda>new. stamp_loop new True hs)
      | None \<Rightarrow> Option.bind (ok (headers_push new h)) (\<lambda>new. stamp_loop new handled hs))"

definition stamp_reliable_headers :: "sip_response \<Rightarrow> nat \<Rightarrow> sip_response option" where
  "stamp_reliable_headers response rseq =
     Option.bind (stamp_loop [] False (rs_headers response)) (\<lambda>(new, handled).
     Option.bind (if handled then Some new else ok (headers_push new (HRequire ''100rel''))) (\<lambda>new.
     Option.bind (ok (headers_push new (HOther ''RSeq'' (to_dec rseq)))) (\<lambda>new.
     Some (response\<lparr>rs_headers := new\<rparr>))))"

section \<open>Option tags read back\<close>

lemma ascii_lower_ws [simp]: "ws1 (code (ascii_lower c)) = ws1 (code c)"
  by (auto simp: ascii_lower_def is_ascii_upper_def code_octet ws1_def)

lemma code_ascii_lower_high:
  "128 \<le> code (ascii_lower c) \<longleftrightarrow> 128 \<le> code c" "128 \<le> code c \<Longrightarrow> ascii_lower c = c"
  by (auto simp: ascii_lower_def is_ascii_upper_def code_octet)

lemma ws2_lower [simp]: "ws2 (code (ascii_lower a)) (code (ascii_lower b)) = ws2 (code a) (code b)"
proof -
  have "ws2 x y \<Longrightarrow> 128 \<le> x \<and> 128 \<le> y" for x y by (auto simp: ws2_def)
  then show ?thesis by (metis code_ascii_lower_high)
qed

lemma ws3_lower [simp]:
  "ws3 (code (ascii_lower a)) (code (ascii_lower b)) (code (ascii_lower c)) =
     ws3 (code a) (code b) (code c)"
proof -
  have "ws3 x y z \<Longrightarrow> 128 \<le> x \<and> 128 \<le> y \<and> 128 \<le> z" for x y z by (auto simp: ws3_def)
  then show ?thesis by (metis code_ascii_lower_high)
qed

lemma ws_len_lower: "ws_len (map ascii_lower s) = ws_len s" "ws_len_rev (map ascii_lower s) = ws_len_rev s"
  by (cases s rule: ws_len.cases, simp_all) (cases s rule: ws_len_rev.cases, simp_all)

lemma tight_lower: "tight s \<Longrightarrow> tight (to_ascii_lowercase s)"
  by (simp add: tight_def to_ascii_lowercase_def rev_map ws_len_lower)

definition wf_tag :: "string \<Rightarrow> bool" where
  "wf_tag t \<longleftrightarrow> t \<noteq> [] \<and> tight t \<and> to_ascii_lowercase t = t \<and> CHR '','' \<notin> set t"

lemma wf_tag_eq: "wf_tag s \<Longrightarrow> wf_tag t \<Longrightarrow> eq_ignore_ascii_case s t \<longleftrightarrow> s = t"
  by (simp add: wf_tag_def eq_ignore_ascii_case_def)

lemma wf_tag_100rel: "wf_tag ''100rel''"
  by (simp add: wf_tag_def tight_graphic to_ascii_lowercase_def ascii_simps)

lemma comma_lower: "CHR '','' \<in> set (to_ascii_lowercase s) \<longleftrightarrow> CHR '','' \<in> set s"
proof -
  have code: "code (CHR '','') = 44" by (simp add: code_def)
  have "ascii_lower c = CHR '','' \<longleftrightarrow> c = CHR '',''" for c
  proof (cases "is_ascii_upper c")
    case True
    then have "code (ascii_lower c) = code c + 32" "65 \<le> code c"
      by (simp_all add: ascii_lower_def is_ascii_upper_def code_octet)
    with code have "code (ascii_lower c) \<noteq> code (CHR '','')" "code c \<noteq> code (CHR '','')" by linarith+
    then show ?thesis by (metis code_inject)
  qed (simp add: ascii_lower_def)
  then show ?thesis unfolding to_ascii_lowercase_def set_map by (metis imageE imageI)
qed

lemma lower_Nil: "to_ascii_lowercase s = [] \<longleftrightarrow> s = []"
  by (simp add: to_ascii_lowercase_def)

lemma trim_no_char: "c \<notin> set s \<Longrightarrow> c \<notin> set (trim s)"
  using set_mono_suffix [OF trim_start_suffix [of s]] set_mono_prefix [OF trim_end_prefix [of "trim_start s"]]
  by (auto simp: trim_def)

lemma parse_option_tags_wf:
  assumes "parse_option_tags v = Inr tags" shows "tags \<noteq> []" "list_all wf_tag tags"
proof -
  have "wf_tag (to_ascii_lowercase (trim p))" if "p \<in> set (split_char (CHR '','') v)" "trim p \<noteq> []" for p
    using that split_char_no_sep [OF that(1)]
    by (simp add: wf_tag_def tight_lower comma_lower trim_no_char lower_Nil)
  with assms show "tags \<noteq> []" "list_all wf_tag tags"
    by (auto simp: parse_option_tags_def Let_def list_all_iff lower_Nil split: if_splits)
qed

lemma split_join_tags:
  "tags \<noteq> [] \<Longrightarrow> list_all (\<lambda>t. CHR '','' \<notin> set t) tags \<Longrightarrow>
     split_char (CHR '','') (join '', '' tags) = hd tags # map (Cons (CHR '' '')) (tl tags)"
proof (induction tags rule: induct_list012)
  case (3 t u ts)
  have "CHR '','' \<notin> set (CHR '' '' # x)" if "CHR '','' \<notin> set x" for x using that by simp
  have "split_char (CHR '','') (CHR '' '' # s) = (case split_char (CHR '','') s of p # ps \<Rightarrow> (CHR '' '' # p) # ps)" for s
    by (cases "split_char (CHR '','') s") simp_all
  with 3 show ?case by (simp add: split_char_append)
qed (simp_all add: split_char_single)

lemma parse_option_tags_join:
  assumes "tags \<noteq> []" "list_all wf_tag tags" shows "parse_option_tags (join '', '' tags) = Inr tags"
proof -
  have "list_all (\<lambda>t. CHR '','' \<notin> set t) tags" using assms(2) by (auto simp: list_all_iff wf_tag_def)
  note split = split_join_tags [OF assms(1) this]
  have same: "to_ascii_lowercase (trim t) = t" if "t \<in> set tags" for t
    using that assms(2) by (simp add: list_all_iff wf_tag_def)
  obtain t ts where tags: "tags = t # ts" using assms(1) by (cases tags) simp_all
  have "map (\<lambda>t. to_ascii_lowercase (trim t)) ts = ts" by (rule map_idI) (simp add: same tags)
  then have "map (\<lambda>t. to_ascii_lowercase (trim t)) (split_char (CHR '','') (join '', '' tags)) = tags"
    unfolding split using same [of t] by (simp add: tags o_def)
  moreover have "filter (\<lambda>t. t \<noteq> []) tags = tags" using assms(2)
    by (auto simp: list_all_iff wf_tag_def filter_id_conv)
  ultimately show ?thesis using assms(1) by (simp add: parse_option_tags_def Let_def)
qed

section \<open>The stamped headers\<close>

lemma add_missing_tags_wf:
  "list_all wf_tag tags \<Longrightarrow> list_all wf_tag extra \<Longrightarrow>
     list_all wf_tag (add_missing_tags tags extra) \<and>
     set (add_missing_tags tags extra) = set tags \<union> set extra"
proof (induction tags extra rule: add_missing_tags.induct)
  case (2 tags tag extra)
  have "list_ex (\<lambda>t. eq_ignore_ascii_case t tag) tags \<longleftrightarrow> tag \<in> set tags"
    using "2.prems" wf_tag_eq by (auto simp: list_ex_iff list_all_iff)
  with 2 show ?case by auto
qed simp

abbreviation plain :: "header \<Rightarrow> bool" where
  "plain h \<equiv> require_value h = None"

lemma merge_into_last_require_eq:
  assumes "list_all plain post" "tags \<noteq> []" "list_all wf_tag tags"
  shows "merge_into_last_require (pre @ HRequire (join '', '' tags) # post) extra =
     pre @ HRequire (join '', '' (add_missing_tags tags extra)) # post"
proof -
  have "merge_into_first_require extra (xs @ HRequire v # ys) =
      xs @ HRequire (join '', '' (add_missing_tags
        (case require_parse v of Inr ts \<Rightarrow> ts | Inl _ \<Rightarrow> []) extra)) # ys"
    if "list_all plain xs" for xs ys v
    using that by (induction xs) (auto simp: require_value_def split: header.splits)
  from this [of "rev post" "join '', '' tags" "rev pre"] assms show ?thesis
    by (simp add: merge_into_last_require_def require_parse_def parse_option_tags_join)
qed

abbreviation tags_of :: "headers \<Rightarrow> string list" where
  "tags_of hs \<equiv> concat (List.map_filter (\<lambda>v. ok (require_parse v)) (require_values hs))"

lemma require_values_eq: "require_values hs = List.map_filter require_value hs"
  by (simp add: require_values_def require_value_def [abs_def])

lemma require_values_simps [simp]:
  "require_values [] = []" "require_values (xs @ ys) = require_values xs @ require_values ys"
  "require_values (h # hs) =
     (case require_value h of Some v \<Rightarrow> v # require_values hs | None \<Rightarrow> require_values hs)"
  by (simp_all add: require_values_eq List.map_filter_def split: option.splits)

lemma require_values_plain: "list_all plain hs \<Longrightarrow> require_values hs = []"
  by (induction hs) auto

text \<open>What the loop has built after the headers in \<open>done\<close>.\<close>

definition stamped_so_far :: "headers \<Rightarrow> bool \<Rightarrow> headers \<Rightarrow> bool" where
  "stamped_so_far new handled seen \<longleftrightarrow>
     (if handled then
        \<exists>pre tags post. new = pre @ HRequire (join '', '' tags) # post \<and> list_all plain post \<and>
          pre @ post = filter plain seen \<and> list_all wf_tag tags \<and> ''100rel'' \<in> set tags \<and>
          set (tags_of seen) \<subseteq> set tags
      else new = seen \<and> list_all plain seen)"

lemma stamped_handledI:
  assumes "new = pre @ HRequire (join '', '' tags) # post" "list_all plain post"
    "pre @ post = filter plain seen" "list_all wf_tag tags" "''100rel'' \<in> set tags"
    "set (tags_of seen) \<subseteq> set tags"
  shows "stamped_so_far new True seen"
  unfolding stamped_so_far_def if_True using assms by blast

lemma merged_tags:
  "\<exists>tags. merge_require_with_100rel v = join '', '' tags \<and> list_all wf_tag tags \<and>
     ''100rel'' \<in> set tags \<and> (\<forall>ts. require_parse v = Inr ts \<longrightarrow> set ts \<subseteq> set tags)"
proof -
  define ts where "ts = (case require_parse v of Inr ts \<Rightarrow> ts | Inl _ \<Rightarrow> [])"
  have wf: "list_all wf_tag ts"
    by (auto simp: ts_def require_parse_def parse_option_tags_wf split: sum.splits)
  have "list_ex (\<lambda>t. eq_ignore_ascii_case t ''100rel'') ts \<longleftrightarrow> ''100rel'' \<in> set ts"
    using wf wf_tag_eq [OF _ wf_tag_100rel] by (auto simp: list_ex_iff list_all_iff)
  then show ?thesis using wf wf_tag_100rel
    by (intro exI [of _ "if ''100rel'' \<in> set ts then ts else ts @ [''100rel'']"])
       (auto simp: merge_require_with_100rel_def Let_def ts_def [symmetric], simp_all add: ts_def)
qed

lemma stamped_step_plain:
  "stamped_so_far new handled seen \<Longrightarrow> plain h \<Longrightarrow> stamped_so_far (new @ [h]) handled (seen @ [h])"
proof (cases handled)
  case True
  assume *: "stamped_so_far new handled seen" "plain h"
  then obtain pre tags post where "new = pre @ HRequire (join '', '' tags) # post" "list_all plain post"
    "pre @ post = filter plain seen" "list_all wf_tag tags" "''100rel'' \<in> set tags"
    "set (tags_of seen) \<subseteq> set tags"
    using True by (auto simp: stamped_so_far_def)
  then show ?thesis using True *(2)
    by (simp, intro stamped_handledI [where pre = pre and tags = tags and post = "post @ [h]"]) simp_all
qed (simp add: stamped_so_far_def)

lemma stamped_step_first:
  assumes "stamped_so_far new False seen" "require_value h = Some v"
  shows "stamped_so_far (new @ [HRequire (merge_require_with_100rel v)]) True (seen @ [h])"
proof -
  have new: "new = seen" "list_all plain seen" using assms(1) by (simp_all add: stamped_so_far_def)
  obtain tags where "merge_require_with_100rel v = join '', '' tags" "list_all wf_tag tags"
    "''100rel'' \<in> set tags" "\<forall>ts. require_parse v = Inr ts \<longrightarrow> set ts \<subseteq> set tags"
    using merged_tags by blast
  moreover have "filter plain (seen @ [h]) = seen"
    using new(2) assms(2) by (simp add: list_all_iff)
  ultimately show ?thesis using new assms(2)
    by (intro stamped_handledI [where pre = seen and tags = tags and post = "[]"])
       (auto simp: require_values_plain List.map_filter_def split: option.splits)
qed

lemma stamped_step_more:
  assumes "stamped_so_far new True seen" "require_value h = Some v"
  shows "stamped_so_far (case require_parse v of Inr extra \<Rightarrow> merge_into_last_require new extra | Inl _ \<Rightarrow> new)
    True (seen @ [h])"
proof -
  obtain pre tags post where new: "new = pre @ HRequire (join '', '' tags) # post" "list_all plain post"
    "pre @ post = filter plain (seen @ [h])" "list_all wf_tag tags" "''100rel'' \<in> set tags"
    "set (tags_of seen) \<subseteq> set tags"
    using assms by (auto simp: stamped_so_far_def)
  show ?thesis
  proof (cases "require_parse v")
    case (Inl e)
    then show ?thesis
      using new assms(2)
      by (intro stamped_handledI [where pre = pre and tags = tags and post = post]) (simp_all add: List.map_filter_def)
  next
    case (Inr extra)
    then have "list_all wf_tag extra" by (simp add: require_parse_def parse_option_tags_wf)
    note add = add_missing_tags_wf [OF new(4) this]
    have "tags \<noteq> []" using new(5) by auto
    have "tags_of (seen @ [h]) = tags_of seen @ extra"
      using Inr assms(2) by (simp add: List.map_filter_def)
    with merge_into_last_require_eq [OF new(2) \<open>tags \<noteq> []\<close> new(4)] add Inr new assms(2)
    show ?thesis
      by (intro stamped_handledI [where pre = pre and tags = "add_missing_tags tags extra" and post = post])
         (auto simp del: require_values_simps)
  qed
qed

lemma stamp_loop_ok:
  "stamp_loop new handled hs = Some (new', handled') \<Longrightarrow> stamped_so_far new handled seen \<Longrightarrow>
     stamped_so_far new' handled' (seen @ hs)"
proof (induction hs arbitrary: new handled seen)
  case (Cons h hs)
  show ?case
  proof (cases "require_value h")
    case None
    with Cons.prems show ?thesis
      using stamped_step_plain [OF Cons.prems(2), of h] Cons.IH [of "new @ [h]" handled "seen @ [h]"]
      by (auto simp: bind_eq_Some_conv headers_push_def split: if_splits)
  next
    case (Some v)
    show ?thesis
    proof (cases handled)
      case True
      with Some Cons.prems stamped_step_more [of new seen h v] Cons.IH [of _ True "seen @ [h]"]
      show ?thesis by simp
    next
      case False
      with Some Cons.prems stamped_step_first [of new seen h v]
        Cons.IH [of "new @ [HRequire (merge_require_with_100rel v)]" True "seen @ [h]"]
      show ?thesis by (auto simp: bind_eq_Some_conv headers_push_def split: if_splits)
    qed
  qed
qed simp

lemma stamp_headers:
  assumes "stamp_reliable_headers r n = Some r'"
  obtains pre tags post where "rs_headers r' = (pre @ HRequire (join '', '' tags) # post) @ [HOther ''RSeq'' (to_dec n)]"
    "pre @ post = filter plain (rs_headers r)" "list_all wf_tag tags" "''100rel'' \<in> set tags"
    "set (tags_of (rs_headers r)) \<subseteq> set tags"
    "r' = r\<lparr>rs_headers := rs_headers r'\<rparr>" "length (rs_headers r') \<le> MAX_HEADERS"
proof -
  obtain new handled new' where loop: "stamp_loop [] False (rs_headers r) = Some (new, handled)"
    and last: "(if handled then Some new else ok (headers_push new (HRequire ''100rel''))) = Some new'"
    and r': "r' = r\<lparr>rs_headers := new' @ [HOther ''RSeq'' (to_dec n)]\<rparr>" "length new' < MAX_HEADERS"
    using assms unfolding stamp_reliable_headers_def
    by (auto simp: bind_eq_Some_conv headers_push_def split: if_splits)
  have so_far: "stamped_so_far new handled (rs_headers r)"
    using stamp_loop_ok [OF loop, of "[]"] by (simp add: stamped_so_far_def)
  have "stamped_so_far new' True (rs_headers r)"
  proof (cases handled)
    case False
    then have "new' = rs_headers r @ [HRequire ''100rel'']" "list_all plain (rs_headers r)"
      using so_far last by (auto simp: stamped_so_far_def headers_push_def split: if_splits)
    then show ?thesis
      by (intro stamped_handledI [where pre = "rs_headers r" and tags = "[''100rel'']" and post = "[]"])
         (simp_all add: wf_tag_100rel require_values_plain list_all_iff filter_id_conv)
  qed (use so_far last in simp)
  then obtain pre tags post where "new' = pre @ HRequire (join '', '' tags) # post"
    "pre @ post = filter plain (rs_headers r)" "list_all wf_tag tags" "''100rel'' \<in> set tags"
    "set (tags_of (rs_headers r)) \<subseteq> set tags" by (auto simp: stamped_so_far_def)
  with r' show thesis by (intro that [of pre tags post]) simp_all
qed

lemma find_other_plain:
  assumes "find_other_header hs name = None" "pre @ post = filter plain hs"
  shows "find_other_header (pre @ HRequire v # post) name = None"
proof -
  have "set pre \<union> set post \<subseteq> set hs" using assms(2) by (metis filter_is_subset set_append)
  then show ?thesis using assms(1) by (auto simp: find_other_header_def find_map_None_iff)
qed

lemma find_other_append:
  "find_other_header (xs @ ys) name =
     (case find_other_header xs name of Some v \<Rightarrow> Some v | None \<Rightarrow> find_other_header ys name)"
  unfolding find_other_header_def by (rule find_map_append)

lemma find_other_here: "find_other_header [HOther name v] name = Some (trim v)"
  by (simp add: find_other_header_def)

text \<open>
  C38. A reliable provisional response announces itself. Whatever headers the user set, the stamped
  response carries exactly one Require header; it lists \<open>100rel\<close> and every option tag the user asked
  for. The response reports the given RSeq, keeps all other headers in their order, and keeps its
  status, reason and body.
\<close>
theorem stamp_announces_100rel:
  assumes "stamp_reliable_headers r n = Some r'" "n < 2 ^ 32"
    and "find_other_header (rs_headers r) ''RSeq'' = None"
  shows "resp_rseq r' = Some n \<and>
    (\<exists>tags. resp_require r' = Some tags \<and> ''100rel'' \<in> set tags \<and>
       (\<forall>old. resp_require r = Some old \<longrightarrow> set old \<subseteq> set tags)) \<and>
    length (require_values (rs_headers r')) = 1 \<and>
    filter (\<lambda>h. require_value h = None) (rs_headers r') =
      filter (\<lambda>h. require_value h = None) (rs_headers r) @ [HOther ''RSeq'' (to_dec n)] \<and>
    r' = r\<lparr>rs_headers := rs_headers r'\<rparr>"
proof -
  obtain pre tags post where hs: "rs_headers r' =
      (pre @ HRequire (join '', '' tags) # post) @ [HOther ''RSeq'' (to_dec n)]"
    and keep: "pre @ post = filter plain (rs_headers r)" and tags: "list_all wf_tag tags"
    "''100rel'' \<in> set tags" "set (tags_of (rs_headers r)) \<subseteq> set tags"
    and r': "r' = r\<lparr>rs_headers := rs_headers r'\<rparr>"
    by (rule stamp_headers [OF assms(1)]) blast
  have rseq: "plain (HOther ''RSeq'' v)" for v
    by (simp add: require_value_def eq_ignore_ascii_case_def to_ascii_lowercase_def)
  have "list_all plain (pre @ post)" unfolding keep by (simp add: list_all_iff)
  then have plain: "list_all plain pre" "list_all plain post" by simp_all
  have vals: "require_values (rs_headers r') = [join '', '' tags]"
    by (simp add: hs require_values_plain plain rseq require_value_def [of "HRequire _"])
  have "tags \<noteq> []" using tags(2) by auto
  then have "resp_require r' = Some tags"
    by (simp add: resp_require_def find_require_def vals require_parse_def List.map_filter_def
        parse_option_tags_join tags(1))
  moreover have "set old \<subseteq> set tags" if "resp_require r = Some old" for old
    using that tags(3) by (auto simp: resp_require_def find_require_def Let_def split: if_splits)
  moreover have "resp_rseq r' = Some n"
  proof -
    have "find_other_header (rs_headers r') ''RSeq'' = Some (to_dec n)"
      using find_other_plain [OF assms(3) keep, of "join '', '' tags"]
      unfolding hs find_other_append [of "_ # _"] find_other_append [of "_ @ _"]
      by (simp add: find_other_here tight_graphic)
    then show ?thesis using assms(2) by (simp add: resp_rseq_def rseq_parse_def tight_graphic)
  qed
  moreover have "filter plain (rs_headers r') = filter plain (rs_headers r) @ [HOther ''RSeq'' (to_dec n)]"
    using keep plain by (simp add: hs rseq require_value_def [of "HRequire _"] list_all_iff filter_id_conv)
  ultimately show ?thesis using tags(2) vals r' by auto
qed

definition sample_ringing :: sip_response where
  "sample_ringing = \<lparr>rs_version = ''SIP/2.0'', rs_status_code = 180, rs_reason = ''Ringing'',
     rs_headers = [HRequire ''timer'', HContentLength ''0''], rs_body = []\<rparr>"

lemma sample_stamp: "stamp_reliable_headers sample_ringing n =
    Some (sample_ringing\<lparr>rs_headers := [HRequire (merge_require_with_100rel ''timer''),
      HContentLength ''0'', HOther ''RSeq'' (to_dec n)]\<rparr>)"
  by (simp add: stamp_reliable_headers_def sample_ringing_def require_value_def headers_push_def
      MAX_HEADERS_def)

theorem stamp_announces_100rel_witness:
  "\<exists>r'. stamp_reliable_headers sample_ringing 7 = Some r' \<and> resp_rseq r' = Some 7 \<and>
     (\<exists>tags. resp_require r' = Some tags \<and> ''100rel'' \<in> set tags)"
proof -
  have "find_other_header (rs_headers sample_ringing) ''RSeq'' = None"
    by (simp add: sample_ringing_def find_other_header_def)
  from stamp_announces_100rel [OF sample_stamp [of 7] _ this] sample_stamp [of 7] show ?thesis by auto
qed

end
