(* ===== verification/Txn_Server_Invite.thy ===== *)
theory Txn_Server_Invite
  imports Txn_Reliable "HOL-Library.Multiset"
begin

text \<open>
  The INVITE server transaction (\<open>transaction/server/invite.rs\<close>) with its reliable provisional responses
  (RFC 3262): the buffer of unacknowledged provisionals on Timer N, and the retransmission and acknowledgement of final responses.
\<close>

section \<open>The machine\<close>

datatype is_state = IS_Proceeding | IS_Completed | IS_Confirmed | IS_Terminated

datatype final_sent = FinalNone | FinalNonTwoXx | FinalTwoXx

datatype is_event = IS_Request sip_request | IS_AckReceived | IS_PrackReceived nat
  | IS_PrackTimeout nat final_sent | IS_Timeout | IS_TransportError

record reliable_provisional =
  rp_rseq :: nat
  rp_bytes :: string
  rp_next_fire_after :: duration
  rp_next_interval :: duration
  rp_elapsed :: duration
  rp_abandon_at :: duration

record invite_server =
  is_id :: transaction_id
  is_st :: is_state
  is_request :: sip_request
  is_last_response :: "string option"
  is_timers :: timer_values
  is_reliable :: bool
  is_interval :: duration
  is_actions :: "is_event action list"
  is_next_rseq :: nat
  is_provisionals :: "reliable_provisional list"
  is_final_sent :: final_sent

definition is_push :: "is_event action list \<Rightarrow> invite_server \<Rightarrow> invite_server" where
  "is_push as tx = tx\<lparr>is_actions := is_actions tx @ as\<rparr>"

definition is_new :: "sip_request \<Rightarrow> bool \<Rightarrow> invite_server option" where
  "is_new request reliable =
     (if req_method request \<noteq> Invite then None
      else Option.bind (id_from_request request) (\<lambda>id.
        let timers = timer_default in
        Some (is_push [Event (IS_Request request)]
          \<lparr>is_id = id, is_st = IS_Proceeding, is_request = request, is_last_response = None,
           is_timers = timers, is_reliable = reliable, is_interval = timer_g timers, is_actions = [],
           is_next_rseq = 1, is_provisionals = [], is_final_sent = FinalNone\<rparr>)))"

definition is_is_terminated :: "invite_server \<Rightarrow> bool" where
  "is_is_terminated tx \<longleftrightarrow> is_st tx = IS_Terminated"

definition matches_invite_dialog :: "string \<Rightarrow> string \<Rightarrow> invite_server \<Rightarrow> bool" where
  "matches_invite_dialog call_id from_tag tx =
     (case req_call_id (is_request tx) of
        Inl _ \<Rightarrow> False
      | Inr c \<Rightarrow>
          (case req_from_tag (is_request tx) of
             Inl _ \<Rightarrow> False
           | Inr t \<Rightarrow> c = call_id \<and> t = from_tag))"

subsection \<open>Timer N\<close>

text \<open>One pass over the buffer: the entries with their new schedules, the retransmissions, and the
  RSeq numbers to abandon. The abandoned entries are still in the list.\<close>

fun fire_entries ::
  "duration \<Rightarrow> duration \<Rightarrow> reliable_provisional list \<Rightarrow>
     reliable_provisional list \<times> is_event action list \<times> nat list" where
  "fire_entries t2 due_in [] = ([], [], [])"
| "fire_entries t2 due_in (e # es) =
     (let (es', sends, to_abandon) = fire_entries t2 due_in es;
          e = e\<lparr>rp_next_fire_after := rp_next_fire_after e - due_in\<rparr>
      in if rp_next_fire_after e \<noteq> 0 then (e # es', sends, to_abandon)
         else
           (let e = e\<lparr>rp_elapsed := rp_elapsed e + rp_next_interval e\<rparr> in
            if rp_abandon_at e \<le> rp_elapsed e then (e # es', sends, rp_rseq e # to_abandon)
            else
              (let next_interval = min (rp_next_interval e * 2) t2 in
               (e\<lparr>rp_next_interval := next_interval, rp_next_fire_after := next_interval\<rparr> # es',
                Send (rp_bytes e) # sends, to_abandon))))"

definition min_due :: "duration \<Rightarrow> reliable_provisional list \<Rightarrow> duration" where
  "min_due none es = (if es = [] then none else min_list (map rp_next_fire_after es))"

definition fire_timer_n :: "invite_server \<Rightarrow> invite_server" where
  "fire_timer_n tx =
     (if is_provisionals tx = [] then tx
      else
        (let due_in = min_due (tm_t1 (is_timers tx)) (is_provisionals tx);
             (entries, sends, to_abandon) =
               fire_entries (tm_t2 (is_timers tx)) due_in (is_provisionals tx);
             kept = filter (\<lambda>e. rp_rseq e \<notin> set to_abandon) entries;
             tx = is_push (sends @ map (\<lambda>r. Event (IS_PrackTimeout r (is_final_sent tx))) to_abandon)
                    (tx\<lparr>is_provisionals := kept\<rparr>)
         in if kept = [] then tx else is_push [SetTimer TimerN (min_due 0 kept)] tx))"

definition is_handle_timeout :: "timer \<Rightarrow> invite_server \<Rightarrow> invite_server" where
  "is_handle_timeout t tx =
     (case (is_st tx, t) of
        (IS_Completed, TimerG) \<Rightarrow>
          (let tx = (case is_last_response tx of Some resp \<Rightarrow> is_push [Send resp] tx | None \<Rightarrow> tx);
               interval = next_retransmit (is_timers tx) (is_interval tx)
           in is_push [SetTimer TimerG interval] (tx\<lparr>is_interval := interval\<rparr>))
      | (IS_Completed, TimerH) \<Rightarrow> is_push [Event IS_Timeout] (tx\<lparr>is_st := IS_Terminated\<rparr>)
      | (IS_Confirmed, TimerI) \<Rightarrow> tx\<lparr>is_st := IS_Terminated\<rparr>
      | (_, TimerN) \<Rightarrow> fire_timer_n tx
      | _ \<Rightarrow> tx)"

definition drain_reliable_provisionals :: "invite_server \<Rightarrow> invite_server" where
  "drain_reliable_provisionals tx =
     (if is_provisionals tx = [] then tx
      else is_push [CancelTimer TimerN] (tx\<lparr>is_provisionals := []\<rparr>))"

definition is_resend :: "invite_server \<Rightarrow> invite_server" where
  "is_resend tx = (case is_last_response tx of Some resp \<Rightarrow> is_push [Send resp] tx | None \<Rightarrow> tx)"

definition is_handle_request :: "sip_request \<Rightarrow> invite_server \<Rightarrow> invite_server" where
  "is_handle_request request tx =
     (case is_st tx of
        IS_Proceeding \<Rightarrow> if req_method request = Invite then is_resend tx else tx
      | IS_Completed \<Rightarrow>
          if req_method request = Invite then is_resend tx
          else if req_method request = Ack then
            (let tx = is_push ((if \<not> is_reliable tx then [CancelTimer TimerG] else []) @
                        [CancelTimer TimerH, Event IS_AckReceived])
                        (tx\<lparr>is_st := IS_Confirmed\<rparr>);
                 timer_i' = (if is_reliable tx then 0 else timer_i (is_timers tx))
             in if timer_i' = 0 then tx\<lparr>is_st := IS_Terminated\<rparr>
                else is_push [SetTimer TimerI timer_i'] tx)
          else tx
      | _ \<Rightarrow> tx)"

definition is_send_response :: "sip_response \<Rightarrow> invite_server \<Rightarrow> invite_server" where
  "is_send_response response tx =
     (let cd = resp_status_code response; resp_bytes = response_to_bytes response in
      case is_st tx of
        IS_Proceeding \<Rightarrow>
          if 100 \<le> cd \<and> cd < 200 then
            is_push [Send resp_bytes] (tx\<lparr>is_last_response := Some resp_bytes\<rparr>)
          else if 200 \<le> cd \<and> cd < 300 then
            is_push [Send resp_bytes]
              ((drain_reliable_provisionals (tx\<lparr>is_final_sent := FinalTwoXx\<rparr>))
                \<lparr>is_st := IS_Terminated\<rparr>)
          else if 300 \<le> cd then
            (let tx = is_push [Send resp_bytes]
                        ((drain_reliable_provisionals (tx\<lparr>is_final_sent := FinalNonTwoXx\<rparr>))
                          \<lparr>is_st := IS_Completed, is_last_response := Some resp_bytes\<rparr>)
             in is_push ((if \<not> is_reliable tx then [SetTimer TimerG (is_interval tx)] else []) @
                  [SetTimer TimerH (timer_h (is_timers tx))]) tx)
          else tx
      | _ \<Rightarrow> tx)"

text \<open>\<open>None\<close> is a panic: the RSeq counter or the header limit overflows.\<close>

definition is_send_provisional_reliable :: "sip_response \<Rightarrow> invite_server \<Rightarrow> invite_server option" where
  "is_send_provisional_reliable response tx =
     (if is_st tx \<noteq> IS_Proceeding then Some tx
      else
        (let rseq = is_next_rseq tx in
         if 2 ^ 32 \<le> rseq + 1 then None
         else Option.bind (stamp_reliable_headers response rseq) (\<lambda>response.
           let stamped = response_to_bytes response;
               was_empty = (is_provisionals tx = []);
               t1 = tm_t1 (is_timers tx);
               entry = \<lparr>rp_rseq = rseq, rp_bytes = stamped, rp_next_fire_after = t1,
                        rp_next_interval = t1, rp_elapsed = 0, rp_abandon_at = t1 * 64\<rparr>
           in Some (is_push ([Send stamped] @ (if was_empty then [SetTimer TimerN t1] else []))
                (tx\<lparr>is_next_rseq := rseq + 1, is_provisionals := is_provisionals tx @ [entry],
                    is_last_response := Some stamped\<rparr>)))))"

definition is_handle_prack_received :: "nat \<Rightarrow> invite_server \<Rightarrow> invite_server" where
  "is_handle_prack_received rseq tx =
     (let kept = filter (\<lambda>e. rp_rseq e \<noteq> rseq) (is_provisionals tx) in
      if length kept = length (is_provisionals tx) then tx\<lparr>is_provisionals := kept\<rparr>
      else if kept = [] then is_push [CancelTimer TimerN] (tx\<lparr>is_provisionals := kept\<rparr>)
      else is_push [CancelTimer TimerN, SetTimer TimerN (min_due (tm_t1 (is_timers tx)) kept)]
             (tx\<lparr>is_provisionals := kept\<rparr>))"

definition is_handle_event :: "is_event \<Rightarrow> invite_server \<Rightarrow> invite_server" where
  "is_handle_event event tx =
     (case event of IS_PrackReceived rseq \<Rightarrow> is_handle_prack_received rseq tx | _ \<Rightarrow> tx)"

definition is_poll_actions :: "invite_server \<Rightarrow> is_event action list \<times> invite_server" where
  "is_poll_actions tx = (is_actions tx, tx\<lparr>is_actions := []\<rparr>)"

definition is_handle_transport_error :: "invite_server \<Rightarrow> invite_server" where
  "is_handle_transport_error tx =
     (case is_st tx of
        IS_Proceeding \<Rightarrow> is_push [Event IS_TransportError] (tx\<lparr>is_st := IS_Terminated\<rparr>)
      | IS_Completed \<Rightarrow> is_push [Event IS_TransportError] (tx\<lparr>is_st := IS_Terminated\<rparr>)
      | _ \<Rightarrow> tx)"

text \<open>The inputs as one type. A call that panics does not return to the caller; it leaves the state
  as it was here.\<close>

datatype is_input = IS_Fire timer | IS_Receive sip_request | IS_Respond sip_response
  | IS_RespondReliably sip_response | IS_Deliver is_event | IS_Error

fun is_step :: "is_input \<Rightarrow> invite_server \<Rightarrow> invite_server" where
  "is_step (IS_Fire t) tx = is_handle_timeout t tx"
| "is_step (IS_Receive r) tx = is_handle_request r tx"
| "is_step (IS_Respond r) tx = is_send_response r tx"
| "is_step (IS_RespondReliably r) tx =
     (case is_send_provisional_reliable r tx of Some tx' \<Rightarrow> tx' | None \<Rightarrow> tx)"
| "is_step (IS_Deliver e) tx = is_handle_event e tx"
| "is_step IS_Error tx = is_handle_transport_error tx"

section \<open>Forward motion and deadlines\<close>

fun is_rank :: "is_state \<Rightarrow> nat" where
  "is_rank IS_Proceeding = 0"
| "is_rank IS_Completed = 1"
| "is_rank IS_Confirmed = 2"
| "is_rank IS_Terminated = 3"

definition is_key :: "invite_server \<Rightarrow> transaction_id \<times> sip_request \<times> timer_values \<times> bool" where
  "is_key tx = (is_id tx, is_request tx, is_timers tx, is_reliable tx)"

definition is_deadline :: "invite_server \<Rightarrow> (timer \<times> duration) option" where
  "is_deadline tx =
     (case is_st tx of
        IS_Completed \<Rightarrow> Some (TimerH, timer_h (is_timers tx))
      | IS_Confirmed \<Rightarrow> Some (TimerI, timer_i (is_timers tx))
      | _ \<Rightarrow> None)"

abbreviation is_initial :: "invite_server \<Rightarrow> bool" where
  "is_initial tx \<equiv> \<exists>request reliable. is_new request reliable = Some tx"

lemma is_push_simps [simp]:
  "is_id (is_push as tx) = is_id tx" "is_st (is_push as tx) = is_st tx"
  "is_request (is_push as tx) = is_request tx" "is_timers (is_push as tx) = is_timers tx"
  "is_reliable (is_push as tx) = is_reliable tx" "is_interval (is_push as tx) = is_interval tx"
  "is_last_response (is_push as tx) = is_last_response tx"
  "is_next_rseq (is_push as tx) = is_next_rseq tx"
  "is_provisionals (is_push as tx) = is_provisionals tx"
  "is_final_sent (is_push as tx) = is_final_sent tx"
  "is_actions (is_push as tx) = is_actions tx @ as"
  by (simp_all add: is_push_def)

lemma is_resend_simps [simp]:
  "is_id (is_resend tx) = is_id tx" "is_st (is_resend tx) = is_st tx"
  "is_request (is_resend tx) = is_request tx" "is_timers (is_resend tx) = is_timers tx"
  "is_reliable (is_resend tx) = is_reliable tx" "is_interval (is_resend tx) = is_interval tx"
  "is_last_response (is_resend tx) = is_last_response tx"
  "is_next_rseq (is_resend tx) = is_next_rseq tx"
  "is_provisionals (is_resend tx) = is_provisionals tx"
  "is_final_sent (is_resend tx) = is_final_sent tx"
  "is_actions (is_resend tx) =
     is_actions tx @ (case is_last_response tx of Some resp \<Rightarrow> [Send resp] | None \<Rightarrow> [])"
  by (simp_all add: is_resend_def split: option.splits)

lemma drain_simps [simp]:
  "is_id (drain_reliable_provisionals tx) = is_id tx"
  "is_st (drain_reliable_provisionals tx) = is_st tx"
  "is_request (drain_reliable_provisionals tx) = is_request tx"
  "is_timers (drain_reliable_provisionals tx) = is_timers tx"
  "is_reliable (drain_reliable_provisionals tx) = is_reliable tx"
  "is_interval (drain_reliable_provisionals tx) = is_interval tx"
  "is_last_response (drain_reliable_provisionals tx) = is_last_response tx"
  "is_next_rseq (drain_reliable_provisionals tx) = is_next_rseq tx"
  "is_provisionals (drain_reliable_provisionals tx) = []"
  "is_final_sent (drain_reliable_provisionals tx) = is_final_sent tx"
  "is_actions (drain_reliable_provisionals tx) =
     is_actions tx @ (if is_provisionals tx = [] then [] else [CancelTimer TimerN])"
  by (simp_all add: drain_reliable_provisionals_def)

text \<open>What one expiry of Timer N does to the buffer and queues.\<close>

definition fired :: "invite_server \<Rightarrow> reliable_provisional list \<times> is_event action list \<times> nat list" where
  "fired tx = fire_entries (tm_t2 (is_timers tx))
     (min_due (tm_t1 (is_timers tx)) (is_provisionals tx)) (is_provisionals tx)"

definition kept :: "invite_server \<Rightarrow> reliable_provisional list" where
  "kept tx = (case fired tx of (es, _, ab) \<Rightarrow> filter (\<lambda>e. rp_rseq e \<notin> set ab) es)"

definition fire_actions :: "invite_server \<Rightarrow> is_event action list" where
  "fire_actions tx =
     (case fired tx of (_, sends, ab) \<Rightarrow>
        sends @ map (\<lambda>r. Event (IS_PrackTimeout r (is_final_sent tx))) ab @
        (if kept tx = [] then [] else [SetTimer TimerN (min_due 0 (kept tx))]))"

lemma fired_empty: "is_provisionals tx = [] \<Longrightarrow> fired tx = ([], [], [])"
  by (simp add: fired_def)

lemma fire_timer_n_eq:
  "fire_timer_n tx = is_push (fire_actions tx) (tx\<lparr>is_provisionals := kept tx\<rparr>)"
proof (cases "is_provisionals tx = []")
  case True
  then show ?thesis
    by (cases tx) (simp add: fire_timer_n_def kept_def fire_actions_def fired_empty is_push_def)
next
  case False
  then show ?thesis
    by (simp add: fire_timer_n_def kept_def fire_actions_def fired_def [symmetric] Let_def is_push_def
        split: prod.splits)
qed

lemma fire_timer_n_simps [simp]:
  "is_id (fire_timer_n tx) = is_id tx" "is_st (fire_timer_n tx) = is_st tx"
  "is_request (fire_timer_n tx) = is_request tx" "is_timers (fire_timer_n tx) = is_timers tx"
  "is_reliable (fire_timer_n tx) = is_reliable tx" "is_interval (fire_timer_n tx) = is_interval tx"
  "is_last_response (fire_timer_n tx) = is_last_response tx"
  "is_next_rseq (fire_timer_n tx) = is_next_rseq tx"
  "is_provisionals (fire_timer_n tx) = kept tx"
  "is_final_sent (fire_timer_n tx) = is_final_sent tx"
  "is_actions (fire_timer_n tx) = is_actions tx @ fire_actions tx"
  by (simp_all add: fire_timer_n_eq)

lemma is_deadline_drained [simp]: "is_deadline (tx\<lparr>is_actions := as\<rparr>) = is_deadline tx"
  by (simp add: is_deadline_def cong: is_state.case_cong)

lemmas is_defs = is_handle_timeout_def is_handle_request_def is_send_response_def
  is_handle_event_def is_handle_prack_received_def is_handle_transport_error_def Let_def

lemma is_new_Some:
  assumes "is_new request reliable = Some tx"
  shows "is_st tx = IS_Proceeding" "is_request tx = request" "is_timers tx = timer_default"
    "is_reliable tx = reliable" "is_interval tx = 500" "is_last_response tx = None"
    "id_from_request request = Some (is_id tx)" "req_method request = Invite"
    "is_actions tx = [Event (IS_Request request)]" "is_next_rseq tx = 1" "is_provisionals tx = []"
    "is_final_sent tx = FinalNone"
  using assms by (auto simp: is_new_def Let_def timer_defs bind_eq_Some_conv split: if_splits)

lemma is_reliable_step:
  assumes "is_send_provisional_reliable r tx = Some tx'" "is_st tx = IS_Proceeding"
  obtains r' where "stamp_reliable_headers r (is_next_rseq tx) = Some r'" "is_next_rseq tx + 1 < 2 ^ 32"
    "tx' = is_push ([Send (response_to_bytes r')] @
       (if is_provisionals tx = [] then [SetTimer TimerN (tm_t1 (is_timers tx))] else []))
       (tx\<lparr>is_next_rseq := is_next_rseq tx + 1,
           is_provisionals := is_provisionals tx @
             [\<lparr>rp_rseq = is_next_rseq tx, rp_bytes = response_to_bytes r',
               rp_next_fire_after = tm_t1 (is_timers tx), rp_next_interval = tm_t1 (is_timers tx),
               rp_elapsed = 0, rp_abandon_at = tm_t1 (is_timers tx) * 64\<rparr>],
           is_last_response := Some (response_to_bytes r')\<rparr>)"
  using assms unfolding is_send_provisional_reliable_def
  by (auto simp: Let_def bind_eq_Some_conv split: if_splits)

lemma is_respond_reliably_cases:
  obtains (same) "is_step (IS_RespondReliably r) tx = tx"
  | (sent) r' where "is_st tx = IS_Proceeding" "is_next_rseq tx + 1 < 2 ^ 32"
    "stamp_reliable_headers r (is_next_rseq tx) = Some r'"
    "is_step (IS_RespondReliably r) tx = is_push ([Send (response_to_bytes r')] @
       (if is_provisionals tx = [] then [SetTimer TimerN (tm_t1 (is_timers tx))] else []))
       (tx\<lparr>is_next_rseq := is_next_rseq tx + 1,
           is_provisionals := is_provisionals tx @
             [\<lparr>rp_rseq = is_next_rseq tx, rp_bytes = response_to_bytes r',
               rp_next_fire_after = tm_t1 (is_timers tx), rp_next_interval = tm_t1 (is_timers tx),
               rp_elapsed = 0, rp_abandon_at = tm_t1 (is_timers tx) * 64\<rparr>],
           is_last_response := Some (response_to_bytes r')\<rparr>)"
proof (cases "is_send_provisional_reliable r tx")
  case None
  then show thesis by (intro same) simp
next
  case (Some tx')
  show thesis
  proof (cases "is_st tx = IS_Proceeding")
    case True
    with Some show thesis by (elim is_reliable_step) (use Some True in \<open>auto intro!: sent\<close>)
  next
    case False
    with Some show thesis by (intro same) (simp add: is_send_provisional_reliable_def)
  qed
qed

lemma is_step_shape:
  "is_key (is_step i tx) = is_key tx \<and> is_rank (is_st tx) \<le> is_rank (is_st (is_step i tx)) \<and>
   (\<exists>new. is_actions (is_step i tx) = is_actions tx @ new)"
proof (cases i)
  case (IS_Fire t)
  then show ?thesis
    by (cases "is_st tx"; cases t) (simp_all add: is_defs is_key_def split: option.splits)
next
  case (IS_Receive r)
  then show ?thesis by (cases "is_st tx") (simp_all add: is_defs is_key_def)
next
  case (IS_Respond r)
  then show ?thesis by (cases "is_st tx") (simp_all add: is_defs is_key_def)
next
  case (IS_RespondReliably r)
  show ?thesis unfolding IS_RespondReliably
    by (rule is_respond_reliably_cases [of r tx]) (simp_all add: is_key_def)
next
  case (IS_Deliver e)
  then show ?thesis by (cases e) (simp_all add: is_defs is_key_def)
next
  case IS_Error
  then show ?thesis by (cases "is_st tx") (simp_all add: is_defs is_key_def)
qed

lemma fire_entries_quiet:
  "fire_entries t2 d es = (es', sends, ab) \<Longrightarrow> arms sends A = A \<and> events sends = []"
  by (induction t2 d es arbitrary: es' sends ab rule: fire_entries.induct)
     (auto simp: Let_def split: prod.splits if_splits)

lemma arms_events [simp]: "arms (map (\<lambda>x. Event (f x)) xs) A = A"
  by (induction xs) simp_all

lemma arms_fire_actions:
  "arms (fire_actions tx) A = (if kept tx = [] then A else A(TimerN \<mapsto> min_due 0 (kept tx)))"
  using fire_entries_quiet [of "tm_t2 (is_timers tx)"
      "min_due (tm_t1 (is_timers tx)) (is_provisionals tx)" "is_provisionals tx"]
  by (auto simp: fire_actions_def fired_def split: prod.splits)

lemma is_deadline_step:
  assumes "is_actions tx = []" "is_deadline (is_step i tx) = Some (t, d)"
  shows "(\<forall>A. arms (is_actions (is_step i tx)) A t = Some d) \<or>
    is_deadline tx = Some (t, d) \<and> i \<noteq> IS_Fire t \<and> (\<forall>A. arms (is_actions (is_step i tx)) A t = A t)"
proof (cases i)
  case (IS_Fire t')
  then show ?thesis using assms
    by (cases "is_st tx"; cases t')
       (auto simp: is_defs is_deadline_def arms_fire_actions split: option.splits)
next
  case (IS_Receive r)
  then show ?thesis using assms
    by (cases "is_st tx") (auto simp: is_defs is_deadline_def timer_defs split: option.splits if_splits)
next
  case (IS_Respond r)
  then show ?thesis using assms
    by (cases "is_st tx") (auto simp: is_defs is_deadline_def split: if_splits)
next
  case (IS_RespondReliably r)
  show ?thesis using assms unfolding IS_RespondReliably
    by (cases rule: is_respond_reliably_cases [of r tx]) (auto simp: is_deadline_def simp del: is_step.simps)
next
  case (IS_Deliver e)
  then show ?thesis using assms
    by (cases e; cases "is_st tx") (auto simp: is_defs is_deadline_def split: if_splits)
next
  case IS_Error
  then show ?thesis using assms
    by (cases "is_st tx") (auto simp: is_defs is_deadline_def)
qed

lemma is_deadline_fires:
  "is_deadline tx = Some (t, d) \<Longrightarrow> is_is_terminated (is_step (IS_Fire t) tx)"
  by (cases "is_st tx") (auto simp: is_deadline_def is_is_terminated_def is_handle_timeout_def)

interpretation is_machine: transaction_machine
  is_step "\<lambda>tx. is_rank (is_st tx)" is_actions is_key 3 IS_Fire is_poll_actions is_deadline
  is_is_terminated is_initial
proof unfold_locales
  fix tx :: invite_server and as tx' t d
  assume "is_initial tx" "is_poll_actions tx = (as, tx')" "is_deadline tx' = Some (t, d)"
  then show "arms as Map.empty t = Some d"
    by (auto simp: is_deadline_def is_new_Some is_poll_actions_def)
next
  fix tx :: invite_server
  show "is_rank (is_st tx) \<le> 3" by (cases "is_st tx") simp_all
next
  fix tx as i tx' t d
  assume "is_poll_actions tx = ([], tx)" "is_poll_actions (is_step i tx) = (as, tx')"
    "is_deadline tx' = Some (t, d)"
  then show "(\<forall>A. arms as A t = Some d) \<or>
      is_deadline tx = Some (t, d) \<and> i \<noteq> IS_Fire t \<and> (\<forall>A. arms as A t = A t)"
    using is_deadline_step [of tx i t d] by (auto simp: is_poll_actions_def)
next
  fix tx t d as tx'
  assume "is_deadline tx = Some (t, d)" "is_poll_actions (is_step (IS_Fire t) tx) = (as, tx')"
  then show "is_is_terminated tx'"
    using is_deadline_fires [of tx t d] by (auto simp: is_poll_actions_def is_is_terminated_def)
qed (use is_step_shape in \<open>auto simp: is_poll_actions_def is_key_def\<close>)

section \<open>The buffer of reliable provisionals\<close>

lemma queue_maps:
  "events (map (\<lambda>x. Event (f x)) xs) = map f xs" "sent (map (\<lambda>x. Event (f x)) xs) = []"
  "events (map (\<lambda>x. Send (g x)) xs) = []" "sent (map (\<lambda>x. Send (g x)) xs) = map g xs"
  by (induction xs) simp_all

definition wf_entry :: "nat \<Rightarrow> reliable_provisional \<Rightarrow> bool" where
  "wf_entry n e \<longleftrightarrow> 1 \<le> rp_rseq e \<and> rp_rseq e < n \<and> 0 < rp_next_fire_after e \<and>
     500 \<le> rp_next_interval e \<and> rp_next_interval e \<le> 4000 \<and> rp_elapsed e < 32000 \<and>
     rp_abandon_at e = 32000"

text \<open>
  RSeq numbers are distinct and below the counter, every entry is on its schedule and not yet due for
  abandonment, and entries are outstanding only while no final response has been sent.
\<close>

definition wf_server :: "invite_server \<Rightarrow> bool" where
  "wf_server tx \<longleftrightarrow>
     is_timers tx = timer_default \<and> 1 \<le> is_next_rseq tx \<and>
     distinct (map rp_rseq (is_provisionals tx)) \<and>
     list_all (wf_entry (is_next_rseq tx)) (is_provisionals tx) \<and>
     (is_provisionals tx \<noteq> [] \<longrightarrow> is_final_sent tx = FinalNone) \<and>
     (is_st tx = IS_Proceeding \<longrightarrow> is_final_sent tx = FinalNone) \<and>
     (is_st tx \<in> {IS_Completed, IS_Confirmed} \<longrightarrow> is_provisionals tx = [])"

lemma min_due_le: "e \<in> set es \<Longrightarrow> min_due d es \<le> rp_next_fire_after e"
  by (auto simp: min_due_def min_list_Min)

lemma min_due_attained: "es \<noteq> [] \<Longrightarrow> \<exists>e \<in> set es. rp_next_fire_after e = min_due d es"
proof -
  assume "es \<noteq> []"
  then have "min_list (map rp_next_fire_after es) \<in> set (map rp_next_fire_after es)"
    by (simp add: min_list_Min del: set_map)
  with \<open>es \<noteq> []\<close> show ?thesis by (auto simp: min_due_def)
qed

text \<open>One pass over well-formed entries, entry by entry.\<close>

definition fire_entry :: "duration \<Rightarrow> reliable_provisional \<Rightarrow> reliable_provisional" where
  "fire_entry due e =
     (if rp_next_fire_after e \<le> due
      then (let ni = min (rp_next_interval e * 2) 4000 in
            e\<lparr>rp_elapsed := rp_elapsed e + rp_next_interval e, rp_next_interval := ni,
              rp_next_fire_after := ni\<rparr>)
      else e\<lparr>rp_next_fire_after := rp_next_fire_after e - due\<rparr>)"

definition gives_up :: "duration \<Rightarrow> reliable_provisional \<Rightarrow> bool" where
  "gives_up due e \<longleftrightarrow>
     rp_next_fire_after e \<le> due \<and> rp_abandon_at e \<le> rp_elapsed e + rp_next_interval e"

lemma fire_entries_eq:
  assumes "fire_entries 4000 due es = (es', sends, ab)" "distinct (map rp_rseq es)"
  shows "ab = map rp_rseq (filter (gives_up due) es) \<and>
    filter (\<lambda>e. rp_rseq e \<notin> set ab) es' = map (fire_entry due) (filter (\<lambda>e. \<not> gives_up due e) es) \<and>
    map rp_rseq es' = map rp_rseq es \<and>
    sends = map (\<lambda>e. Send (rp_bytes e))
      (filter (\<lambda>e. rp_next_fire_after e \<le> due \<and> \<not> gives_up due e) es)"
  using assms
proof (induction es arbitrary: es' sends ab)
  case (Cons e es)
  obtain es0 sends0 ab0 where rest: "fire_entries 4000 due es = (es0, sends0, ab0)"
    by (metis prod_cases3)
  note IH = Cons.IH [OF rest]
  have fresh: "rp_rseq e \<notin> rp_rseq ` set es" "distinct (map rp_rseq es)" using Cons.prems(2) by auto
  then have "set (map rp_rseq es0) = rp_rseq ` set es" "rp_rseq e \<notin> set ab0"
    using IH by auto
  then have "rp_rseq x \<noteq> rp_rseq e" if "x \<in> set es0" for x
    using that fresh(1) by (metis image_eqI set_map)
  then have skip: "filter (\<lambda>x. rp_rseq x \<noteq> rp_rseq e \<and> rp_rseq x \<notin> set ab0) es0 =
      filter (\<lambda>x. rp_rseq x \<notin> set ab0) es0"
    by (intro filter_cong) auto
  show ?case
    using Cons.prems(1) IH [OF fresh(2)] skip \<open>rp_rseq e \<notin> set ab0\<close>
    by (auto simp: rest Let_def gives_up_def fire_entry_def split: if_splits)
qed simp

lemma kept_eq:
  assumes "wf_server tx" "due = min_due 500 (is_provisionals tx)"
  shows "kept tx = map (fire_entry due) (filter (\<lambda>e. \<not> gives_up due e) (is_provisionals tx))"
    "events (fire_actions tx) = map (\<lambda>e. IS_PrackTimeout (rp_rseq e) (is_final_sent tx))
       (filter (gives_up due) (is_provisionals tx))"
    "sent (fire_actions tx) = map rp_bytes
       (filter (\<lambda>e. rp_next_fire_after e \<le> due \<and> \<not> gives_up due e) (is_provisionals tx))"
proof -
  obtain es sends ab where f: "fired tx = (es, sends, ab)" by (metis prod_cases3)
  have "fire_entries 4000 due (is_provisionals tx) = (es, sends, ab)"
    using f assms by (simp add: fired_def wf_server_def timer_defs)
  note eq = fire_entries_eq [OF this]
  have d: "distinct (map rp_rseq (is_provisionals tx))" using assms(1) by (simp add: wf_server_def)
  show k: "kept tx = map (fire_entry due) (filter (\<lambda>e. \<not> gives_up due e) (is_provisionals tx))"
    using conjunct1 [OF conjunct2 [OF eq [OF d]]] by (simp only: kept_def f prod.case)
  show "events (fire_actions tx) = map (\<lambda>e. IS_PrackTimeout (rp_rseq e) (is_final_sent tx))
       (filter (gives_up due) (is_provisionals tx))"
    "sent (fire_actions tx) = map rp_bytes
       (filter (\<lambda>e. rp_next_fire_after e \<le> due \<and> \<not> gives_up due e) (is_provisionals tx))"
    using eq [OF d] by (simp_all add: fire_actions_def f queue_maps o_def)
qed

lemma wf_entry_mono: "wf_entry n e \<Longrightarrow> n \<le> m \<Longrightarrow> wf_entry m e"
  by (simp add: wf_entry_def)

lemma wf_fire_entry: "wf_entry n e \<Longrightarrow> \<not> gives_up due e \<Longrightarrow> wf_entry n (fire_entry due e)"
  by (auto simp: wf_entry_def gives_up_def fire_entry_def Let_def)

lemma rseq_fire_entry [simp]: "rp_rseq (fire_entry due e) = rp_rseq e"
  by (simp add: fire_entry_def Let_def)

lemma wf_server_fire: assumes "wf_server tx" shows "wf_server (fire_timer_n tx)"
proof -
  have "distinct (map rp_rseq (filter P (is_provisionals tx)))" for P
    using assms by (simp add: wf_server_def distinct_map_filter)
  then have "distinct (map rp_rseq (kept tx))" by (simp add: kept_eq [OF assms refl] o_def)
  moreover have "list_all (wf_entry (is_next_rseq tx)) (kept tx)"
    using assms by (auto simp: kept_eq [OF assms refl] wf_server_def list_all_iff intro!: wf_fire_entry)
  moreover have "is_provisionals tx = [] \<Longrightarrow> kept tx = []" by (simp add: kept_eq [OF assms refl])
  ultimately show ?thesis using assms unfolding wf_server_def by auto
qed

lemma wf_server_step: assumes "wf_server tx" shows "wf_server (is_step i tx)"
proof (cases i)
  case (IS_Fire t)
  have n: "wf_server (fire_timer_n tx)" using assms by (rule wf_server_fire)
  show ?thesis using IS_Fire assms n
    by (cases "is_st tx"; cases t) (simp_all add: is_defs wf_server_def split: option.splits)
next
  case (IS_Receive r)
  then show ?thesis using assms by (cases "is_st tx") (simp_all add: is_defs wf_server_def)
next
  case (IS_Respond r)
  then show ?thesis using assms by (cases "is_st tx") (simp_all add: is_defs wf_server_def)
next
  case (IS_RespondReliably r)
  show ?thesis unfolding IS_RespondReliably
  proof (cases rule: is_respond_reliably_cases [of r tx])
    case same
    then show "wf_server (is_step (IS_RespondReliably r) tx)" using assms by simp
  next
    case (sent r')
    have "list_all (wf_entry (is_next_rseq tx + 1)) (is_provisionals tx)"
      "is_next_rseq tx \<notin> rp_rseq ` set (is_provisionals tx)"
      using assms by (auto simp: wf_server_def list_all_iff wf_entry_def)
    then show "wf_server (is_step (IS_RespondReliably r) tx)"
      unfolding sent(4) using sent(1) assms
      by (auto simp: wf_server_def wf_entry_def timer_defs)
  qed
next
  case (IS_Deliver e)
  have "distinct (map rp_rseq (filter P (is_provisionals tx)))"
    "list_all (wf_entry n) (is_provisionals tx) \<Longrightarrow> list_all (wf_entry n) (filter P (is_provisionals tx))"
    for P n
    using assms by (auto simp: wf_server_def distinct_map_filter list_all_iff)
  then show ?thesis using assms IS_Deliver
    by (cases e) (auto simp: is_defs wf_server_def)
next
  case IS_Error
  then show ?thesis using assms by (cases "is_st tx") (simp_all add: is_defs wf_server_def)
qed

lemma wf_server_new: "is_new request reliable = Some tx \<Longrightarrow> wf_server tx"
  by (simp add: wf_server_def is_new_Some)

lemma wf_server_run: "wf_server tx \<Longrightarrow> wf_server (fold is_step is tx)"
  by (induction "is" arbitrary: tx) (simp_all add: wf_server_step)

subsection \<open>Timer N runs exactly while entries are outstanding\<close>

lemma is_handle_timer_n: "is_handle_timeout TimerN tx = fire_timer_n tx"
  by (cases "is_st tx") (simp_all add: is_handle_timeout_def)

definition watched :: "invite_server \<Rightarrow> armed \<Rightarrow> bool" where
  "watched tx A \<longleftrightarrow> (A TimerN \<noteq> None \<longleftrightarrow> is_provisionals tx \<noteq> [])"

lemma kept_Nil: "is_provisionals tx = [] \<Longrightarrow> kept tx = []"
  by (simp add: kept_def fired_empty)

lemma watched_fire_n: "watched (fire_timer_n tx) (arms (fire_actions tx) (A(TimerN := None)))"
  by (simp add: watched_def arms_fire_actions)

lemma watched_input:
  assumes "is_actions tx = []" "watched tx A" "i \<noteq> IS_Fire TimerN"
  shows "watched (is_step i tx) (arms (is_actions (is_step i tx)) A)"
proof (cases i)
  case (IS_Fire t)
  then show ?thesis using assms
    by (cases "is_st tx"; cases t) (auto simp: is_defs watched_def split: option.splits)
next
  case (IS_Receive r)
  then show ?thesis using assms
    by (cases "is_st tx") (auto simp: is_defs watched_def split: option.splits)
next
  case (IS_Respond r)
  then show ?thesis using assms by (cases "is_st tx") (auto simp: is_defs watched_def)
next
  case (IS_RespondReliably r)
  show ?thesis using assms unfolding IS_RespondReliably
    by (cases rule: is_respond_reliably_cases [of r tx]) (auto simp: watched_def simp del: is_step.simps)
next
  case (IS_Deliver e)
  then show ?thesis using assms by (cases e) (auto simp: is_defs watched_def)
next
  case IS_Error
  then show ?thesis using assms by (cases "is_st tx") (auto simp: is_defs watched_def)
qed

lemma watched_drained [simp]: "watched (tx\<lparr>is_actions := as\<rparr>) A = watched tx A"
  by (simp add: watched_def)

lemma clocked_watched:
  assumes "clocked is_step IS_Fire is_poll_actions tx0 tx A" "is_initial tx0"
  shows "watched tx A"
  using assms
proof (induction rule: clocked.induct)
  case (clocked_start as s)
  then show ?case by (auto simp: is_poll_actions_def is_new_Some watched_def)
next
  case (clocked_fire s A t d as s')
  have idle: "is_actions s = []"
    using is_machine.clocked_drained [OF clocked_fire.hyps(1) clocked_fire.prems]
    by (simp add: is_poll_actions_def)
  show ?case
  proof (cases "t = TimerN")
    case True
    then show ?thesis using clocked_fire.hyps(3) watched_fire_n [of s A] idle
      by (auto simp: is_poll_actions_def is_handle_timer_n)
  next
    case False
    then have "watched s (A(t := None))" using clocked_fire by (simp add: watched_def)
    from watched_input [OF idle this, of "IS_Fire t"] False show ?thesis
      using clocked_fire.hyps(3) by (auto simp: is_poll_actions_def)
  qed
next
  case (clocked_input s A i as s')
  have "is_actions s = []"
    using is_machine.clocked_drained [OF clocked_input.hyps(1) clocked_input.prems]
    by (simp add: is_poll_actions_def)
  from watched_input [OF this clocked_input.IH [OF clocked_input.prems] clocked_input.hyps(2)]
  show ?case using clocked_input.hyps(3) by (auto simp: is_poll_actions_def)
qed

subsection \<open>Every entry is resolved\<close>

definition budget :: "reliable_provisional \<Rightarrow> nat" where
  "budget e = 64 - rp_elapsed e div 500"

abbreviation total_budget :: "reliable_provisional list \<Rightarrow> nat" where
  "total_budget es \<equiv> sum_list (map budget es)"

lemma budget_fire:
  assumes "wf_entry n e"
  shows "1 \<le> budget e" "budget (fire_entry due e) \<le> budget e"
    "rp_next_fire_after e \<le> due \<Longrightarrow> \<not> gives_up due e \<Longrightarrow> budget (fire_entry due e) < budget e"
proof -
  have e: "rp_elapsed e < 32000" "500 \<le> rp_next_interval e" using assms by (simp_all add: wf_entry_def)
  have "rp_elapsed e div 500 < 64" using e(1) by (simp add: less_mult_imp_div_less)
  moreover have "rp_elapsed e div 500 + 1 \<le> (rp_elapsed e + rp_next_interval e) div 500"
    using e(2) div_le_mono [of "rp_elapsed e + 500" "rp_elapsed e + rp_next_interval e" 500] by simp
  ultimately show "1 \<le> budget e" "budget (fire_entry due e) \<le> budget e"
    "rp_next_fire_after e \<le> due \<Longrightarrow> \<not> gives_up due e \<Longrightarrow> budget (fire_entry due e) < budget e"
    by (auto simp: budget_def fire_entry_def Let_def)
qed

lemma total_budget_le:
  "list_all (wf_entry n) es \<Longrightarrow>
     total_budget (map (fire_entry due) (filter (\<lambda>e. \<not> gives_up due e) es)) \<le> total_budget es"
proof (induction es)
  case (Cons e es)
  then show ?case using budget_fire(2) [of n e due] by auto
qed simp

lemma total_budget_less:
  "\<exists>e \<in> set es. rp_next_fire_after e \<le> due \<Longrightarrow> list_all (wf_entry n) es \<Longrightarrow>
     total_budget (map (fire_entry due) (filter (\<lambda>e. \<not> gives_up due e) es)) < total_budget es"
proof (induction es)
  case (Cons e es)
  have e: "wf_entry n e" and es: "list_all (wf_entry n) es" using Cons.prems by simp_all
  note b = budget_fire(1) [OF e] budget_fire(2,3) [OF e, of due] and l = total_budget_le [OF es, of due]
  show ?case
  proof (cases "rp_next_fire_after e \<le> due")
    case True
    then show ?thesis using b l by (cases "gives_up due e") auto
  next
    case False
    then have "\<not> gives_up due e" by (simp add: gives_up_def)
    then show ?thesis using Cons.IH Cons.prems False es b by auto
  qed
qed simp

lemma fire_budget:
  assumes "wf_server tx" "is_provisionals tx \<noteq> []"
  shows "total_budget (is_provisionals (fire_timer_n tx)) < total_budget (is_provisionals tx)"
proof -
  have "\<exists>e \<in> set (is_provisionals tx). rp_next_fire_after e \<le> min_due 500 (is_provisionals tx)"
    using min_due_attained [OF assms(2), of 500] by (metis order_refl)
  moreover have "list_all (wf_entry (is_next_rseq tx)) (is_provisionals tx)"
    using assms(1) by (simp add: wf_server_def)
  ultimately show ?thesis unfolding fire_timer_n_simps kept_eq [OF assms(1) refl]
    by (rule total_budget_less)
qed

lemma fires_resolve:
  assumes "wf_server tx" "total_budget (is_provisionals tx) \<le> m"
  shows "is_provisionals ((fire_timer_n ^^ m) tx) = []"
  using assms
proof (induction m arbitrary: tx)
  case 0
  have "\<forall>e \<in> set (is_provisionals tx). 1 \<le> budget e"
    using 0(1) budget_fire(1) [of "is_next_rseq tx"] by (simp add: wf_server_def list_all_iff)
  with 0(2) show ?case by (cases "is_provisionals tx") auto
next
  case (Suc m)
  show ?case
  proof (cases "is_provisionals tx = []")
    case True
    then have "fire_timer_n tx = tx" by (simp add: fire_timer_n_def)
    then show ?thesis using Suc.IH [of tx] Suc.prems True by (simp add: funpow_swap1)
  next
    case False
    from fire_budget [OF Suc.prems(1) this] Suc show ?thesis
      by (simp add: funpow_swap1 wf_server_fire del: fire_timer_n_simps)
  qed
qed

lemma mset_rseq_partition:
  "image_mset f (filter_mset P M) + image_mset f {#x \<in># M. \<not> P x#} = image_mset f M"
  by (metis image_mset_union multiset_partition)

text \<open>Abandoned entries are reported, each once and all with no final response sent.\<close>

lemma fires_report:
  assumes "wf_server tx"
  shows "\<exists>rs. events (is_actions ((fire_timer_n ^^ m) tx)) =
      events (is_actions tx) @ map (\<lambda>r. IS_PrackTimeout r FinalNone) rs \<and>
    mset rs + mset (map rp_rseq (is_provisionals ((fire_timer_n ^^ m) tx))) =
      mset (map rp_rseq (is_provisionals tx))"
  using assms
proof (induction m arbitrary: tx)
  case 0
  show ?case by (intro exI [of _ "[]"]) simp
next
  case (Suc m)
  let ?due = "min_due 500 (is_provisionals tx)"
  let ?gone = "map rp_rseq (filter (gives_up ?due) (is_provisionals tx))"
  obtain rs where rs: "events (is_actions ((fire_timer_n ^^ m) (fire_timer_n tx))) =
      events (is_actions (fire_timer_n tx)) @ map (\<lambda>r. IS_PrackTimeout r FinalNone) rs"
    "mset rs + mset (map rp_rseq (is_provisionals ((fire_timer_n ^^ m) (fire_timer_n tx)))) =
      mset (map rp_rseq (kept tx))"
    using Suc.IH [OF wf_server_fire [OF Suc.prems]] by auto
  have "map (\<lambda>e. IS_PrackTimeout (rp_rseq e) (is_final_sent tx))
      (filter (gives_up ?due) (is_provisionals tx)) = map (\<lambda>r. IS_PrackTimeout r FinalNone) ?gone"
    using Suc.prems by (cases "is_provisionals tx = []") (simp_all add: wf_server_def)
  moreover have "mset ?gone + mset (map rp_rseq (kept tx)) = mset (map rp_rseq (is_provisionals tx))"
    by (simp add: kept_eq [OF Suc.prems refl] o_def mset_rseq_partition)
  ultimately show ?case
    using rs by (intro exI [of _ "?gone @ rs"])
       (simp add: funpow_swap1 kept_eq(2) [OF Suc.prems refl] add.assoc del: mset_map)
qed

section \<open>Properties\<close>

definition sample_is :: invite_server where
  "sample_is = the (is_new sample_invite False)"

lemma sample_is_new: "is_new sample_invite False = Some sample_is"
  by (simp add: sample_is_def is_new_def id_from_request_def sample_invite_reads Let_def
      req_method_def sample_invite_def [THEN arg_cong [of _ _ rq_method]])

definition sample_stamped :: string where
  "sample_stamped = response_to_bytes (the (stamp_reliable_headers sample_ringing 1))"

lemma sample_ringing_step:
  "is_step (IS_RespondReliably sample_ringing) sample_is =
     is_push [Send sample_stamped, SetTimer TimerN 500]
       (sample_is\<lparr>is_next_rseq := 2, is_last_response := Some sample_stamped,
          is_provisionals := [\<lparr>rp_rseq = 1, rp_bytes = sample_stamped, rp_next_fire_after = 500,
            rp_next_interval = 500, rp_elapsed = 0, rp_abandon_at = 32000\<rparr>]\<rparr>)"
  by (simp add: is_send_provisional_reliable_def is_new_Some [OF sample_is_new] sample_stamped_def
      sample_stamp Let_def timer_defs)

text \<open>
  C8. Reliable provisionals are watched exactly while they are outstanding: in every configuration an
  INVITE server transaction reaches, Timer N is armed if and only if some reliable provisional still
  waits for its PRACK. No entry is forgotten and no Timer N outlives the last entry, whatever the
  order of PRACKs, responses, retransmissions, transport errors and timer expiries.
\<close>
theorem is_timer_n_watches:
  assumes "is_new request reliable = Some tx0"
    and "clocked is_step IS_Fire is_poll_actions tx0 tx A"
  shows "A TimerN \<noteq> None \<longleftrightarrow> is_provisionals tx \<noteq> []"
  using clocked_watched [OF assms(2)] assms(1) by (auto simp: watched_def)

theorem is_timer_n_watches_witness:
  "\<exists>tx A. clocked is_step IS_Fire is_poll_actions sample_is tx A \<and> length (is_provisionals tx) = 1 \<and>
     A TimerN \<noteq> None"
proof -
  let ?tx = "snd (is_poll_actions sample_is)"
  let ?A = "arms (fst (is_poll_actions sample_is)) Map.empty"
  let ?i = "IS_RespondReliably sample_ringing"
  let ?tx' = "snd (is_poll_actions (is_step ?i ?tx))"
  let ?A' = "arms (fst (is_poll_actions (is_step ?i ?tx))) ?A"
  have "clocked is_step IS_Fire is_poll_actions sample_is ?tx ?A" by (rule clocked_start) simp
  then have c: "clocked is_step IS_Fire is_poll_actions sample_is ?tx' ?A'"
    by (rule clocked_input [where i = ?i]) simp_all
  have "length (is_provisionals ?tx') = 1"
    by (simp add: is_poll_actions_def is_send_provisional_reliable_def is_new_Some [OF sample_is_new]
        sample_stamp Let_def)
  with is_timer_n_watches [OF sample_is_new c] c show ?thesis by auto
qed

text \<open>
  C26. A reliable provisional that is never acknowledged is given up and reported. After any history,
  if Timer N keeps expiring and nothing else happens, at most 64 expiries per outstanding entry empty
  the buffer; every outstanding RSeq is reported as timed out exactly once, each time with no final
  response sent, and nothing else is reported.
\<close>
theorem is_unacknowledged_reported:
  assumes "is_new request reliable = Some tx0" "tx = fold is_step inputs tx0"
    and "64 * length (is_provisionals tx) \<le> m"
  shows "is_provisionals ((is_handle_timeout TimerN ^^ m) tx) = [] \<and>
    (\<exists>rs. events (is_actions ((is_handle_timeout TimerN ^^ m) tx)) =
        events (is_actions tx) @ map (\<lambda>r. IS_PrackTimeout r FinalNone) rs \<and>
      mset rs = mset (map rp_rseq (is_provisionals tx)))"
proof -
  have wf: "wf_server tx" unfolding assms(2) using wf_server_new [OF assms(1)] by (rule wf_server_run)
  have "total_budget es \<le> 64 * length es" for es
    by (induction es) (simp_all add: budget_def trans_le_add1 add_mono)
  then have "total_budget (is_provisionals tx) \<le> m" using assms(3) order_trans by blast
  moreover have "is_handle_timeout TimerN = fire_timer_n" by (rule ext) (rule is_handle_timer_n)
  ultimately show ?thesis using fires_resolve [OF wf] fires_report [OF wf, of m] by auto
qed

theorem is_unacknowledged_reported_witness:
  "is_provisionals ((is_handle_timeout TimerN ^^ 64) (is_step (IS_RespondReliably sample_ringing) sample_is)) = [] \<and>
   events (is_actions ((is_handle_timeout TimerN ^^ 64) (is_step (IS_RespondReliably sample_ringing) sample_is))) =
     [IS_Request sample_invite, IS_PrackTimeout 1 FinalNone]"
proof -
  let ?tx = "is_step (IS_RespondReliably sample_ringing) sample_is"
  have "events (is_actions ?tx) = [IS_Request sample_invite]" "map rp_rseq (is_provisionals ?tx) = [1]"
    "64 * length (is_provisionals ?tx) \<le> 64"
    unfolding sample_ringing_step by (simp_all add: is_new_Some [OF sample_is_new])
  with is_unacknowledged_reported [OF sample_is_new, of ?tx "[IS_RespondReliably sample_ringing]" 64]
  show ?thesis by (auto simp del: is_step.simps mset_map)
qed

text \<open>
  C37. The reliable provisionals of a transaction are consistent after any history: their RSeq numbers
  are distinct, at least 1 and below the next number to use; they exist only while no final response
  has been sent; and a PRACK removes exactly the entry with its RSeq, or changes nothing when there
  is none.
\<close>
theorem is_reliable_consistent:
  assumes "is_new request reliable = Some tx0" "tx = fold is_step inputs tx0"
  shows "distinct (map rp_rseq (is_provisionals tx)) \<and>
    (\<forall>e \<in> set (is_provisionals tx). 1 \<le> rp_rseq e \<and> rp_rseq e < is_next_rseq tx) \<and>
    (is_provisionals tx \<noteq> [] \<longrightarrow> is_final_sent tx = FinalNone) \<and>
    is_provisionals (is_handle_event (IS_PrackReceived n) tx) =
      filter (\<lambda>e. rp_rseq e \<noteq> n) (is_provisionals tx) \<and>
    (n \<notin> rp_rseq ` set (is_provisionals tx) \<longrightarrow> is_handle_event (IS_PrackReceived n) tx = tx)"
proof -
  have wf: "wf_server tx" unfolding assms(2) using wf_server_new [OF assms(1)] by (rule wf_server_run)
  have "is_handle_event (IS_PrackReceived n) tx = tx" if "n \<notin> rp_rseq ` set (is_provisionals tx)"
  proof -
    have "filter (\<lambda>e. rp_rseq e \<noteq> n) (is_provisionals tx) = is_provisionals tx"
      using that by (auto simp: filter_id_conv)
    then show ?thesis by (simp add: is_defs)
  qed
  then show ?thesis using wf by (auto simp: wf_server_def wf_entry_def list_all_iff is_defs)
qed

theorem is_reliable_consistent_witness:
  "is_provisionals (is_handle_event (IS_PrackReceived 1)
     (fold is_step [IS_RespondReliably sample_ringing, IS_RespondReliably sample_ringing] sample_is)) =
   filter (\<lambda>e. rp_rseq e \<noteq> 1) (is_provisionals
     (fold is_step [IS_RespondReliably sample_ringing, IS_RespondReliably sample_ringing] sample_is))"
  using is_reliable_consistent [OF sample_is_new, of _
      "[IS_RespondReliably sample_ringing, IS_RespondReliably sample_ringing]" 1] by blast

text \<open>
  C36. A failure response is retransmitted and cannot hang the transaction: in every reachable
  configuration, Completed has Timer H armed with 32 s and its expiry terminates the transaction with
  a timeout report; Confirmed has Timer I armed with 5 s and its expiry terminates it.
\<close>
theorem is_final_phase_ends:
  assumes "is_new request reliable = Some tx0"
    and "clocked is_step IS_Fire is_poll_actions tx0 tx A"
  shows "case is_st tx of
      IS_Completed \<Rightarrow> A TimerH = Some 32000 \<and> is_st (is_handle_timeout TimerH tx) = IS_Terminated \<and>
        is_actions (is_handle_timeout TimerH tx) = is_actions tx @ [Event IS_Timeout]
    | IS_Confirmed \<Rightarrow> A TimerI = Some 5000 \<and> is_st (is_handle_timeout TimerI tx) = IS_Terminated
    | _ \<Rightarrow> True"
proof -
  have "is_initial tx0" using assms(1) by blast
  note armed = is_machine.deadline_armed [OF assms(2) this]
  have "is_timers tx = timer_default"
    using is_machine.clocked_key [OF assms(2)] is_new_Some(3) [OF assms(1)] by (simp add: is_key_def)
  then show ?thesis
    using armed by (cases "is_st tx") (auto simp: is_deadline_def is_handle_timeout_def timer_defs)
qed

theorem is_final_phase_ends_witness:
  "\<exists>tx A. clocked is_step IS_Fire is_poll_actions sample_is tx A \<and> is_st tx = IS_Completed \<and>
     A TimerH = Some 32000"
proof -
  let ?busy = "sample_ok\<lparr>rs_status_code := 486\<rparr>"
  let ?tx = "snd (is_poll_actions sample_is)"
  let ?A = "arms (fst (is_poll_actions sample_is)) Map.empty"
  let ?tx' = "snd (is_poll_actions (is_step (IS_Respond ?busy) ?tx))"
  let ?A' = "arms (fst (is_poll_actions (is_step (IS_Respond ?busy) ?tx))) ?A"
  have "clocked is_step IS_Fire is_poll_actions sample_is ?tx ?A" by (rule clocked_start) simp
  then have c: "clocked is_step IS_Fire is_poll_actions sample_is ?tx' ?A'"
    by (rule clocked_input [where i = "IS_Respond ?busy"]) simp_all
  have "is_st ?tx' = IS_Completed"
    by (simp add: is_poll_actions_def is_new_Some [OF sample_is_new] is_send_response_def Let_def
        resp_status_code_def)
  with is_final_phase_ends [OF sample_is_new c] c show ?thesis by auto
qed

end
