(* ===== verification/Txn_Server_NonInvite.thy ===== *)
theory Txn_Server_NonInvite
  imports Txn_Timer
begin

text \<open>
  The non-INVITE server transaction (\<open>transaction/server/non_invite.rs\<close>): it reports the request once,
  sends the responses of its user and repeats the last one for every retransmission of the request.
\<close>

section \<open>The machine\<close>

datatype ns_state = NS_Trying | NS_Proceeding | NS_Completed | NS_Terminated

datatype ns_event = NS_Request sip_request | NS_TransportError

record non_invite_server =
  ns_id :: transaction_id
  ns_st :: ns_state
  ns_request :: sip_request
  ns_last_response :: "string option"
  ns_timers :: timer_values
  ns_reliable :: bool
  ns_actions :: "ns_event action list"

definition ns_push :: "ns_event action list \<Rightarrow> non_invite_server \<Rightarrow> non_invite_server" where
  "ns_push as tx = tx\<lparr>ns_actions := ns_actions tx @ as\<rparr>"

definition ns_new :: "sip_request \<Rightarrow> bool \<Rightarrow> non_invite_server option" where
  "ns_new request reliable =
     (if req_method request = Invite then None
      else Option.bind (id_from_request request) (\<lambda>id.
        Some (ns_push [Event (NS_Request request)]
          \<lparr>ns_id = id, ns_st = NS_Trying, ns_request = request, ns_last_response = None,
           ns_timers = timer_default, ns_reliable = reliable, ns_actions = []\<rparr>)))"

definition ns_is_terminated :: "non_invite_server \<Rightarrow> bool" where
  "ns_is_terminated tx \<longleftrightarrow> ns_st tx = NS_Terminated"

definition ns_handle_timeout :: "timer \<Rightarrow> non_invite_server \<Rightarrow> non_invite_server" where
  "ns_handle_timeout t tx =
     (case (ns_st tx, t) of
        (NS_Completed, TimerJ) \<Rightarrow> tx\<lparr>ns_st := NS_Terminated\<rparr>
      | _ \<Rightarrow> tx)"

definition ns_handle_request :: "sip_request \<Rightarrow> non_invite_server \<Rightarrow> non_invite_server" where
  "ns_handle_request request tx =
     (case ns_st tx of
        NS_Trying \<Rightarrow> tx
      | NS_Terminated \<Rightarrow> tx
      | _ \<Rightarrow> (case ns_last_response tx of Some resp \<Rightarrow> ns_push [Send resp] tx | None \<Rightarrow> tx))"

text \<open>The final-response branch, which the source writes twice.\<close>

definition ns_final :: "string \<Rightarrow> non_invite_server \<Rightarrow> non_invite_server" where
  "ns_final resp_bytes tx =
     (let tx = ns_push [Send resp_bytes]
                 (tx\<lparr>ns_st := NS_Completed, ns_last_response := Some resp_bytes\<rparr>);
          timer_j' = timer_j (ns_timers tx) (ns_reliable tx)
      in if timer_j' = 0 then tx\<lparr>ns_st := NS_Terminated\<rparr>
         else ns_push [SetTimer TimerJ timer_j'] tx)"

definition ns_send_response :: "sip_response \<Rightarrow> non_invite_server \<Rightarrow> non_invite_server" where
  "ns_send_response response tx =
     (let cd = resp_status_code response; resp_bytes = response_to_bytes response in
      case ns_st tx of
        NS_Trying \<Rightarrow>
          if 100 \<le> cd \<and> cd < 200 then
            ns_push [Send resp_bytes]
              (tx\<lparr>ns_st := NS_Proceeding, ns_last_response := Some resp_bytes\<rparr>)
          else if 200 \<le> cd then ns_final resp_bytes tx
          else tx
      | NS_Proceeding \<Rightarrow>
          if 100 \<le> cd \<and> cd < 200 then
            ns_push [Send resp_bytes] (tx\<lparr>ns_last_response := Some resp_bytes\<rparr>)
          else if 200 \<le> cd then ns_final resp_bytes tx
          else tx
      | _ \<Rightarrow> tx)"

definition ns_poll_actions :: "non_invite_server \<Rightarrow> ns_event action list \<times> non_invite_server" where
  "ns_poll_actions tx = (ns_actions tx, tx\<lparr>ns_actions := []\<rparr>)"

definition ns_handle_transport_error :: "non_invite_server \<Rightarrow> non_invite_server" where
  "ns_handle_transport_error tx =
     (case ns_st tx of
        NS_Terminated \<Rightarrow> tx
      | _ \<Rightarrow> ns_push [Event NS_TransportError] (tx\<lparr>ns_st := NS_Terminated\<rparr>))"

datatype ns_input = NS_Fire timer | NS_Retransmit sip_request | NS_Respond sip_response | NS_Error

fun ns_step :: "ns_input \<Rightarrow> non_invite_server \<Rightarrow> non_invite_server" where
  "ns_step (NS_Fire t) tx = ns_handle_timeout t tx"
| "ns_step (NS_Retransmit r) tx = ns_handle_request r tx"
| "ns_step (NS_Respond r) tx = ns_send_response r tx"
| "ns_step NS_Error tx = ns_handle_transport_error tx"

section \<open>Forward motion and the deadline\<close>

fun ns_rank :: "ns_state \<Rightarrow> nat" where
  "ns_rank NS_Trying = 0"
| "ns_rank NS_Proceeding = 1"
| "ns_rank NS_Completed = 2"
| "ns_rank NS_Terminated = 3"

definition ns_key :: "non_invite_server \<Rightarrow> transaction_id \<times> sip_request \<times> timer_values \<times> bool" where
  "ns_key tx = (ns_id tx, ns_request tx, ns_timers tx, ns_reliable tx)"

definition ns_deadline :: "non_invite_server \<Rightarrow> (timer \<times> duration) option" where
  "ns_deadline tx =
     (case ns_st tx of
        NS_Completed \<Rightarrow> Some (TimerJ, timer_j (ns_timers tx) (ns_reliable tx))
      | _ \<Rightarrow> None)"

abbreviation ns_initial :: "non_invite_server \<Rightarrow> bool" where
  "ns_initial tx \<equiv> \<exists>request reliable. ns_new request reliable = Some tx"

lemma ns_push_simps [simp]:
  "ns_id (ns_push as tx) = ns_id tx" "ns_st (ns_push as tx) = ns_st tx"
  "ns_request (ns_push as tx) = ns_request tx" "ns_timers (ns_push as tx) = ns_timers tx"
  "ns_reliable (ns_push as tx) = ns_reliable tx"
  "ns_last_response (ns_push as tx) = ns_last_response tx"
  "ns_actions (ns_push as tx) = ns_actions tx @ as"
  by (simp_all add: ns_push_def)

lemma ns_deadline_drained [simp]: "ns_deadline (tx\<lparr>ns_actions := as\<rparr>) = ns_deadline tx"
  by (simp add: ns_deadline_def cong: ns_state.case_cong)

lemmas ns_defs = ns_handle_timeout_def ns_handle_request_def ns_send_response_def
  ns_handle_transport_error_def ns_final_def Let_def

lemma ns_new_Some:
  assumes "ns_new request reliable = Some tx"
  shows "ns_st tx = NS_Trying" "ns_request tx = request" "ns_timers tx = timer_default"
    "ns_reliable tx = reliable" "ns_last_response tx = None"
    "id_from_request request = Some (ns_id tx)" "req_method request \<noteq> Invite"
    "ns_actions tx = [Event (NS_Request request)]"
  using assms by (auto simp: ns_new_def bind_eq_Some_conv split: if_splits)

lemma ns_step_shape:
  "ns_key (ns_step i tx) = ns_key tx \<and> ns_rank (ns_st tx) \<le> ns_rank (ns_st (ns_step i tx)) \<and>
   (\<exists>new. ns_actions (ns_step i tx) = ns_actions tx @ new)"
proof (cases i)
  case (NS_Fire t)
  then show ?thesis by (cases "ns_st tx"; cases t) (simp_all add: ns_defs ns_key_def)
next
  case (NS_Retransmit r)
  then show ?thesis by (cases "ns_st tx") (simp_all add: ns_defs ns_key_def split: option.splits)
next
  case (NS_Respond r)
  then show ?thesis by (cases "ns_st tx") (simp_all add: ns_defs ns_key_def)
next
  case NS_Error
  then show ?thesis by (cases "ns_st tx") (simp_all add: ns_defs ns_key_def)
qed

lemma ns_deadline_step:
  assumes "ns_actions tx = []" "ns_deadline (ns_step i tx) = Some (t, d)"
  shows "(\<forall>A. arms (ns_actions (ns_step i tx)) A t = Some d) \<or>
    ns_deadline tx = Some (t, d) \<and> i \<noteq> NS_Fire t \<and> (\<forall>A. arms (ns_actions (ns_step i tx)) A t = A t)"
proof (cases i)
  case (NS_Fire t')
  then show ?thesis using assms
    by (cases "ns_st tx"; cases t') (auto simp: ns_defs ns_deadline_def)
next
  case (NS_Retransmit r)
  then show ?thesis using assms
    by (cases "ns_st tx") (auto simp: ns_defs ns_deadline_def split: option.splits)
next
  case (NS_Respond r)
  then show ?thesis using assms
    by (cases "ns_st tx") (auto simp: ns_defs ns_deadline_def split: if_splits)
next
  case NS_Error
  then show ?thesis using assms
    by (cases "ns_st tx") (auto simp: ns_defs ns_deadline_def)
qed

lemma ns_deadline_fires:
  "ns_deadline tx = Some (t, d) \<Longrightarrow> ns_is_terminated (ns_step (NS_Fire t) tx)"
  by (cases "ns_st tx") (auto simp: ns_deadline_def ns_is_terminated_def ns_handle_timeout_def)

interpretation ns_machine: transaction_machine
  ns_step "\<lambda>tx. ns_rank (ns_st tx)" ns_actions ns_key 3 NS_Fire ns_poll_actions ns_deadline
  ns_is_terminated ns_initial
proof unfold_locales
  fix tx :: non_invite_server and as tx' t d
  assume "ns_initial tx" "ns_poll_actions tx = (as, tx')" "ns_deadline tx' = Some (t, d)"
  then show "arms as Map.empty t = Some d"
    by (auto simp: ns_deadline_def ns_new_Some ns_poll_actions_def)
next
  fix tx :: non_invite_server
  show "ns_rank (ns_st tx) \<le> 3" by (cases "ns_st tx") simp_all
next
  fix tx as i tx' t d
  assume "ns_poll_actions tx = ([], tx)" "ns_poll_actions (ns_step i tx) = (as, tx')"
    "ns_deadline tx' = Some (t, d)"
  then show "(\<forall>A. arms as A t = Some d) \<or>
      ns_deadline tx = Some (t, d) \<and> i \<noteq> NS_Fire t \<and> (\<forall>A. arms as A t = A t)"
    using ns_deadline_step [of tx i t d] by (auto simp: ns_poll_actions_def)
next
  fix tx t d as tx'
  assume "ns_deadline tx = Some (t, d)" "ns_poll_actions (ns_step (NS_Fire t) tx) = (as, tx')"
  then show "ns_is_terminated tx'"
    using ns_deadline_fires [of tx t d] by (auto simp: ns_poll_actions_def ns_is_terminated_def)
qed (use ns_step_shape in \<open>auto simp: ns_poll_actions_def ns_key_def\<close>)

text \<open>What was last sent is what a retransmission of the request repeats.\<close>

definition ns_repeatable :: "non_invite_server \<Rightarrow> bool" where
  "ns_repeatable tx \<longleftrightarrow>
     (case ns_last_response tx of
        None \<Rightarrow> ns_st tx \<in> {NS_Trying, NS_Terminated} \<and> sent (ns_actions tx) = []
      | Some resp \<Rightarrow> ns_st tx \<noteq> NS_Trying \<and> sent (ns_actions tx) \<noteq> [] \<and> last (sent (ns_actions tx)) = resp)"

lemma ns_repeatable_step: assumes "ns_repeatable tx" shows "ns_repeatable (ns_step i tx)"
proof (cases i)
  case (NS_Fire t)
  then show ?thesis using assms
    by (cases "ns_st tx"; cases t) (auto simp: ns_defs ns_repeatable_def split: option.splits)
next
  case (NS_Retransmit r)
  then show ?thesis using assms
    by (cases "ns_st tx") (auto simp: ns_defs ns_repeatable_def split: option.splits)
next
  case (NS_Respond r)
  then show ?thesis using assms
    by (cases "ns_st tx") (auto simp: ns_defs ns_repeatable_def split: option.splits if_splits)
next
  case NS_Error
  then show ?thesis using assms
    by (cases "ns_st tx") (auto simp: ns_defs ns_repeatable_def split: option.splits)
qed

lemma ns_repeatable_run: "ns_repeatable tx \<Longrightarrow> ns_repeatable (fold ns_step is tx)"
  by (induction "is" arbitrary: tx) (simp_all add: ns_repeatable_step)

section \<open>Properties\<close>

definition sample_ns :: non_invite_server where
  "sample_ns = the (ns_new sample_options False)"

lemma sample_ns_new: "ns_new sample_options False = Some sample_ns"
  by (simp add: sample_ns_def ns_new_def id_from_request_def sample_options_reads)

text \<open>
  A retransmitted request is absorbed. After any sequence of inputs to a fresh non-INVITE server
  transaction, a further copy of the request never reaches the user again and never changes the
  state; once a response has been sent and until termination it makes the transaction send exactly
  the bytes it sent last, and before the first response nothing.
\<close>
theorem ns_repeats_last_response:
  assumes "ns_new request reliable = Some tx0" "tx = fold ns_step inputs tx0"
  shows "ns_st (ns_handle_request copy tx) = ns_st tx \<and>
    events (ns_actions (ns_handle_request copy tx)) = events (ns_actions tx) \<and>
    sent (ns_actions (ns_handle_request copy tx)) = sent (ns_actions tx) @
      (if ns_st tx \<in> {NS_Proceeding, NS_Completed} then [last (sent (ns_actions tx))] else []) \<and>
    (ns_st tx = NS_Trying \<longrightarrow> sent (ns_actions tx) = [])"
proof -
  have "ns_repeatable tx0" using ns_new_Some [OF assms(1)] by (simp add: ns_repeatable_def)
  then have "ns_repeatable tx" unfolding assms(2) by (rule ns_repeatable_run)
  then show ?thesis
    by (cases "ns_st tx") (auto simp: ns_repeatable_def ns_handle_request_def split: option.splits)
qed

theorem ns_repeats_last_response_witness:
  "sent (ns_actions (ns_handle_request sample_options (ns_send_response sample_ok sample_ns))) =
     [response_to_bytes sample_ok, response_to_bytes sample_ok]"
proof -
  note new = ns_new_Some [OF sample_ns_new]
  have "ns_st (ns_send_response sample_ok sample_ns) = NS_Completed"
    "sent (ns_actions (ns_send_response sample_ok sample_ns)) = [response_to_bytes sample_ok]"
    by (simp_all add: new ns_defs timer_defs sample_ok_def resp_status_code_def)
  with ns_repeats_last_response [OF sample_ns_new, of "ns_send_response sample_ok sample_ns"
      "[NS_Respond sample_ok]" sample_options]
  show ?thesis by simp
qed

text \<open>
  A non-INVITE server transaction goes away by itself. From every reachable configuration a final
  response of the user leads to termination: at once over a reliable transport; otherwise Timer J is
  armed with 32 s, stays armed whatever arrives, and its expiry terminates the transaction.
\<close>
theorem ns_final_response_ends:
  assumes "ns_new request reliable = Some tx0"
    and "clocked ns_step NS_Fire ns_poll_actions tx0 tx A"
  shows "(ns_st tx = NS_Completed \<longrightarrow> A TimerJ = Some (if reliable then 0 else 32000) \<and>
      ns_st (ns_handle_timeout TimerJ tx) = NS_Terminated) \<and>
    (ns_st tx \<in> {NS_Trying, NS_Proceeding} \<and> 200 \<le> resp_status_code response \<longrightarrow>
      ns_st (ns_send_response response tx) = (if reliable then NS_Terminated else NS_Completed))"
proof -
  have "ns_initial tx0" using assms(1) by blast
  note armed = ns_machine.deadline_armed [OF assms(2) this]
  have "ns_timers tx = timer_default" "ns_reliable tx = reliable"
    using ns_machine.clocked_key [OF assms(2)] ns_new_Some(3,4) [OF assms(1)]
    by (simp_all add: ns_key_def)
  then show ?thesis
    using armed by (cases "ns_st tx") (auto simp: ns_deadline_def ns_defs timer_defs)
qed

theorem ns_final_response_ends_witness:
  "\<exists>tx A. clocked ns_step NS_Fire ns_poll_actions sample_ns tx A \<and> ns_st tx = NS_Completed \<and>
     A TimerJ = Some 32000"
proof -
  note new = ns_new_Some [OF sample_ns_new]
  let ?tx = "snd (ns_poll_actions sample_ns)"
  let ?A = "arms (fst (ns_poll_actions sample_ns)) Map.empty"
  let ?tx' = "snd (ns_poll_actions (ns_step (NS_Respond sample_ok) ?tx))"
  let ?A' = "arms (fst (ns_poll_actions (ns_step (NS_Respond sample_ok) ?tx))) ?A"
  have "clocked ns_step NS_Fire ns_poll_actions sample_ns ?tx ?A"
    by (rule clocked_start) simp
  then have c: "clocked ns_step NS_Fire ns_poll_actions sample_ns ?tx' ?A'"
    by (rule clocked_input [where i = "NS_Respond sample_ok"]) simp_all
  have "ns_st ?tx' = NS_Completed"
    by (simp add: ns_poll_actions_def new ns_defs timer_defs sample_ok_def resp_status_code_def)
  with ns_final_response_ends [OF sample_ns_new c, of sample_ok] c show ?thesis by auto
qed

end
