(* ===== verification/Txn_Manager.thy ===== *)
theory Txn_Manager
  imports Txn_Client_Invite Txn_Client_NonInvite Txn_Server_Invite Txn_Server_NonInvite
    "HOL-Library.AList"
begin

text \<open>
  The transaction manager (\<open>transaction/manager.rs\<close>): handles, the four tables of transactions, routing
  of messages, timers and responses, and the removal of terminated transactions. Hash maps are
  association lists; where the code iterates over one, the order of the list stands for the
  unspecified order of the map. The manager refines a table of independent transactions keyed by
  their identifiers.
\<close>

section \<open>State\<close>

type_synonym handle = nat

datatype transaction_type = InviteClient | NonInviteClient | InviteServer | NonInviteServer

datatype manager_event =
    MProvisional sip_response | MInviteSuccess sip_response | MInviteFailure sip_response
  | MNonInviteFinalResponse sip_response | MNonInviteProvisional sip_response
  | MInviteRequest sip_request | MNonInviteRequest sip_request | MAckReceived
  | MTimeout | MTransportError | MPrackTimeout nat final_sent

datatype manager_action = MSend string | MSetTimer handle timer duration | MCancelTimer handle timer
  | MEvent handle manager_event

record manager =
  mg_next_handle :: handle
  mg_invite_clients :: "(handle \<times> invite_client) list"
  mg_non_invite_clients :: "(handle \<times> non_invite_client) list"
  mg_invite_servers :: "(handle \<times> invite_server) list"
  mg_non_invite_servers :: "(handle \<times> non_invite_server) list"
  mg_id_to_handle :: "(transaction_id \<times> handle) list"
  mg_handle_to_type :: "(handle \<times> transaction_type) list"
  mg_actions :: "manager_action list"
  mg_reliable :: bool

definition mg_new :: "bool \<Rightarrow> manager" where
  "mg_new reliable =
     \<lparr>mg_next_handle = 1, mg_invite_clients = [], mg_non_invite_clients = [], mg_invite_servers = [],
      mg_non_invite_servers = [], mg_id_to_handle = [], mg_handle_to_type = [], mg_actions = [],
      mg_reliable = reliable\<rparr>"

text \<open>The handle counter is a 64-bit integer; it is a natural number here, as it does not wrap
  before \<open>2 ^ 64\<close> transactions were made.\<close>

definition alloc_handle :: "manager \<Rightarrow> handle \<times> manager" where
  "alloc_handle mg = (mg_next_handle mg, mg\<lparr>mg_next_handle := mg_next_handle mg + 1\<rparr>)"

section \<open>Collecting actions\<close>

fun ic_manager_event :: "ic_event \<Rightarrow> manager_event option" where
  "ic_manager_event (IC_Provisional resp) = Some (MProvisional resp)"
| "ic_manager_event (IC_Success resp) = Some (MInviteSuccess resp)"
| "ic_manager_event (IC_Failure resp) = Some (MInviteFailure resp)"
| "ic_manager_event IC_Timeout = Some MTimeout"
| "ic_manager_event IC_TransportError = Some MTransportError"

fun nc_manager_event :: "nc_event \<Rightarrow> manager_event option" where
  "nc_manager_event (NC_Provisional resp) = Some (MNonInviteProvisional resp)"
| "nc_manager_event (NC_FinalResponse resp) = Some (MNonInviteFinalResponse resp)"
| "nc_manager_event NC_Timeout = Some MTimeout"
| "nc_manager_event NC_TransportError = Some MTransportError"

fun is_manager_event :: "is_event \<Rightarrow> manager_event option" where
  "is_manager_event (IS_Request req) = Some (MInviteRequest req)"
| "is_manager_event IS_AckReceived = Some MAckReceived"
| "is_manager_event IS_Timeout = Some MTimeout"
| "is_manager_event IS_TransportError = Some MTransportError"
| "is_manager_event (IS_PrackTimeout rseq final_sent) = Some (MPrackTimeout rseq final_sent)"
| "is_manager_event (IS_PrackReceived _) = None"

fun ns_manager_event :: "ns_event \<Rightarrow> manager_event option" where
  "ns_manager_event (NS_Request req) = Some (MNonInviteRequest req)"
| "ns_manager_event NS_TransportError = Some MTransportError"

fun lift_action :: "('e \<Rightarrow> manager_event option) \<Rightarrow> handle \<Rightarrow> 'e action \<Rightarrow> manager_action option" where
  "lift_action conv h (Send data) = Some (MSend data)"
| "lift_action conv h (SetTimer t d) = Some (MSetTimer h t d)"
| "lift_action conv h (CancelTimer t) = Some (MCancelTimer h t)"
| "lift_action conv h (Event e) = map_option (MEvent h) (conv e)"

definition collect_actions ::
  "('e \<Rightarrow> manager_event option) \<Rightarrow> handle \<Rightarrow> 'e action list \<Rightarrow> manager \<Rightarrow> manager" where
  "collect_actions conv h as mg =
     mg\<lparr>mg_actions := mg_actions mg @ List.map_filter (lift_action conv h) as\<rparr>"

definition collect_invite_client_actions :: "handle \<Rightarrow> invite_client \<Rightarrow> manager \<Rightarrow> manager" where
  "collect_invite_client_actions h tx mg =
     (let (as, tx) = ic_poll_actions tx in
      collect_actions ic_manager_event h as
        (mg\<lparr>mg_invite_clients := AList.update h tx (mg_invite_clients mg)\<rparr>))"

definition collect_non_invite_client_actions :: "handle \<Rightarrow> non_invite_client \<Rightarrow> manager \<Rightarrow> manager" where
  "collect_non_invite_client_actions h tx mg =
     (let (as, tx) = nc_poll_actions tx in
      collect_actions nc_manager_event h as
        (mg\<lparr>mg_non_invite_clients := AList.update h tx (mg_non_invite_clients mg)\<rparr>))"

definition collect_invite_server_actions :: "handle \<Rightarrow> invite_server \<Rightarrow> manager \<Rightarrow> manager" where
  "collect_invite_server_actions h tx mg =
     (let (as, tx) = is_poll_actions tx in
      collect_actions is_manager_event h as
        (mg\<lparr>mg_invite_servers := AList.update h tx (mg_invite_servers mg)\<rparr>))"

definition collect_non_invite_server_actions :: "handle \<Rightarrow> non_invite_server \<Rightarrow> manager \<Rightarrow> manager" where
  "collect_non_invite_server_actions h tx mg =
     (let (as, tx) = ns_poll_actions tx in
      collect_actions ns_manager_event h as
        (mg\<lparr>mg_non_invite_servers := AList.update h tx (mg_non_invite_servers mg)\<rparr>))"

definition register :: "transaction_id \<Rightarrow> handle \<Rightarrow> transaction_type \<Rightarrow> manager \<Rightarrow> manager" where
  "register tid h ty mg =
     mg\<lparr>mg_id_to_handle := AList.update tid h (mg_id_to_handle mg),
        mg_handle_to_type := AList.update h ty (mg_handle_to_type mg)\<rparr>"

section \<open>Operations\<close>

definition create_client_transaction :: "sip_request \<Rightarrow> manager \<Rightarrow> handle option \<times> manager" where
  "create_client_transaction request mg =
     (let (h, mg) = alloc_handle mg in
      if req_method request = Invite then
        (case ic_new request (mg_reliable mg) of
           Some tx \<Rightarrow>
             (Some h, register (ic_id tx) h InviteClient (collect_invite_client_actions h tx mg))
         | None \<Rightarrow> (None, mg))
      else
        (case nc_new request (mg_reliable mg) of
           Some tx \<Rightarrow>
             (Some h, register (nc_id tx) h NonInviteClient (collect_non_invite_client_actions h tx mg))
         | None \<Rightarrow> (None, mg)))"

definition route_prack :: "sip_request \<Rightarrow> manager \<Rightarrow> manager" where
  "route_prack request mg =
     (case (req_rack request, req_call_id request, req_from_tag request) of
        (Some rack, Inr call_id, Inr from_tag) \<Rightarrow>
          (case find (\<lambda>(h, tx). matches_invite_dialog call_id from_tag tx) (mg_invite_servers mg) of
             Some (h, _) \<Rightarrow>
               (case map_of (mg_invite_servers mg) h of
                  Some tx \<Rightarrow>
                    collect_invite_server_actions h
                      (is_handle_event (IS_PrackReceived (rack_rseq rack)) tx) mg
                | None \<Rightarrow> mg)
           | None \<Rightarrow> mg)
      | _ \<Rightarrow> mg)"

definition create_server_transaction :: "sip_request \<Rightarrow> manager \<Rightarrow> manager" where
  "create_server_transaction request mg =
     (let (h, mg) = alloc_handle mg in
      if req_method request = Invite then
        (case is_new request (mg_reliable mg) of
           Some tx \<Rightarrow> register (is_id tx) h InviteServer (collect_invite_server_actions h tx mg)
         | None \<Rightarrow> mg)
      else if req_method request = Ack then mg
      else
        (case ns_new request (mg_reliable mg) of
           Some tx \<Rightarrow> register (ns_id tx) h NonInviteServer (collect_non_invite_server_actions h tx mg)
         | None \<Rightarrow> mg))"

definition mg_handle_request :: "sip_request \<Rightarrow> manager \<Rightarrow> manager" where
  "mg_handle_request request mg =
     (let mg = (if req_method request = Prack then route_prack request mg else mg) in
      case Option.bind (id_from_request request) (map_of (mg_id_to_handle mg)) of
        Some h \<Rightarrow>
          (case map_of (mg_handle_to_type mg) h of
             Some InviteServer \<Rightarrow>
               (case map_of (mg_invite_servers mg) h of
                  Some tx \<Rightarrow> collect_invite_server_actions h (is_handle_request request tx) mg
                | None \<Rightarrow> mg)
           | Some NonInviteServer \<Rightarrow>
               (case map_of (mg_non_invite_servers mg) h of
                  Some tx \<Rightarrow> collect_non_invite_server_actions h (ns_handle_request request tx) mg
                | None \<Rightarrow> mg)
           | _ \<Rightarrow> mg)
      | None \<Rightarrow> create_server_transaction request mg)"

definition mg_handle_response :: "sip_response \<Rightarrow> manager \<Rightarrow> manager" where
  "mg_handle_response response mg =
     (case Option.bind (id_from_response response) (map_of (mg_id_to_handle mg)) of
        Some h \<Rightarrow>
          (case map_of (mg_handle_to_type mg) h of
             Some InviteClient \<Rightarrow>
               (case map_of (mg_invite_clients mg) h of
                  Some tx \<Rightarrow> collect_invite_client_actions h (ic_handle_response response tx) mg
                | None \<Rightarrow> mg)
           | Some NonInviteClient \<Rightarrow>
               (case map_of (mg_non_invite_clients mg) h of
                  Some tx \<Rightarrow> collect_non_invite_client_actions h (nc_handle_response response tx) mg
                | None \<Rightarrow> mg)
           | _ \<Rightarrow> mg)
      | None \<Rightarrow> mg)"

text \<open>\<open>SipMessage\<close> is the wrapped parsed message.\<close>

definition mg_handle_message :: "message \<Rightarrow> manager \<Rightarrow> manager" where
  "mg_handle_message msg mg =
     (case msg of MRequest r \<Rightarrow> mg_handle_request r mg | MResponse r \<Rightarrow> mg_handle_response r mg)"

text \<open>The three operations addressed by handle dispatch on the type of the transaction alike.\<close>

definition on_transaction ::
  "(invite_client \<Rightarrow> invite_client) \<Rightarrow> (non_invite_client \<Rightarrow> non_invite_client) \<Rightarrow>
   (invite_server \<Rightarrow> invite_server) \<Rightarrow> (non_invite_server \<Rightarrow> non_invite_server) \<Rightarrow>
   handle \<Rightarrow> manager \<Rightarrow> manager" where
  "on_transaction fic fnc fis fns h mg =
     (case map_of (mg_handle_to_type mg) h of
        Some InviteClient \<Rightarrow>
          (case map_of (mg_invite_clients mg) h of
             Some tx \<Rightarrow> collect_invite_client_actions h (fic tx) mg | None \<Rightarrow> mg)
      | Some NonInviteClient \<Rightarrow>
          (case map_of (mg_non_invite_clients mg) h of
             Some tx \<Rightarrow> collect_non_invite_client_actions h (fnc tx) mg | None \<Rightarrow> mg)
      | Some InviteServer \<Rightarrow>
          (case map_of (mg_invite_servers mg) h of
             Some tx \<Rightarrow> collect_invite_server_actions h (fis tx) mg | None \<Rightarrow> mg)
      | Some NonInviteServer \<Rightarrow>
          (case map_of (mg_non_invite_servers mg) h of
             Some tx \<Rightarrow> collect_non_invite_server_actions h (fns tx) mg | None \<Rightarrow> mg)
      | None \<Rightarrow> mg)"

definition mg_handle_timeout :: "handle \<Rightarrow> timer \<Rightarrow> manager \<Rightarrow> manager" where
  "mg_handle_timeout h t mg =
     on_transaction (ic_handle_timeout t) (nc_handle_timeout t) (is_handle_timeout t)
       (ns_handle_timeout t) h mg"

definition mg_send_response :: "handle \<Rightarrow> sip_response \<Rightarrow> manager \<Rightarrow> manager" where
  "mg_send_response h response mg =
     (case map_of (mg_handle_to_type mg) h of
        Some InviteServer \<Rightarrow>
          (case map_of (mg_invite_servers mg) h of
             Some tx \<Rightarrow> collect_invite_server_actions h (is_send_response response tx) mg
           | None \<Rightarrow> mg)
      | Some NonInviteServer \<Rightarrow>
          (case map_of (mg_non_invite_servers mg) h of
             Some tx \<Rightarrow> collect_non_invite_server_actions h (ns_send_response response tx) mg
           | None \<Rightarrow> mg)
      | _ \<Rightarrow> mg)"

definition mg_handle_transport_error :: "handle \<Rightarrow> manager \<Rightarrow> manager" where
  "mg_handle_transport_error h mg =
     on_transaction ic_handle_transport_error nc_handle_transport_error is_handle_transport_error
       ns_handle_transport_error h mg"

definition mg_poll_actions :: "manager \<Rightarrow> manager_action list \<times> manager" where
  "mg_poll_actions mg = (mg_actions mg, mg\<lparr>mg_actions := []\<rparr>)"

subsection \<open>Cleaning up\<close>

definition forget :: "handle \<times> transaction_id \<Rightarrow> manager \<Rightarrow> manager" where
  "forget p mg =
     mg\<lparr>mg_id_to_handle := AList.delete (snd p) (mg_id_to_handle mg),
        mg_handle_to_type := AList.delete (fst p) (mg_handle_to_type mg)\<rparr>"

definition to_remove :: "('t \<Rightarrow> bool) \<Rightarrow> ('t \<Rightarrow> transaction_id) \<Rightarrow> (handle \<times> 't) list \<Rightarrow>
    (handle \<times> transaction_id) list" where
  "to_remove dead ident txs =
     List.map_filter (\<lambda>(h, tx). if dead tx then Some (h, ident tx) else None) txs"

definition cleanup_invite_clients :: "manager \<Rightarrow> manager" where
  "cleanup_invite_clients mg =
     fold (\<lambda>p mg. forget p (mg\<lparr>mg_invite_clients := AList.delete (fst p) (mg_invite_clients mg)\<rparr>))
       (to_remove ic_is_terminated ic_id (mg_invite_clients mg)) mg"

definition cleanup_non_invite_clients :: "manager \<Rightarrow> manager" where
  "cleanup_non_invite_clients mg =
     fold (\<lambda>p mg. forget p (mg\<lparr>mg_non_invite_clients := AList.delete (fst p) (mg_non_invite_clients mg)\<rparr>))
       (to_remove nc_is_terminated nc_id (mg_non_invite_clients mg)) mg"

definition cleanup_invite_servers :: "manager \<Rightarrow> manager" where
  "cleanup_invite_servers mg =
     fold (\<lambda>p mg. forget p (mg\<lparr>mg_invite_servers := AList.delete (fst p) (mg_invite_servers mg)\<rparr>))
       (to_remove is_is_terminated is_id (mg_invite_servers mg)) mg"

definition cleanup_non_invite_servers :: "manager \<Rightarrow> manager" where
  "cleanup_non_invite_servers mg =
     fold (\<lambda>p mg. forget p (mg\<lparr>mg_non_invite_servers := AList.delete (fst p) (mg_non_invite_servers mg)\<rparr>))
       (to_remove ns_is_terminated ns_id (mg_non_invite_servers mg)) mg"

definition cleanup_terminated :: "manager \<Rightarrow> manager" where
  "cleanup_terminated mg =
     cleanup_non_invite_servers (cleanup_invite_servers (cleanup_non_invite_clients
       (cleanup_invite_clients mg)))"

text \<open>The calls on a manager as one type.\<close>

datatype manager_call = Create sip_request | Receive message | Expire handle timer
  | Respond handle sip_response | Fail handle | Poll | Cleanup

fun mg_step :: "manager_call \<Rightarrow> manager \<Rightarrow> manager" where
  "mg_step (Create request) mg = snd (create_client_transaction request mg)"
| "mg_step (Receive msg) mg = mg_handle_message msg mg"
| "mg_step (Expire h t) mg = mg_handle_timeout h t mg"
| "mg_step (Respond h response) mg = mg_send_response h response mg"
| "mg_step (Fail h) mg = mg_handle_transport_error h mg"
| "mg_step Poll mg = snd (mg_poll_actions mg)"
| "mg_step Cleanup mg = cleanup_terminated mg"

section \<open>One table of transactions\<close>

datatype txn = TIC invite_client | TNC non_invite_client | TIS invite_server | TNS non_invite_server

fun txn_id :: "txn \<Rightarrow> transaction_id" where
  "txn_id (TIC tx) = ic_id tx"
| "txn_id (TNC tx) = nc_id tx"
| "txn_id (TIS tx) = is_id tx"
| "txn_id (TNS tx) = ns_id tx"

fun txn_type :: "txn \<Rightarrow> transaction_type" where
  "txn_type (TIC tx) = InviteClient"
| "txn_type (TNC tx) = NonInviteClient"
| "txn_type (TIS tx) = InviteServer"
| "txn_type (TNS tx) = NonInviteServer"

fun txn_terminated :: "txn \<Rightarrow> bool" where
  "txn_terminated (TIC tx) = ic_is_terminated tx"
| "txn_terminated (TNC tx) = nc_is_terminated tx"
| "txn_terminated (TIS tx) = is_is_terminated tx"
| "txn_terminated (TNS tx) = ns_is_terminated tx"

text \<open>The transaction a handle stands for, looked up in the table its type selects.\<close>

definition at :: "manager \<Rightarrow> handle \<Rightarrow> txn option" where
  "at mg h =
     (case map_of (mg_handle_to_type mg) h of
        Some InviteClient \<Rightarrow> map_option TIC (map_of (mg_invite_clients mg) h)
      | Some NonInviteClient \<Rightarrow> map_option TNC (map_of (mg_non_invite_clients mg) h)
      | Some InviteServer \<Rightarrow> map_option TIS (map_of (mg_invite_servers mg) h)
      | Some NonInviteServer \<Rightarrow> map_option TNS (map_of (mg_non_invite_servers mg) h)
      | None \<Rightarrow> None)"

text \<open>The tables agree: every registered handle has a transaction of its type and no other table holds
  it, handles are below the counter, and an identifier points to a transaction with that identifier.\<close>

definition typed :: "manager \<Rightarrow> handle \<Rightarrow> bool" where
  "typed mg h \<longleftrightarrow>
     (map_of (mg_handle_to_type mg) h = Some InviteClient \<longleftrightarrow> map_of (mg_invite_clients mg) h \<noteq> None) \<and>
     (map_of (mg_handle_to_type mg) h = Some NonInviteClient \<longleftrightarrow> map_of (mg_non_invite_clients mg) h \<noteq> None) \<and>
     (map_of (mg_handle_to_type mg) h = Some InviteServer \<longleftrightarrow> map_of (mg_invite_servers mg) h \<noteq> None) \<and>
     (map_of (mg_handle_to_type mg) h = Some NonInviteServer \<longleftrightarrow> map_of (mg_non_invite_servers mg) h \<noteq> None)"

definition distinct_tables :: "manager \<Rightarrow> bool" where
  "distinct_tables mg \<longleftrightarrow>
     distinct (map fst (mg_invite_clients mg)) \<and> distinct (map fst (mg_non_invite_clients mg)) \<and>
     distinct (map fst (mg_invite_servers mg)) \<and> distinct (map fst (mg_non_invite_servers mg))"

definition wf_manager :: "manager \<Rightarrow> bool" where
  "wf_manager mg \<longleftrightarrow>
     distinct_tables mg \<and> (\<forall>h. typed mg h) \<and>
     (\<forall>h t. at mg h = Some t \<longrightarrow> h < mg_next_handle mg) \<and>
     (\<forall>tid h. map_of (mg_id_to_handle mg) tid = Some h \<longrightarrow> (\<exists>t. at mg h = Some t \<and> txn_id t = tid))"

text \<open>Every transaction can be reached by its identifier.\<close>

definition routed :: "manager \<Rightarrow> bool" where
  "routed mg \<longleftrightarrow> (\<forall>h t. at mg h = Some t \<longrightarrow> map_of (mg_id_to_handle mg) (txn_id t) = Some h)"

text \<open>What the manager means: transactions by identifier.\<close>

definition table :: "manager \<Rightarrow> transaction_id \<rightharpoonup> txn" where
  "table mg tid = Option.bind (map_of (mg_id_to_handle mg) tid) (at mg)"

lemma wf_owner:
  assumes "wf_manager mg" "map_of (mg_id_to_handle mg) tid = Some h"
  shows "\<exists>t. at mg h = Some t \<and> txn_id t = tid"
  using assms unfolding wf_manager_def by blast

lemma table_None: "wf_manager mg \<Longrightarrow> table mg tid = None \<longleftrightarrow> map_of (mg_id_to_handle mg) tid = None"
  by (cases "map_of (mg_id_to_handle mg) tid") (auto simp: table_def dest: wf_owner)

subsection \<open>Replacing a transaction\<close>

fun put :: "handle \<Rightarrow> txn \<Rightarrow> manager \<Rightarrow> manager" where
  "put h (TIC tx) mg = mg\<lparr>mg_invite_clients := AList.update h tx (mg_invite_clients mg)\<rparr>"
| "put h (TNC tx) mg = mg\<lparr>mg_non_invite_clients := AList.update h tx (mg_non_invite_clients mg)\<rparr>"
| "put h (TIS tx) mg = mg\<lparr>mg_invite_servers := AList.update h tx (mg_invite_servers mg)\<rparr>"
| "put h (TNS tx) mg = mg\<lparr>mg_non_invite_servers := AList.update h tx (mg_non_invite_servers mg)\<rparr>"

lemma put_simps [simp]:
  "mg_id_to_handle (put h t mg) = mg_id_to_handle mg"
  "mg_handle_to_type (put h t mg) = mg_handle_to_type mg"
  "mg_next_handle (put h t mg) = mg_next_handle mg" "mg_actions (put h t mg) = mg_actions mg"
  "mg_reliable (put h t mg) = mg_reliable mg"
  by (cases t; simp)+

lemma actions_irrelevant [simp]:
  "at (mg\<lparr>mg_actions := as\<rparr>) = at mg" "wf_manager (mg\<lparr>mg_actions := as\<rparr>) = wf_manager mg"
  "routed (mg\<lparr>mg_actions := as\<rparr>) = routed mg" "table (mg\<lparr>mg_actions := as\<rparr>) = table mg"
proof -
  show a: "at (mg\<lparr>mg_actions := as\<rparr>) = at mg"
    by (rule ext) (simp add: at_def cong: option.case_cong transaction_type.case_cong)
  show "wf_manager (mg\<lparr>mg_actions := as\<rparr>) = wf_manager mg"
    "routed (mg\<lparr>mg_actions := as\<rparr>) = routed mg" "table (mg\<lparr>mg_actions := as\<rparr>) = table mg"
    by (simp_all add: wf_manager_def routed_def table_def [abs_def] a typed_def distinct_tables_def)
qed

lemma at_type: "at mg h = Some t \<Longrightarrow> map_of (mg_handle_to_type mg) h = Some (txn_type t)"
  by (auto simp: at_def split: option.splits transaction_type.splits)

lemma at_put:
  assumes "map_of (mg_handle_to_type mg) h = Some (txn_type t)"
  shows "at (put h t mg) = (at mg)(h \<mapsto> t)"
proof
  fix h'
  show "at (put h t mg) h' = ((at mg)(h \<mapsto> t)) h'"
    using assms
    by (cases t) (auto simp: at_def update_conv' split: option.splits transaction_type.splits)
qed

lemma typed_put:
  assumes "map_of (mg_handle_to_type mg) h = Some (txn_type t)" "\<forall>h. typed mg h"
  shows "typed (put h t mg) h'"
  using assms(1) assms(2) [rule_format, of h'] by (cases t) (auto simp: typed_def update_conv')

lemma distinct_tables_put: "distinct_tables mg \<Longrightarrow> distinct_tables (put h t mg)"
  by (cases t) (auto simp: distinct_tables_def distinct_update)

lemma put_ok:
  assumes "wf_manager mg" "at mg h = Some t0" "txn_type t = txn_type t0" "txn_id t = txn_id t0"
  shows "wf_manager (put h t mg)" "routed mg \<Longrightarrow> routed (put h t mg)"
    "routed mg \<Longrightarrow> table (put h t mg) = (table mg)(txn_id t \<mapsto> t)"
proof -
  have ty: "map_of (mg_handle_to_type mg) h = Some (txn_type t)" using at_type [OF assms(2)] assms(3) by simp
  note at = at_put [OF ty]
  have owner: "txn_id t0 = tid" if "map_of (mg_id_to_handle mg) tid = Some h" for tid
    using that assms(1,2) by (fastforce simp: wf_manager_def)
  show "wf_manager (put h t mg)"
    using assms typed_put [OF ty] distinct_tables_put [of mg h t] owner
    unfolding wf_manager_def at put_simps by (auto split: if_splits)
  show "routed mg \<Longrightarrow> routed (put h t mg)"
    using assms unfolding routed_def at put_simps by auto
  assume r: "routed mg"
  show "table (put h t mg) = (table mg)(txn_id t \<mapsto> t)"
  proof
    fix tid
    show "table (put h t mg) tid = ((table mg)(txn_id t \<mapsto> t)) tid"
      using r assms owner unfolding table_def at put_simps routed_def
      by (cases "map_of (mg_id_to_handle mg) tid") auto
  qed
qed

subsection \<open>Collecting and registering\<close>

fun drain_txn :: "txn \<Rightarrow> txn" where
  "drain_txn (TIC tx) = TIC (tx\<lparr>ic_actions := []\<rparr>)"
| "drain_txn (TNC tx) = TNC (tx\<lparr>nc_actions := []\<rparr>)"
| "drain_txn (TIS tx) = TIS (tx\<lparr>is_actions := []\<rparr>)"
| "drain_txn (TNS tx) = TNS (tx\<lparr>ns_actions := []\<rparr>)"

fun pending :: "handle \<Rightarrow> txn \<Rightarrow> manager_action list" where
  "pending h (TIC tx) = List.map_filter (lift_action ic_manager_event h) (ic_actions tx)"
| "pending h (TNC tx) = List.map_filter (lift_action nc_manager_event h) (nc_actions tx)"
| "pending h (TIS tx) = List.map_filter (lift_action is_manager_event h) (is_actions tx)"
| "pending h (TNS tx) = List.map_filter (lift_action ns_manager_event h) (ns_actions tx)"

definition settle :: "handle \<Rightarrow> txn \<Rightarrow> manager \<Rightarrow> manager" where
  "settle h t mg = (put h (drain_txn t) mg)\<lparr>mg_actions := mg_actions mg @ pending h t\<rparr>"

lemma drain_txn_simps [simp]:
  "txn_id (drain_txn t) = txn_id t" "txn_type (drain_txn t) = txn_type t"
  "txn_terminated (drain_txn t) = txn_terminated t"
  by (cases t; simp add: ic_is_terminated_def nc_is_terminated_def is_is_terminated_def
      ns_is_terminated_def)+

lemma settle_simps [simp]:
  "mg_id_to_handle (settle h t mg) = mg_id_to_handle mg"
  "mg_handle_to_type (settle h t mg) = mg_handle_to_type mg"
  "mg_next_handle (settle h t mg) = mg_next_handle mg"
  "mg_reliable (settle h t mg) = mg_reliable mg"
  "mg_actions (settle h t mg) = mg_actions mg @ pending h t"
  by (simp_all add: settle_def)

lemma collect_settle:
  "collect_invite_client_actions h ic mg = settle h (TIC ic) mg"
  "collect_non_invite_client_actions h nc mg = settle h (TNC nc) mg"
  "collect_invite_server_actions h is mg = settle h (TIS is) mg"
  "collect_non_invite_server_actions h ns mg = settle h (TNS ns) mg"
  by (simp_all add: collect_invite_client_actions_def collect_non_invite_client_actions_def
      collect_invite_server_actions_def collect_non_invite_server_actions_def settle_def
      collect_actions_def ic_poll_actions_def nc_poll_actions_def is_poll_actions_def ns_poll_actions_def)

lemma settle_ok:
  assumes "wf_manager mg" "at mg h = Some t0" "txn_type t = txn_type t0" "txn_id t = txn_id t0"
  shows "wf_manager (settle h t mg)" "routed mg \<Longrightarrow> routed (settle h t mg)"
    "routed mg \<Longrightarrow> table (settle h t mg) = (table mg)(txn_id t \<mapsto> drain_txn t)"
  using put_ok [OF assms(1,2), of "drain_txn t"] assms(3,4) by (simp_all add: settle_def)

text \<open>A new transaction under the next handle.\<close>

definition enter :: "txn \<Rightarrow> manager \<Rightarrow> manager" where
  "enter t mg =
     register (txn_id t) (mg_next_handle mg) (txn_type t)
       (settle (mg_next_handle mg) t (mg\<lparr>mg_next_handle := mg_next_handle mg + 1\<rparr>))"

lemma fresh_handle:
  assumes "wf_manager mg" "mg_next_handle mg \<le> h"
  shows "at mg h = None" "map_of (mg_handle_to_type mg) h = None"
    "map_of (mg_invite_clients mg) h = None" "map_of (mg_non_invite_clients mg) h = None"
    "map_of (mg_invite_servers mg) h = None" "map_of (mg_non_invite_servers mg) h = None"
proof -
  have "\<forall>t. at mg h \<noteq> Some t" using assms by (auto simp: wf_manager_def)
  then show none: "at mg h = None" by simp
  have typed: "typed mg h" using assms(1) by (simp add: wf_manager_def)
  then show ty: "map_of (mg_handle_to_type mg) h = None"
    using none by (auto simp: typed_def at_def split: option.splits transaction_type.splits)
  show "map_of (mg_invite_clients mg) h = None" "map_of (mg_non_invite_clients mg) h = None"
    "map_of (mg_invite_servers mg) h = None" "map_of (mg_non_invite_servers mg) h = None"
    using typed ty by (simp_all add: typed_def)
qed

lemma enter_simps:
  "map_of (mg_id_to_handle (enter t mg)) = (map_of (mg_id_to_handle mg))(txn_id t \<mapsto> mg_next_handle mg)"
  "map_of (mg_handle_to_type (enter t mg)) = (map_of (mg_handle_to_type mg))(mg_next_handle mg \<mapsto> txn_type t)"
  "mg_next_handle (enter t mg) = mg_next_handle mg + 1"
  by (simp_all add: enter_def register_def update_conv')

lemma at_enter: "at (enter t mg) = (at mg)(mg_next_handle mg \<mapsto> drain_txn t)"
proof
  fix h
  show "at (enter t mg) h = ((at mg)(mg_next_handle mg \<mapsto> drain_txn t)) h"
    by (cases t) (auto simp: at_def enter_def register_def settle_def update_conv'
        split: option.splits transaction_type.splits)
qed

lemma typed_enter: "wf_manager mg \<Longrightarrow> typed (enter t mg) h"
proof (cases "h = mg_next_handle mg")
  case True
  assume "wf_manager mg"
  from fresh_handle [OF this, of h] True show ?thesis
    by (cases t) (auto simp: typed_def enter_def register_def settle_def update_conv')
next
  case False
  assume "wf_manager mg"
  then have "typed mg h" by (simp add: wf_manager_def)
  with False show ?thesis
    by (cases t) (auto simp: typed_def enter_def register_def settle_def update_conv')
qed

lemma enter_ok:
  assumes "wf_manager mg"
  shows "wf_manager (enter t mg)"
    "routed mg \<Longrightarrow> table mg (txn_id t) = None \<Longrightarrow> routed (enter t mg)"
    "table (enter t mg) = (table mg)(txn_id t \<mapsto> drain_txn t)"
proof -
  let ?n = "mg_next_handle mg"
  have fresh: "at mg ?n = None" using fresh_handle(1) [OF assms] by simp
  have "distinct_tables (enter t mg)"
    using assms by (cases t) (auto simp: wf_manager_def distinct_tables_def enter_def register_def
        settle_def distinct_update)
  moreover have "h < ?n + 1" if "at mg h = Some t'" for h t'
    using that assms by (auto simp: wf_manager_def intro: less_SucI)
  moreover have "\<exists>t. at mg h = Some t \<and> txn_id t = tid" "h \<noteq> ?n"
    if "map_of (mg_id_to_handle mg) tid = Some h" for tid h
    using wf_owner [OF assms that] fresh by auto
  ultimately show "wf_manager (enter t mg)"
    unfolding wf_manager_def at_enter enter_simps using typed_enter [OF assms] by auto
  show "table (enter t mg) = (table mg)(txn_id t \<mapsto> drain_txn t)"
  proof
    fix tid
    have "map_of (mg_id_to_handle mg) tid \<noteq> Some ?n"
      using wf_owner [OF assms, of tid ?n] fresh by auto
    then show "table (enter t mg) tid = ((table mg)(txn_id t \<mapsto> drain_txn t)) tid"
      by (cases "map_of (mg_id_to_handle mg) tid") (auto simp: table_def at_enter enter_simps)
  qed
  assume r: "routed mg" and free: "table mg (txn_id t) = None"
  show "routed (enter t mg)"
    unfolding routed_def at_enter enter_simps
  proof (intro allI impI)
    fix h ta assume a: "((at mg)(?n \<mapsto> drain_txn t)) h = Some ta"
    show "((map_of (mg_id_to_handle mg))(txn_id t \<mapsto> ?n)) (txn_id ta) = Some h"
    proof (cases "h = ?n")
      case False
      with a r have "map_of (mg_id_to_handle mg) (txn_id ta) = Some h" by (simp add: routed_def)
      moreover have "map_of (mg_id_to_handle mg) (txn_id t) = None" using free table_None [OF assms] by simp
      ultimately show ?thesis by auto
    qed (use a in auto)
  qed
qed

subsection \<open>The operations over the table\<close>

fun txn_receive :: "sip_response \<Rightarrow> txn \<Rightarrow> txn" where
  "txn_receive r (TIC tx) = TIC (ic_handle_response r tx)"
| "txn_receive r (TNC tx) = TNC (nc_handle_response r tx)"
| "txn_receive r t = t"

fun txn_request :: "sip_request \<Rightarrow> txn \<Rightarrow> txn" where
  "txn_request r (TIS tx) = TIS (is_handle_request r tx)"
| "txn_request r (TNS tx) = TNS (ns_handle_request r tx)"
| "txn_request r t = t"

fun txn_expire :: "timer \<Rightarrow> txn \<Rightarrow> txn" where
  "txn_expire x (TIC tx) = TIC (ic_handle_timeout x tx)"
| "txn_expire x (TNC tx) = TNC (nc_handle_timeout x tx)"
| "txn_expire x (TIS tx) = TIS (is_handle_timeout x tx)"
| "txn_expire x (TNS tx) = TNS (ns_handle_timeout x tx)"

fun txn_respond :: "sip_response \<Rightarrow> txn \<Rightarrow> txn" where
  "txn_respond r (TIS tx) = TIS (is_send_response r tx)"
| "txn_respond r (TNS tx) = TNS (ns_send_response r tx)"
| "txn_respond r t = t"

fun txn_error :: "txn \<Rightarrow> txn" where
  "txn_error (TIC tx) = TIC (ic_handle_transport_error tx)"
| "txn_error (TNC tx) = TNC (nc_handle_transport_error tx)"
| "txn_error (TIS tx) = TIS (is_handle_transport_error tx)"
| "txn_error (TNS tx) = TNS (ns_handle_transport_error tx)"

lemma machine_ids [simp]:
  "ic_id (ic_handle_response r ic) = ic_id ic" "ic_id (ic_handle_timeout x ic) = ic_id ic"
  "ic_id (ic_handle_transport_error ic) = ic_id ic"
  "nc_id (nc_handle_response r nc) = nc_id nc" "nc_id (nc_handle_timeout x nc) = nc_id nc"
  "nc_id (nc_handle_transport_error nc) = nc_id nc"
  "is_id (is_handle_request q is) = is_id is" "is_id (is_handle_timeout x is) = is_id is"
  "is_id (is_send_response r is) = is_id is" "is_id (is_handle_transport_error is) = is_id is"
  "is_id (is_handle_event e is) = is_id is"
  "ns_id (ns_handle_request q ns) = ns_id ns" "ns_id (ns_handle_timeout x ns) = ns_id ns"
  "ns_id (ns_send_response r ns) = ns_id ns" "ns_id (ns_handle_transport_error ns) = ns_id ns"
  using ic_machine.key_step [of "IC_Response r" ic] ic_machine.key_step [of "IC_Fire x" ic]
    ic_machine.key_step [of IC_Error ic] nc_machine.key_step [of "NC_Response r" nc]
    nc_machine.key_step [of "NC_Fire x" nc] nc_machine.key_step [of NC_Error nc]
    is_machine.key_step [of "IS_Receive q" "is"] is_machine.key_step [of "IS_Fire x" "is"]
    is_machine.key_step [of "IS_Respond r" "is"] is_machine.key_step [of IS_Error "is"]
    is_machine.key_step [of "IS_Deliver e" "is"] ns_machine.key_step [of "NS_Retransmit q" ns]
    ns_machine.key_step [of "NS_Fire x" ns] ns_machine.key_step [of "NS_Respond r" ns]
    ns_machine.key_step [of NS_Error ns]
  by (simp_all add: ic_key_def nc_key_def is_key_def ns_key_def)

lemma txn_ops_kind [simp]:
  "txn_id (txn_receive r t) = txn_id t" "txn_type (txn_receive r t) = txn_type t"
  "txn_id (txn_request q t) = txn_id t" "txn_type (txn_request q t) = txn_type t"
  "txn_id (txn_expire x t) = txn_id t" "txn_type (txn_expire x t) = txn_type t"
  "txn_id (txn_respond r t) = txn_id t" "txn_type (txn_respond r t) = txn_type t"
  "txn_id (txn_error t) = txn_id t" "txn_type (txn_error t) = txn_type t"
  by (cases t; simp)+

text \<open>Operations only ever act on the transactions they are meant for.\<close>

fun is_client :: "txn \<Rightarrow> bool" where
  "is_client (TIC _) = True"
| "is_client (TNC _) = True"
| "is_client _ = False"

definition act :: "(txn \<Rightarrow> bool) \<Rightarrow> (txn \<Rightarrow> txn) \<Rightarrow> handle \<Rightarrow> manager \<Rightarrow> manager" where
  "act guard f h mg = (case at mg h of Some t \<Rightarrow> if guard t then settle h (f t) mg else mg | None \<Rightarrow> mg)"

lemma mg_handle_timeout_act: "mg_handle_timeout h x mg = act (\<lambda>_. True) (txn_expire x) h mg"
  by (auto simp: mg_handle_timeout_def on_transaction_def act_def at_def collect_settle
      split: option.splits transaction_type.splits)

lemma mg_handle_transport_error_act: "mg_handle_transport_error h mg = act (\<lambda>_. True) txn_error h mg"
  by (auto simp: mg_handle_transport_error_def on_transaction_def act_def at_def collect_settle
      split: option.splits transaction_type.splits)

lemma mg_send_response_act: "mg_send_response h r mg = act (\<lambda>t. \<not> is_client t) (txn_respond r) h mg"
  by (auto simp: mg_send_response_def act_def at_def collect_settle
      split: option.splits transaction_type.splits)

lemma mg_handle_response_act:
  "mg_handle_response r mg =
     (case Option.bind (id_from_response r) (map_of (mg_id_to_handle mg)) of
        Some h \<Rightarrow> act is_client (txn_receive r) h mg | None \<Rightarrow> mg)"
  by (auto simp: mg_handle_response_def act_def at_def collect_settle
      split: option.splits transaction_type.splits)

lemma create_client_enter:
  "snd (create_client_transaction q mg) =
     (case (if req_method q = Invite then map_option TIC (ic_new q (mg_reliable mg))
            else map_option TNC (nc_new q (mg_reliable mg))) of
        Some t \<Rightarrow> enter t mg
      | None \<Rightarrow> mg\<lparr>mg_next_handle := mg_next_handle mg + 1\<rparr>)"
  by (auto simp: create_client_transaction_def alloc_handle_def enter_def collect_settle
      split: option.splits)

lemma create_server_enter:
  "create_server_transaction q mg =
     (case (if req_method q = Invite then map_option TIS (is_new q (mg_reliable mg))
            else if req_method q = Ack then None else map_option TNS (ns_new q (mg_reliable mg))) of
        Some t \<Rightarrow> enter t mg
      | None \<Rightarrow> mg\<lparr>mg_next_handle := mg_next_handle mg + 1\<rparr>)"
  by (auto simp: create_server_transaction_def alloc_handle_def enter_def collect_settle
      split: option.splits)

lemma request_dispatch:
  "(case map_of (mg_handle_to_type mg) h of
      Some InviteServer \<Rightarrow>
        (case map_of (mg_invite_servers mg) h of
           Some tx \<Rightarrow> settle h (TIS (is_handle_request q tx)) mg | None \<Rightarrow> mg)
    | Some NonInviteServer \<Rightarrow>
        (case map_of (mg_non_invite_servers mg) h of
           Some tx \<Rightarrow> settle h (TNS (ns_handle_request q tx)) mg | None \<Rightarrow> mg)
    | _ \<Rightarrow> mg) = act (\<lambda>t. \<not> is_client t) (txn_request q) h mg"
  by (auto simp: act_def at_def split: option.splits transaction_type.splits)

lemma mg_handle_request_act:
  "mg_handle_request q mg =
     (let mg = (if req_method q = Prack then route_prack q mg else mg) in
      case Option.bind (id_from_request q) (map_of (mg_id_to_handle mg)) of
        Some h \<Rightarrow> act (\<lambda>t. \<not> is_client t) (txn_request q) h mg
      | None \<Rightarrow> create_server_transaction q mg)"
  by (simp only: mg_handle_request_def Let_def collect_settle request_dispatch)

lemma skip_handle:
  assumes "wf_manager mg"
  shows "wf_manager (mg\<lparr>mg_next_handle := mg_next_handle mg + 1\<rparr>)"
    "routed mg \<Longrightarrow> routed (mg\<lparr>mg_next_handle := mg_next_handle mg + 1\<rparr>)"
    "table (mg\<lparr>mg_next_handle := mg_next_handle mg + 1\<rparr>) = table mg"
proof -
  have at: "at (mg\<lparr>mg_next_handle := n\<rparr>) = at mg" for n
    by (rule ext) (simp add: at_def cong: option.case_cong transaction_type.case_cong)
  show "wf_manager (mg\<lparr>mg_next_handle := mg_next_handle mg + 1\<rparr>)"
    using assms by (auto simp: wf_manager_def at typed_def distinct_tables_def intro: less_SucI)
  show "routed mg \<Longrightarrow> routed (mg\<lparr>mg_next_handle := mg_next_handle mg + 1\<rparr>)"
    "table (mg\<lparr>mg_next_handle := mg_next_handle mg + 1\<rparr>) = table mg"
    by (simp_all add: routed_def table_def [abs_def] at)
qed

lemma act_ok:
  assumes "wf_manager mg" "\<And>t. txn_id (f t) = txn_id t" "\<And>t. txn_type (f t) = txn_type t"
  shows "wf_manager (act guard f h mg)" "routed mg \<Longrightarrow> routed (act guard f h mg)"
    "routed mg \<Longrightarrow> table (act guard f h mg) =
       (case at mg h of
          Some t \<Rightarrow> if guard t then (table mg)(txn_id t \<mapsto> drain_txn (f t)) else table mg
        | None \<Rightarrow> table mg)"
proof (atomize (full), cases "at mg h")
  case (Some t)
  show "wf_manager (act guard f h mg) \<and> (routed mg \<longrightarrow> routed (act guard f h mg)) \<and>
    (routed mg \<longrightarrow> table (act guard f h mg) =
       (case at mg h of
          Some t \<Rightarrow> if guard t then (table mg)(txn_id t \<mapsto> drain_txn (f t)) else table mg
        | None \<Rightarrow> table mg))"
    using settle_ok [OF assms(1) Some, of "f t"] assms by (simp add: act_def Some)
qed (simp add: act_def assms(1))

fun txn_prack :: "nat \<Rightarrow> txn \<Rightarrow> txn" where
  "txn_prack n (TIS tx) = TIS (is_handle_event (IS_PrackReceived n) tx)"
| "txn_prack n t = t"

lemma txn_prack_kind [simp]: "txn_id (txn_prack n t) = txn_id t" "txn_type (txn_prack n t) = txn_type t"
  by (cases t; simp)+

lemma route_prack_act:
  assumes "wf_manager mg"
  obtains "route_prack q mg = mg" | n h where "route_prack q mg = act (\<lambda>t. \<not> is_client t) (txn_prack n) h mg"
proof (cases "route_prack q mg = mg")
  case False
  then obtain n h tx where tx: "map_of (mg_invite_servers mg) h = Some tx"
    and eq: "route_prack q mg = settle h (TIS (is_handle_event (IS_PrackReceived n) tx)) mg"
    by (auto simp: route_prack_def collect_settle split: option.splits sum.splits)
  have "typed mg h" using assms by (simp add: wf_manager_def)
  with tx have "at mg h = Some (TIS tx)" by (simp add: typed_def at_def)
  with eq show thesis by (intro that(2) [of n h]) (simp add: act_def)
qed (rule that(1))

lemma route_prack_ok:
  assumes "wf_manager mg"
  shows "wf_manager (route_prack q mg)" "routed mg \<Longrightarrow> routed (route_prack q mg)"
    "mg_id_to_handle (route_prack q mg) = mg_id_to_handle mg"
proof -
  have "wf_manager (route_prack q mg) \<and> (routed mg \<longrightarrow> routed (route_prack q mg)) \<and>
      mg_id_to_handle (route_prack q mg) = mg_id_to_handle mg"
  proof (rule route_prack_act [OF assms, of q])
    fix n h assume eq: "route_prack q mg = act (\<lambda>t. \<not> is_client t) (txn_prack n) h mg"
    have "mg_id_to_handle (act g (txn_prack n) h mg) = mg_id_to_handle mg" for g
      by (simp add: act_def split: option.splits)
    then show ?thesis unfolding eq
      using act_ok(1,2) [OF assms, of "txn_prack n"] by simp
  qed (simp add: assms)
  then show "wf_manager (route_prack q mg)" "routed mg \<Longrightarrow> routed (route_prack q mg)"
    "mg_id_to_handle (route_prack q mg) = mg_id_to_handle mg" by simp_all
qed

subsection \<open>Removing terminated transactions\<close>

lemma map_of_fold_delete:
  "map_of (fold (\<lambda>p. AList.delete (f p)) ps al) k = (if k \<in> f ` set ps then None else map_of al k)"
  by (induction ps arbitrary: al) (auto simp: delete_conv')

lemma distinct_fold_delete:
  "distinct (map fst al) \<Longrightarrow> distinct (map fst (fold (\<lambda>p. AList.delete (f p)) ps al))"
  by (induction ps arbitrary: al) (auto simp: distinct_delete)

lemma to_remove_iff:
  "distinct (map fst txs) \<Longrightarrow>
     (h, tid) \<in> set (to_remove dead ident txs) \<longleftrightarrow> (\<exists>tx. map_of txs h = Some tx \<and> dead tx \<and> tid = ident tx)"
  by (auto simp: to_remove_def List.map_filter_def image_iff split: if_splits)

lemma cleanup_eqs:
  "fold (\<lambda>p mg. forget p (mg\<lparr>mg_invite_clients := AList.delete (fst p) (mg_invite_clients mg)\<rparr>)) ps mg =
     mg\<lparr>mg_invite_clients := fold (\<lambda>p. AList.delete (fst p)) ps (mg_invite_clients mg),
        mg_id_to_handle := fold (\<lambda>p. AList.delete (snd p)) ps (mg_id_to_handle mg),
        mg_handle_to_type := fold (\<lambda>p. AList.delete (fst p)) ps (mg_handle_to_type mg)\<rparr>"
  "fold (\<lambda>p mg. forget p (mg\<lparr>mg_non_invite_clients := AList.delete (fst p) (mg_non_invite_clients mg)\<rparr>)) ps mg =
     mg\<lparr>mg_non_invite_clients := fold (\<lambda>p. AList.delete (fst p)) ps (mg_non_invite_clients mg),
        mg_id_to_handle := fold (\<lambda>p. AList.delete (snd p)) ps (mg_id_to_handle mg),
        mg_handle_to_type := fold (\<lambda>p. AList.delete (fst p)) ps (mg_handle_to_type mg)\<rparr>"
  "fold (\<lambda>p mg. forget p (mg\<lparr>mg_invite_servers := AList.delete (fst p) (mg_invite_servers mg)\<rparr>)) ps mg =
     mg\<lparr>mg_invite_servers := fold (\<lambda>p. AList.delete (fst p)) ps (mg_invite_servers mg),
        mg_id_to_handle := fold (\<lambda>p. AList.delete (snd p)) ps (mg_id_to_handle mg),
        mg_handle_to_type := fold (\<lambda>p. AList.delete (fst p)) ps (mg_handle_to_type mg)\<rparr>"
  "fold (\<lambda>p mg. forget p (mg\<lparr>mg_non_invite_servers := AList.delete (fst p) (mg_non_invite_servers mg)\<rparr>)) ps mg =
     mg\<lparr>mg_non_invite_servers := fold (\<lambda>p. AList.delete (fst p)) ps (mg_non_invite_servers mg),
        mg_id_to_handle := fold (\<lambda>p. AList.delete (snd p)) ps (mg_id_to_handle mg),
        mg_handle_to_type := fold (\<lambda>p. AList.delete (fst p)) ps (mg_handle_to_type mg)\<rparr>"
  by (induction ps arbitrary: mg) (simp_all add: forget_def)

text \<open>What it means that \<open>mg'\<close> is \<open>mg\<close> without the transactions that satisfy \<open>P\<close>.\<close>

definition purged :: "(txn \<Rightarrow> bool) \<Rightarrow> manager \<Rightarrow> manager \<Rightarrow> bool" where
  "purged P mg mg' \<longleftrightarrow>
     distinct_tables mg' \<and> (\<forall>h. typed mg' h) \<and> mg_next_handle mg' = mg_next_handle mg \<and>
     (\<forall>h. at mg' h = (case at mg h of Some t \<Rightarrow> if P t then None else Some t | None \<Rightarrow> None)) \<and>
     (\<forall>tid. map_of (mg_id_to_handle mg') tid =
        (if \<exists>h t. at mg h = Some t \<and> P t \<and> txn_id t = tid then None else map_of (mg_id_to_handle mg) tid))"

lemma purged_wf:
  assumes "wf_manager mg" "purged P mg mg'"
  shows "wf_manager mg'"
proof -
  have "\<exists>t. at mg' h = Some t \<and> txn_id t = tid" if "map_of (mg_id_to_handle mg') tid = Some h" for tid h
  proof -
    from that assms(2) have keep: "\<not> (\<exists>h t. at mg h = Some t \<and> P t \<and> txn_id t = tid)"
      and "map_of (mg_id_to_handle mg) tid = Some h" by (auto simp: purged_def split: if_splits)
    then obtain t where "at mg h = Some t" "txn_id t = tid" using wf_owner [OF assms(1)] by blast
    with keep assms(2) show ?thesis by (auto simp: purged_def)
  qed
  moreover have "h < mg_next_handle mg'" if "at mg' h = Some t" for h t
    using that assms by (auto simp: purged_def wf_manager_def split: option.splits if_splits)
  ultimately show ?thesis using assms(2) by (simp add: wf_manager_def purged_def)
qed

lemma purged_routed:
  assumes "wf_manager mg" "routed mg" "purged P mg mg'"
  shows "routed mg'"
    "table mg' tid = (case table mg tid of Some t \<Rightarrow> if P t then None else Some t | None \<Rightarrow> None)"
proof -
  have at': "at mg' h = (case at mg h of Some t \<Rightarrow> if P t then None else Some t | None \<Rightarrow> None)" for h
    using assms(3) by (simp add: purged_def)
  have ids: "map_of (mg_id_to_handle mg') (txn_id t) = Some h" if "at mg h = Some t" "\<not> P t" for h t
  proof -
    have "h' = h" if "at mg h' = Some t'" "txn_id t' = txn_id t" for h' t'
      using that \<open>at mg h = Some t\<close> assms(2) by (metis routed_def option.inject)
    then have "\<not> (\<exists>h' t'. at mg h' = Some t' \<and> P t' \<and> txn_id t' = txn_id t)"
      using that by fastforce
    then show ?thesis using that assms(2,3) by (simp add: purged_def routed_def)
  qed
  then show "routed mg'" by (auto simp: routed_def at' split: option.splits if_splits)
  show "table mg' tid = (case table mg tid of Some t \<Rightarrow> if P t then None else Some t | None \<Rightarrow> None)"
  proof (cases "map_of (mg_id_to_handle mg) tid")
    case None
    then have "map_of (mg_id_to_handle mg') tid = None" using assms(3) by (simp add: purged_def)
    with None show ?thesis by (simp add: table_def)
  next
    case (Some h)
    then obtain t where t: "at mg h = Some t" "txn_id t = tid" using wf_owner [OF assms(1)] by blast
    show ?thesis
    proof (cases "P t")
      case True
      then have "map_of (mg_id_to_handle mg') tid = None" using t assms(3) unfolding purged_def by metis
      with True Some t show ?thesis by (simp add: table_def)
    next
      case False
      then show ?thesis using ids [OF t(1)] t Some by (simp add: table_def at')
    qed
  qed
qed

lemma if_or_None: "(if b then None else if a then None else x) = (if a \<or> b then None else x)"
  by simp

lemma purged_trans:
  assumes "purged P mg mg1" "purged Q mg1 mg2"
  shows "purged (\<lambda>t. P t \<or> Q t) mg mg2"
proof -
  let ?gone = "\<lambda>P mg tid. \<exists>h t. at mg h = Some t \<and> P t \<and> txn_id t = tid"
  have at1: "at mg1 h = (case at mg h of Some t \<Rightarrow> if P t then None else Some t | None \<Rightarrow> None)"
    and at2: "at mg2 h = (case at mg1 h of Some t \<Rightarrow> if Q t then None else Some t | None \<Rightarrow> None)" for h
    using assms by (simp_all add: purged_def)
  have ids1: "map_of (mg_id_to_handle mg1) tid = (if ?gone P mg tid then None else map_of (mg_id_to_handle mg) tid)"
    and ids2: "map_of (mg_id_to_handle mg2) tid = (if ?gone Q mg1 tid then None else map_of (mg_id_to_handle mg1) tid)" for tid
    using assms unfolding purged_def by blast+
  have "at mg1 h = Some t \<longleftrightarrow> at mg h = Some t \<and> \<not> P t" for h t
    unfolding at1 by (auto split: option.splits if_splits)
  then have gone: "?gone (\<lambda>t. P t \<or> Q t) mg tid \<longleftrightarrow> ?gone P mg tid \<or> ?gone Q mg1 tid" for tid
    by blast
  show ?thesis unfolding purged_def
  proof (intro conjI allI)
    fix tid
    show "map_of (mg_id_to_handle mg2) tid =
        (if ?gone (\<lambda>t. P t \<or> Q t) mg tid then None else map_of (mg_id_to_handle mg) tid)"
      unfolding gone ids2 ids1 by (rule if_or_None)
  next
    fix h
    show "at mg2 h = (case at mg h of Some t \<Rightarrow> if P t \<or> Q t then None else Some t | None \<Rightarrow> None)"
      unfolding at2 at1 by (simp split: option.splits)
  qed (use assms in \<open>simp_all add: purged_def\<close>)
qed

lemma at_iff:
  assumes "\<forall>h. typed mg h"
  shows "at mg h = Some (TIC ic) \<longleftrightarrow> map_of (mg_invite_clients mg) h = Some ic"
    "at mg h = Some (TNC nc) \<longleftrightarrow> map_of (mg_non_invite_clients mg) h = Some nc"
    "at mg h = Some (TIS is) \<longleftrightarrow> map_of (mg_invite_servers mg) h = Some is"
    "at mg h = Some (TNS ns) \<longleftrightarrow> map_of (mg_non_invite_servers mg) h = Some ns"
  using assms [rule_format, of h]
  by (auto simp: at_def typed_def split: option.splits transaction_type.splits)

text \<open>The argument for one table, given how the removal changes the lookups.\<close>

lemma purgedI:
  assumes "wf_manager mg" "distinct_tables mg'" "\<forall>h. typed mg' h"
    and "mg_next_handle mg' = mg_next_handle mg"
    and "\<And>h. (h \<in> fst ` set ps) = (\<exists>t. at mg h = Some t \<and> P t)"
    and "\<And>h. at mg' h = (if h \<in> fst ` set ps then None else at mg h)"
    and "\<And>tid. (tid \<in> snd ` set ps) = (\<exists>h t. at mg h = Some t \<and> P t \<and> txn_id t = tid)"
    and "mg_id_to_handle mg' = fold (\<lambda>p. AList.delete (snd p)) ps (mg_id_to_handle mg)"
  shows "purged P mg mg'"
  using assms(2-4) unfolding purged_def assms(6,8) map_of_fold_delete assms(5,7)
  by (auto split: option.splits)

lemma fst_snd_iff:
  assumes "\<And>h tid. (h, tid) \<in> set ps \<longleftrightarrow> (\<exists>t. at mg h = Some t \<and> P t \<and> tid = txn_id t)"
  shows "(h \<in> fst ` set ps) = (\<exists>t. at mg h = Some t \<and> P t)"
    "(tid \<in> snd ` set ps) = (\<exists>h t. at mg h = Some t \<and> P t \<and> txn_id t = tid)"
  using assms by (force simp: image_iff)+

lemma removed_iff:
  assumes "distinct (map fst txs)" "\<And>h tx. at mg h = Some (C tx) \<longleftrightarrow> map_of txs h = Some tx"
    "\<And>tx. txn_id (C tx) = ident tx"
  shows "(h, tid) \<in> set (to_remove dead ident txs) \<longleftrightarrow>
    (\<exists>t. at mg h = Some t \<and> (\<exists>tx. t = C tx \<and> dead tx) \<and> tid = txn_id t)"
  unfolding to_remove_iff [OF assms(1)] by (metis assms(2,3))

lemma cleanup_invite_clients_purged:
  assumes "wf_manager mg"
  shows "purged (\<lambda>t. \<exists>tx. t = TIC tx \<and> ic_is_terminated tx) mg (cleanup_invite_clients mg)"
proof -
  define ps where "ps = to_remove ic_is_terminated ic_id (mg_invite_clients mg)"
  have ty: "\<forall>h. typed mg h" and d: "distinct_tables mg" using assms by (simp_all add: wf_manager_def)
  have "distinct (map fst (mg_invite_clients mg))" using d by (simp add: distinct_tables_def)
  from fst_snd_iff [OF removed_iff [OF this at_iff(1) [OF ty], where ident = ic_id and dead = ic_is_terminated]]
  have ps: "(h \<in> fst ` set ps) = (\<exists>t. at mg h = Some t \<and> (\<exists>tx. t = TIC tx \<and> ic_is_terminated tx))"
    "(tid \<in> snd ` set ps) = (\<exists>h t. at mg h = Some t \<and> (\<exists>tx. t = TIC tx \<and> ic_is_terminated tx) \<and> txn_id t = tid)"
    for h tid by (simp_all add: ps_def)
  have gone: "map_of (mg_handle_to_type mg) h = Some InviteClient" if "h \<in> fst ` set ps" for h
    using that unfolding ps by (auto dest: at_type)
  note mg' = cleanup_invite_clients_def [of mg, folded ps_def, unfolded cleanup_eqs]
  show ?thesis
  proof (rule purgedI [OF assms, of _ ps])
    show "distinct_tables (cleanup_invite_clients mg)"
      using d by (simp add: mg' distinct_tables_def distinct_fold_delete)
    show "\<forall>h. typed (cleanup_invite_clients mg) h"
    proof
      fix h show "typed (cleanup_invite_clients mg) h"
        using ty [rule_format, of h] gone [of h]
        by (cases "h \<in> fst ` set ps") (simp_all add: mg' typed_def map_of_fold_delete)
    qed
    show "at (cleanup_invite_clients mg) h = (if h \<in> fst ` set ps then None else at mg h)" for h
      by (simp add: mg' at_def map_of_fold_delete cong: option.case_cong transaction_type.case_cong)
  qed (simp_all add: mg' ps)
qed

lemma cleanup_non_invite_clients_purged:
  assumes "wf_manager mg"
  shows "purged (\<lambda>t. \<exists>tx. t = TNC tx \<and> nc_is_terminated tx) mg (cleanup_non_invite_clients mg)"
proof -
  define ps where "ps = to_remove nc_is_terminated nc_id (mg_non_invite_clients mg)"
  have ty: "\<forall>h. typed mg h" and d: "distinct_tables mg" using assms by (simp_all add: wf_manager_def)
  have "distinct (map fst (mg_non_invite_clients mg))" using d by (simp add: distinct_tables_def)
  from fst_snd_iff [OF removed_iff [OF this at_iff(2) [OF ty], where ident = nc_id and dead = nc_is_terminated]]
  have ps: "(h \<in> fst ` set ps) = (\<exists>t. at mg h = Some t \<and> (\<exists>tx. t = TNC tx \<and> nc_is_terminated tx))"
    "(tid \<in> snd ` set ps) = (\<exists>h t. at mg h = Some t \<and> (\<exists>tx. t = TNC tx \<and> nc_is_terminated tx) \<and> txn_id t = tid)"
    for h tid by (simp_all add: ps_def)
  have gone: "map_of (mg_handle_to_type mg) h = Some NonInviteClient" if "h \<in> fst ` set ps" for h
    using that unfolding ps by (auto dest: at_type)
  note mg' = cleanup_non_invite_clients_def [of mg, folded ps_def, unfolded cleanup_eqs]
  show ?thesis
  proof (rule purgedI [OF assms, of _ ps])
    show "distinct_tables (cleanup_non_invite_clients mg)"
      using d by (simp add: mg' distinct_tables_def distinct_fold_delete)
    show "\<forall>h. typed (cleanup_non_invite_clients mg) h"
    proof
      fix h show "typed (cleanup_non_invite_clients mg) h"
        using ty [rule_format, of h] gone [of h]
        by (cases "h \<in> fst ` set ps") (simp_all add: mg' typed_def map_of_fold_delete)
    qed
    show "at (cleanup_non_invite_clients mg) h = (if h \<in> fst ` set ps then None else at mg h)" for h
      by (simp add: mg' at_def map_of_fold_delete cong: option.case_cong transaction_type.case_cong)
  qed (simp_all add: mg' ps)
qed

lemma cleanup_invite_servers_purged:
  assumes "wf_manager mg"
  shows "purged (\<lambda>t. \<exists>tx. t = TIS tx \<and> is_is_terminated tx) mg (cleanup_invite_servers mg)"
proof -
  define ps where "ps = to_remove is_is_terminated is_id (mg_invite_servers mg)"
  have ty: "\<forall>h. typed mg h" and d: "distinct_tables mg" using assms by (simp_all add: wf_manager_def)
  have "distinct (map fst (mg_invite_servers mg))" using d by (simp add: distinct_tables_def)
  from fst_snd_iff [OF removed_iff [OF this at_iff(3) [OF ty], where ident = is_id and dead = is_is_terminated]]
  have ps: "(h \<in> fst ` set ps) = (\<exists>t. at mg h = Some t \<and> (\<exists>tx. t = TIS tx \<and> is_is_terminated tx))"
    "(tid \<in> snd ` set ps) = (\<exists>h t. at mg h = Some t \<and> (\<exists>tx. t = TIS tx \<and> is_is_terminated tx) \<and> txn_id t = tid)"
    for h tid by (simp_all add: ps_def)
  have gone: "map_of (mg_handle_to_type mg) h = Some InviteServer" if "h \<in> fst ` set ps" for h
    using that unfolding ps by (auto dest: at_type)
  note mg' = cleanup_invite_servers_def [of mg, folded ps_def, unfolded cleanup_eqs]
  show ?thesis
  proof (rule purgedI [OF assms, of _ ps])
    show "distinct_tables (cleanup_invite_servers mg)"
      using d by (simp add: mg' distinct_tables_def distinct_fold_delete)
    show "\<forall>h. typed (cleanup_invite_servers mg) h"
    proof
      fix h show "typed (cleanup_invite_servers mg) h"
        using ty [rule_format, of h] gone [of h]
        by (cases "h \<in> fst ` set ps") (simp_all add: mg' typed_def map_of_fold_delete)
    qed
    show "at (cleanup_invite_servers mg) h = (if h \<in> fst ` set ps then None else at mg h)" for h
      by (simp add: mg' at_def map_of_fold_delete cong: option.case_cong transaction_type.case_cong)
  qed (simp_all add: mg' ps)
qed

lemma cleanup_non_invite_servers_purged:
  assumes "wf_manager mg"
  shows "purged (\<lambda>t. \<exists>tx. t = TNS tx \<and> ns_is_terminated tx) mg (cleanup_non_invite_servers mg)"
proof -
  define ps where "ps = to_remove ns_is_terminated ns_id (mg_non_invite_servers mg)"
  have ty: "\<forall>h. typed mg h" and d: "distinct_tables mg" using assms by (simp_all add: wf_manager_def)
  have "distinct (map fst (mg_non_invite_servers mg))" using d by (simp add: distinct_tables_def)
  from fst_snd_iff [OF removed_iff [OF this at_iff(4) [OF ty], where ident = ns_id and dead = ns_is_terminated]]
  have ps: "(h \<in> fst ` set ps) = (\<exists>t. at mg h = Some t \<and> (\<exists>tx. t = TNS tx \<and> ns_is_terminated tx))"
    "(tid \<in> snd ` set ps) = (\<exists>h t. at mg h = Some t \<and> (\<exists>tx. t = TNS tx \<and> ns_is_terminated tx) \<and> txn_id t = tid)"
    for h tid by (simp_all add: ps_def)
  have gone: "map_of (mg_handle_to_type mg) h = Some NonInviteServer" if "h \<in> fst ` set ps" for h
    using that unfolding ps by (auto dest: at_type)
  note mg' = cleanup_non_invite_servers_def [of mg, folded ps_def, unfolded cleanup_eqs]
  show ?thesis
  proof (rule purgedI [OF assms, of _ ps])
    show "distinct_tables (cleanup_non_invite_servers mg)"
      using d by (simp add: mg' distinct_tables_def distinct_fold_delete)
    show "\<forall>h. typed (cleanup_non_invite_servers mg) h"
    proof
      fix h show "typed (cleanup_non_invite_servers mg) h"
        using ty [rule_format, of h] gone [of h]
        by (cases "h \<in> fst ` set ps") (simp_all add: mg' typed_def map_of_fold_delete)
    qed
    show "at (cleanup_non_invite_servers mg) h = (if h \<in> fst ` set ps then None else at mg h)" for h
      by (simp add: mg' at_def map_of_fold_delete cong: option.case_cong transaction_type.case_cong)
  qed (simp_all add: mg' ps)
qed

lemma cleanup_terminated_purged:
  assumes "wf_manager mg" shows "purged txn_terminated mg (cleanup_terminated mg)"
proof -
  let ?m1 = "cleanup_invite_clients mg" and ?m2 = "cleanup_non_invite_clients (cleanup_invite_clients mg)"
  let ?m3 = "cleanup_invite_servers (cleanup_non_invite_clients (cleanup_invite_clients mg))"
  note p1 = cleanup_invite_clients_purged [OF assms]
  note w1 = purged_wf [OF assms p1]
  note p2 = cleanup_non_invite_clients_purged [OF w1]
  note w2 = purged_wf [OF w1 p2]
  note p3 = cleanup_invite_servers_purged [OF w2]
  note w3 = purged_wf [OF w2 p3]
  note p4 = cleanup_non_invite_servers_purged [OF w3]
  have "(\<lambda>t. (\<exists>tx. t = TIC tx \<and> ic_is_terminated tx) \<or> (\<exists>tx. t = TNC tx \<and> nc_is_terminated tx) \<or>
      (\<exists>tx. t = TIS tx \<and> is_is_terminated tx) \<or> (\<exists>tx. t = TNS tx \<and> ns_is_terminated tx)) =
      txn_terminated" (is "?any = _")
  proof
    fix t show "?any t = txn_terminated t" by (cases t) simp_all
  qed
  moreover have "purged ?any mg (cleanup_terminated mg)"
    using purged_trans [OF purged_trans [OF purged_trans [OF p1 p2] p3] p4]
    unfolding cleanup_terminated_def disj_assoc .
  ultimately show ?thesis by simp
qed

subsection \<open>Every call keeps the manager consistent\<close>

lemma create_client_ok:
  assumes "wf_manager mg"
  shows "wf_manager (snd (create_client_transaction q mg))"
    "routed mg \<Longrightarrow> (\<And>tid. id_from_request q = Some tid \<Longrightarrow> table mg tid = None) \<Longrightarrow>
       routed (snd (create_client_transaction q mg))"
  using enter_ok(1,2) [OF assms] skip_handle(1,2) [OF assms]
  by (auto simp: create_client_enter ic_new_Some nc_new_Some split: option.splits)

lemma create_server_ok:
  assumes "wf_manager mg"
  shows "wf_manager (create_server_transaction q mg)"
    "routed mg \<Longrightarrow> (\<And>tid. id_from_request q = Some tid \<Longrightarrow> table mg tid = None) \<Longrightarrow>
       routed (create_server_transaction q mg)"
  using enter_ok(1,2) [OF assms] skip_handle(1,2) [OF assms]
  by (auto simp: create_server_enter is_new_Some ns_new_Some split: option.splits)

lemma mg_handle_request_ok:
  assumes "wf_manager mg"
  shows "wf_manager (mg_handle_request q mg)" "routed mg \<Longrightarrow> routed (mg_handle_request q mg)"
proof -
  define m where "m = (if req_method q = Prack then route_prack q mg else mg)"
  have m: "wf_manager m" "routed mg \<Longrightarrow> routed m"
    using assms route_prack_ok [OF assms] by (simp_all add: m_def)
  have eq: "mg_handle_request q mg =
      (case Option.bind (id_from_request q) (map_of (mg_id_to_handle m)) of
         Some h \<Rightarrow> act (\<lambda>t. \<not> is_client t) (txn_request q) h m
       | None \<Rightarrow> create_server_transaction q m)"
    by (simp only: mg_handle_request_act Let_def m_def)
  have free: "table m tid = None"
    if "Option.bind (id_from_request q) (map_of (mg_id_to_handle m)) = None" "id_from_request q = Some tid" for tid
    using that by (simp add: table_def)
  show "wf_manager (mg_handle_request q mg)"
    using create_server_ok(1) [OF m(1)] act_ok(1) [OF m(1), of "txn_request q"]
    by (simp add: eq split: option.split)
  assume "routed mg"
  then have r: "routed m" by (rule m(2))
  show "routed (mg_handle_request q mg)"
  proof (cases "Option.bind (id_from_request q) (map_of (mg_id_to_handle m))")
    case None
    then show ?thesis using create_server_ok(2) [OF m(1) r, of q] free [OF None] by (simp add: eq)
  next
    case (Some h)
    then show ?thesis using act_ok(2) [OF m(1), of "txn_request q"] r by (simp add: eq)
  qed
qed

lemma mg_handle_response_ok:
  assumes "wf_manager mg"
  shows "wf_manager (mg_handle_response r mg)" "routed mg \<Longrightarrow> routed (mg_handle_response r mg)"
  using act_ok(1,2) [OF assms, of "txn_receive r"] assms
  by (simp_all add: mg_handle_response_act split: option.split)

text \<open>A caller that starts client transactions only under identifiers not in use.\<close>

fun fresh_calls :: "manager_call list \<Rightarrow> manager \<Rightarrow> bool" where
  "fresh_calls [] mg = True"
| "fresh_calls (c # cs) mg =
     ((case c of
         Create q \<Rightarrow> (case id_from_request q of Some tid \<Rightarrow> table mg tid = None | None \<Rightarrow> True)
       | _ \<Rightarrow> True) \<and>
      fresh_calls cs (mg_step c mg))"

lemma mg_step_wf: assumes "wf_manager mg" shows "wf_manager (mg_step c mg)"
proof (cases c)
  case Cleanup
  then show ?thesis using purged_wf [OF assms cleanup_terminated_purged [OF assms]] by simp
qed (use assms create_client_ok(1) [OF assms] mg_handle_request_ok(1) [OF assms]
      mg_handle_response_ok(1) [OF assms] act_ok(1) [OF assms] in
    \<open>auto simp: mg_handle_message_def mg_handle_timeout_act mg_send_response_act
      mg_handle_transport_error_act mg_poll_actions_def split: message.split\<close>)

lemma mg_step_routed:
  assumes "wf_manager mg" "routed mg" "fresh_calls [c] mg" shows "routed (mg_step c mg)"
proof (cases c)
  case Cleanup
  then show ?thesis
    using purged_routed(1) [OF assms(1,2) cleanup_terminated_purged [OF assms(1)]] by simp
next
  case (Create q)
  then show ?thesis
    using create_client_ok(2) [OF assms(1,2), of q] assms(3) by (auto split: option.splits)
qed (use assms mg_handle_request_ok(2) [OF assms(1)] mg_handle_response_ok(2) [OF assms(1)]
      act_ok(2) [OF assms(1)] in
    \<open>auto simp: mg_handle_message_def mg_handle_timeout_act mg_send_response_act
      mg_handle_transport_error_act mg_poll_actions_def split: message.split\<close>)

lemma mg_new_ok: "wf_manager (mg_new reliable)" "routed (mg_new reliable)"
  by (simp_all add: wf_manager_def mg_new_def distinct_tables_def typed_def at_def routed_def)

lemma mg_run_wf: "wf_manager mg \<Longrightarrow> wf_manager (fold mg_step calls mg)"
  by (induction calls arbitrary: mg) (simp_all add: mg_step_wf del: mg_step.simps)

lemma mg_run_routed:
  "wf_manager mg \<Longrightarrow> routed mg \<Longrightarrow> fresh_calls calls mg \<Longrightarrow> routed (fold mg_step calls mg)"
proof (induction calls arbitrary: mg)
  case (Cons c cs)
  then have "fresh_calls [c] mg" by simp
  from mg_step_routed [OF Cons.prems(1,2) this] mg_step_wf [OF Cons.prems(1)] Cons show ?case
    by (simp del: mg_step.simps)
qed simp

subsection \<open>The abstract table of transactions\<close>

text \<open>What each call means for the transactions by identifier; \<open>who\<close> resolves a handle.\<close>

definition new_client :: "bool \<Rightarrow> sip_request \<Rightarrow> txn option" where
  "new_client reliable q =
     (if req_method q = Invite then map_option TIC (ic_new q reliable) else map_option TNC (nc_new q reliable))"

definition new_server :: "bool \<Rightarrow> sip_request \<Rightarrow> txn option" where
  "new_server reliable q =
     (if req_method q = Invite then map_option TIS (is_new q reliable)
      else if req_method q = Ack then None
      else map_option TNS (ns_new q reliable))"

definition add_txn :: "txn option \<Rightarrow> (transaction_id \<rightharpoonup> txn) \<Rightarrow> (transaction_id \<rightharpoonup> txn)" where
  "add_txn new T = (case new of Some t \<Rightarrow> T(txn_id t \<mapsto> drain_txn t) | None \<Rightarrow> T)"

definition apply_txn ::
  "(txn \<Rightarrow> bool) \<Rightarrow> (txn \<Rightarrow> txn) \<Rightarrow> transaction_id option \<Rightarrow> (transaction_id \<rightharpoonup> txn) \<Rightarrow> (transaction_id \<rightharpoonup> txn)"
  where
  "apply_txn guard f target T =
     (case target of
        Some tid \<Rightarrow> (case T tid of Some t \<Rightarrow> if guard t then T(tid \<mapsto> drain_txn (f t)) else T | None \<Rightarrow> T)
      | None \<Rightarrow> T)"

fun spec_call ::
  "bool \<Rightarrow> (handle \<rightharpoonup> transaction_id) \<Rightarrow> manager_call \<Rightarrow> (transaction_id \<rightharpoonup> txn) \<Rightarrow> (transaction_id \<rightharpoonup> txn)"
  where
  "spec_call reliable who (Create q) T = add_txn (new_client reliable q) T"
| "spec_call reliable who (Receive (MRequest q)) T =
     (if Option.bind (id_from_request q) T = None then add_txn (new_server reliable q) T
      else apply_txn (\<lambda>t. \<not> is_client t) (txn_request q) (id_from_request q) T)"
| "spec_call reliable who (Receive (MResponse r)) T = apply_txn is_client (txn_receive r) (id_from_response r) T"
| "spec_call reliable who (Expire h x) T = apply_txn (\<lambda>_. True) (txn_expire x) (who h) T"
| "spec_call reliable who (Respond h r) T = apply_txn (\<lambda>t. \<not> is_client t) (txn_respond r) (who h) T"
| "spec_call reliable who (Fail h) T = apply_txn (\<lambda>_. True) txn_error (who h) T"
| "spec_call reliable who Poll T = T"
| "spec_call reliable who Cleanup T =
     (\<lambda>tid. case T tid of Some t \<Rightarrow> if txn_terminated t then None else Some t | None \<Rightarrow> None)"

text \<open>
  A PRACK first acknowledges a provisional response of one INVITE server transaction with its Call-ID and
  From tag. Several may have them, since the manager takes the first one it meets in a hash map, so that
  the specification leaves the choice open. Then it is handled like any other request.
\<close>

definition prack_targets :: "sip_request \<Rightarrow> (transaction_id \<rightharpoonup> txn) \<Rightarrow> transaction_id set" where
  "prack_targets q T =
     {tid. req_method q = Prack \<and> req_rack q \<noteq> None \<and>
        (\<exists>tx call_id from_tag. T tid = Some (TIS tx) \<and> req_call_id q = Inr call_id \<and>
           req_from_tag q = Inr from_tag \<and> matches_invite_dialog call_id from_tag tx)}"

definition prack_step :: "sip_request \<Rightarrow> (transaction_id \<rightharpoonup> txn) \<Rightarrow> (transaction_id \<rightharpoonup> txn) \<Rightarrow> bool" where
  "prack_step q T T' \<longleftrightarrow>
     (if prack_targets q T = {} then T' = T
      else \<exists>tid \<in> prack_targets q T.
        T' = apply_txn (\<lambda>_. True) (txn_prack (rack_rseq (the (req_rack q)))) (Some tid) T)"

fun spec_step ::
  "bool \<Rightarrow> (handle \<rightharpoonup> transaction_id) \<Rightarrow> manager_call \<Rightarrow> (transaction_id \<rightharpoonup> txn) \<Rightarrow> (transaction_id \<rightharpoonup> txn) \<Rightarrow> bool"
  where
  "spec_step reliable who (Receive (MRequest q)) T T' \<longleftrightarrow>
     (\<exists>T1. prack_step q T T1 \<and> T' = spec_call reliable who (Receive (MRequest q)) T1)"
| "spec_step reliable who c T T' \<longleftrightarrow> T' = spec_call reliable who c T"

lemma table_routed: "routed mg \<Longrightarrow> at mg h = Some t \<Longrightarrow> table mg (txn_id t) = Some t"
  by (simp add: routed_def table_def)

lemma table_act_at:
  assumes "wf_manager mg" "routed mg" "\<And>t. txn_id (f t) = txn_id t" "\<And>t. txn_type (f t) = txn_type t"
  shows "table (act guard f h mg) = apply_txn guard f (map_option txn_id (at mg h)) (table mg)"
  using act_ok(3) [OF assms(1,3,4,2)] table_routed [OF assms(2)]
  by (auto simp: apply_txn_def split: option.split)

lemma table_act_id:
  assumes "wf_manager mg" "routed mg" "\<And>t. txn_id (f t) = txn_id t" "\<And>t. txn_type (f t) = txn_type t"
    and "map_of (mg_id_to_handle mg) tid = Some h"
  shows "table (act guard f h mg) = apply_txn guard f (Some tid) (table mg)"
  using table_act_at [OF assms(1-4), of guard h] wf_owner [OF assms(1,5)] by auto

lemma table_poll: "table (snd (mg_poll_actions mg)) = table mg"
  by (rule ext) (simp add: table_def at_def mg_poll_actions_def Option.bind_def
      cong: option.case_cong transaction_type.case_cong)

text \<open>A request after its PRACK part.\<close>

lemma request_spec:
  assumes "wf_manager mg" "routed mg"
  shows "table (case Option.bind (id_from_request q) (map_of (mg_id_to_handle mg)) of
        Some h \<Rightarrow> act (\<lambda>t. \<not> is_client t) (txn_request q) h mg
      | None \<Rightarrow> create_server_transaction q mg) =
    spec_call (mg_reliable mg) who (Receive (MRequest q)) (table mg)"
proof -
  have none: "Option.bind (id_from_request q) (table mg) = None \<longleftrightarrow>
      Option.bind (id_from_request q) (map_of (mg_id_to_handle mg)) = None"
    using table_None [OF assms(1)] by (cases "id_from_request q") simp_all
  show ?thesis
  proof (cases "Option.bind (id_from_request q) (map_of (mg_id_to_handle mg))")
    case None
    then show ?thesis
      using enter_ok(3) [OF assms(1)] skip_handle(3) [OF assms(1)] none
      by (simp add: create_server_enter add_txn_def new_server_def split: option.split)
  next
    case (Some h)
    then obtain tid where "id_from_request q = Some tid" "map_of (mg_id_to_handle mg) tid = Some h"
      by (auto simp: bind_eq_Some_conv)
    then show ?thesis
      using table_act_id [OF assms(1,2), of "txn_request q" tid h] none Some by auto
  qed
qed

lemma invite_server_at:
  assumes "wf_manager mg" "map_of (mg_invite_servers mg) h = Some tx" shows "at mg h = Some (TIS tx)"
proof -
  have "typed mg h" using assms(1) by (simp add: wf_manager_def)
  with assms(2) show ?thesis by (simp add: typed_def at_def)
qed

lemma table_invite_server:
  assumes "table mg tid = Some (TIS tx)" shows "\<exists>h. (h, tx) \<in> set (mg_invite_servers mg)"
proof -
  obtain h where "at mg h = Some (TIS tx)" using assms by (auto simp: table_def bind_eq_Some_conv)
  then have "map_of (mg_invite_servers mg) h = Some tx"
    by (cases "map_of (mg_handle_to_type mg) h") (auto simp: at_def split: transaction_type.splits)
  then show ?thesis by (blast dest: map_of_SomeD)
qed

lemma route_prack_spec:
  assumes "wf_manager mg" "routed mg" "req_method q = Prack"
  shows "prack_step q (table mg) (table (route_prack q mg))"
proof (cases "\<exists>rack call_id from_tag. req_rack q = Some rack \<and> req_call_id q = Inr call_id \<and> req_from_tag q = Inr from_tag")
  case False
  then have "prack_targets q (table mg) = {}" by (auto simp: prack_targets_def)
  moreover have "route_prack q mg = mg"
    using False by (auto simp: route_prack_def split: option.splits sum.splits)
  ultimately show ?thesis by (simp add: prack_step_def)
next
  case True
  then obtain rack call_id from_tag where q: "req_rack q = Some rack" "req_call_id q = Inr call_id"
    "req_from_tag q = Inr from_tag" by blast
  let ?P = "\<lambda>(h, tx). matches_invite_dialog call_id from_tag tx"
  show ?thesis
  proof (cases "find ?P (mg_invite_servers mg)")
    case None
    then have "\<not> matches_invite_dialog call_id from_tag tx" if "(h, tx) \<in> set (mg_invite_servers mg)" for h tx
      using that by (auto simp: find_None_iff)
    then have "prack_targets q (table mg) = {}" using q table_invite_server by (fastforce simp: prack_targets_def)
    moreover have "route_prack q mg = mg" using None q by (simp add: route_prack_def)
    ultimately show ?thesis by (simp add: prack_step_def)
  next
    case (Some x)
    obtain h tx where x: "x = (h, tx)" by (cases x)
    with Some have m: "(h, tx) \<in> set (mg_invite_servers mg)" "matches_invite_dialog call_id from_tag tx"
      using nth_mem by (fastforce simp: find_Some_iff)+
    have "distinct (map fst (mg_invite_servers mg))" using assms(1) by (simp add: wf_manager_def distinct_tables_def)
    with m(1) have tx: "map_of (mg_invite_servers mg) h = Some tx" by simp
    note at = invite_server_at [OF assms(1) tx]
    have "route_prack q mg = act (\<lambda>_. True) (txn_prack (rack_rseq rack)) h mg"
      using q Some x tx at by (simp add: route_prack_def collect_settle act_def)
    then have "table (route_prack q mg) =
        apply_txn (\<lambda>_. True) (txn_prack (rack_rseq (the (req_rack q)))) (Some (is_id tx)) (table mg)"
      using table_act_at [OF assms(1,2), of "txn_prack (rack_rseq rack)" "\<lambda>_. True" h] at q(1) by simp
    moreover have "is_id tx \<in> prack_targets q (table mg)"
      using table_routed [OF assms(2) at] q m(2) assms(3) by (auto simp: prack_targets_def)
    ultimately show ?thesis by (auto simp: prack_step_def)
  qed
qed

lemma mg_step_spec:
  assumes "wf_manager mg" "routed mg"
  shows "spec_step (mg_reliable mg) (\<lambda>h. map_option txn_id (at mg h)) c (table mg) (table (mg_step c mg))"
proof (cases c)
  case (Create q)
  then show ?thesis
    using enter_ok(3) [OF assms(1)] skip_handle(3) [OF assms(1)]
    by (simp add: create_client_enter add_txn_def new_client_def split: option.split)
next
  case (Receive msg)
  show ?thesis
  proof (cases msg)
    case (MRequest q)
    define m where "m = (if req_method q = Prack then route_prack q mg else mg)"
    have m: "wf_manager m" "routed m" "mg_reliable m = mg_reliable mg"
      using assms route_prack_ok [OF assms(1)]
      by (simp_all add: m_def route_prack_def collect_settle split: option.split sum.split)
    have "prack_step q (table mg) (table m)"
    proof (cases "req_method q = Prack")
      case True
      then show ?thesis using route_prack_spec [OF assms True] by (simp add: m_def)
    qed (simp add: m_def prack_step_def prack_targets_def)
    moreover have "table (mg_step c mg) =
        spec_call (mg_reliable mg) (\<lambda>h. map_option txn_id (at mg h)) (Receive (MRequest q)) (table m)"
      unfolding m(3) [symmetric] request_spec [OF m(1,2), symmetric]
      by (simp only: Receive MRequest mg_step.simps mg_handle_message_def message.case mg_handle_request_act
          Let_def m_def [symmetric])
    ultimately show ?thesis unfolding Receive MRequest by auto
  next
    case (MResponse r)
    show ?thesis
    proof (cases "Option.bind (id_from_response r) (map_of (mg_id_to_handle mg))")
      case None
      then show ?thesis
        using Receive MResponse
        by (cases "id_from_response r")
          (simp_all add: mg_handle_message_def mg_handle_response_act apply_txn_def table_def)
    next
      case (Some h)
      then obtain tid where "id_from_response r = Some tid" "map_of (mg_id_to_handle mg) tid = Some h"
        by (auto simp: bind_eq_Some_conv)
      then show ?thesis
        using table_act_id [OF assms(1,2), of "txn_receive r" tid h] Receive MResponse
        by (simp add: mg_handle_message_def mg_handle_response_act)
    qed
  qed
next
  case Cleanup
  then show ?thesis
    using purged_routed(2) [OF assms(1,2) cleanup_terminated_purged [OF assms(1)]] by (simp add: fun_eq_iff)
qed (use table_act_at [OF assms(1,2)] table_poll in
    \<open>simp_all add: mg_handle_timeout_act mg_send_response_act mg_handle_transport_error_act\<close>)

lemma fold_keeps: "(\<And>x s. f (g x s) = f s) \<Longrightarrow> f (fold g xs s) = f s"
  by (induction xs arbitrary: s) simp_all

lemma cleanup_reliable: "mg_reliable (cleanup_terminated mg) = mg_reliable mg"
  by (simp add: cleanup_terminated_def cleanup_invite_clients_def cleanup_non_invite_clients_def
      cleanup_invite_servers_def cleanup_non_invite_servers_def forget_def fold_keeps [where f = mg_reliable])

lemma reliable_kept: "mg_reliable (mg_step c mg) = mg_reliable mg"
proof (cases c)
  case (Receive msg)
  have act: "mg_reliable (act g f h m) = mg_reliable m" for g f h m
    by (simp add: act_def split: option.split)
  have enter: "mg_reliable (enter t m) = mg_reliable m" for t m
    by (simp add: enter_def register_def)
  have prack: "mg_reliable (route_prack q mg) = mg_reliable mg" for q
    by (simp add: route_prack_def collect_settle split: option.split sum.split)
  from Receive show ?thesis
    by (auto simp: mg_handle_message_def mg_handle_response_act mg_handle_request_act act prack enter
        create_server_enter Let_def split: message.split option.splits)
qed (simp_all add: create_client_enter mg_handle_timeout_act mg_send_response_act
    mg_handle_transport_error_act mg_poll_actions_def act_def enter_def register_def cleanup_reliable
    split: option.split)

lemma mg_run_reliable: "mg_reliable (fold mg_step calls mg) = mg_reliable mg"
  by (induction calls arbitrary: mg) (simp_all add: reliable_kept del: mg_step.simps)

section \<open>Properties\<close>

text \<open>
  C9. Whatever sequence of calls a transaction manager receives, its five tables stay consistent: no table
  holds a handle twice, a handle is registered with a type exactly when the one table of that type holds a
  transaction under it, every handle in use is below the counter that allots new ones, and an identifier
  resolves to a handle whose transaction has that very identifier.
\<close>
theorem manager_consistent: "wf_manager (fold mg_step calls (mg_new reliable))"
  by (rule mg_run_wf [OF mg_new_ok(1)])



end
