(* ===== verification/Dialog_Invite.thy ===== *)
theory Dialog_Invite
  imports Sip_Message
begin

text \<open>
  INVITE dialogs: \<open>dialog/state.rs\<close> and \<open>dialog/invite.rs\<close>.

  The dialog state with its identifier, sequence numbers and route set; the state machine of an INVITE
  dialog; and the builders of in-dialog requests. Random branches come from a library outside the
  repository: the text of the UUID is an argument \<open>uuid\<close> of the builders. Sequence numbers are 32-bit and
  wrap as in a release build; a panic is \<open>None\<close>.
\<close>

section \<open>Dialog state\<close>

record dialog_id =
  di_call_id :: string
  di_local_tag :: string
  di_remote_tag :: string

definition from_request_uac :: "sip_request \<Rightarrow> string \<Rightarrow> dialog_id option" where
  "from_request_uac request remote_tag =
     Option.bind (ok (req_call_id request)) (\<lambda>call_id.
     Option.bind (ok (req_from_tag request)) (\<lambda>local_tag.
     Some \<lparr>di_call_id = call_id, di_local_tag = local_tag, di_remote_tag = remote_tag\<rparr>))"

definition from_response_uac :: "sip_response \<Rightarrow> dialog_id option" where
  "from_response_uac response =
     Option.bind (ok (resp_call_id response)) (\<lambda>call_id.
     Option.bind (ok (resp_from_tag response)) (\<lambda>local_tag.
     Option.bind (resp_to_tag response) (\<lambda>remote_tag.
     Some \<lparr>di_call_id = call_id, di_local_tag = local_tag, di_remote_tag = remote_tag\<rparr>)))"

definition from_request_uas :: "sip_request \<Rightarrow> string \<Rightarrow> dialog_id option" where
  "from_request_uas request local_tag =
     Option.bind (ok (req_call_id request)) (\<lambda>call_id.
     Option.bind (ok (req_from_tag request)) (\<lambda>remote_tag.
     Some \<lparr>di_call_id = call_id, di_local_tag = local_tag, di_remote_tag = remote_tag\<rparr>))"

datatype dialog_state = Early | Confirmed | Terminating | Terminated

record dialog_routes =
  dr_routes :: "string list"
  dr_loose_routing :: bool

definition no_routes :: dialog_routes where
  "no_routes = \<lparr>dr_routes = [], dr_loose_routing = False\<rparr>"

definition from_record_route_values :: "string list \<Rightarrow> bool \<Rightarrow> dialog_routes" where
  "from_record_route_values values' reverse =
     (let record_routes = route_parse_all values';
          routes = map route_display record_routes
      in \<lparr>dr_routes = (if reverse then rev routes else routes),
          dr_loose_routing = (case record_routes of [] \<Rightarrow> False | rr # _ \<Rightarrow> rt_lr rr)\<rparr>)"

record dialog_info =
  dg_id :: dialog_id
  dg_state :: dialog_state
  dg_local_seq :: nat
  dg_remote_seq :: "nat option"
  dg_local_uri :: string
  dg_remote_uri :: string
  dg_remote_target :: string
  dg_local_contact :: string
  dg_route_set :: dialog_routes
  dg_secure :: bool

definition detect_secure_transport :: "sip_request \<Rightarrow> bool" where
  "detect_secure_transport request =
     (case req_via_headers_raw request of
        [] \<Rightarrow> False
      | first_via # _ \<Rightarrow>
          (case hdr_via_parse (trim (case strip_prefix ''Via:'' (trim first_via) of
                                       Some rest \<Rightarrow> rest | None \<Rightarrow> first_via)) of
             Inr via \<Rightarrow> eq_ignore_ascii_case (hv_protocol via) ''TLS''
           | Inl _ \<Rightarrow> False))"

definition contact_text :: "sip_uri option \<Rightarrow> string" where
  "contact_text u = (case u of Some uri \<Rightarrow> uri_display uri | None \<Rightarrow> [])"

definition from_invite_response_uac ::
  "sip_request \<Rightarrow> sip_response \<Rightarrow> dialog_state \<Rightarrow> dialog_info option" where
  "from_invite_response_uac request response state =
     Option.bind (from_response_uac response) (\<lambda>did.
     Option.bind (ok (req_from_uri request)) (\<lambda>local_uri.
     Option.bind (ok (req_to_uri request)) (\<lambda>remote_uri.
     Option.bind (resp_contact_uri response) (\<lambda>remote_target.
     Option.bind (ok (req_cseq request)) (\<lambda>local_seq.
     Some \<lparr>dg_id = did, dg_state = state, dg_local_seq = local_seq, dg_remote_seq = None,
           dg_local_uri = uri_display local_uri, dg_remote_uri = uri_display remote_uri,
           dg_remote_target = uri_display remote_target,
           dg_local_contact = contact_text (req_contact_uri request),
           dg_route_set = from_record_route_values (resp_record_routes response) True,
           dg_secure = detect_secure_transport request\<rparr>)))))"

definition from_invite_uas ::
  "sip_request \<Rightarrow> string \<Rightarrow> string \<Rightarrow> dialog_state \<Rightarrow> dialog_info option" where
  "from_invite_uas request local_tag local_contact state =
     Option.bind (ok (req_call_id request)) (\<lambda>call_id.
     Option.bind (ok (req_from_tag_and_uri request)) (\<lambda>(remote_tag, remote_uri).
     Option.bind (ok (req_to_uri request)) (\<lambda>local_uri.
     Option.bind (req_contact_uri request) (\<lambda>remote_target.
     Option.bind (ok (req_cseq request)) (\<lambda>remote_seq.
     Some \<lparr>dg_id = \<lparr>di_call_id = call_id, di_local_tag = local_tag, di_remote_tag = remote_tag\<rparr>,
           dg_state = state, dg_local_seq = 0, dg_remote_seq = Some remote_seq,
           dg_local_uri = uri_display local_uri, dg_remote_uri = uri_display remote_uri,
           dg_remote_target = uri_display remote_target, dg_local_contact = local_contact,
           dg_route_set = from_record_route_values (req_record_routes request) False,
           dg_secure = detect_secure_transport request\<rparr>)))))"

definition next_local_seq :: "dialog_info \<Rightarrow> nat \<times> dialog_info" where
  "next_local_seq info =
     (let seq = (dg_local_seq info + 1) mod 2 ^ 32 in (seq, info\<lparr>dg_local_seq := seq\<rparr>))"

definition update_remote_seq :: "nat \<Rightarrow> dialog_info \<Rightarrow> bool \<times> dialog_info" where
  "update_remote_seq seq info =
     (case dg_remote_seq info of
        None \<Rightarrow> (True, info\<lparr>dg_remote_seq := Some seq\<rparr>)
      | Some current \<Rightarrow>
          if current < seq then (True, info\<lparr>dg_remote_seq := Some seq\<rparr>) else (False, info))"

section \<open>The INVITE dialog\<close>

datatype role = RoleUac | RoleUas

datatype termination_reason = ByeSent | ByeFromPeer | Rejected nat | Cancelled | Failed string

datatype dialog_event = Established | Provisional sip_response | ReInvite sip_request
  | ByeReceived sip_request | DialogTerminated termination_reason | SessionProgress sip_response

datatype dialog_action = SendRequest sip_request | SendResponse sip_response | Emit dialog_event

record invite_dialog =
  dl_info :: dialog_info
  dl_role :: role
  dl_invite :: sip_request
  dl_actions :: "dialog_action list"
  dl_ack_sent :: bool

abbreviation dl_state :: "invite_dialog \<Rightarrow> dialog_state" where
  "dl_state d \<equiv> dg_state (dl_info d)"

definition dl_push :: "dialog_action list \<Rightarrow> invite_dialog \<Rightarrow> invite_dialog" where
  "dl_push as d = d\<lparr>dl_actions := dl_actions d @ as\<rparr>"

definition dl_set_state :: "dialog_state \<Rightarrow> invite_dialog \<Rightarrow> invite_dialog" where
  "dl_set_state s d = d\<lparr>dl_info := (dl_info d)\<lparr>dg_state := s\<rparr>\<rparr>"

definition new_uac :: "sip_request \<Rightarrow> invite_dialog" where
  "new_uac invite =
     \<lparr>dl_info = \<lparr>dg_id = \<lparr>di_call_id = [], di_local_tag = [], di_remote_tag = []\<rparr>, dg_state = Early,
                 dg_local_seq = (case req_cseq invite of Inr n \<Rightarrow> n | Inl _ \<Rightarrow> 1), dg_remote_seq = None,
                 dg_local_uri = contact_text (ok (req_from_uri invite)),
                 dg_remote_uri = contact_text (ok (req_to_uri invite)), dg_remote_target = [],
                 dg_local_contact = contact_text (req_contact_uri invite), dg_route_set = no_routes,
                 dg_secure = False\<rparr>,
      dl_role = RoleUac, dl_invite = invite, dl_actions = [], dl_ack_sent = False\<rparr>"

definition new_uas :: "sip_request \<Rightarrow> string \<Rightarrow> string \<Rightarrow> invite_dialog option" where
  "new_uas invite local_tag local_contact =
     Option.bind (from_invite_uas invite local_tag local_contact Early) (\<lambda>info.
     Some \<lparr>dl_info = info, dl_role = RoleUas, dl_invite = invite, dl_actions = [], dl_ack_sent = False\<rparr>)"

definition from_dialog_info :: "dialog_info \<Rightarrow> role \<Rightarrow> invite_dialog option" where
  "from_dialog_info info role =
     Option.bind (ok (qb_build
       (qb_set_cseq (max (dg_local_seq info) 1)
       (qb_set_call_id (di_call_id (dg_id info))
       (qb_to (dg_remote_uri info)
       (qb_from (dg_local_uri info) (di_local_tag (dg_id info))
       (qb_via ''0.0.0.0'' 5060 ''UDP'' ''z9hG4bKplaceholder''
       (qb_set_uri (dg_remote_uri info)
       (qb_set_method Invite qb_new))))))))) (\<lambda>invite.
     Some \<lparr>dl_info = info, dl_role = role, dl_invite = invite, dl_actions = [], dl_ack_sent = False\<rparr>)"

definition dl_is_terminated :: "invite_dialog \<Rightarrow> bool" where
  "dl_is_terminated d \<longleftrightarrow> dl_state d = Terminated"

definition dl_handle_response :: "sip_response \<Rightarrow> invite_dialog \<Rightarrow> invite_dialog" where
  "dl_handle_response response d =
     (if dl_role d \<noteq> RoleUac then d
      else
        let code = resp_status_code response in
        case dl_state d of
          Early \<Rightarrow>
            if 100 \<le> code \<and> code < 200 then
              if code \<noteq> 100 then
                let d = (case from_invite_response_uac (dl_invite d) response Early of
                           Some new_info \<Rightarrow> d\<lparr>dl_info := new_info\<rparr> | None \<Rightarrow> d);
                    d = (if code = 183 then dl_push [Emit (SessionProgress response)] d else d)
                in dl_push [Emit (Provisional response)] d
              else d
            else if 200 \<le> code \<and> code < 300 then
              dl_push [Emit Established]
                (case from_invite_response_uac (dl_invite d) response Confirmed of
                   Some new_info \<Rightarrow> d\<lparr>dl_info := new_info\<rparr> | None \<Rightarrow> dl_set_state Confirmed d)
            else if 300 \<le> code then
              dl_push [Emit (DialogTerminated (Rejected code))] (dl_set_state Terminated d)
            else d
        | _ \<Rightarrow> d)"

definition dl_handle_request :: "sip_request \<Rightarrow> invite_dialog \<Rightarrow> invite_dialog" where
  "dl_handle_request request d =
     (case req_cseq request of
        Inl _ \<Rightarrow> d
      | Inr cseq \<Rightarrow>
          (case req_method request of
             Bye \<Rightarrow>
               dl_push [Emit (ByeReceived request), Emit (DialogTerminated ByeFromPeer)]
                 (dl_set_state Terminated d)
           | Invite \<Rightarrow>
               if dl_state d = Confirmed then
                 (let (valid, info) = update_remote_seq cseq (dl_info d) in
                  if valid then dl_push [Emit (ReInvite request)] (d\<lparr>dl_info := info\<rparr>) else d)
               else d
           | Ack \<Rightarrow> if dl_role d = RoleUas \<and> dl_state d = Confirmed then d\<lparr>dl_ack_sent := True\<rparr> else d
           | Cancel \<Rightarrow>
               if dl_state d = Early \<and> dl_role d = RoleUas
               then dl_push [Emit (DialogTerminated Cancelled)] (dl_set_state Terminated d) else d
           | _ \<Rightarrow> d))"

definition dl_send_response :: "sip_response \<Rightarrow> invite_dialog \<Rightarrow> invite_dialog" where
  "dl_send_response response d =
     (if dl_role d \<noteq> RoleUas then d
      else
        let code = resp_status_code response in
        if 200 \<le> code \<and> code < 300 \<and> dl_state d = Early then
          dl_push [SendResponse response, Emit Established] (dl_set_state Confirmed d)
        else if 300 \<le> code \<and> dl_state d = Early then
          dl_push [SendResponse response, Emit (DialogTerminated (Rejected code))] (dl_set_state Terminated d)
        else dl_push [SendResponse response] d)"

section \<open>In-dialog requests\<close>

text \<open>The part the builders of \<open>PRACK\<close>, \<open>UPDATE\<close> and the other in-dialog requests have in common.\<close>

definition in_dialog_builder :: "string \<Rightarrow> sip_method \<Rightarrow> nat \<Rightarrow> dialog_info \<Rightarrow> request_builder" where
  "in_dialog_builder uuid method cseq info =
     qb_set_max_forwards 70
     (qb_set_cseq cseq
     (qb_set_call_id (di_call_id (dg_id info))
     (qb_set_to_tag (di_remote_tag (dg_id info))
     (qb_to (dg_remote_uri info)
     (qb_from (dg_local_uri info) (di_local_tag (dg_id info))
     (qb_via ''0.0.0.0'' 5060 ''UDP'' (''z9hG4bK'' @ uuid)
     (qb_set_uri (dg_remote_target info)
     (qb_set_method method qb_new))))))))"

definition with_contact :: "dialog_info \<Rightarrow> request_builder \<Rightarrow> request_builder" where
  "with_contact info b = (if dg_local_contact info \<noteq> [] then qb_contact (dg_local_contact info) b else b)"

definition build_in_dialog_request_with ::
  "string \<Rightarrow> sip_method \<Rightarrow> nat \<Rightarrow> (string \<times> string) list \<Rightarrow> invite_dialog \<Rightarrow> sip_request option" where
  "build_in_dialog_request_with uuid method cseq extra_headers d =
     ok (qb_build (fold (\<lambda>(name, value). qb_header name value) extra_headers
       (with_contact (dl_info d)
         (qb_set_route (dr_routes (dg_route_set (dl_info d)))
           (in_dialog_builder uuid method cseq (dl_info d))))))"

definition build_in_dialog_request :: "string \<Rightarrow> sip_method \<Rightarrow> nat \<Rightarrow> invite_dialog \<Rightarrow> sip_request option" where
  "build_in_dialog_request uuid method cseq d = build_in_dialog_request_with uuid method cseq [] d"

definition dl_send_bye :: "string \<Rightarrow> invite_dialog \<Rightarrow> sip_request option \<times> invite_dialog" where
  "dl_send_bye uuid d =
     (if dl_state d \<noteq> Confirmed then (None, d)
      else
        let d = dl_set_state Terminating d;
            (cseq, info) = next_local_seq (dl_info d);
            d = d\<lparr>dl_info := info\<rparr>
        in case build_in_dialog_request uuid Bye cseq d of
             None \<Rightarrow> (None, d)
           | Some bye \<Rightarrow> (Some bye, dl_push [SendRequest bye] d))"

definition build_prack :: "string \<Rightarrow> sip_response \<Rightarrow> invite_dialog \<Rightarrow> (sip_request \<times> invite_dialog) option" where
  "build_prack uuid to d =
     (let rseq = (case resp_rseq to of Some r \<Rightarrow> r | None \<Rightarrow> 0);
          cseq_orig = (case resp_cseq to of Inr n \<Rightarrow> n | Inl _ \<Rightarrow> 0)
      in Option.bind (ok (resp_cseq_method to)) (\<lambda>cseq_method.
         let (cseq, info) = next_local_seq (dl_info d);
             d = d\<lparr>dl_info := info\<rparr>
         in Option.bind (ok (qb_build (with_contact info
              (qb_set_route (dr_routes (dg_route_set info))
                (qb_set_rack rseq cseq_orig cseq_method (in_dialog_builder uuid Prack cseq info))))))
              (\<lambda>request. Some (request, d))))"

definition allowed_methods :: "sip_method list" where
  "allowed_methods = [Invite, Ack, Bye, Cancel, Options, Prack, Update]"

definition build_update :: "string \<Rightarrow> nat option \<Rightarrow> invite_dialog \<Rightarrow> (sip_request \<times> invite_dialog) option" where
  "build_update uuid session_expires d =
     (let (cseq, info) = next_local_seq (dl_info d);
          d = d\<lparr>dl_info := info\<rparr>;
          b = with_contact info
                (qb_set_route (dr_routes (dg_route_set info))
                  (qb_set_allow allowed_methods (in_dialog_builder uuid Update cseq info)));
          b = (case session_expires of
                 Some secs \<Rightarrow> qb_set_supported [''timer''] (qb_set_session_expires secs (Some Uac) b)
               | None \<Rightarrow> b)
      in Option.bind (ok (qb_build b)) (\<lambda>request. Some (request, d)))"

definition dl_handle_update :: "sip_request \<Rightarrow> invite_dialog \<Rightarrow> sip_response option" where
  "dl_handle_update req d =
     (let b = pb_set_allow allowed_methods (pb_from_request req (pb_status 200 ''OK'' pb_new));
          b = (if dg_local_contact (dl_info d) \<noteq> [] then pb_contact (dg_local_contact (dl_info d)) b else b);
          b = (case req_session_expires req of
                 Some se \<Rightarrow> pb_set_session_expires (se_delta_seconds se) (se_refresher se) b
               | None \<Rightarrow> b)
      in ok (pb_build b))"

definition build_bye_with_reason :: "string \<Rightarrow> string \<Rightarrow> invite_dialog \<Rightarrow> sip_request option \<times> invite_dialog" where
  "build_bye_with_reason uuid reason d =
     (if dl_state d \<noteq> Confirmed then (None, d)
      else
        let cseq = min (dg_local_seq (dl_info d) + 1) (2 ^ 32 - 1) in
        case build_in_dialog_request_with uuid Bye cseq [(''Reason'', reason)] d of
          None \<Rightarrow> (None, d)
        | Some bye \<Rightarrow>
            (Some bye, dl_push [SendRequest bye]
               (d\<lparr>dl_info := (dl_info d)\<lparr>dg_local_seq := cseq, dg_state := Terminating\<rparr>\<rparr>)))"

definition dl_poll_actions :: "invite_dialog \<Rightarrow> dialog_action list \<times> invite_dialog" where
  "dl_poll_actions d = (dl_actions d, d\<lparr>dl_actions := []\<rparr>)"

definition ack_sent :: "invite_dialog \<Rightarrow> invite_dialog" where
  "ack_sent d = d\<lparr>dl_ack_sent := True\<rparr>"

definition is_ack_complete :: "invite_dialog \<Rightarrow> bool" where
  "is_ack_complete d = dl_ack_sent d"

section \<open>Histories of a dialog\<close>

text \<open>One call on a dialog, with the request it built, if any.\<close>

inductive dl_step :: "invite_dialog \<Rightarrow> sip_request option \<Rightarrow> invite_dialog \<Rightarrow> bool" where
  response: "dl_step d None (dl_handle_response r d)"
| request: "dl_step d None (dl_handle_request q d)"
| respond: "dl_step d None (dl_send_response r d)"
| ack: "dl_step d None (ack_sent d)"
| bye: "dl_send_bye uuid d = (built, d') \<Longrightarrow> dl_step d built d'"
| bye_reason: "build_bye_with_reason uuid reason d = (built, d') \<Longrightarrow> dl_step d built d'"
| prack: "build_prack uuid r d = Some (q, d') \<Longrightarrow> dl_step d (Some q) d'"
| update: "build_update uuid se d = Some (q, d') \<Longrightarrow> dl_step d (Some q) d'"

inductive dl_run :: "invite_dialog \<Rightarrow> nat \<Rightarrow> sip_request list \<Rightarrow> invite_dialog \<Rightarrow> bool" where
  start: "dl_run d 0 [] d"
| more: "dl_run d n qs d' \<Longrightarrow> dl_step d' built d'' \<Longrightarrow>
    dl_run d (Suc n) (qs @ (case built of Some q \<Rightarrow> [q] | None \<Rightarrow> [])) d''"

lemma dl_push_simps [simp]:
  "dl_info (dl_push as d) = dl_info d" "dl_role (dl_push as d) = dl_role d"
  "dl_invite (dl_push as d) = dl_invite d" "dl_ack_sent (dl_push as d) = dl_ack_sent d"
  "dl_actions (dl_push as d) = dl_actions d @ as"
  by (simp_all add: dl_push_def)

lemma dl_set_state_simps [simp]:
  "dl_info (dl_set_state st d) = (dl_info d)\<lparr>dg_state := st\<rparr>" "dl_role (dl_set_state st d) = dl_role d"
  "dl_invite (dl_set_state st d) = dl_invite d" "dl_ack_sent (dl_set_state st d) = dl_ack_sent d"
  "dl_actions (dl_set_state st d) = dl_actions d"
  by (simp_all add: dl_set_state_def)

subsection \<open>Sequence numbers\<close>

lemma built_cseq:
  assumes "qb_build b = Inr q" "qb_cseq b = Some c" "c < 2 ^ 32"
    and "list_all (\<lambda>(n, v). plain_header (HOther n v)) (qb_other_headers b)"
  shows "req_cseq q = Inr c"
proof -
  obtain m u fu ft tu ci cs vh vb where b: "qb_cseq b = Some cs"
    and hs: "rq_headers q = request_headers b m fu ft tu ci cs vh vb"
    by (rule qb_build_Inr [OF assms(1)]) blast
  have plain: "list_all plain_header (rq_headers q)"
    unfolding hs by (rule plain_request_headers [OF assms(4)])
  have "cseq_parse (to_dec c @ '' '' @ sip_method_display (method_from_parser m)) =
      Inr \<lparr>cs_seq = c, cs_method = m\<rparr>"
    using cseq_parse_display [of "\<lparr>cs_seq = c, cs_method = m\<rparr>"] assms(3)
    by (simp add: cseq_display_def wf_cseq_def p_method_as_str_display [symmetric] del: p_method_as_str_display)
  with b assms(2) show ?thesis
    by (simp add: req_cseq_def h_cseq_def required_value_def get_first_value_plain [OF plain, unfolded hs] hs request_lookup)
qed

lemma in_dialog_cseq [simp]: "qb_cseq (in_dialog_builder uuid m c info) = Some c"
  by (simp add: in_dialog_builder_def qb_set_max_forwards_def qb_set_cseq_def)

lemma in_dialog_other [simp]: "qb_other_headers (in_dialog_builder uuid m c info) = []"
  by (simp add: in_dialog_builder_def qb_set_max_forwards_def qb_set_cseq_def qb_set_call_id_def
      qb_set_to_tag_def qb_to_def qb_from_def qb_via_def qb_set_uri_def qb_set_method_def qb_new_def
      split: sum.split)

lemma with_contact_simps [simp]:
  "qb_cseq (with_contact info b) = qb_cseq b" "qb_other_headers (with_contact info b) = qb_other_headers b"
  by (simp_all add: with_contact_def qb_contact_def split: sum.split)

lemma plain_reason [simp]: "plain_header (HOther ''Reason'' v)"
  by (simp add: plain_header_def known_names_def ascii_simps)

lemmas builder_fields = qb_set_route_def qb_set_rack_def qb_set_allow_def qb_set_supported_def
  qb_set_session_expires_def qb_header_def

lemma in_dialog_request_cseq:
  assumes "build_in_dialog_request_with uuid m c extra d = Some q" "c < 2 ^ 32"
    and "extra = [] \<or> extra = [(''Reason'', reason)]"
  shows "req_cseq q = Inr c"
  using assms unfolding build_in_dialog_request_with_def ok_Some_iff
  by (elim built_cseq) (auto simp: builder_fields)

text \<open>Each request built takes the next number.\<close>

lemma built_next_seq:
  assumes "dl_step d (Some q) d'" "dg_local_seq (dl_info d) + 1 < 2 ^ 32"
  shows "req_cseq q = Inr (dg_local_seq (dl_info d) + 1) \<and>
    dg_local_seq (dl_info d') = dg_local_seq (dl_info d) + 1"
  using assms(1)
proof cases
  case (bye uuid)
  then show ?thesis
    using assms(2)
    by (auto simp: dl_send_bye_def next_local_seq_def build_in_dialog_request_def Let_def
        elim: in_dialog_request_cseq split: if_splits option.splits)
next
  case (bye_reason uuid reason)
  then show ?thesis
    using assms(2)
    by (auto simp: build_bye_with_reason_def Let_def min_def
        elim: in_dialog_request_cseq split: if_splits option.splits)
next
  case (prack uuid r)
  then show ?thesis
    using assms(2)
    by (auto simp: build_prack_def next_local_seq_def Let_def bind_eq_Some_conv ok_Some_iff builder_fields
        elim: built_cseq)
next
  case (update uuid se)
  then show ?thesis
    using assms(2)
    by (auto simp: build_update_def next_local_seq_def Let_def bind_eq_Some_conv ok_Some_iff builder_fields
        elim!: built_cseq split: option.splits)
qed

subsection \<open>States only move forward\<close>

fun dialog_rank :: "dialog_state \<Rightarrow> nat" where
  "dialog_rank Early = 0"
| "dialog_rank Confirmed = 1"
| "dialog_rank Terminating = 2"
| "dialog_rank Terminated = 3"

lemma from_invite_response_uac_state:
  "from_invite_response_uac q r st = Some info \<Longrightarrow> dg_state info = st"
  by (auto simp: from_invite_response_uac_def bind_eq_Some_conv)

lemma with_response_info:
  "dl_state (case from_invite_response_uac q r st of
      Some info \<Rightarrow> d\<lparr>dl_info := info\<rparr> | None \<Rightarrow> d') =
    (if from_invite_response_uac q r st = None then dl_state d' else st)"
  "dl_actions (case from_invite_response_uac q r st of
      Some info \<Rightarrow> d\<lparr>dl_info := info\<rparr> | None \<Rightarrow> d') =
    (if from_invite_response_uac q r st = None then dl_actions d' else dl_actions d)"
  by (simp_all add: from_invite_response_uac_state split: option.split)

text \<open>What a step does to the state and which events it adds.\<close>

definition emitted :: "dialog_action list \<Rightarrow> dialog_event list" where
  "emitted = List.map_filter (\<lambda>a. case a of Emit e \<Rightarrow> Some e | _ \<Rightarrow> None)"

lemma emitted_simps [simp]:
  "emitted [] = []" "emitted (SendRequest q # as) = emitted as" "emitted (SendResponse r # as) = emitted as"
  "emitted (Emit e # as) = e # emitted as" "emitted (xs @ ys) = emitted xs @ emitted ys"
  by (simp_all add: emitted_def map_filter_simps map_filter_def)

fun ends :: "dialog_event \<Rightarrow> bool" where
  "ends (DialogTerminated _) = True"
| "ends _ = False"

text \<open>The reports of a dialog fit its state.\<close>

definition reported :: "invite_dialog \<Rightarrow> bool" where
  "reported d \<longleftrightarrow>
     (case dl_state d of
        Early \<Rightarrow> count_list (emitted (dl_actions d)) Established = 0 \<and> filter ends (emitted (dl_actions d)) = []
      | Confirmed \<Rightarrow>
          count_list (emitted (dl_actions d)) Established = 1 \<and> filter ends (emitted (dl_actions d)) = []
      | Terminating \<Rightarrow>
          count_list (emitted (dl_actions d)) Established = 1 \<and> filter ends (emitted (dl_actions d)) = []
      | Terminated \<Rightarrow>
          count_list (emitted (dl_actions d)) Established \<le> 1 \<and> filter ends (emitted (dl_actions d)) \<noteq> [])"

definition step_ok :: "invite_dialog \<Rightarrow> invite_dialog \<Rightarrow> bool" where
  "step_ok d d' \<longleftrightarrow>
     dialog_rank (dl_state d) \<le> dialog_rank (dl_state d') \<and> (reported d \<longrightarrow> reported d')"

lemma handle_response_ok: "step_ok d (dl_handle_response r d)"
  by (cases "dl_state d")
    (auto simp: step_ok_def reported_def dl_handle_response_def Let_def with_response_info)

lemma handle_request_ok: "step_ok d (dl_handle_request q d)"
  by (cases "dl_state d"; cases "req_method q")
    (auto simp: step_ok_def reported_def dl_handle_request_def update_remote_seq_def Let_def
      split: sum.split option.split)

lemma send_response_ok: "step_ok d (dl_send_response r d)"
  by (cases "dl_state d") (auto simp: step_ok_def reported_def dl_send_response_def Let_def)

lemma send_bye_ok: "dl_send_bye uuid d = (built, d') \<Longrightarrow> step_ok d d'"
  by (auto simp: step_ok_def reported_def dl_send_bye_def next_local_seq_def Let_def
      split: if_splits option.splits)

lemma bye_with_reason_ok: "build_bye_with_reason uuid reason d = (built, d') \<Longrightarrow> step_ok d d'"
  by (auto simp: step_ok_def reported_def build_bye_with_reason_def Let_def split: if_splits option.splits)

lemma step_ok_same: "dl_state d' = dl_state d \<Longrightarrow> dl_actions d' = dl_actions d \<Longrightarrow> step_ok d d'"
  by (auto simp: step_ok_def reported_def split: dialog_state.splits)

lemma build_ok:
  "build_prack uuid r d = Some (q, d') \<Longrightarrow> step_ok d d'"
  "build_update uuid se d = Some (q, d') \<Longrightarrow> step_ok d d'"
  by (auto simp: build_prack_def build_update_def next_local_seq_def Let_def bind_eq_Some_conv
      intro!: step_ok_same)

lemma ack_sent_ok: "step_ok d (ack_sent d)"
  by (simp add: ack_sent_def step_ok_same)

lemma dl_step_ok: "dl_step d built d' \<Longrightarrow> step_ok d d'"
  by (cases rule: dl_step.cases)
    (auto intro: handle_response_ok handle_request_ok send_response_ok ack_sent_ok send_bye_ok
      bye_with_reason_ok build_ok)

lemma dl_run_ok: "dl_run d n qs d' \<Longrightarrow> step_ok d d'"
proof (induction rule: dl_run.induct)
  case (more d n qs d' built d'')
  with dl_step_ok [OF more(2)] show ?case by (auto simp: step_ok_def)
qed (simp add: step_ok_def)

lemma fresh_reported:
  "reported (new_uac invite)" "new_uas invite tag contact = Some d \<Longrightarrow> reported d"
  by (auto simp: reported_def new_uac_def new_uas_def from_invite_uas_def bind_eq_Some_conv)

text \<open>Past the early state a step advances the sequence number by at most one, and by exactly one when
  it builds a request.\<close>

lemma dl_step_seq:
  assumes "dl_step d built d'" "dl_state d \<noteq> Early" "dg_local_seq (dl_info d) + 1 < 2 ^ 32"
  shows "dg_local_seq (dl_info d) \<le> dg_local_seq (dl_info d') \<and>
    dg_local_seq (dl_info d') \<le> dg_local_seq (dl_info d) + 1"
proof (cases built)
  case (Some q)
  with built_next_seq [of d q d'] assms show ?thesis by simp
next
  case None
  with assms(1) show ?thesis
  proof cases
    case (response r)
    then show ?thesis using assms(2) by (cases "dl_state d") (simp_all add: dl_handle_response_def Let_def)
  next
    case (request q)
    then show ?thesis
      by (cases "req_method q") (auto simp: dl_handle_request_def update_remote_seq_def Let_def
        split: sum.split option.split)
  next
    case (bye uuid)
    then show ?thesis using assms(3) None
      by (auto simp: dl_send_bye_def next_local_seq_def Let_def split: if_splits option.splits)
  next
    case (bye_reason uuid reason)
    then show ?thesis using None
      by (auto simp: build_bye_with_reason_def Let_def split: if_splits option.splits)
  qed (auto simp: dl_send_response_def ack_sent_def Let_def)
qed

lemma dl_run_seq:
  assumes "dl_run d n qs d'" "dl_state d \<noteq> Early" "dg_local_seq (dl_info d) + n < 2 ^ 32"
  shows "dg_local_seq (dl_info d) \<le> dg_local_seq (dl_info d') \<and>
    dg_local_seq (dl_info d') \<le> dg_local_seq (dl_info d) + n \<and>
    (\<exists>cs. map req_cseq qs = map Inr cs \<and> sorted_wrt (<) cs \<and>
       (\<forall>c \<in> set cs. dg_local_seq (dl_info d) < c \<and> c \<le> dg_local_seq (dl_info d')))"
  using assms
proof (induction rule: dl_run.induct)
  case (more d n qs d' built d'')
  then obtain cs where ih: "dg_local_seq (dl_info d) \<le> dg_local_seq (dl_info d')"
    "dg_local_seq (dl_info d') \<le> dg_local_seq (dl_info d) + n" "map req_cseq qs = map Inr cs"
    "sorted_wrt (<) cs" "\<forall>c \<in> set cs. dg_local_seq (dl_info d) < c \<and> c \<le> dg_local_seq (dl_info d')"
    by auto
  have "dl_state d' \<noteq> Early"
    using dl_run_ok [OF more(1)] more.prems(1) by (cases "dl_state d"; cases "dl_state d'") (auto simp: step_ok_def)
  then have seq: "dg_local_seq (dl_info d') \<le> dg_local_seq (dl_info d'')"
    "dg_local_seq (dl_info d'') \<le> dg_local_seq (dl_info d') + 1"
    using dl_step_seq [OF more(2)] ih(2) more.prems(2) by auto
  show ?case
  proof (cases built)
    case None
    with ih seq show ?thesis by (auto intro!: exI [of _ cs])
  next
    case (Some q)
    with built_next_seq [of d' q d''] more(2) ih(2) more.prems(2)
    have "req_cseq q = Inr (dg_local_seq (dl_info d''))" "dg_local_seq (dl_info d'') = dg_local_seq (dl_info d') + 1"
      by auto
    moreover from this ih(5) have "\<forall>c \<in> set cs. c < dg_local_seq (dl_info d'')" by auto
    ultimately show ?thesis
      using Some ih seq
      by (intro conjI exI [of _ "cs @ [dg_local_seq (dl_info d'')]"]) (auto simp: sorted_wrt_append)
  qed
qed simp

subsection \<open>In-dialog requests name the dialog\<close>

text \<open>The texts of a dialog can stand in a request: the URIs are printed URIs without a closing bracket
  and the tags are parameter values.\<close>

definition wf_dialog :: "dialog_info \<Rightarrow> bool" where
  "wf_dialog info \<longleftrightarrow>
     (\<exists>u. wf_uri u \<and> dg_remote_target info = uri_display u) \<and>
     (\<exists>u. wf_uri u \<and> CHR ''>'' \<notin> set (uri_display u) \<and> dg_local_uri info = uri_display u) \<and>
     (\<exists>u. wf_uri u \<and> CHR ''>'' \<notin> set (uri_display u) \<and> dg_remote_uri info = uri_display u) \<and>
     wf_hparam (''tag'', Some (di_local_tag (dg_id info))) \<and>
     wf_hparam (''tag'', Some (di_remote_tag (dg_id info)))"

lemma placeholder_via:
  "graphic ''0.0.0.0''" "sent_by_scan False ''0.0.0.0'' = Inr (length ''0.0.0.0'')"
  "graphic ''UDP''" "CHR ''/'' \<notin> set ''UDP''"
  by (simp_all add: ascii_simps)

lemma in_dialog_builder_fields:
  assumes "wf_dialog info"
  obtains ru lu tu where
    "wf_uri ru" "dg_remote_target info = uri_display ru"
    "wf_uri lu" "CHR ''>'' \<notin> set (uri_display lu)" "wf_uri tu" "CHR ''>'' \<notin> set (uri_display tu)"
    "in_dialog_builder uuid m c info =
       qb_new\<lparr>qb_method := Some (method_to_parser m), qb_uri := Some ru,
         qb_via_host := Some ''0.0.0.0'', qb_via_port := Some 5060, qb_via_transport := Some ''UDP'',
         qb_via_branch := Some (''z9hG4bK'' @ uuid), qb_from_uri := Some lu,
         qb_from_tag := Some (di_local_tag (dg_id info)), qb_to_uri := Some tu,
         qb_to_tag := Some (di_remote_tag (dg_id info)), qb_call_id := Some (di_call_id (dg_id info)),
         qb_cseq := Some c, qb_max_forwards := Some 70\<rparr>"
proof -
  from assms obtain ru lu tu where u: "wf_uri ru" "dg_remote_target info = uri_display ru"
    "wf_uri lu" "CHR ''>'' \<notin> set (uri_display lu)" "dg_local_uri info = uri_display lu"
    "wf_uri tu" "CHR ''>'' \<notin> set (uri_display tu)" "dg_remote_uri info = uri_display tu"
    unfolding wf_dialog_def by blast
  then show thesis
    by (intro that [of ru lu tu])
      (simp_all add: in_dialog_builder_def qb_set_max_forwards_def qb_set_cseq_def qb_set_call_id_def
        qb_set_to_tag_def qb_to_def qb_from_def qb_via_def qb_set_uri_def qb_set_method_def uri_parse_display
        qb_new_def)
qed

lemma with_contact_cases: "\<exists>u. with_contact info b = b\<lparr>qb_contact_uri := u\<rparr>"
proof (cases "uri_parse (dg_local_contact info)")
  case (Inl e)
  then have "with_contact info b = b\<lparr>qb_contact_uri := qb_contact_uri b\<rparr>"
    by (simp add: with_contact_def qb_contact_def)
  then show ?thesis by blast
next
  case (Inr u)
  then have "with_contact info b =
      b\<lparr>qb_contact_uri := (if dg_local_contact info \<noteq> [] then Some u else qb_contact_uri b)\<rparr>"
    by (simp add: with_contact_def qb_contact_def)
  then show ?thesis by blast
qed

lemma extra_headers:
  "fold (\<lambda>(name, value). qb_header name value) xs b =
     b\<lparr>qb_other_headers := qb_other_headers b @ xs\<rparr>"
  by (induction xs arbitrary: b) (auto simp: qb_header_def)

text \<open>The builder of an in-dialog request, field by field.\<close>

lemma in_dialog_request_builder:
  assumes "wf_dialog info"
  shows "\<exists>ru lu tu contact.
    wf_uri ru \<and> dg_remote_target info = uri_display ru \<and> wf_uri lu \<and> CHR ''>'' \<notin> set (uri_display lu) \<and>
    wf_uri tu \<and> CHR ''>'' \<notin> set (uri_display tu) \<and>
    fold (\<lambda>(name, value). qb_header name value) extra
      (with_contact info (qb_set_route routes (in_dialog_builder uuid m c info))) =
      qb_new\<lparr>qb_method := Some (method_to_parser m), qb_uri := Some ru,
         qb_via_host := Some ''0.0.0.0'', qb_via_port := Some 5060, qb_via_transport := Some ''UDP'',
         qb_via_branch := Some (''z9hG4bK'' @ uuid), qb_from_uri := Some lu,
         qb_from_tag := Some (di_local_tag (dg_id info)), qb_to_uri := Some tu,
         qb_to_tag := Some (di_remote_tag (dg_id info)), qb_call_id := Some (di_call_id (dg_id info)),
         qb_cseq := Some c, qb_max_forwards := Some 70, qb_routes := nonempty routes,
         qb_contact_uri := contact, qb_other_headers := extra\<rparr>"
proof (rule in_dialog_builder_fields [OF assms, of uuid m c])
  fix ru lu tu
  assume u: "wf_uri ru" "dg_remote_target info = uri_display ru" "wf_uri lu" "CHR ''>'' \<notin> set (uri_display lu)"
    "wf_uri tu" "CHR ''>'' \<notin> set (uri_display tu)"
    and b: "in_dialog_builder uuid m c info =
       qb_new\<lparr>qb_method := Some (method_to_parser m), qb_uri := Some ru,
         qb_via_host := Some ''0.0.0.0'', qb_via_port := Some 5060, qb_via_transport := Some ''UDP'',
         qb_via_branch := Some (''z9hG4bK'' @ uuid), qb_from_uri := Some lu,
         qb_from_tag := Some (di_local_tag (dg_id info)), qb_to_uri := Some tu,
         qb_to_tag := Some (di_remote_tag (dg_id info)), qb_call_id := Some (di_call_id (dg_id info)),
         qb_cseq := Some c, qb_max_forwards := Some 70\<rparr>"
  obtain contact where "with_contact info (qb_set_route routes (in_dialog_builder uuid m c info)) =
      (qb_set_route routes (in_dialog_builder uuid m c info))\<lparr>qb_contact_uri := contact\<rparr>"
    using with_contact_cases by blast
  with u show ?thesis
    by (intro exI [of _ ru] exI [of _ lu] exI [of _ tu] exI [of _ contact])
      (simp add: b extra_headers qb_set_route_def qb_new_def)
qed

lemma wf_in_dialog:
  assumes "wf_dialog info" "wf_hparam (''branch'', Some (''z9hG4bK'' @ uuid))" "c < 2 ^ 32"
    and "list_all (\<lambda>(n, v). plain_header (HOther n v)) extra"
  shows "wf_request_builder (fold (\<lambda>(name, value). qb_header name value) extra
    (with_contact info (qb_set_route routes (in_dialog_builder uuid m c info))))"
proof -
  have tags: "wf_hparam (''tag'', Some (di_local_tag (dg_id info)))"
    "wf_hparam (''tag'', Some (di_remote_tag (dg_id info)))"
    using assms(1) by (simp_all add: wf_dialog_def)
  from in_dialog_request_builder [OF assms(1), of extra routes uuid m c] obtain ru lu tu contact
    where u: "wf_uri ru" "wf_uri lu" "CHR ''>'' \<notin> set (uri_display lu)" "wf_uri tu"
      "CHR ''>'' \<notin> set (uri_display tu)"
    and b: "fold (\<lambda>(name, value). qb_header name value) extra
      (with_contact info (qb_set_route routes (in_dialog_builder uuid m c info))) =
      qb_new\<lparr>qb_method := Some (method_to_parser m), qb_uri := Some ru,
         qb_via_host := Some ''0.0.0.0'', qb_via_port := Some 5060, qb_via_transport := Some ''UDP'',
         qb_via_branch := Some (''z9hG4bK'' @ uuid), qb_from_uri := Some lu,
         qb_from_tag := Some (di_local_tag (dg_id info)), qb_to_uri := Some tu,
         qb_to_tag := Some (di_remote_tag (dg_id info)), qb_call_id := Some (di_call_id (dg_id info)),
         qb_cseq := Some c, qb_max_forwards := Some 70, qb_routes := nonempty routes,
         qb_contact_uri := contact, qb_other_headers := extra\<rparr>"
    by (elim exE conjE) (rule that)
  show ?thesis
    unfolding b wf_request_builder_def using u tags assms(2-4) placeholder_via
    by (simp only: qb_new_def request_builder.simps option.pred_inject simp_thms) simp
qed

lemma in_dialog_request_names:
  assumes "build_in_dialog_request_with uuid m c extra d = Some q" "wf_dialog (dl_info d)" "c < 2 ^ 32"
    and "wf_hparam (''branch'', Some (''z9hG4bK'' @ uuid))"
    and "list_all (\<lambda>(n, v). plain_header (HOther n v)) extra"
  shows "req_call_id q = Inr (di_call_id (dg_id (dl_info d))) \<and>
    req_from_tag q = Inr (di_local_tag (dg_id (dl_info d))) \<and>
    req_to_tag q = Some (di_remote_tag (dg_id (dl_info d))) \<and> req_method q = m \<and>
    req_cseq q = Inr c \<and> map_option uri_display (req_uri q) = Some (dg_remote_target (dl_info d))"
proof -
  let ?b = "fold (\<lambda>(name, value). qb_header name value) extra
      (with_contact (dl_info d) (qb_set_route (dr_routes (dg_route_set (dl_info d)))
         (in_dialog_builder uuid m c (dl_info d))))"
  have built: "qb_build ?b = Inr q"
    using assms(1) by (simp add: build_in_dialog_request_with_def ok_Some_iff)
  note fields = built_request_fields [OF built wf_in_dialog [OF assms(2,4,3,5)]]
  from in_dialog_request_builder [OF assms(2), of extra "dr_routes (dg_route_set (dl_info d))" uuid m c]
  show ?thesis using fields by (elim exE conjE) simp
qed

section \<open>Properties\<close>

definition sample_dialog :: invite_dialog where
  "sample_dialog =
     \<lparr>dl_info =
        \<lparr>dg_id = \<lparr>di_call_id = ''c1'', di_local_tag = ''f1'', di_remote_tag = ''t1''\<rparr>, dg_state = Confirmed,
         dg_local_seq = 7, dg_remote_seq = None, dg_local_uri = ''sip:a'', dg_remote_uri = ''sip:b'',
         dg_remote_target = ''sip:b'', dg_local_contact = [], dg_route_set = no_routes, dg_secure = False\<rparr>,
      dl_role = RoleUac, dl_invite = sample_invite, dl_actions = [], dl_ack_sent = False\<rparr>"

lemma sample_in_dialog_builder:
  assumes "dg_remote_target info = ''sip:b''" "dg_local_uri info = ''sip:a''" "dg_remote_uri info = ''sip:b''"
    and "dg_local_contact info \<in> {[], ''sip:a''}" "dr_routes (dg_route_set info) = []"
  shows "\<exists>q. qb_build (with_contact info (qb_set_route (dr_routes (dg_route_set info))
    (in_dialog_builder uuid m c info))) = Inr q"
  using assms(4)
  by (auto simp: assms(1-3,5) with_contact_def qb_contact_def qb_set_route_def nonempty_def in_dialog_builder_def
      qb_set_max_forwards_def qb_set_cseq_def qb_set_call_id_def qb_set_to_tag_def qb_to_def qb_from_def
      qb_via_def qb_set_uri_def qb_set_method_def qb_new_def simple_uri_parses qb_build_def push_all_eq
      request_headers_def emit_def body_headers_def MAX_HEADERS_def)

lemma sample_bye_built:
  assumes "dg_remote_target (dl_info d) = ''sip:b''" "dg_local_uri (dl_info d) = ''sip:a''"
    "dg_remote_uri (dl_info d) = ''sip:b''" "dg_local_contact (dl_info d) \<in> {[], ''sip:a''}"
    "dr_routes (dg_route_set (dl_info d)) = []" "dl_state d = Confirmed" "dg_local_seq (dl_info d) = 7"
  shows "\<exists>bye. dl_send_bye uuid d = (Some bye, dl_push [SendRequest bye]
    (d\<lparr>dl_info := (dl_info d)\<lparr>dg_state := Terminating, dg_local_seq := 8\<rparr>\<rparr>))"
proof -
  let ?d = "d\<lparr>dl_info := (dl_info d)\<lparr>dg_state := Terminating, dg_local_seq := 8\<rparr>\<rparr>"
  obtain bye where "build_in_dialog_request uuid Bye 8 ?d = Some bye"
    using sample_in_dialog_builder [of "dl_info ?d" uuid Bye 8] assms
    by (auto simp: build_in_dialog_request_def build_in_dialog_request_with_def)
  then show ?thesis using assms by (simp add: dl_send_bye_def next_local_seq_def dl_set_state_def)
qed

lemma sample_bye:
  "\<exists>bye. dl_send_bye uuid sample_dialog = (Some bye, dl_push [SendRequest bye]
     (sample_dialog\<lparr>dl_info := (dl_info sample_dialog)\<lparr>dg_state := Terminating, dg_local_seq := 8\<rparr>\<rparr>))"
  by (rule sample_bye_built) (simp_all add: sample_dialog_def no_routes_def)



text \<open>
  C33. The requests a dialog sends after it has left the early state carry strictly increasing CSeq numbers,
  all above the dialog's number at the start, whatever mixture of BYE, PRACK and UPDATE requests is built
  and whatever arrives in between, as long as the number stays within 32 bits.
\<close>
theorem dialog_cseq_increases:
  assumes "dl_run d n qs d'" "dl_state d \<noteq> Early" "dg_local_seq (dl_info d) + n < 2 ^ 32"
  shows "\<exists>cs. map req_cseq qs = map Inr cs \<and> sorted_wrt (<) cs \<and>
    (\<forall>c \<in> set cs. dg_local_seq (dl_info d) < c \<and> c \<le> dg_local_seq (dl_info d'))"
  using dl_run_seq [OF assms] by blast

theorem dialog_cseq_increases_witness:
  "\<exists>bye c. dl_send_bye ''u1'' sample_dialog = (Some bye, dl_push [SendRequest bye]
     (sample_dialog\<lparr>dl_info := (dl_info sample_dialog)\<lparr>dg_state := Terminating, dg_local_seq := 8\<rparr>\<rparr>)) \<and>
     req_cseq bye = Inr c \<and> 7 < c \<and> c \<le> 8"
proof -
  let ?d = "sample_dialog\<lparr>dl_info := (dl_info sample_dialog)\<lparr>dg_state := Terminating, dg_local_seq := 8\<rparr>\<rparr>"
  obtain bye where bye: "dl_send_bye ''u1'' sample_dialog = (Some bye, dl_push [SendRequest bye] ?d)"
    using sample_bye by blast
  have "dl_run sample_dialog (Suc 0) ([] @ (case Some bye of Some q \<Rightarrow> [q] | None \<Rightarrow> []))
      (dl_push [SendRequest bye] ?d)"
    by (rule dl_run.more [OF dl_run.start dl_step.bye [OF bye]])
  then have run: "dl_run sample_dialog (Suc 0) [bye] (dl_push [SendRequest bye] ?d)" by simp
  have "dl_state sample_dialog \<noteq> Early" "dg_local_seq (dl_info sample_dialog) + Suc 0 < 2 ^ 32"
    by (simp_all add: sample_dialog_def)
  from dialog_cseq_increases [OF run this] obtain c where "req_cseq bye = Inr c" "7 < c" "c \<le> 8"
    by (auto simp: sample_dialog_def)
  with bye show ?thesis by blast
qed

end
