(* ===== verification/Dialog_Manager.thy ===== *)
theory Dialog_Manager
  imports Dialog_Invite "HOL-Library.AList"
begin

text \<open>
  The dialog manager: \<open>dialog/manager.rs\<close>.

  Dialogs by handle, the index of established dialogs by identifier and the index of outgoing dialogs that
  wait for a response. The hash maps are association lists. The local tag of an incoming dialog comes from
  a library outside the repository and is an argument.
\<close>

type_synonym dialog_handle = nat

datatype dialog_manager_event = IncomingInvite sip_request | ManagerEvent dialog_event

datatype dialog_manager_action = DmSendRequest sip_request | DmSendResponse sip_response
  | DmEvent dialog_handle dialog_manager_event

record dialog_manager =
  dm_next_handle :: nat
  dm_dialogs :: "(dialog_handle \<times> invite_dialog) list"
  dm_id_to_handle :: "(dialog_id \<times> dialog_handle) list"
  dm_pending_uac :: "((string \<times> string) \<times> dialog_handle) list"
  dm_actions :: "dialog_manager_action list"
  dm_local_contact :: string

definition dm_new :: "string \<Rightarrow> dialog_manager" where
  "dm_new local_contact =
     \<lparr>dm_next_handle = 1, dm_dialogs = [], dm_id_to_handle = [], dm_pending_uac = [], dm_actions = [],
      dm_local_contact = local_contact\<rparr>"

definition dm_alloc_handle :: "dialog_manager \<Rightarrow> dialog_handle \<times> dialog_manager" where
  "dm_alloc_handle dm = (dm_next_handle dm, dm\<lparr>dm_next_handle := dm_next_handle dm + 1\<rparr>)"

definition create_dialog :: "sip_request \<Rightarrow> dialog_manager \<Rightarrow> dialog_handle option \<times> dialog_manager" where
  "create_dialog invite dm =
     (if req_method invite \<noteq> Invite then (None, dm)
      else
        let (h, dm) = dm_alloc_handle dm;
            d = new_uac invite
        in case (req_call_id invite, req_from_tag invite) of
             (Inr call_id, Inr from_tag) \<Rightarrow>
               (Some h, dm\<lparr>dm_pending_uac := AList.update (call_id, from_tag) h (dm_pending_uac dm),
                           dm_dialogs := AList.update h d (dm_dialogs dm)\<rparr>)
           | _ \<Rightarrow> (None, dm))"

fun dm_lift_action :: "dialog_handle \<Rightarrow> dialog_action \<Rightarrow> dialog_manager_action" where
  "dm_lift_action h (SendRequest req) = DmSendRequest req"
| "dm_lift_action h (SendResponse resp) = DmSendResponse resp"
| "dm_lift_action h (Emit event) = DmEvent h (ManagerEvent event)"

definition collect_dialog_actions :: "dialog_handle \<Rightarrow> dialog_manager \<Rightarrow> dialog_manager" where
  "collect_dialog_actions h dm =
     (case map_of (dm_dialogs dm) h of
        None \<Rightarrow> dm
      | Some d \<Rightarrow>
          (let (as, d) = dl_poll_actions d in
           dm\<lparr>dm_dialogs := AList.update h d (dm_dialogs dm),
              dm_actions := dm_actions dm @ map (dm_lift_action h) as\<rparr>))"

definition find_dialog_for_request :: "sip_request \<Rightarrow> dialog_manager \<Rightarrow> dialog_handle option" where
  "find_dialog_for_request request dm =
     Option.bind (ok (req_call_id request)) (\<lambda>call_id.
     Option.bind (ok (req_from_tag request)) (\<lambda>from_tag.
     Option.bind (req_to_tag request) (\<lambda>to_tag.
     map_of (dm_id_to_handle dm)
       \<lparr>di_call_id = call_id, di_local_tag = to_tag, di_remote_tag = from_tag\<rparr>)))"

definition create_uas_dialog ::
  "string \<Rightarrow> sip_request \<Rightarrow> dialog_manager \<Rightarrow> dialog_handle option \<times> dialog_manager" where
  "create_uas_dialog local_tag request dm =
     (let (h, dm) = dm_alloc_handle dm in
      case new_uas request local_tag (dm_local_contact dm) of
        None \<Rightarrow> (None, dm)
      | Some d \<Rightarrow>
          (Some h, dm\<lparr>dm_dialogs := AList.update h d (dm_dialogs dm),
                      dm_id_to_handle := AList.update (dg_id (dl_info d)) h (dm_id_to_handle dm),
                      dm_actions := dm_actions dm @ [DmEvent h (IncomingInvite request)]\<rparr>))"

definition dm_handle_request ::
  "string \<Rightarrow> sip_request \<Rightarrow> dialog_manager \<Rightarrow> dialog_handle option \<times> dialog_manager" where
  "dm_handle_request local_tag request dm =
     (case find_dialog_for_request request dm of
        Some h \<Rightarrow>
          (Some h,
           case map_of (dm_dialogs dm) h of
             Some d \<Rightarrow>
               collect_dialog_actions h
                 (dm\<lparr>dm_dialogs := AList.update h (dl_handle_request request d) (dm_dialogs dm)\<rparr>)
           | None \<Rightarrow> dm)
      | None \<Rightarrow>
          if req_method request = Invite then create_uas_dialog local_tag request dm else (None, dm))"

definition dm_response_handle :: "sip_response \<Rightarrow> dialog_manager \<Rightarrow> dialog_handle option" where
  "dm_response_handle response dm =
     Option.bind (ok (resp_call_id response)) (\<lambda>call_id.
     Option.bind (ok (resp_from_tag response)) (\<lambda>from_tag.
     case map_of (dm_pending_uac dm) (call_id, from_tag) of
       Some h \<Rightarrow> Some h
     | None \<Rightarrow>
         Option.bind (resp_to_tag response) (\<lambda>to_tag.
         map_of (dm_id_to_handle dm)
           \<lparr>di_call_id = call_id, di_local_tag = from_tag, di_remote_tag = to_tag\<rparr>)))"

definition dm_handle_response :: "sip_response \<Rightarrow> dialog_manager \<Rightarrow> dialog_handle option \<times> dialog_manager" where
  "dm_handle_response response dm =
     (case dm_response_handle response dm of
        None \<Rightarrow> (None, dm)
      | Some h \<Rightarrow>
          (Some h,
           case map_of (dm_dialogs dm) h of
             None \<Rightarrow> dm
           | Some d \<Rightarrow>
               (let d' = dl_handle_response response d;
                    dm = dm\<lparr>dm_dialogs := AList.update h d' (dm_dialogs dm)\<rparr>;
                    dm = (if dl_state d = Early \<and> dl_state d' = Confirmed then
                            dm\<lparr>dm_id_to_handle := AList.update (dg_id (dl_info d')) h (dm_id_to_handle dm),
                               dm_pending_uac := (case (resp_call_id response, resp_from_tag response) of
                                 (Inr call_id, Inr from_tag) \<Rightarrow>
                                   AList.delete (call_id, from_tag) (dm_pending_uac dm)
                               | _ \<Rightarrow> dm_pending_uac dm)\<rparr>
                          else dm)
                in collect_dialog_actions h dm)))"

definition dm_send_response :: "dialog_handle \<Rightarrow> sip_response \<Rightarrow> dialog_manager \<Rightarrow> dialog_manager" where
  "dm_send_response h response dm =
     (case map_of (dm_dialogs dm) h of
        None \<Rightarrow> dm
      | Some d \<Rightarrow>
          (let d' = dl_send_response response d;
               dm = dm\<lparr>dm_dialogs := AList.update h d' (dm_dialogs dm)\<rparr>;
               dm = (if dl_state d = Early \<and> dl_state d' = Confirmed then
                       dm\<lparr>dm_id_to_handle := AList.update (dg_id (dl_info d')) h (dm_id_to_handle dm)\<rparr>
                     else dm)
           in collect_dialog_actions h dm))"

definition dm_send_bye :: "string \<Rightarrow> dialog_handle \<Rightarrow> dialog_manager \<Rightarrow> sip_request option \<times> dialog_manager" where
  "dm_send_bye uuid h dm =
     (case map_of (dm_dialogs dm) h of
        None \<Rightarrow> (None, dm)
      | Some d \<Rightarrow>
          (let (bye, d) = dl_send_bye uuid d in
           (bye, collect_dialog_actions h (dm\<lparr>dm_dialogs := AList.update h d (dm_dialogs dm)\<rparr>))))"

definition dm_ack_sent :: "dialog_handle \<Rightarrow> dialog_manager \<Rightarrow> dialog_manager" where
  "dm_ack_sent h dm =
     (case map_of (dm_dialogs dm) h of
        None \<Rightarrow> dm
      | Some d \<Rightarrow> dm\<lparr>dm_dialogs := AList.update h (ack_sent d) (dm_dialogs dm)\<rparr>)"

definition dm_poll_actions :: "dialog_manager \<Rightarrow> dialog_manager_action list \<times> dialog_manager" where
  "dm_poll_actions dm = (dm_actions dm, dm\<lparr>dm_actions := []\<rparr>)"

definition dm_cleanup_terminated :: "dialog_manager \<Rightarrow> dialog_manager" where
  "dm_cleanup_terminated dm =
     (let to_remove = List.map_filter
            (\<lambda>(h, d). if dl_is_terminated d then Some (h, dg_id (dl_info d)) else None) (dm_dialogs dm)
      in fold (\<lambda>(h, did) dm. dm\<lparr>dm_dialogs := AList.delete h (dm_dialogs dm),
                                dm_id_to_handle := AList.delete did (dm_id_to_handle dm)\<rparr>) to_remove dm)"

section \<open>The indexes agree with the dialogs\<close>

text \<open>A dialog whose identifier no longer changes: one that left the early state, or one of the called side.\<close>

definition settled :: "invite_dialog \<Rightarrow> bool" where
  "settled d \<longleftrightarrow> dl_state d \<noteq> Early \<or> dl_role d = RoleUas"

definition keeps_id :: "invite_dialog \<Rightarrow> invite_dialog \<Rightarrow> bool" where
  "keeps_id d d' \<longleftrightarrow> (settled d \<longrightarrow> settled d' \<and> dg_id (dl_info d') = dg_id (dl_info d))"

lemma keeps_id_handle_response: "keeps_id d (dl_handle_response r d)"
  by (cases "dl_state d") (auto simp: keeps_id_def settled_def dl_handle_response_def Let_def)

lemma keeps_id_handle_request: "keeps_id d (dl_handle_request q d)"
  by (cases "req_method q") (auto simp: keeps_id_def settled_def dl_handle_request_def update_remote_seq_def Let_def
      split: sum.split option.split)

lemma keeps_id_send_response: "keeps_id d (dl_send_response r d)"
  by (auto simp: keeps_id_def settled_def dl_send_response_def Let_def)

lemma keeps_id_send_bye: "keeps_id d (snd (dl_send_bye uuid d))"
  by (auto simp: keeps_id_def settled_def dl_send_bye_def next_local_seq_def Let_def split: option.split)

lemma keeps_id_drain: "keeps_id d (d\<lparr>dl_actions := as\<rparr>)" "keeps_id d (ack_sent d)"
  by (simp_all add: keeps_id_def settled_def ack_sent_def)

lemma keeps_id_trans: "keeps_id d d' \<Longrightarrow> keeps_id d' d'' \<Longrightarrow> keeps_id d d''"
  by (auto simp: keeps_id_def)

definition distinct_indexes :: "dialog_manager \<Rightarrow> bool" where
  "distinct_indexes dm \<longleftrightarrow>
     distinct (map fst (dm_dialogs dm)) \<and> distinct (map fst (dm_id_to_handle dm)) \<and>
     distinct (map fst (dm_pending_uac dm))"

definition wf_dialogs :: "dialog_manager \<Rightarrow> bool" where
  "wf_dialogs dm \<longleftrightarrow>
     distinct_indexes dm \<and>
     (\<forall>h d. map_of (dm_dialogs dm) h = Some d \<longrightarrow> h < dm_next_handle dm \<and> dl_actions d = []) \<and>
     (\<forall>key h. map_of (dm_pending_uac dm) key = Some h \<longrightarrow> h < dm_next_handle dm) \<and>
     (\<forall>did h. map_of (dm_id_to_handle dm) did = Some h \<longrightarrow>
        (\<exists>d. map_of (dm_dialogs dm) h = Some d \<and> settled d \<and> dg_id (dl_info d) = did))"

lemma wf_dialogs_routed:
  assumes "wf_dialogs dm" "map_of (dm_id_to_handle dm) did = Some h"
  shows "\<exists>d. map_of (dm_dialogs dm) h = Some d \<and> settled d \<and> dg_id (dl_info d) = did"
  using assms unfolding wf_dialogs_def by blast

text \<open>The two ways a call changes an existing dialog: with its index entries as they are, or with a new
  entry for its identifier.\<close>

definition put_dialog :: "dialog_handle \<Rightarrow> invite_dialog \<Rightarrow> dialog_manager \<Rightarrow> dialog_manager" where
  "put_dialog h d dm =
     dm\<lparr>dm_dialogs := AList.update h (d\<lparr>dl_actions := []\<rparr>) (dm_dialogs dm),
        dm_actions := dm_actions dm @ map (dm_lift_action h) (dl_actions d)\<rparr>"

lemma update_twice: "AList.update k v (AList.update k v' xs) = AList.update k v xs"
  by (induction xs) auto

lemma collect_put: "collect_dialog_actions h (dm\<lparr>dm_dialogs := AList.update h d (dm_dialogs dm)\<rparr>) = put_dialog h d dm"
  by (simp add: collect_dialog_actions_def put_dialog_def dl_poll_actions_def update_conv' update_twice)

lemma put_dialog_simps [simp]:
  "dm_id_to_handle (put_dialog h d dm) = dm_id_to_handle dm"
  "dm_pending_uac (put_dialog h d dm) = dm_pending_uac dm"
  "dm_next_handle (put_dialog h d dm) = dm_next_handle dm"
  "dm_local_contact (put_dialog h d dm) = dm_local_contact dm"
  "dm_actions (put_dialog h d dm) = dm_actions dm @ map (dm_lift_action h) (dl_actions d)"
  "map_of (dm_dialogs (put_dialog h d dm)) = (map_of (dm_dialogs dm))(h \<mapsto> d\<lparr>dl_actions := []\<rparr>)"
  by (simp_all add: put_dialog_def update_conv')

lemma put_dialog_ok:
  assumes "wf_dialogs dm" "map_of (dm_dialogs dm) h = Some d" "keeps_id d d'"
  shows "wf_dialogs (put_dialog h d' dm)"
proof -
  have "distinct_indexes (put_dialog h d' dm)"
    using assms(1) by (simp add: wf_dialogs_def distinct_indexes_def put_dialog_def distinct_update)
  moreover have "\<exists>e. map_of (dm_dialogs (put_dialog h d' dm)) k = Some e \<and> settled e \<and> dg_id (dl_info e) = did"
    if did: "map_of (dm_id_to_handle dm) did = Some k" for did k
  proof (cases "k = h")
    case True
    with wf_dialogs_routed [OF assms(1) did] assms(2,3) show ?thesis
      by (auto simp: keeps_id_def settled_def)
  next
    case False
    with wf_dialogs_routed [OF assms(1) did] show ?thesis by simp
  qed
  moreover have "h < dm_next_handle dm" using assms(1,2) by (auto simp: wf_dialogs_def)
  ultimately show ?thesis using assms(1) unfolding wf_dialogs_def by (auto split: if_splits)
qed

lemma index_dialog_ok:
  assumes "wf_dialogs dm" "map_of (dm_dialogs dm) h = Some d" "settled d"
    and "\<forall>key k. map_of pending key = Some k \<longrightarrow> map_of (dm_pending_uac dm) key = Some k"
    and "distinct (map fst pending)"
  shows "wf_dialogs (dm\<lparr>dm_id_to_handle := AList.update (dg_id (dl_info d)) h (dm_id_to_handle dm),
    dm_pending_uac := pending\<rparr>)" (is "wf_dialogs ?dm")
proof -
  have "distinct_indexes ?dm"
    using assms(1,5) by (simp add: wf_dialogs_def distinct_indexes_def distinct_update)
  with assms(1-4) show ?thesis
    unfolding wf_dialogs_def by (fastforce simp: update_conv' split: if_splits)
qed

lemma next_handle_fresh: "wf_dialogs dm \<Longrightarrow> map_of (dm_dialogs dm) (dm_next_handle dm) = None"
  by (cases "map_of (dm_dialogs dm) (dm_next_handle dm)") (auto simp: wf_dialogs_def)

lemma skip_dialog_ok:
  "wf_dialogs dm \<Longrightarrow> wf_dialogs (dm\<lparr>dm_next_handle := dm_next_handle dm + 1\<rparr>)"
  unfolding wf_dialogs_def distinct_indexes_def by (auto intro: less_SucI)

lemma add_outgoing_ok:
  assumes "wf_dialogs dm" "dl_actions d = []"
  shows "wf_dialogs (dm\<lparr>dm_next_handle := dm_next_handle dm + 1,
    dm_pending_uac := AList.update key (dm_next_handle dm) (dm_pending_uac dm),
    dm_dialogs := AList.update (dm_next_handle dm) d (dm_dialogs dm)\<rparr>)" (is "wf_dialogs ?dm")
proof -
  have "distinct_indexes ?dm"
    using assms(1) by (simp add: wf_dialogs_def distinct_indexes_def distinct_update)
  with assms next_handle_fresh [OF assms(1)] show ?thesis
    unfolding wf_dialogs_def by (fastforce simp: update_conv' intro: less_SucI split: if_splits)
qed

lemma add_incoming_ok:
  assumes "wf_dialogs dm" "dl_actions d = []" "settled d"
  shows "wf_dialogs (dm\<lparr>dm_next_handle := dm_next_handle dm + 1,
    dm_dialogs := AList.update (dm_next_handle dm) d (dm_dialogs dm),
    dm_id_to_handle := AList.update (dg_id (dl_info d)) (dm_next_handle dm) (dm_id_to_handle dm),
    dm_actions := as\<rparr>)" (is "wf_dialogs ?dm")
proof -
  have "distinct_indexes ?dm"
    using assms(1) by (simp add: wf_dialogs_def distinct_indexes_def distinct_update)
  with assms next_handle_fresh [OF assms(1)] show ?thesis
    unfolding wf_dialogs_def by (fastforce simp: update_conv' intro: less_SucI split: if_splits)
qed

subsection \<open>Every call keeps them in agreement\<close>

lemma create_dialog_ok: "wf_dialogs dm \<Longrightarrow> wf_dialogs (snd (create_dialog q dm))"
  using skip_dialog_ok [of dm] add_outgoing_ok [of dm "new_uac q"]
  by (auto simp: create_dialog_def dm_alloc_handle_def new_uac_def split: sum.split)

lemma new_uas_settled:
  assumes "new_uas q tag contact = Some d"
  shows "settled d" "dl_actions d = []" "dl_role d = RoleUas" "dl_state d = Early"
  using assms by (auto simp: new_uas_def settled_def from_invite_uas_def bind_eq_Some_conv)

lemma create_uas_dialog_ok: "wf_dialogs dm \<Longrightarrow> wf_dialogs (snd (create_uas_dialog tag q dm))"
  using skip_dialog_ok [of dm] add_incoming_ok [of dm] new_uas_settled(1,2)
  by (auto simp: create_uas_dialog_def dm_alloc_handle_def split: option.split)

lemma dm_handle_request_put:
  "dm_handle_request tag q dm =
     (case find_dialog_for_request q dm of
        Some h \<Rightarrow>
          (Some h, case map_of (dm_dialogs dm) h of Some d \<Rightarrow> put_dialog h (dl_handle_request q d) dm | None \<Rightarrow> dm)
      | None \<Rightarrow> if req_method q = Invite then create_uas_dialog tag q dm else (None, dm))"
  by (simp add: dm_handle_request_def collect_put split: option.split)

lemma dm_handle_request_ok: "wf_dialogs dm \<Longrightarrow> wf_dialogs (snd (dm_handle_request tag q dm))"
  using create_uas_dialog_ok [of dm tag q] put_dialog_ok [of dm _ _ "dl_handle_request q _"]
    keeps_id_handle_request
  by (auto simp: dm_handle_request_put split: option.split)

text \<open>Indexing a dialog and collecting its actions commute.\<close>

lemma collect_index:
  "collect_dialog_actions h (dm\<lparr>dm_dialogs := AList.update h d (dm_dialogs dm),
     dm_id_to_handle := ids, dm_pending_uac := pending\<rparr>) =
   (put_dialog h d dm)\<lparr>dm_id_to_handle := ids, dm_pending_uac := pending\<rparr>"
  by (simp add: collect_dialog_actions_def put_dialog_def dl_poll_actions_def update_conv' update_twice)

lemma index_put_ok:
  assumes "wf_dialogs dm" "map_of (dm_dialogs dm) h = Some d" "keeps_id d d'" "settled d'"
    and "\<forall>key k. map_of pending key = Some k \<longrightarrow> map_of (dm_pending_uac dm) key = Some k"
    and "distinct (map fst pending)"
  shows "wf_dialogs ((put_dialog h d' dm)\<lparr>dm_id_to_handle :=
    AList.update (dg_id (dl_info d')) h (dm_id_to_handle dm), dm_pending_uac := pending\<rparr>)"
proof -
  have "map_of (dm_dialogs (put_dialog h d' dm)) h = Some (d'\<lparr>dl_actions := []\<rparr>)" by simp
  moreover have "settled (d'\<lparr>dl_actions := []\<rparr>)" using assms(4) by (simp add: settled_def)
  ultimately show ?thesis
    using index_dialog_ok [OF put_dialog_ok [OF assms(1-3)], of h "d'\<lparr>dl_actions := []\<rparr>" pending] assms(5,6)
    by simp
qed

lemma dm_handle_response_put:
  "dm_handle_response r dm =
     (case dm_response_handle r dm of
        None \<Rightarrow> (None, dm)
      | Some h \<Rightarrow>
          (Some h,
           case map_of (dm_dialogs dm) h of
             None \<Rightarrow> dm
           | Some d \<Rightarrow>
               if dl_state d = Early \<and> dl_state (dl_handle_response r d) = Confirmed then
                 (put_dialog h (dl_handle_response r d) dm)
                   \<lparr>dm_id_to_handle :=
                      AList.update (dg_id (dl_info (dl_handle_response r d))) h (dm_id_to_handle dm),
                    dm_pending_uac := (case (resp_call_id r, resp_from_tag r) of
                      (Inr call_id, Inr from_tag) \<Rightarrow> AList.delete (call_id, from_tag) (dm_pending_uac dm)
                    | _ \<Rightarrow> dm_pending_uac dm)\<rparr>
               else put_dialog h (dl_handle_response r d) dm))"
  by (auto simp: dm_handle_response_def collect_put Let_def collect_index split: option.split sum.split)

lemma dm_handle_response_ok:
  assumes "wf_dialogs dm" shows "wf_dialogs (snd (dm_handle_response r dm))"
proof -
  let ?pending = "case (resp_call_id r, resp_from_tag r) of
      (Inr call_id, Inr from_tag) \<Rightarrow> AList.delete (call_id, from_tag) (dm_pending_uac dm)
    | _ \<Rightarrow> dm_pending_uac dm"
  have pending: "\<forall>key k. map_of ?pending key = Some k \<longrightarrow> map_of (dm_pending_uac dm) key = Some k"
    by (auto simp: delete_conv' split: sum.split if_splits)
  have distinct: "distinct (map fst ?pending)"
    using assms by (auto simp: wf_dialogs_def distinct_indexes_def distinct_delete split: sum.split)
  have "settled d'" if "dl_state d' = Confirmed" for d' using that by (simp add: settled_def)
  then show ?thesis
    using assms put_dialog_ok [OF assms _ keeps_id_handle_response]
      index_put_ok [OF assms _ keeps_id_handle_response _ pending distinct]
    by (simp add: dm_handle_response_put split: option.split)
qed

lemma dm_send_response_put:
  "dm_send_response h r dm =
     (case map_of (dm_dialogs dm) h of
        None \<Rightarrow> dm
      | Some d \<Rightarrow>
          if dl_state d = Early \<and> dl_state (dl_send_response r d) = Confirmed then
            (put_dialog h (dl_send_response r d) dm)
              \<lparr>dm_id_to_handle := AList.update (dg_id (dl_info (dl_send_response r d))) h (dm_id_to_handle dm),
               dm_pending_uac := dm_pending_uac dm\<rparr>
          else put_dialog h (dl_send_response r d) dm)"
  using collect_index [where pending = "dm_pending_uac dm" and dm = dm]
  by (simp add: dm_send_response_def collect_put Let_def split: option.split)

lemma dm_send_response_ok:
  assumes "wf_dialogs dm" shows "wf_dialogs (dm_send_response h r dm)"
proof -
  have "distinct (map fst (dm_pending_uac dm))" using assms by (simp add: wf_dialogs_def distinct_indexes_def)
  moreover have "settled d'" if "dl_state d' = Confirmed" for d' using that by (simp add: settled_def)
  ultimately show ?thesis
    using assms put_dialog_ok [OF assms _ keeps_id_send_response]
      index_put_ok [OF assms _ keeps_id_send_response, where pending = "dm_pending_uac dm"]
    by (simp add: dm_send_response_put split: option.split)
qed

lemma dm_send_bye_put:
  "dm_send_bye uuid h dm =
     (case map_of (dm_dialogs dm) h of
        None \<Rightarrow> (None, dm)
      | Some d \<Rightarrow> (fst (dl_send_bye uuid d), put_dialog h (snd (dl_send_bye uuid d)) dm))"
  by (simp add: dm_send_bye_def collect_put case_prod_beta split: option.split)

lemma dm_send_bye_ok: "wf_dialogs dm \<Longrightarrow> wf_dialogs (snd (dm_send_bye uuid h dm))"
  using put_dialog_ok [OF _ _ keeps_id_send_bye] by (simp add: dm_send_bye_put split: option.split)

lemma dm_ack_sent_ok: assumes "wf_dialogs dm" shows "wf_dialogs (dm_ack_sent h dm)"
proof (cases "map_of (dm_dialogs dm) h")
  case (Some d)
  then have "dl_actions (ack_sent d) = []" using assms by (auto simp: wf_dialogs_def ack_sent_def)
  moreover from this have "(ack_sent d)\<lparr>dl_actions := []\<rparr> = ack_sent d" by (cases "ack_sent d") simp
  ultimately have "dm_ack_sent h dm = put_dialog h (ack_sent d) dm"
    using Some by (simp only: dm_ack_sent_def put_dialog_def) simp
  with put_dialog_ok [OF assms Some keeps_id_drain(2)] show ?thesis by simp
qed (use assms in \<open>simp add: dm_ack_sent_def\<close>)

lemma remove_fold:
  assumes "dm' = fold (\<lambda>(h, did) dm. dm\<lparr>dm_dialogs := AList.delete h (dm_dialogs dm),
      dm_id_to_handle := AList.delete did (dm_id_to_handle dm)\<rparr>) rs dm"
  shows "map_of (dm_dialogs dm') h = (if h \<in> fst ` set rs then None else map_of (dm_dialogs dm) h)"
    "map_of (dm_id_to_handle dm') did = (if did \<in> snd ` set rs then None else map_of (dm_id_to_handle dm) did)"
    "distinct_indexes dm \<Longrightarrow> distinct_indexes dm'" "dm_next_handle dm' = dm_next_handle dm"
    "dm_pending_uac dm' = dm_pending_uac dm" "dm_actions dm' = dm_actions dm"
  unfolding assms
  by (induction rs arbitrary: dm) (auto simp: delete_conv' distinct_indexes_def distinct_delete)

lemma in_map_filter: "x \<in> set (List.map_filter f xs) \<longleftrightarrow> (\<exists>y \<in> set xs. f y = Some x)"
  by (induction xs) (auto simp: map_filter_simps split: option.splits)

lemma cleanup_removes:
  assumes "wf_dialogs dm"
  shows "map_of (dm_dialogs (dm_cleanup_terminated dm)) h =
      (case map_of (dm_dialogs dm) h of
         Some d \<Rightarrow> if dl_is_terminated d then None else Some d | None \<Rightarrow> None)"
    "wf_dialogs (dm_cleanup_terminated dm)"
    "dm_pending_uac (dm_cleanup_terminated dm) = dm_pending_uac dm"
proof -
  let ?rs = "List.map_filter (\<lambda>(h, d). if dl_is_terminated d then Some (h, dg_id (dl_info d)) else None) (dm_dialogs dm)"
  have eq: "dm_cleanup_terminated dm = fold (\<lambda>(h, did) dm. dm\<lparr>dm_dialogs := AList.delete h (dm_dialogs dm),
      dm_id_to_handle := AList.delete did (dm_id_to_handle dm)\<rparr>) ?rs dm"
    by (simp add: dm_cleanup_terminated_def)
  note rm = remove_fold [OF eq]
  have "distinct (map fst (dm_dialogs dm))" using assms by (simp add: wf_dialogs_def distinct_indexes_def)
  then have rs: "(h, did) \<in> set ?rs \<longleftrightarrow>
      (\<exists>d. map_of (dm_dialogs dm) h = Some d \<and> dl_is_terminated d \<and> did = dg_id (dl_info d))" for h did
    by (auto simp: in_map_filter intro: bexI [rotated] split: if_splits)
  have gone: "h \<in> fst ` set ?rs \<longleftrightarrow> (\<exists>d. map_of (dm_dialogs dm) h = Some d \<and> dl_is_terminated d)" for h
  proof -
    have "h \<in> fst ` set ?rs \<longleftrightarrow> (\<exists>did. (h, did) \<in> set ?rs)" by force
    then show ?thesis unfolding rs by blast
  qed
  show at: "map_of (dm_dialogs (dm_cleanup_terminated dm)) h =
      (case map_of (dm_dialogs dm) h of
         Some d \<Rightarrow> if dl_is_terminated d then None else Some d | None \<Rightarrow> None)" for h
    unfolding rm(1) gone by (simp split: option.split)
  show "dm_pending_uac (dm_cleanup_terminated dm) = dm_pending_uac dm" by (rule rm(5))
  have "\<exists>d. map_of (dm_dialogs (dm_cleanup_terminated dm)) h = Some d \<and> settled d \<and> dg_id (dl_info d) = did"
    if kept: "map_of (dm_id_to_handle (dm_cleanup_terminated dm)) did = Some h" for did h
  proof -
    from kept have did: "did \<notin> snd ` set ?rs" "map_of (dm_id_to_handle dm) did = Some h"
      unfolding rm(2) by (simp_all split: if_splits)
    from wf_dialogs_routed [OF assms did(2)] obtain d
      where d: "map_of (dm_dialogs dm) h = Some d" "settled d" "dg_id (dl_info d) = did" by blast
    have "\<not> dl_is_terminated d"
    proof
      assume "dl_is_terminated d"
      with d have "(h, did) \<in> set ?rs" unfolding rs by blast
      then have "did \<in> snd ` set ?rs" by (rule rev_image_eqI) simp
      with did(1) show False by blast
    qed
    with d show ?thesis by (simp add: at)
  qed
  with assms rm(3) show "wf_dialogs (dm_cleanup_terminated dm)"
    unfolding wf_dialogs_def at rm(4,5) by (auto split: option.splits if_splits)
qed

text \<open>A manager after any sequence of calls.\<close>

inductive dm_step :: "dialog_manager \<Rightarrow> dialog_manager \<Rightarrow> bool" where
  "dm_step dm (snd (create_dialog q dm))"
| "dm_step dm (snd (dm_handle_request tag q dm))"
| "dm_step dm (snd (dm_handle_response r dm))"
| "dm_step dm (dm_send_response h r dm)"
| "dm_step dm (snd (dm_send_bye uuid h dm))"
| "dm_step dm (dm_ack_sent h dm)"
| "dm_step dm (snd (dm_poll_actions dm))"
| "dm_step dm (dm_cleanup_terminated dm)"

lemma poll_ok: "wf_dialogs dm \<Longrightarrow> wf_dialogs (snd (dm_poll_actions dm))"
proof -
  assume "wf_dialogs dm"
  moreover have "distinct_indexes (dm\<lparr>dm_actions := []\<rparr>) = distinct_indexes dm"
    by (simp add: distinct_indexes_def)
  ultimately show ?thesis by (simp add: dm_poll_actions_def wf_dialogs_def)
qed

lemma dm_step_ok: "dm_step dm dm' \<Longrightarrow> wf_dialogs dm \<Longrightarrow> wf_dialogs dm'"
  by (cases rule: dm_step.cases)
    (auto intro: create_dialog_ok dm_handle_request_ok dm_handle_response_ok dm_send_response_ok
      dm_send_bye_ok dm_ack_sent_ok poll_ok cleanup_removes(2))

lemma dm_new_ok: "wf_dialogs (dm_new contact)"
  by (simp add: dm_new_def wf_dialogs_def distinct_indexes_def)

lemma dm_reachable_ok: "dm_step\<^sup>*\<^sup>* (dm_new contact) dm \<Longrightarrow> wf_dialogs dm"
  by (induction rule: rtranclp_induct) (auto intro: dm_step_ok dm_new_ok)

subsection \<open>Pending outgoing dialogs\<close>

text \<open>
  The index of pending outgoing dialogs keeps entries of dialogs that were removed. An entry whose dialog is
  still there belongs to it: an outgoing dialog opened by an INVITE with the Call-ID and From tag of the entry.
\<close>

definition pending_own :: "dialog_manager \<Rightarrow> bool" where
  "pending_own dm \<longleftrightarrow>
     (\<forall>c f h d. map_of (dm_pending_uac dm) (c, f) = Some h \<longrightarrow> map_of (dm_dialogs dm) h = Some d \<longrightarrow>
        dl_role d = RoleUac \<and> req_call_id (dl_invite d) = Inr c \<and> req_from_tag (dl_invite d) = Inr f)"

definition same_origin :: "invite_dialog \<Rightarrow> invite_dialog \<Rightarrow> bool" where
  "same_origin d d' \<longleftrightarrow> dl_role d' = dl_role d \<and> dl_invite d' = dl_invite d"

lemma same_origin_handlers:
  "same_origin d (dl_handle_response r d)" "same_origin d (dl_handle_request q d)"
  "same_origin d (dl_send_response r d)" "same_origin d (snd (dl_send_bye uuid d))" "same_origin d (ack_sent d)"
proof -
  show "same_origin d (dl_handle_response r d)"
    by (cases "dl_state d") (auto simp: same_origin_def dl_handle_response_def Let_def split: option.split)
  show "same_origin d (dl_handle_request q d)"
    by (cases "req_method q"; cases "dl_state d")
      (auto simp: same_origin_def dl_handle_request_def update_remote_seq_def Let_def split: sum.split option.split)
  show "same_origin d (dl_send_response r d)"
    by (cases "dl_state d") (auto simp: same_origin_def dl_send_response_def Let_def)
  show "same_origin d (snd (dl_send_bye uuid d))"
    by (auto simp: same_origin_def dl_send_bye_def next_local_seq_def Let_def split: option.split)
qed (simp add: same_origin_def ack_sent_def)

lemma pending_put:
  assumes "pending_own dm" "map_of (dm_dialogs dm) h = Some d" "same_origin d d'"
  shows "pending_own (put_dialog h d' dm)"
  using assms by (auto simp: pending_own_def same_origin_def split: if_splits)

lemma pending_fewer:
  assumes "pending_own dm" "\<And>key k. map_of (dm_pending_uac dm') key = Some k \<Longrightarrow> map_of (dm_pending_uac dm) key = Some k"
    and "\<And>h d. map_of (dm_dialogs dm') h = Some d \<Longrightarrow> map_of (dm_dialogs dm) h = Some d"
  shows "pending_own dm'"
  using assms unfolding pending_own_def by blast

lemma pending_below:
  assumes "wf_dialogs dm" "map_of (dm_pending_uac dm) key = Some h" shows "h < dm_next_handle dm"
  using assms unfolding wf_dialogs_def by blast

lemma pending_create:
  assumes "wf_dialogs dm" "pending_own dm" shows "pending_own (snd (create_dialog q dm))"
  using assms(2) pending_below [OF assms(1)] next_handle_fresh [OF assms(1)]
  by (fastforce simp: create_dialog_def dm_alloc_handle_def pending_own_def update_conv' new_uac_def
      split: sum.split if_splits)

lemma pending_create_uas:
  assumes "wf_dialogs dm" "pending_own dm" shows "pending_own (snd (create_uas_dialog tag q dm))"
  using assms(2) pending_below [OF assms(1)]
  by (fastforce simp: create_uas_dialog_def dm_alloc_handle_def pending_own_def update_conv' split: option.split if_splits)

lemma pending_handle_request:
  assumes "wf_dialogs dm" "pending_own dm" shows "pending_own (snd (dm_handle_request tag q dm))"
  using assms pending_create_uas [OF assms] pending_put [OF assms(2) _ same_origin_handlers(2)]
  by (auto simp: dm_handle_request_put split: option.split)

lemma pending_handle_response:
  assumes "pending_own dm" shows "pending_own (snd (dm_handle_response r dm))"
proof -
  have fewer: "pending_own (dm'\<lparr>dm_id_to_handle := ids, dm_pending_uac := pending\<rparr>)"
    if "pending_own dm'" "\<And>key k. map_of pending key = Some k \<Longrightarrow> map_of (dm_pending_uac dm') key = Some k" for dm' ids pending
    using that by (intro pending_fewer [OF that(1)]) simp_all
  have del: "map_of (case (resp_call_id r, resp_from_tag r) of
        (Inr call_id, Inr from_tag) \<Rightarrow> AList.delete (call_id, from_tag) (dm_pending_uac dm)
      | _ \<Rightarrow> dm_pending_uac dm) key = Some k \<Longrightarrow> map_of (dm_pending_uac dm) key = Some k" for key k
    by (auto simp: delete_conv' split: sum.splits if_splits)
  show ?thesis
  proof (cases "dm_response_handle r dm")
    case (Some h)
    show ?thesis
    proof (cases "map_of (dm_dialogs dm) h")
      case (Some d)
      note put = pending_put [OF assms Some same_origin_handlers(1), of r]
      show ?thesis
        unfolding dm_handle_response_put \<open>dm_response_handle r dm = Some h\<close> option.case snd_conv Some
        using put fewer [OF put, where pending = "case (resp_call_id r, resp_from_tag r) of
            (Inr call_id, Inr from_tag) \<Rightarrow> AList.delete (call_id, from_tag) (dm_pending_uac dm)
          | _ \<Rightarrow> dm_pending_uac dm"] del by simp
    qed (simp add: dm_handle_response_put Some assms)
  qed (simp add: dm_handle_response_put assms)
qed

lemma pending_send_response:
  assumes "pending_own dm" shows "pending_own (dm_send_response h r dm)"
proof (cases "map_of (dm_dialogs dm) h")
  case (Some d)
  note put = pending_put [OF assms Some same_origin_handlers(3), of r]
  have "pending_own (put_dialog h (dl_send_response r d) dm\<lparr>dm_id_to_handle := ids, dm_pending_uac := dm_pending_uac dm\<rparr>)" for ids
    using put by (rule pending_fewer) simp_all
  with put Some show ?thesis by (simp add: dm_send_response_put)
qed (simp add: dm_send_response_put assms)

lemma pending_step:
  assumes "dm_step dm dm'" "wf_dialogs dm" "pending_own dm" shows "pending_own dm'"
  using assms(1)
proof cases
  case (1 q) with pending_create [OF assms(2,3)] show ?thesis by simp
next
  case (2 tag q) with pending_handle_request [OF assms(2,3)] show ?thesis by simp
next
  case (3 r) with pending_handle_response [OF assms(3)] show ?thesis by simp
next
  case (4 h r) with pending_send_response [OF assms(3)] show ?thesis by simp
next
  case (5 uuid h)
  with assms(3) pending_put [OF assms(3) _ same_origin_handlers(4)] show ?thesis
    by (simp add: dm_send_bye_put split: option.split)
next
  case (6 h)
  then show ?thesis
    using assms(3) same_origin_handlers(5)
    by (auto simp: dm_ack_sent_def pending_own_def same_origin_def update_conv' split: option.split if_splits)
next
  case 7
  with assms(3) show ?thesis by (simp add: dm_poll_actions_def pending_own_def)
next
  case 8
  show ?thesis unfolding 8
    by (rule pending_fewer [OF assms(3)])
      (simp_all add: cleanup_removes(1,3) [OF assms(2)] split: option.splits if_splits)
qed

lemma dm_reachable_pending: "dm_step\<^sup>*\<^sup>* (dm_new contact) dm \<Longrightarrow> pending_own dm"
proof (induction rule: rtranclp_induct)
  case base
  show ?case by (simp add: pending_own_def dm_new_def)
next
  case (step dm dm')
  show ?case by (rule pending_step [OF step(2) dm_reachable_ok [OF step(1)] step(3)])
qed

section \<open>A call between two managers\<close>

text \<open>An initial INVITE that can be answered under the given tag: headers as a parser delivers them, a To
  address without a tag, and a tag that is a legal parameter value.\<close>

definition answerable :: "sip_request \<Rightarrow> string \<Rightarrow> bool" where
  "answerable invite tag \<longleftrightarrow>
     req_method invite = Invite \<and> list_all wf_header (rq_headers invite) \<and> wf_hparam (''tag'', Some tag) \<and>
     (\<exists>na. find_map as_to (rq_headers invite) = Some (name_addr_display na) \<and> wf_name_addr na \<and>
        find (\<lambda>(k, _). eq_ignore_ascii_case k ''tag'') (na_parameters na) = None \<and>
        \<not> contains_sub ''tag='' (name_addr_display na))"

definition answer :: "string \<Rightarrow> string \<Rightarrow> string \<Rightarrow> sip_request \<Rightarrow> sip_error + sip_response" where
  "answer uri tag reason invite = pb_build (pb_contact uri (pb_to_tag tag (reply 200 reason invite)))"

lemma pb_contact_fields [simp]:
  "pb_via (pb_contact u b) = pb_via b" "pb_from (pb_contact u b) = pb_from b" "pb_to (pb_contact u b) = pb_to b"
  "pb_call_id (pb_contact u b) = pb_call_id b" "pb_status_code (pb_contact u b) = pb_status_code b"
  by (simp_all add: pb_contact_def split: sum.split)

lemma answerable_plain: "answerable invite tag \<Longrightarrow> list_all plain_header (rq_headers invite)"
  by (auto simp: answerable_def list_all_iff wf_header_plain)

lemma answerable_no_tag: assumes "answerable invite tag" shows "req_to_tag invite = None"
  using assms get_first_value_plain(3) [OF answerable_plain [OF assms]]
  by (auto simp: answerable_def req_to_tag_def h_to_tag_def to_parse_def name_addr_parse_display
      to_header_tag_def find_key_def)

lemma answer_names:
  assumes "answerable invite tag" "answer uri tag reason invite = Inr r"
  shows "resp_call_id r = req_call_id invite" "resp_from_tag r = req_from_tag invite"
    "resp_to_tag r = Some tag" "resp_status_code r = 200"
proof -
  let ?b = "pb_contact uri (pb_to_tag tag (reply 200 reason invite))"
  have r: "rs_headers r = response_headers ?b" "rs_status_code r = 200"
    using pb_build_Inr [of ?b r] assms(2) by (simp_all add: answer_def reply_fields)
  note plain = answerable_plain [OF assms(1)]
  have look: "get_first_value (rs_headers r) ''From'' = get_first_value (rq_headers invite) ''From''"
    "get_first_value (rs_headers r) ''Call-ID'' = get_first_value (rq_headers invite) ''Call-ID''"
    "get_first_value (rs_headers r) ''To'' = pb_to (pb_to_tag tag (reply 200 reason invite))"
    by (simp_all add: r get_first_value_plain plain plain_response_headers response_lookup reply_fields)
  then show "resp_call_id r = req_call_id invite" "resp_from_tag r = req_from_tag invite"
    "resp_status_code r = 200"
    by (simp_all add: resp_call_id_def req_call_id_def required_value_def resp_from_tag_def req_from_tag_def
        h_from_tag_def h_from_def resp_status_code_def r)
  from assms(1) obtain na where na: "find_map as_to (rq_headers invite) = Some (name_addr_display na)"
    "wf_name_addr na" "find (\<lambda>(k, _). eq_ignore_ascii_case k ''tag'') (na_parameters na) = None"
    "\<not> contains_sub ''tag='' (name_addr_display na)" "wf_hparam (''tag'', Some tag)"
    by (auto simp: answerable_def)
  with to_tag_added [OF na(2,3,5)] look show "resp_to_tag r = Some tag"
    by (simp add: resp_to_tag_def h_to_tag_def pb_to_tag_def reply_fields)
qed

lemma from_tag_and_uri_tag: "req_from_tag_and_uri q = Inr (t, u) \<Longrightarrow> req_from_tag q = Inr t"
  by (auto simp: req_from_tag_and_uri_def req_from_tag_def h_from_tag_def and_then_Inr_iff ok_or_Inr_iff)

text \<open>The called side: the INVITE opens a dialog that is found under the caller's mirrored identifier.\<close>

lemma callee_ready:
  assumes "answerable invite tag" "dm_handle_request tag invite dm = (Some h, dm')"
    and "answer uri tag reason invite = Inr r"
  shows "\<exists>c f d. req_call_id invite = Inr c \<and> req_from_tag invite = Inr f \<and>
    map_of (dm_dialogs (dm_send_response h r dm')) h = Some d \<and> dl_state d = Confirmed \<and> dl_actions d = [] \<and>
    map_of (dm_id_to_handle (dm_send_response h r dm'))
      \<lparr>di_call_id = c, di_local_tag = tag, di_remote_tag = f\<rparr> = Some h"
proof -
  have "find_dialog_for_request invite dm = None"
    using answerable_no_tag [OF assms(1)]
    by (cases "req_call_id invite"; cases "req_from_tag invite") (simp_all add: find_dialog_for_request_def)
  with assms(1,2) have create: "create_uas_dialog tag invite dm = (Some h, dm')"
    by (simp add: dm_handle_request_put answerable_def)
  then obtain d where d: "new_uas invite tag (dm_local_contact dm) = Some d"
    "map_of (dm_dialogs dm') h = Some d" "map_of (dm_id_to_handle dm') (dg_id (dl_info d)) = Some h"
    by (auto simp: create_uas_dialog_def dm_alloc_handle_def update_conv' split: option.splits)
  from d(1) obtain c f where id: "req_call_id invite = Inr c" "req_from_tag invite = Inr f"
    "dg_id (dl_info d) = \<lparr>di_call_id = c, di_local_tag = tag, di_remote_tag = f\<rparr>"
    by (auto simp: new_uas_def from_invite_uas_def bind_eq_Some_conv ok_Some_iff dest: from_tag_and_uri_tag)
  note new = new_uas_settled [OF d(1)]
  have "dl_send_response r d = dl_push [SendResponse r, Emit Established] (dl_set_state Confirmed d)"
    using new answer_names(4) [OF assms(1,3)] by (simp add: dl_send_response_def)
  then show ?thesis
    using d(2) id new by (auto simp: dm_send_response_put update_conv')
qed

text \<open>The calling side: the answer confirms the dialog with the information it carries.\<close>

lemma caller_ready:
  assumes "answerable invite tag" "create_dialog invite dm = (Some h, dm')"
    and "answer uri tag reason invite = Inr r" "from_invite_response_uac invite r Confirmed = Some info"
  shows "fst (dm_handle_response r dm') = Some h \<and>
    (\<exists>d. map_of (dm_dialogs (snd (dm_handle_response r dm'))) h = Some d \<and> dl_info d = info \<and> dl_state d = Confirmed)"
proof -
  from assms(2) obtain c f where c: "req_call_id invite = Inr c" "req_from_tag invite = Inr f"
    "map_of (dm_pending_uac dm') (c, f) = Some h" "map_of (dm_dialogs dm') h = Some (new_uac invite)"
    by (auto simp: create_dialog_def dm_alloc_handle_def update_conv' split: if_splits sum.splits)
  note names = answer_names [OF assms(1,3)]
  have "dm_response_handle r dm' = Some h" using c names by (simp add: dm_response_handle_def)
  moreover have "dl_handle_response r (new_uac invite) =
      dl_push [Emit Established] ((new_uac invite)\<lparr>dl_info := info\<rparr>)"
    using names(4) assms(4) by (simp add: dl_handle_response_def new_uac_def)
  moreover have "dg_state info = Confirmed" by (rule from_invite_response_uac_state [OF assms(4)])
  ultimately show ?thesis
    using c(4) by (simp add: dm_handle_response_put new_uac_def)
qed

lemma bye_names:
  assumes "dl_send_bye uuid d = (Some bye, d')" "wf_dialog (dl_info d)"
    and "dg_local_seq (dl_info d) + 1 < 2 ^ 32" "wf_hparam (''branch'', Some (''z9hG4bK'' @ uuid))"
  shows "req_call_id bye = Inr (di_call_id (dg_id (dl_info d))) \<and>
    req_from_tag bye = Inr (di_local_tag (dg_id (dl_info d))) \<and>
    req_to_tag bye = Some (di_remote_tag (dg_id (dl_info d))) \<and> req_method bye = Bye \<and>
    req_cseq bye = Inr (dg_local_seq (dl_info d) + 1)"
proof -
  let ?e = "(dl_set_state Terminating d)\<lparr>dl_info := (dl_info d)\<lparr>dg_state := Terminating,
      dg_local_seq := dg_local_seq (dl_info d) + 1\<rparr>\<rparr>"
  from assms(1,3) have built: "build_in_dialog_request_with uuid Bye (dg_local_seq (dl_info d) + 1) [] ?e = Some bye"
    by (auto simp: dl_send_bye_def next_local_seq_def build_in_dialog_request_def Let_def
        split: if_splits option.splits)
  have "wf_dialog (dl_info ?e)" using assms(2) by (simp add: wf_dialog_def)
  from in_dialog_request_names [OF built this assms(3,4)] show ?thesis by simp
qed

section \<open>Properties\<close>

text \<open>
  C10. After any sequence of calls the index of dialog identifiers agrees with the dialogs: no key occurs
  twice, every dialog has a handle below the counter and no uncollected action, and an identifier in the
  index resolves to a dialog with that very identifier, which will not change any more. The index of pending
  outgoing dialogs agrees as far as its dialogs exist: an entry may outlive its dialog, but if there is a
  dialog under its handle, this is an outgoing one whose INVITE has the Call-ID and From tag of the entry. A
  cleanup removes exactly the terminated dialogs; it leaves the index of pending dialogs as it is.
\<close>
theorem dialog_indexes_agree:
  assumes "dm_step\<^sup>*\<^sup>* (dm_new contact) dm"
  shows "wf_dialogs dm \<and>
    (\<forall>c f h d. map_of (dm_pending_uac dm) (c, f) = Some h \<longrightarrow> map_of (dm_dialogs dm) h = Some d \<longrightarrow>
      dl_role d = RoleUac \<and> req_call_id (dl_invite d) = Inr c \<and> req_from_tag (dl_invite d) = Inr f) \<and>
    (\<forall>h. map_of (dm_dialogs (dm_cleanup_terminated dm)) h =
      (case map_of (dm_dialogs dm) h of
         Some d \<Rightarrow> if dl_is_terminated d then None else Some d | None \<Rightarrow> None)) \<and>
    dm_pending_uac (dm_cleanup_terminated dm) = dm_pending_uac dm"
  using dm_reachable_ok [OF assms] dm_reachable_pending [OF assms, unfolded pending_own_def] cleanup_removes by blast

theorem dialog_indexes_agree_witness:
  "wf_dialogs (dm_cleanup_terminated (snd (create_dialog sample_invite (dm_new ''sip:me''))))"
proof -
  have "dm_step\<^sup>*\<^sup>* (dm_new ''sip:me'') (dm_cleanup_terminated (snd (create_dialog sample_invite (dm_new ''sip:me''))))"
    by (rule rtranclp.rtrancl_into_rtrancl [OF r_into_rtranclp]) (rule dm_step.intros)+
  then show ?thesis using dialog_indexes_agree by blast
qed

text \<open>
  C2. A call set up between two dialog managers can be torn down by the caller. The caller opens a dialog
  for an INVITE, the callee's manager opens one for the same INVITE under a tag, and the callee's 200
  answer carries that tag; neither manager needs to be fresh. The INVITE has a To address without a tag, and
  the URIs and tags of the dialog that the caller gets are well-formed, so that they can be sent. Then the caller's manager attributes the
  answer to the dialog it opened, and the BYE that dialog sends reaches exactly the callee's dialog, which
  terminates and reports the BYE and the termination under its handle; all other dialogs stay as they are.
\<close>
theorem call_torn_down:
  assumes "answerable invite tag"
    and "create_dialog invite caller = (Some hc, caller1)"
    and "dm_handle_request tag invite callee = (Some hs, callee1)"
    and "answer uri tag reason invite = Inr r"
    and "from_invite_response_uac invite r Confirmed = Some info" "wf_dialog info"
    and "dg_local_seq info + 1 < 2 ^ 32" "wf_hparam (''branch'', Some (''z9hG4bK'' @ uuid))"
    and "dm_send_bye uuid hc (snd (dm_handle_response r caller1)) = (Some bye, caller2)"
    and "callee2 = dm_send_response hs r callee1"
  shows "fst (dm_handle_response r caller1) = Some hc \<and>
    fst (dm_handle_request other_tag bye callee2) = Some hs \<and>
    (\<exists>d. map_of (dm_dialogs (snd (dm_handle_request other_tag bye callee2))) =
       (map_of (dm_dialogs callee2))(hs \<mapsto> d) \<and> dl_is_terminated d) \<and>
    dm_actions (snd (dm_handle_request other_tag bye callee2)) = dm_actions callee2 @
      [DmEvent hs (ManagerEvent (ByeReceived bye)), DmEvent hs (ManagerEvent (DialogTerminated ByeFromPeer))]"
proof -
  note caller = caller_ready [OF assms(1,2,4,5)]
  from callee_ready [OF assms(1,3,4)] obtain c f d where callee: "req_call_id invite = Inr c"
    "req_from_tag invite = Inr f" "map_of (dm_dialogs callee2) hs = Some d" "dl_actions d = []"
    "map_of (dm_id_to_handle callee2) \<lparr>di_call_id = c, di_local_tag = tag, di_remote_tag = f\<rparr> = Some hs"
    unfolding assms(10) by blast
  have id: "dg_id info = \<lparr>di_call_id = c, di_local_tag = f, di_remote_tag = tag\<rparr>"
    using assms(5) answer_names [OF assms(1,4)] callee(1,2)
    by (auto simp: from_invite_response_uac_def from_response_uac_def bind_eq_Some_conv)
  from caller assms(9) obtain dc where dc: "dl_info dc = info" "fst (dl_send_bye uuid dc) = Some bye"
    by (auto simp: dm_send_bye_put)
  have "dl_send_bye uuid dc = (Some bye, snd (dl_send_bye uuid dc))"
    using dc(2) by (cases "dl_send_bye uuid dc") simp
  from bye_names [OF this] dc(1) assms(6-8)
  have bye: "req_call_id bye = Inr c" "req_from_tag bye = Inr f" "req_to_tag bye = Some tag"
    "req_method bye = Bye" "req_cseq bye = Inr (dg_local_seq info + 1)"
    by (simp_all add: id)
  then have found: "find_dialog_for_request bye callee2 = Some hs"
    by (simp add: find_dialog_for_request_def callee(5))
  have "dl_handle_request bye d =
      dl_push [Emit (ByeReceived bye), Emit (DialogTerminated ByeFromPeer)] (dl_set_state Terminated d)"
    by (simp add: dl_handle_request_def bye)
  with found callee(3,4) caller show ?thesis
    by (auto simp: dm_handle_request_put dl_is_terminated_def)
qed

lemma plain_contact:
  assumes "list_all plain_header hs"
  shows "get_first_value hs ''Contact'' = find_map (\<lambda>h. case h of HContact v \<Rightarrow> Some v | _ \<Rightarrow> None) hs"
proof (rule get_first_value_find_map)
  fix h assume "h \<in> set hs"
  with assms have "plain_header h" by (simp add: list_all_iff)
  moreover have "name_matches h ''Contact'' \<longleftrightarrow> to_ascii_lowercase (header_name h) = ''contact''"
    by (simp only: name_matches_def resolve_canonical eq_ignore_ascii_case_def lower_canonical)
  ultimately have "name_matches h ''Contact'' \<longleftrightarrow> (\<exists>v. h = HContact v)"
    by (cases h; auto simp: known_lowercase plain_header_def known_names_def simp del: header_name.simps(1-19))
  then show "(case h of HContact v \<Rightarrow> Some v | _ \<Rightarrow> None) =
      (if name_matches h ''Contact'' then Some (header_value h) else None)"
    by (auto split: header.split)
qed

definition sample_call :: sip_request where
  "sample_call = sample_invite\<lparr>rq_headers := rq_headers sample_invite @ [HContact ''<sip:a>'']\<rparr>"

definition uri_a :: sip_uri where
  "uri_a = \<lparr>uri_scheme = Sip, uri_user = None, uri_host = ''a'', uri_port = None, uri_params = [], uri_headers = []\<rparr>"

definition uri_b :: sip_uri where
  "uri_b = \<lparr>uri_scheme = Sip, uri_user = None, uri_host = ''b'', uri_port = None, uri_params = [], uri_headers = []\<rparr>"

lemma sample_uris:
  "wf_uri uri_a" "wf_uri uri_b" "uri_display uri_a = ''sip:a''" "uri_display uri_b = ''sip:b''"
  by (simp_all add: uri_a_def uri_b_def wf_uri_def wf_host_def uri_display_def MAX_URI_HEADERS_def)

lemma sample_call_headers: "list_all wf_header (rq_headers sample_call)"
  using sample_invite_headers
  by (simp add: sample_call_def wf_header_def tight_graphic MAX_HEADER_VALUE_LEN_def)

lemma sample_addresses:
  "name_addr_parse ''<sip:a>;tag=f1'' =
     Inr \<lparr>na_display_name = None, na_uri = uri_a, na_parameters = [(''tag'', Some ''f1'')]\<rparr>"
  "name_addr_parse ''<sip:a>'' = Inr \<lparr>na_display_name = None, na_uri = uri_a, na_parameters = []\<rparr>"
  "name_addr_parse ''<sip:b>'' = Inr \<lparr>na_display_name = None, na_uri = uri_b, na_parameters = []\<rparr>"
proof -
  have t: "wf_hparam (''tag'', Some ''f1'')" by (simp add: wf_hparam_def DQUOTE_def ascii_simps)
  have "CHR ''>'' \<notin> set (uri_display uri_a)" "CHR ''>'' \<notin> set (uri_display uri_b)"
    by (simp_all add: sample_uris)
  from addr_with_tag_parse [OF sample_uris(1) this(1) t] addr_with_tag_parse(2) [OF sample_uris(2) this(2) t]
  show "name_addr_parse ''<sip:a>;tag=f1'' =
     Inr \<lparr>na_display_name = None, na_uri = uri_a, na_parameters = [(''tag'', Some ''f1'')]\<rparr>"
    "name_addr_parse ''<sip:a>'' = Inr \<lparr>na_display_name = None, na_uri = uri_a, na_parameters = []\<rparr>"
    "name_addr_parse ''<sip:b>'' = Inr \<lparr>na_display_name = None, na_uri = uri_b, na_parameters = []\<rparr>"
    by (simp_all add: addr_with_tag_def bracketed_def sample_uris)
qed

lemma sample_contacts:
  "contact_parse ''<sip:a>'' = Inr (CAddr \<lparr>ca_display_name = None, ca_uri = uri_a, ca_params = []\<rparr>)"
  "contact_parse ''<sip:b>'' = Inr (CAddr \<lparr>ca_display_name = None, ca_uri = uri_b, ca_params = []\<rparr>)"
proof -
  have "trim ''<sip:a>'' = ''<sip:a>''" "trim ''<sip:b>'' = ''<sip:b>''"
    by (simp_all add: tight_graphic flip: tight_def)
  then show "contact_parse ''<sip:a>'' = Inr (CAddr \<lparr>ca_display_name = None, ca_uri = uri_a, ca_params = []\<rparr>)"
    "contact_parse ''<sip:b>'' = Inr (CAddr \<lparr>ca_display_name = None, ca_uri = uri_b, ca_params = []\<rparr>)"
    by (simp_all add: contact_parse_def strip_prefix_def sample_addresses)
qed

lemma sample_call_reads:
  "req_call_id sample_call = Inr ''c1''" "req_from_tag sample_call = Inr ''f1''"
  "req_from_tag_and_uri sample_call = Inr (''f1'', uri_a)" "req_from_uri sample_call = Inr uri_a"
  "req_to_uri sample_call = Inr uri_b" "req_contact_uri sample_call = Some uri_a"
  "req_cseq sample_call = Inr 7" "req_method sample_call = Invite"
proof -
  have plain: "list_all plain_header (rq_headers sample_call)"
    using sample_call_headers by (auto simp: list_all_iff wf_header_plain)
  have plain': "list_all plain_header (rq_headers sample_invite)"
    using sample_invite_headers by (auto simp: list_all_iff wf_header_plain)
  have look: "get_first_value (rq_headers sample_call) ''From'' = Some ''<sip:a>;tag=f1''"
    "get_first_value (rq_headers sample_call) ''To'' = Some ''<sip:b>''"
    "get_first_value (rq_headers sample_call) ''Call-ID'' = Some ''c1''"
    "get_first_value (rq_headers sample_call) ''Contact'' = Some ''<sip:a>''"
    "get_first_value (rq_headers sample_call) ''CSeq'' = get_first_value (rq_headers sample_invite) ''CSeq''"
    by (simp_all only: get_first_value_plain [OF plain] get_first_value_plain [OF plain'] plain_contact [OF plain])
      (simp_all add: sample_call_def sample_invite_def as_defs)
  show "req_call_id sample_call = Inr ''c1''" "req_from_tag sample_call = Inr ''f1''"
    "req_from_tag_and_uri sample_call = Inr (''f1'', uri_a)" "req_from_uri sample_call = Inr uri_a"
    "req_to_uri sample_call = Inr uri_b" "req_contact_uri sample_call = Some uri_a"
    by (simp_all add: req_call_id_def req_from_tag_def req_from_tag_and_uri_def req_from_uri_def req_to_uri_def
        req_contact_uri_def h_from_tag_def h_from_def h_contact_uri_def required_value_def look from_parse_def
        to_parse_def from_header_tag_def find_key_def sample_addresses sample_contacts)
  show "req_cseq sample_call = Inr 7"
    using sample_invite_reads(2) by (simp add: req_cseq_def h_cseq_def required_value_def look)
  show "req_method sample_call = Invite" by (simp add: sample_call_def sample_invite_def req_method_def)
qed

lemma sample_answerable: "answerable sample_call ''t9''"
proof -
  have "find_map as_to (rq_headers sample_call) = Some (name_addr_display
      \<lparr>na_display_name = None, na_uri = uri_b, na_parameters = []\<rparr>)"
    by (simp add: sample_call_def sample_invite_def as_to_def name_addr_display_def sample_uris)
  moreover have "wf_name_addr \<lparr>na_display_name = None, na_uri = uri_b, na_parameters = []\<rparr>"
    by (simp add: wf_name_addr_def sample_uris)
  moreover have "\<not> contains_sub ''tag='' (name_addr_display \<lparr>na_display_name = None, na_uri = uri_b, na_parameters = []\<rparr>)"
    by (simp add: name_addr_display_def sample_uris contains_sub_def)
  moreover have "wf_hparam (''tag'', Some ''t9'')" by (simp add: wf_hparam_def DQUOTE_def ascii_simps)
  ultimately show ?thesis
    unfolding answerable_def using sample_call_headers sample_call_reads(8) by fastforce
qed

lemma sample_answer:
  "\<exists>r. answer ''sip:b'' ''t9'' ''OK'' sample_call = Inr r \<and> resp_contact_uri r = Some uri_b \<and>
     resp_record_routes r = []"
proof -
  let ?b = "pb_contact ''sip:b'' (pb_to_tag ''t9'' (reply 200 ''OK'' sample_call))"
  have b: "uri_parse ''sip:b'' = Inr uri_b" by (simp add: simple_uri_parses uri_b_def)
  have "length (response_headers ?b) \<le> MAX_HEADERS"
    by (simp add: response_headers_def emit_def body_headers_def reply_fields pb_contact_def b
        via_values_def map_filter_simps sample_call_def sample_invite_def MAX_HEADERS_def pb_to_tag_def reply_def
        pb_from_request_def pb_status_def pb_new_def contains_sub_def split: option.splits)
  then obtain r where r: "pb_build ?b = Inr r" "rs_headers r = response_headers ?b"
    by (auto simp: pb_build_def push_all_eq reply_fields)
  have plain: "list_all plain_header (response_headers ?b)" by (rule plain_response_headers)
  have "find_map (\<lambda>h. case h of HContact v \<Rightarrow> Some v | _ \<Rightarrow> None) (response_headers ?b) = Some ''<sip:b>''"
    "record_route_values (response_headers ?b) = []"
    by (simp_all add: response_headers_def emit_def body_headers_def reply_fields pb_contact_def b bracketed_def
        via_values_def map_filter_simps sample_call_def sample_invite_def pb_to_tag_def reply_def record_route_values_def
        pb_from_request_def pb_status_def pb_new_def contains_sub_def sample_uris split: option.splits)
  then have "resp_contact_uri r = Some uri_b" "resp_record_routes r = []"
    using plain_contact [OF plain]
    by (simp_all add: resp_contact_uri_def h_contact_uri_def r sample_contacts resp_record_routes_def)
  with r show ?thesis by (auto simp: answer_def)
qed

theorem call_torn_down_witness:
  "\<exists>r bye. answer ''sip:b'' ''t9'' ''OK'' sample_call = Inr r \<and>
     fst (dm_send_bye ''u1'' 1 (snd (dm_handle_response r (snd (create_dialog sample_call (dm_new ''sip:a'')))))) =
       Some bye \<and>
     fst (dm_handle_request [] bye
       (dm_send_response 1 r (snd (dm_handle_request ''t9'' sample_call (dm_new ''sip:b''))))) = Some 1"
proof -
  obtain r where r: "answer ''sip:b'' ''t9'' ''OK'' sample_call = Inr r" "resp_contact_uri r = Some uri_b"
    "resp_record_routes r = []"
    using sample_answer by blast
  note names = answer_names [OF sample_answerable r(1)]
  define info where "info = the (from_invite_response_uac sample_call r Confirmed)"
  have info: "from_invite_response_uac sample_call r Confirmed = Some info"
    "dg_id info = \<lparr>di_call_id = ''c1'', di_local_tag = ''f1'', di_remote_tag = ''t9''\<rparr>"
    "dg_local_uri info = ''sip:a''" "dg_remote_uri info = ''sip:b''" "dg_remote_target info = ''sip:b''"
    "dg_local_seq info = 7" "dg_local_contact info = ''sip:a''" "dr_routes (dg_route_set info) = []"
    "dg_state info = Confirmed"
    by (simp_all add: info_def from_invite_response_uac_def from_response_uac_def names sample_call_reads r
        sample_uris contact_text_def from_record_route_values_def route_parse_all_def map_filter_simps Let_def)
  have "\<exists>u. wf_uri u \<and> CHR ''>'' \<notin> set (uri_display u) \<and> ''sip:a'' = uri_display u"
    "\<exists>u. wf_uri u \<and> CHR ''>'' \<notin> set (uri_display u) \<and> ''sip:b'' = uri_display u"
    using sample_uris by (fastforce intro: exI [of _ uri_a])+
  then have wf: "wf_dialog info"
    unfolding wf_dialog_def info(2-5) by (auto simp: wf_hparam_def DQUOTE_def ascii_simps)
  have caller: "create_dialog sample_call (dm_new ''sip:a'') = (Some 1, snd (create_dialog sample_call (dm_new ''sip:a'')))"
    by (simp add: create_dialog_def dm_alloc_handle_def dm_new_def sample_call_reads)
  have callee: "dm_handle_request ''t9'' sample_call (dm_new ''sip:b'') =
      (Some 1, snd (dm_handle_request ''t9'' sample_call (dm_new ''sip:b'')))"
    by (simp add: dm_handle_request_put find_dialog_for_request_def answerable_no_tag [OF sample_answerable]
        sample_call_reads create_uas_dialog_def dm_alloc_handle_def dm_new_def new_uas_def from_invite_uas_def)
  obtain d where d: "map_of (dm_dialogs (snd (dm_handle_response r (snd (create_dialog sample_call (dm_new ''sip:a'')))))) 1 = Some d"
    "dl_info d = info"
    using caller_ready [OF sample_answerable caller r(1) info(1)] by blast
  obtain bye where "fst (dl_send_bye ''u1'' d) = Some bye"
    using sample_bye_built [of d "''u1''"] info d(2) by auto
  with d have bye: "dm_send_bye ''u1'' 1 (snd (dm_handle_response r (snd (create_dialog sample_call (dm_new ''sip:a''))))) =
      (Some bye, put_dialog 1 (snd (dl_send_bye ''u1'' d))
        (snd (dm_handle_response r (snd (create_dialog sample_call (dm_new ''sip:a''))))))"
    by (simp add: dm_send_bye_put)
  have "dg_local_seq info + 1 < 2 ^ 32" "wf_hparam (''branch'', Some (''z9hG4bK'' @ ''u1''))"
    by (simp_all add: info wf_hparam_def DQUOTE_def ascii_simps)
  from call_torn_down [OF sample_answerable caller callee r(1) info(1) wf this bye refl, of "[]"] r(1) bye
  show ?thesis by auto
qed

end
