(* ===== verification/Wire_Octets.thy ===== *)
theory Wire_Octets
  imports Rust_Prelude "HOL-Library.Monad_Syntax"
begin

section \<open>Octet buffers of the media protocols\<close>

text \<open>
  The vocabulary the RTP, RTCP and SRTP theories share: octets and machine words at their width,
  big-endian encoding and decoding (\<open>to_be_bytes\<close>, \<open>from_be_bytes\<close>), reading from and slicing a
  buffer, and \<open>String::from_utf8_lossy\<close>.

  Reading past the end of a buffer and slicing out of range are panics in Rust. An operation that
  can panic returns an \<open>option\<close> whose \<^const>\<open>None\<close> is the panic, so that the absence of panics is a
  theorem and not a modelling choice. The \<open>put_*\<close> operations append to a growing buffer and cannot
  fail.
\<close>

unbundle bit_operations_syntax

named_theorems read_simps \<open>evaluation of reads whose length check has been made\<close>
named_theorems octet_simps \<open>decoding of what was encoded\<close>

type_synonym u8 = "8 word"
type_synonym u16 = "16 word"
type_synonym u32 = "32 word"
type_synonym u64 = "64 word"
type_synonym octets = "8 word list"

subsection \<open>Big-endian words\<close>

definition u16_be :: "u16 \<Rightarrow> octets" where
  "u16_be x = [ucast (drop_bit 8 x), ucast x]"

definition u32_be :: "u32 \<Rightarrow> octets" where
  "u32_be x = [ucast (drop_bit 24 x), ucast (drop_bit 16 x), ucast (drop_bit 8 x), ucast x]"

definition u64_be :: "u64 \<Rightarrow> octets" where
  "u64_be x = u32_be (ucast (drop_bit 32 x)) @ u32_be (ucast x)"

definition u16_of_be :: "u8 \<Rightarrow> u8 \<Rightarrow> u16" where
  "u16_of_be a b = push_bit 8 (ucast a) OR ucast b"

definition u32_of_be :: "u8 \<Rightarrow> u8 \<Rightarrow> u8 \<Rightarrow> u8 \<Rightarrow> u32" where
  "u32_of_be a b c d =
     push_bit 24 (ucast a) OR push_bit 16 (ucast b) OR push_bit 8 (ucast c) OR ucast d"

lemma length_be [simp]: "length (u16_be x) = 2" "length (u32_be y) = 4" "length (u64_be z) = 8"
  by (simp_all add: u16_be_def u32_be_def u64_be_def)

lemma u16_of_be_be [octet_simps]: "u16_of_be (ucast (drop_bit 8 x)) (ucast x) = x"
  by (rule bit_word_eqI) (auto simp: u16_of_be_def bit_simps)

lemma u32_of_be_be [octet_simps]:
  "u32_of_be (ucast (drop_bit 24 x)) (ucast (drop_bit 16 x)) (ucast (drop_bit 8 x)) (ucast x) = x"
proof (rule bit_word_eqI)
  fix n assume "n < LENGTH(32)"
  then consider "n < 8" | "8 \<le> n" "n < 16" | "16 \<le> n" "n < 24" | "24 \<le> n" "n < 32"
    by fastforce
  then show "bit (u32_of_be (ucast (drop_bit 24 x)) (ucast (drop_bit 16 x)) (ucast (drop_bit 8 x))
      (ucast x)) n = bit x n"
    by cases (simp_all add: u32_of_be_def bit_simps less_diff_conv2)
qed

lemma bit_octet_high: "8 \<le> n \<Longrightarrow> \<not> bit (a :: u8) n"
  using bit_imp_le_length [of a n] by auto

lemma octet_bits:
  fixes a b :: u8
  assumes "\<And>n. n < 8 \<Longrightarrow> bit a n = bit b n"
  shows "a = b"
  using assms by (intro bit_word_eqI) simp

lemma octet_bit_cases:
  assumes "n < (8 :: nat)"
  obtains "n = 0" | "n = 1" | "n = 2" | "n = 3" | "n = 4" | "n = 5" | "n = 6" | "n = 7"
  using assms by linarith

lemma u16_be_of_be [octet_simps]: "u16_be (u16_of_be a b) = [a, b]"
  unfolding u16_be_def u16_of_be_def
  by (auto intro!: bit_word_eqI simp: bit_simps bit_octet_high)

lemma u32_be_of_be [octet_simps]: "u32_be (u32_of_be a b c d) = [a, b, c, d]"
  unfolding u32_be_def u32_of_be_def
  by (auto intro!: bit_word_eqI simp: bit_simps bit_octet_high)

lemma drop_bit_small: "unat w < 2 ^ n \<Longrightarrow> drop_bit n w = 0"
proof -
  assume "unat w < 2 ^ n"
  then have "unat (drop_bit n w) = 0" by (simp only: unat_drop_bit_eq) (simp add: drop_bit_eq_div)
  then show "drop_bit n w = 0" by (simp only: unat_eq_zero)
qed

lemma and_mask_small: "unat w < 2 ^ n \<Longrightarrow> w AND mask n = w"
  by (simp add: take_bit_eq_mask flip: take_bit_eq_mask)
    (metis take_bit_nat_eq_self unsigned_take_bit_eq word_unat_eq_iff)

lemma bit_above: "unat w < 2 ^ n \<Longrightarrow> n \<le> i \<Longrightarrow> \<not> bit w i"
proof -
  assume "unat w < 2 ^ n" "n \<le> i"
  moreover from this(2) have "(2 :: nat) ^ n \<le> 2 ^ i" by (rule power_increasing) simp
  ultimately have "unat w < 2 ^ i" by linarith
  then show "\<not> bit w i" using drop_bit_small [of w i] by (simp add: bit_iff_odd_drop_bit)
qed

lemma low_octet: "ucast (d AND 0xFF) = (ucast d :: u8)" for d :: u16
proof -
  have "d AND 0xFF = take_bit 8 d" by (simp add: take_bit_eq_mask mask_eq_exp_minus_1)
  then show ?thesis by (auto simp: bit_simps intro!: bit_word_eqI)
qed

subsection \<open>Reading and slicing\<close>

fun get_u8 :: "octets \<Rightarrow> (u8 \<times> octets) option" where
  "get_u8 (a # buf) = Some (a, buf)"
| "get_u8 _ = None"

fun get_u16 :: "octets \<Rightarrow> (u16 \<times> octets) option" where
  "get_u16 (a # b # buf) = Some (u16_of_be a b, buf)"
| "get_u16 _ = None"

fun get_u32 :: "octets \<Rightarrow> (u32 \<times> octets) option" where
  "get_u32 (a # b # c # d # buf) = Some (u32_of_be a b c d, buf)"
| "get_u32 _ = None"

fun get_u32s :: "nat \<Rightarrow> octets \<Rightarrow> (u32 list \<times> octets) option" where
  "get_u32s 0 buf = Some ([], buf)"
| "get_u32s (Suc n) buf = do {
     (x, buf) \<leftarrow> get_u32 buf;
     (xs, buf) \<leftarrow> get_u32s n buf;
     Some (x # xs, buf)
   }"

text \<open>\<open>&buf[..n]\<close> followed by \<open>buf.advance(n)\<close>, and \<open>data[i]\<close>.\<close>

definition get_slice :: "nat \<Rightarrow> octets \<Rightarrow> (octets \<times> octets) option" where
  "get_slice n buf = (if n \<le> length buf then Some (take n buf, drop n buf) else None)"

definition at :: "octets \<Rightarrow> nat \<Rightarrow> u8 option" where
  "at data i = (if i < length data then Some (data ! i) else None)"

lemma get_u8_append [simp]: "get_u8 ([x] @ buf) = Some (x, buf)"
  by simp

lemma get_u16_append [simp]: "get_u16 (u16_be x @ buf) = Some (x, buf)"
  by (simp add: u16_be_def u16_of_be_be)

lemma get_u32_append [simp]: "get_u32 (u32_be x @ buf) = Some (x, buf)"
  by (simp add: u32_be_def u32_of_be_be)

lemma get_u32s_append [simp]:
  "n = length xs \<Longrightarrow> get_u32s n (concat (map u32_be xs) @ buf) = Some (xs, buf)"
  by (induction xs arbitrary: n) simp_all

lemma get_slice_append [simp]: "n = length xs \<Longrightarrow> get_slice n (xs @ buf) = Some (xs, buf)"
  by (simp add: get_slice_def)

lemma get_slice_all [simp]: "get_slice (length xs) xs = Some (xs, [])"
  by (simp add: get_slice_def)

lemma length_concat_u32 [simp]: "length (concat (map u32_be xs)) = 4 * length xs"
  by (induction xs) simp_all

text \<open>What a read that returns has consumed.\<close>

lemma get_u8_SomeD: "get_u8 buf = Some (x, r) \<Longrightarrow> buf = x # r"
  by (cases buf rule: get_u8.cases) simp_all

lemma get_u16_SomeD: "get_u16 buf = Some (x, r) \<Longrightarrow> buf = u16_be x @ r"
  by (cases buf rule: get_u16.cases) (auto simp: u16_be_of_be)

lemma get_u32_SomeD: "get_u32 buf = Some (x, r) \<Longrightarrow> buf = u32_be x @ r"
  by (cases buf rule: get_u32.cases) (auto simp: u32_be_of_be)

lemma get_u32s_SomeD:
  "get_u32s n buf = Some (xs, r) \<Longrightarrow> buf = concat (map u32_be xs) @ r \<and> length xs = n"
  by (induction n arbitrary: buf xs)
    (auto simp: bind_eq_Some_conv dest!: get_u32_SomeD)

lemma get_slice_SomeD: "get_slice n buf = Some (x, r) \<Longrightarrow> buf = x @ r \<and> length x = n"
  by (auto simp: get_slice_def split: if_splits)

text \<open>A read returns when enough octets are left, and leaves the rest.\<close>

definition u16_at :: "octets \<Rightarrow> u16" where
  "u16_at buf = u16_of_be (buf ! 0) (buf ! 1)"

definition u32_at :: "octets \<Rightarrow> u32" where
  "u32_at buf = u32_of_be (buf ! 0) (buf ! 1) (buf ! 2) (buf ! 3)"

definition u32s_at :: "nat \<Rightarrow> octets \<Rightarrow> u32 list" where
  "u32s_at n buf = map (\<lambda>i. u32_at (drop (4 * i) buf)) [0..<n]"

lemma get_u8_read [read_simps]: "Suc 0 \<le> length buf \<Longrightarrow> get_u8 buf = Some (buf ! 0, drop 1 buf)"
  by (cases buf rule: get_u8.cases) simp_all

lemma get_u16_read [read_simps]: "2 \<le> length buf \<Longrightarrow> get_u16 buf = Some (u16_at buf, drop 2 buf)"
  by (cases buf rule: get_u16.cases) (simp_all add: u16_at_def)

lemma get_u32_read [read_simps]: "4 \<le> length buf \<Longrightarrow> get_u32 buf = Some (u32_at buf, drop 4 buf)"
  by (cases buf rule: get_u32.cases) (simp_all add: u32_at_def)

lemma u32s_at_Suc: "u32s_at (Suc n) buf = u32_at buf # u32s_at n (drop 4 buf)"
  by (simp add: u32s_at_def upt_conv_Cons map_Suc_upt [symmetric] comp_def add.commute
    del: upt_Suc)

lemma get_u32s_read [read_simps]:
  "4 * n \<le> length buf \<Longrightarrow> get_u32s n buf = Some (u32s_at n buf, drop (4 * n) buf)"
  by (induction n arbitrary: buf) (simp_all add: u32s_at_Suc get_u32_read add.commute, simp add: u32s_at_def)

lemma get_slice_read [read_simps]: "n \<le> length buf \<Longrightarrow> get_slice n buf = Some (take n buf, drop n buf)"
  by (simp add: get_slice_def)

lemma at_0_read [read_simps]: "Suc 0 \<le> length data \<Longrightarrow> at data 0 = Some (data ! 0)"
  by (auto simp: at_def)

lemma at_read [read_simps]: "i < length data \<Longrightarrow> at data i = Some (data ! i)"
  by (simp add: at_def)

lemmas read_SomeD = get_u8_SomeD get_u16_SomeD get_u32_SomeD get_u32s_SomeD get_slice_SomeD

text \<open>\<open>u16::from_be_bytes([data[i], data[i + 1]])\<close>, its 32-bit variant, and \<open>usize::div_ceil\<close>.\<close>

definition be16_at :: "nat \<Rightarrow> octets \<Rightarrow> u16 option" where
  "be16_at i data = (if i + 2 \<le> length data then Some (u16_at (drop i data)) else None)"

definition be32_at :: "nat \<Rightarrow> octets \<Rightarrow> u32 option" where
  "be32_at i data = (if i + 4 \<le> length data then Some (u32_at (drop i data)) else None)"

definition div_ceil :: "nat \<Rightarrow> nat \<Rightarrow> nat" where
  "div_ceil n k = (n + k - 1) div k"

lemma be16_at_read [read_simps]: "i + 2 \<le> length data \<Longrightarrow> be16_at i data = Some (u16_at (drop i data))"
  by (simp add: be16_at_def)

lemma be32_at_read [read_simps]: "i + 4 \<le> length data \<Longrightarrow> be32_at i data = Some (u32_at (drop i data))"
  by (simp add: be32_at_def)

lemma be16_at_append: "i = length xs \<Longrightarrow> be16_at i (xs @ u16_be w @ ys) = Some w"
  by (simp add: be16_at_def u16_at_def u16_be_def u16_of_be_be)

lemma be32_at_append: "i = length xs \<Longrightarrow> be32_at i (xs @ u32_be w @ ys) = Some w"
  by (simp add: be32_at_def u32_at_def u32_be_def u32_of_be_be)

text \<open>A result that is passed on with \<open>?\<close>.\<close>

lemma try_Inr_conv:
  "(case r of Inl e \<Rightarrow> Some (Inl e) | Inr x \<Rightarrow> f x) = Some (Inr y) \<longleftrightarrow> (\<exists>x. r = Inr x \<and> f x = Some (Inr y))"
  by (cases r) simp_all

lemma try_Inl_conv:
  "(case r of Inl e \<Rightarrow> Some (Inl e) | Inr x \<Rightarrow> f x) = Some (Inl e)
     \<longleftrightarrow> r = Inl e \<or> (\<exists>x. r = Inr x \<and> f x = Some (Inl e))"
  by (cases r) auto

subsection \<open>Text in a buffer\<close>

text \<open>\<open>str::as_bytes\<close> and its inverse.\<close>

definition as_bytes :: "string \<Rightarrow> octets" where
  "as_bytes = map (\<lambda>c. word_of_nat (code c))"

definition from_bytes :: "octets \<Rightarrow> string" where
  "from_bytes = map (\<lambda>w. octet (unat w))"

text \<open>
  \<open>String::from_utf8_lossy\<close> replaces every maximal malformed prefix of a character by U+FFFD.
  \<open>utf8_chunk a s\<close> looks at the octet \<open>a\<close> and what follows it: whether a character starts there, and
  how many octets of \<open>s\<close> belong to the character or to the malformed prefix.
\<close>

definition second_ok :: "char \<Rightarrow> char \<Rightarrow> bool" where
  "second_ok a b =
     (if code a = 224 then between 160 191 b else if code a = 237 then between 128 159 b
      else if code a = 240 then between 144 191 b else if code a = 244 then between 128 143 b
      else cont b)"

definition utf8_width :: "char \<Rightarrow> nat" where
  "utf8_width a =
     (if code a < 128 then 1 else if between 194 223 a then 2 else if between 224 239 a then 3
      else if between 240 244 a then 4 else 0)"

fun cont_run :: "nat \<Rightarrow> string \<Rightarrow> nat" where
  "cont_run (Suc n) (c # s) = (if cont c then Suc (cont_run n s) else 0)"
| "cont_run _ _ = 0"

definition utf8_chunk :: "char \<Rightarrow> string \<Rightarrow> bool \<times> nat" where
  "utf8_chunk a s =
     (if utf8_width a \<le> 1 then (utf8_width a = 1, 0)
      else (case s of
        [] \<Rightarrow> (False, 0)
      | b # s \<Rightarrow>
          if \<not> second_ok a b then (False, 0)
          else (let k = cont_run (utf8_width a - 2) s in (k = utf8_width a - 2, Suc k))))"

function from_utf8_lossy :: "string \<Rightarrow> string" where
  "from_utf8_lossy [] = []"
| "from_utf8_lossy (a # s) =
     (case utf8_chunk a s of
        (True, n) \<Rightarrow> a # take n s @ from_utf8_lossy (drop n s)
      | (False, n) \<Rightarrow> map octet [239, 191, 189] @ from_utf8_lossy (drop n s))"
  by pat_completeness auto
termination by (relation "measure length") simp_all

text \<open>Well-formed text is left as it is.\<close>

lemma cont_run_1: "cont_run 1 (c # s) = (if cont c then 1 else 0)"
  by simp

lemma cont_run_2: "cont_run 2 (c # d # s) = (if cont c then if cont d then 2 else 1 else 0)"
  by (simp add: numeral_2_eq_2)

lemma utf8_chunk_valid:
  assumes v: "utf8_valid (a # s)"
  shows "\<exists>n. utf8_chunk a s = (True, n) \<and> utf8_valid (drop n s)"
proof -
  consider "utf8_width a = 1" "code a < 128"
    | "utf8_width a = 2" "\<not> code a < 128" "between 194 223 a"
    | "utf8_width a = 3" "\<not> code a < 128" "\<not> between 194 223 a" "between 224 239 a"
    | "\<not> code a < 128" "\<not> between 194 223 a" "\<not> between 224 239 a"
    unfolding utf8_width_def by (auto split: if_splits)
  then show ?thesis
  proof cases
    case 1
    with v show ?thesis by (simp add: utf8_chunk_def)
  next
    case 2
    with v obtain b r where "s = b # r" "cont b" "utf8_valid r"
      by (cases s) simp_all
    moreover from 2 have "second_ok a b = cont b" by (simp add: second_ok_def between_def)
    ultimately show ?thesis using 2 by (simp add: utf8_chunk_def)
  next
    case 3
    with v obtain b c r where s: "s = b # c # r" "cont c" "utf8_valid r"
      "if code a = 224 then between 160 191 b else if code a = 237 then between 128 159 b else cont b"
      by (simp split: list.splits)
    then have "second_ok a b" using 3(4) by (simp add: second_ok_def between_def split: if_splits)
    with s 3 show ?thesis by (simp add: utf8_chunk_def cont_run_1)
  next
    case 4
    with v obtain b c d r where s: "s = b # c # d # r" "cont c" "cont d" "utf8_valid r" "between 240 244 a"
      "if code a = 240 then between 144 191 b else if code a = 244 then between 128 143 b else cont b"
      by (simp split: list.splits)
    then have "second_ok a b" using 4(3) by (simp add: second_ok_def between_def split: if_splits)
    moreover from 4 s have "utf8_width a = 4" by (simp add: utf8_width_def)
    ultimately show ?thesis using s by (simp add: utf8_chunk_def cont_run_2)
  qed
qed

lemma from_utf8_lossy_valid: "utf8_valid s \<Longrightarrow> from_utf8_lossy s = s"
proof (induction s rule: from_utf8_lossy.induct)
  case (2 a s)
  from utf8_chunk_valid [OF 2(3)] obtain n where "utf8_chunk a s = (True, n)" "utf8_valid (drop n s)"
    by blast
  with 2(1) show ?case by simp
qed simp

lemma from_bytes_as_bytes [simp]: "from_bytes (as_bytes s) = s"
  by (induction s) (simp_all add: as_bytes_def from_bytes_def unat_of_nat code_def octet_def)

lemma length_as_bytes [simp]: "length (as_bytes s) = length s"
  by (simp add: as_bytes_def)

end
