(* ===== verification/Srtp_Kdf.thy ===== *)
theory Srtp_Kdf
  imports Wire_Octets
begin

section \<open>SRTP key derivation\<close>

text \<open>
  The crypto suites and the derivation of the six session keys of \<open>srtp/kdf.rs\<close>. AES-128 in counter
  mode comes from the \<open>aes\<close> and \<open>ctr\<close> crates: it is the parameter \<open>ctr key iv data\<close>, the effect of
  \<open>Aes128Ctr::new(key, iv).apply_keystream(data)\<close>. The conversion of key and IV to fixed-size arrays
  panics on any other length than 16. The lemmas: derivation reports keys and salts of the wrong
  length, and otherwise returns, without a panic, keys of the lengths the suite asks for.
\<close>

type_synonym cipher = "octets \<Rightarrow> octets \<Rightarrow> octets \<Rightarrow> octets"

text \<open>What the code relies on: applying the same key stream twice gives the data back.\<close>

definition stream_cipher :: "cipher \<Rightarrow> bool" where
  "stream_cipher ctr \<longleftrightarrow> (\<forall>key iv data. length (ctr key iv data) = length data
     \<and> ctr key iv (ctr key iv data) = data)"

lemma stream_cipherD [simp]:
  assumes "stream_cipher ctr"
  shows "length (ctr key iv data) = length data" "ctr key iv (ctr key iv data) = data"
  using assms by (simp_all add: stream_cipher_def)

definition apply_keystream :: "cipher \<Rightarrow> octets \<Rightarrow> octets \<Rightarrow> octets \<Rightarrow> octets option" where
  "apply_keystream ctr key iv data =
     (if length key = 16 \<and> length iv = 16 then Some (ctr key iv data) else None)"

subsection \<open>Crypto suites\<close>

datatype crypto_suite = AesCm128HmacSha1_80 | AesCm128HmacSha1_32

fun auth_tag_len :: "crypto_suite \<Rightarrow> nat" where
  "auth_tag_len AesCm128HmacSha1_80 = 10"
| "auth_tag_len AesCm128HmacSha1_32 = 4"

definition master_key_len :: "crypto_suite \<Rightarrow> nat" where "master_key_len suite = 16"
definition master_salt_len :: "crypto_suite \<Rightarrow> nat" where "master_salt_len suite = 14"
definition session_key_len :: "crypto_suite \<Rightarrow> nat" where "session_key_len suite = 16"
definition session_salt_len :: "crypto_suite \<Rightarrow> nat" where "session_salt_len suite = 14"
definition session_auth_key_len :: "crypto_suite \<Rightarrow> nat" where "session_auth_key_len suite = 20"

lemmas suite_lens = master_key_len_def master_salt_len_def session_key_len_def
  session_salt_len_def session_auth_key_len_def

lemma auth_tag_len_bounds: "4 \<le> auth_tag_len suite" "auth_tag_len suite \<le> 10"
  by (cases suite; simp)+

datatype label = SrtpEncryption | SrtpAuthentication | SrtpSalt
  | SrtcpEncryption | SrtcpAuthentication | SrtcpSalt

fun label_u8 :: "label \<Rightarrow> u8" where
  "label_u8 SrtpEncryption = 0x00"
| "label_u8 SrtpAuthentication = 0x01"
| "label_u8 SrtpSalt = 0x02"
| "label_u8 SrtcpEncryption = 0x03"
| "label_u8 SrtcpAuthentication = 0x04"
| "label_u8 SrtcpSalt = 0x05"

subsection \<open>Session keys\<close>

record session_keys =
  srtp_enc_key :: octets
  srtp_auth_key :: octets
  srtp_salt :: octets
  srtcp_enc_key :: octets
  srtcp_auth_key :: octets
  srtcp_salt :: octets

text \<open>\<open>let mut x = [0u8; 16]; x[..salt.len()].copy_from_slice(salt)\<close> and \<open>x[i] ^= b\<close>.\<close>

definition block_of :: "octets \<Rightarrow> octets option" where
  "block_of salt = (if length salt \<le> 16 then Some (salt @ replicate (16 - length salt) 0) else None)"

definition xor_at :: "nat \<Rightarrow> u8 \<Rightarrow> octets \<Rightarrow> octets" where
  "xor_at i b x = x[i := x ! i XOR b]"

lemma length_xor_at [simp]: "length (xor_at i b x) = length x"
  by (simp add: xor_at_def)

definition derive_key :: "cipher \<Rightarrow> octets \<Rightarrow> octets \<Rightarrow> label \<Rightarrow> nat \<Rightarrow> octets option" where
  "derive_key ctr master_key master_salt label len = do {
     x \<leftarrow> block_of master_salt;
     let x = xor_at 7 (label_u8 label) x;
     key_stream \<leftarrow> apply_keystream ctr master_key x (replicate (div_ceil len 16 * 16) 0);
     Some (take len key_stream)
   }"

definition length_error :: "string \<Rightarrow> nat \<Rightarrow> nat \<Rightarrow> string" where
  "length_error what got want =
     ''Invalid master '' @ what @ '' length: '' @ to_dec got @ '' (expected '' @ to_dec want @ '')''"

definition session_keys_derive ::
    "cipher \<Rightarrow> crypto_suite \<Rightarrow> octets \<Rightarrow> octets \<Rightarrow> (string + session_keys) option" where
  "session_keys_derive ctr suite master_key master_salt =
     (if length master_key \<noteq> master_key_len suite then
        Some (Inl (length_error ''key'' (length master_key) (master_key_len suite)))
      else if length master_salt \<noteq> master_salt_len suite then
        Some (Inl (length_error ''salt'' (length master_salt) (master_salt_len suite)))
      else do {
        k1 \<leftarrow> derive_key ctr master_key master_salt SrtpEncryption (session_key_len suite);
        k2 \<leftarrow> derive_key ctr master_key master_salt SrtpAuthentication (session_auth_key_len suite);
        k3 \<leftarrow> derive_key ctr master_key master_salt SrtpSalt (session_salt_len suite);
        k4 \<leftarrow> derive_key ctr master_key master_salt SrtcpEncryption (session_key_len suite);
        k5 \<leftarrow> derive_key ctr master_key master_salt SrtcpAuthentication (session_auth_key_len suite);
        k6 \<leftarrow> derive_key ctr master_key master_salt SrtcpSalt (session_salt_len suite);
        Some (Inr \<lparr>srtp_enc_key = k1, srtp_auth_key = k2, srtp_salt = k3,
          srtcp_enc_key = k4, srtcp_auth_key = k5, srtcp_salt = k6\<rparr>)
      })"

subsection \<open>Derivation gives keys of the right lengths\<close>

definition keys_ok :: "crypto_suite \<Rightarrow> session_keys \<Rightarrow> bool" where
  "keys_ok suite keys \<longleftrightarrow>
     length (srtp_enc_key keys) = session_key_len suite
     \<and> length (srtp_auth_key keys) = session_auth_key_len suite
     \<and> length (srtp_salt keys) = session_salt_len suite
     \<and> length (srtcp_enc_key keys) = session_key_len suite
     \<and> length (srtcp_auth_key keys) = session_auth_key_len suite
     \<and> length (srtcp_salt keys) = session_salt_len suite"

lemma derive_key_length:
  assumes "stream_cipher ctr" "length mk = 16" "length ms = 14"
  shows "\<exists>k. derive_key ctr mk ms l n = Some k \<and> length k = n"
proof -
  have "n \<le> div_ceil n 16 * 16" unfolding div_ceil_def by presburger
  with assms show ?thesis by (simp add: derive_key_def block_of_def apply_keystream_def)
qed

lemma derive_ok:
  assumes "stream_cipher ctr" "length mk = 16" "length ms = 14"
  shows "\<exists>keys. session_keys_derive ctr suite mk ms = Some (Inr keys) \<and> keys_ok suite keys"
proof -
  obtain k where "\<And>l n. derive_key ctr mk ms l n = Some (k l n)" "\<And>l n. length (k l n) = n"
    using derive_key_length [OF assms] by metis
  with assms show ?thesis
    by (simp add: session_keys_derive_def keys_ok_def suite_lens)
qed

lemma derive_total: "stream_cipher ctr \<Longrightarrow> \<exists>r. session_keys_derive ctr suite mk ms = Some r"
  using derive_ok [of ctr mk ms suite] by (fastforce simp: session_keys_derive_def suite_lens)

lemma derive_InrD:
  assumes "stream_cipher ctr" "session_keys_derive ctr suite mk ms = Some (Inr keys)"
  shows "keys_ok suite keys"
proof -
  have "length mk = 16" "length ms = 14"
    using assms(2) by (auto simp: session_keys_derive_def suite_lens split: if_splits)
  with derive_ok [OF assms(1), of mk ms suite] assms(2) show ?thesis by simp
qed

text \<open>Different labels give different counter blocks: no two session keys share a key stream.\<close>

lemma label_u8_inject: "label_u8 a = label_u8 b \<longleftrightarrow> a = b"
  by (cases a; cases b; simp)

lemma label_block_inject:
  assumes "length x = 16"
  shows "xor_at 7 (label_u8 a) x = xor_at 7 (label_u8 b) x \<longleftrightarrow> a = b"
proof
  have nth: "xor_at 7 l x ! 7 = x ! 7 XOR l" for l
    using assms by (simp add: xor_at_def)
  assume "xor_at 7 (label_u8 a) x = xor_at 7 (label_u8 b) x"
  then have "x ! 7 XOR (x ! 7 XOR label_u8 a) = x ! 7 XOR (x ! 7 XOR label_u8 b)"
    by (simp only: nth [symmetric])
  then show "a = b" by (simp add: xor.assoc [symmetric] label_u8_inject)
qed simp

end
