(* ===== verification/Rtp_Packet.thy ===== *)
theory Rtp_Packet
  imports Wire_Octets
begin

section \<open>RTP packets\<close>

text \<open>
  The RTP packet of RFC 3550 as \<open>rtp/packet.rs\<close> parses and builds it, and the serial-number
  arithmetic on 16-bit sequence numbers. The theorems: what the stack builds parses back to the same
  packet; parsing never panics, and a datagram it accepts without padding is rebuilt octet for octet;
  comparison of sequence numbers is the sign of the distance on the circle of 2 ^ 16 numbers.
\<close>

subsection \<open>Packets\<close>

definition RTP_HEADER_SIZE :: nat where "RTP_HEADER_SIZE = 12"
definition MAX_CSRC :: nat where "MAX_CSRC = 15"

record extension_header =
  eh_profile :: u16
  eh_data :: octets

record rtp_packet =
  rp_version :: u8
  rp_padding :: bool
  rp_extension :: bool
  rp_marker :: bool
  rp_payload_type :: u8
  rp_sequence_number :: u16
  rp_timestamp :: u32
  rp_ssrc :: u32
  rp_csrc :: "u32 list"
  rp_extension_header :: "extension_header option"
  rp_payload :: octets

datatype rtp_parse_error =
    RtpTooShort nat
  | RtpInvalidVersion u8
  | ExtensionTruncated
  | PayloadTruncated

subsection \<open>Parsing\<close>

text \<open>The extension header, when the X bit announces one.\<close>

definition rtp_parse_extension ::
    "bool \<Rightarrow> octets \<Rightarrow> (rtp_parse_error + extension_header option \<times> octets) option" where
  "rtp_parse_extension extension buf =
     (if extension then
        (if length buf < 4 then Some (Inl ExtensionTruncated)
         else do {
           (profile, buf) \<leftarrow> get_u16 buf;
           (words, buf) \<leftarrow> get_u16 buf;
           let len = unat words * 4;
           if length buf < len then Some (Inl ExtensionTruncated)
           else do {
             (ext_data, buf) \<leftarrow> get_slice len buf;
             Some (Inr (Some \<lparr>eh_profile = profile, eh_data = ext_data\<rparr>, buf))
           }
         })
      else Some (Inr (None, buf)))"

text \<open>The octets left for the payload once the padding, counted by the last octet, is taken off.\<close>

definition rtp_payload_len :: "bool \<Rightarrow> octets \<Rightarrow> octets \<Rightarrow> (rtp_parse_error + nat) option" where
  "rtp_payload_len padding data buf =
     (if padding \<and> buf \<noteq> [] then do {
        padding_count \<leftarrow> at data (length data - 1);
        Some (if length buf < unat padding_count then Inl PayloadTruncated
              else Inr (length buf - unat padding_count))
      }
      else Some (Inr (length buf)))"

definition rtp_parse :: "octets \<Rightarrow> (rtp_parse_error + rtp_packet) option" where
  "rtp_parse data =
     (if length data < RTP_HEADER_SIZE then Some (Inl (RtpTooShort (length data)))
      else do {
        (first_byte, buf) \<leftarrow> get_u8 data;
        let version = drop_bit 6 first_byte AND 0x03;
        let padding = (drop_bit 5 first_byte AND 0x01 = 1);
        let extension = (drop_bit 4 first_byte AND 0x01 = 1);
        let csrc_count = unat (first_byte AND 0x0F);
        if version \<noteq> 2 then Some (Inl (RtpInvalidVersion version))
        else do {
          (second_byte, buf) \<leftarrow> get_u8 buf;
          let marker = (drop_bit 7 second_byte AND 0x01 = 1);
          let payload_type = second_byte AND 0x7F;
          (sequence_number, buf) \<leftarrow> get_u16 buf;
          (timestamp, buf) \<leftarrow> get_u32 buf;
          (ssrc, buf) \<leftarrow> get_u32 buf;
          if length buf < csrc_count * 4 then Some (Inl (RtpTooShort (length data)))
          else do {
            (csrc, buf) \<leftarrow> get_u32s csrc_count buf;
            ext \<leftarrow> rtp_parse_extension extension buf;
            case ext of
              Inl e \<Rightarrow> Some (Inl e)
            | Inr (extension_header, buf) \<Rightarrow> do {
                payload_len \<leftarrow> rtp_payload_len padding data buf;
                case payload_len of
                  Inl e \<Rightarrow> Some (Inl e)
                | Inr n \<Rightarrow> do {
                    (payload, _) \<leftarrow> get_slice n buf;
                    Some (Inr \<lparr>
                      rp_version = version, rp_padding = padding, rp_extension = extension,
                      rp_marker = marker, rp_payload_type = payload_type,
                      rp_sequence_number = sequence_number, rp_timestamp = timestamp,
                      rp_ssrc = ssrc, rp_csrc = csrc, rp_extension_header = extension_header,
                      rp_payload = payload\<rparr>)
                  }
              }
          }
        }
      })"

subsection \<open>Building\<close>

definition rtp_build_extension :: "extension_header option \<Rightarrow> octets" where
  "rtp_build_extension eh =
     (case eh of
        None \<Rightarrow> []
      | Some ext \<Rightarrow>
          let word_len = div_ceil (length (eh_data ext)) 4 in
          u16_be (eh_profile ext) @ u16_be (of_nat word_len) @ eh_data ext
          @ replicate (word_len * 4 - length (eh_data ext)) 0)"

definition rtp_build :: "rtp_packet \<Rightarrow> octets" where
  "rtp_build p =
     (let first_byte = push_bit 6 (rp_version p) OR push_bit 5 (of_bool (rp_padding p))
            OR push_bit 4 (of_bool (rp_extension_header p \<noteq> None))
            OR (of_nat (length (rp_csrc p)) AND 0x0F);
          second_byte = push_bit 7 (of_bool (rp_marker p)) OR (rp_payload_type p AND 0x7F)
      in [first_byte] @ [second_byte] @ u16_be (rp_sequence_number p) @ u32_be (rp_timestamp p)
         @ u32_be (rp_ssrc p) @ concat (map u32_be (rp_csrc p))
         @ rtp_build_extension (rp_extension_header p) @ rp_payload p)"

definition rtp_new :: "u8 \<Rightarrow> u16 \<Rightarrow> u32 \<Rightarrow> u32 \<Rightarrow> rtp_packet" where
  "rtp_new payload_type sequence_number timestamp ssrc =
     \<lparr>rp_version = 2, rp_padding = False, rp_extension = False, rp_marker = False,
      rp_payload_type = payload_type, rp_sequence_number = sequence_number,
      rp_timestamp = timestamp, rp_ssrc = ssrc, rp_csrc = [], rp_extension_header = None,
      rp_payload = []\<rparr>"

definition with_marker :: "bool \<Rightarrow> rtp_packet \<Rightarrow> rtp_packet" where
  "with_marker marker p = p\<lparr>rp_marker := marker\<rparr>"

definition with_payload :: "octets \<Rightarrow> rtp_packet \<Rightarrow> rtp_packet" where
  "with_payload payload p = p\<lparr>rp_payload := payload\<rparr>"

definition with_csrc :: "u32 \<Rightarrow> rtp_packet \<Rightarrow> rtp_packet" where
  "with_csrc csrc p =
     (if length (rp_csrc p) < MAX_CSRC then p\<lparr>rp_csrc := rp_csrc p @ [csrc]\<rparr> else p)"

definition header_size :: "rtp_packet \<Rightarrow> nat" where
  "header_size p = RTP_HEADER_SIZE + length (rp_csrc p) * 4
     + (case rp_extension_header p of None \<Rightarrow> 0 | Some e \<Rightarrow> 4 + div_ceil (length (eh_data e)) 4 * 4)"

subsection \<open>Sequence numbers\<close>

text \<open>\<open>a.wrapping_sub(b) as i16 as i32\<close>.\<close>

definition sequence_diff :: "u16 \<Rightarrow> u16 \<Rightarrow> int" where
  "sequence_diff a b = sint (a - b)"

definition sequence_newer :: "u16 \<Rightarrow> u16 \<Rightarrow> bool" where
  "sequence_newer a b \<longleftrightarrow> sequence_diff a b > 0"

subsection \<open>Well-formed packets\<close>

text \<open>
  The packets \<open>RtpPacket::new\<close> and the \<open>with_*\<close> operations make, extended by any extension header
  whose data fills whole 32-bit words: version 2, no padding, at most \<open>MAX_CSRC\<close> contributing
  sources, a 7-bit payload type, and an \<open>extension\<close> flag that says whether there is a header.
\<close>

definition extension_ok :: "extension_header option \<Rightarrow> bool" where
  "extension_ok eh =
     (case eh of None \<Rightarrow> True
      | Some e \<Rightarrow> length (eh_data e) mod 4 = 0 \<and> length (eh_data e) < 4 * 2 ^ 16)"

definition rtp_wf :: "rtp_packet \<Rightarrow> bool" where
  "rtp_wf p \<longleftrightarrow> rp_version p = 2 \<and> \<not> rp_padding p
     \<and> rp_extension p = (rp_extension_header p \<noteq> None) \<and> rp_payload_type p < 128
     \<and> length (rp_csrc p) \<le> MAX_CSRC \<and> extension_ok (rp_extension_header p)"

lemma rtp_wf_new: "pt < 128 \<Longrightarrow> rtp_wf (rtp_new pt seq ts ssrc)"
  by (simp add: rtp_wf_def rtp_new_def extension_ok_def)

lemma rtp_wf_with:
  assumes "rtp_wf p"
  shows "rtp_wf (with_marker m p)" "rtp_wf (with_payload d p)" "rtp_wf (with_csrc c p)"
  using assms by (simp_all add: rtp_wf_def with_marker_def with_payload_def with_csrc_def MAX_CSRC_def)

subsection \<open>The two flag octets\<close>

lemma nat_below_16:
  assumes "n < (16 :: nat)"
  obtains "n = 0" | "n = 1" | "n = 2" | "n = 3" | "n = 4" | "n = 5" | "n = 6" | "n = 7" | "n = 8"
    | "n = 9" | "n = 10" | "n = 11" | "n = 12" | "n = 13" | "n = 14" | "n = 15"
  using assms by atomize_elim arith

lemma first_byte_fields:
  fixes p x :: bool and b :: u8
  assumes n: "n < 16"
    and b: "b = push_bit 6 2 OR push_bit 5 (of_bool p) OR push_bit 4 (of_bool x) OR (of_nat n AND 0x0F)"
  shows "drop_bit 6 b AND 3 = 2" and "drop_bit 5 b AND 1 = 1 \<longleftrightarrow> p" and "drop_bit 4 b AND 1 = 1 \<longleftrightarrow> x"
    and "unat (b AND 0x0F) = n" and "b AND 0x10 = 0 \<longleftrightarrow> \<not> x"
  unfolding b by (cases p; cases x; cases rule: nat_below_16 [OF n]; simp)+

lemma second_byte_fields:
  fixes m :: bool and b pt :: u8
  assumes pt: "pt < 128" and b: "b = push_bit 7 (of_bool m) OR (pt AND 0x7F)"
  shows "drop_bit 7 b AND 1 = 1 \<longleftrightarrow> m" and "b AND 0x7F = pt"
proof -
  have mask: "pt AND 0x7F = pt"
    using pt less_mask_eq [of pt 7] by (simp add: mask_eq_exp_minus_1)
  show "b AND 0x7F = pt"
    unfolding b mask by (cases m) (simp_all add: bit.conj_disj_distrib2 mask)
  have "unat (drop_bit 7 pt) = 0"
    using pt by (simp only: unat_drop_bit_eq) (simp add: drop_bit_eq_div word_less_nat_alt)
  then have "drop_bit 7 pt = 0" by (simp only: unat_eq_zero)
  then show "drop_bit 7 b AND 1 = 1 \<longleftrightarrow> m"
    unfolding b mask by (cases m) (simp_all add: drop_bit_or)
qed

lemma first_byte_rebuilt:
  fixes b :: u8
  assumes "drop_bit 6 b AND 3 = 2"
  shows "push_bit 6 2 OR push_bit 5 (of_bool (drop_bit 5 b AND 1 = 1))
      OR push_bit 4 (of_bool (drop_bit 4 b AND 1 = 1)) OR (b AND 0x0F) = b"
proof (rule octet_bits)
  have "bit (drop_bit 6 b AND 3) 1" "\<not> bit (drop_bit 6 b AND 3) 0"
    unfolding assms by simp_all
  then have hi: "bit b 7" "\<not> bit b 6" by (simp_all add: bit_simps)
  have one: "drop_bit k b AND 1 = 1 \<longleftrightarrow> bit b k" for k
    by (simp add: and_one_eq bit_iff_odd_drop_bit odd_iff_mod_2_eq_one)
  fix n :: nat assume n: "n < 8"
  show "bit (push_bit 6 2 OR push_bit 5 (of_bool (drop_bit 5 b AND 1 = 1))
      OR push_bit 4 (of_bool (drop_bit 4 b AND 1 = 1)) OR (b AND 0x0F)) n = bit b n"
    unfolding one using hi
    by (cases rule: octet_bit_cases [OF n]) (simp_all add: bit_simps)
qed

lemma second_byte_rebuilt:
  fixes b :: u8
  shows "push_bit 7 (of_bool (drop_bit 7 b AND 1 = 1)) OR (b AND 0x7F AND 0x7F) = b"
proof (rule octet_bits)
  have one: "drop_bit 7 b AND 1 = 1 \<longleftrightarrow> bit b 7"
    by (simp add: and_one_eq bit_iff_odd_drop_bit odd_iff_mod_2_eq_one)
  fix n :: nat assume n: "n < 8"
  show "bit (push_bit 7 (of_bool (drop_bit 7 b AND 1 = 1)) OR (b AND 0x7F AND 0x7F)) n = bit b n"
    unfolding one
    by (cases rule: octet_bit_cases [OF n]) (simp_all add: bit_simps)
qed

subsection \<open>Round trips\<close>

lemma div_ceil_4: "n mod 4 = 0 \<Longrightarrow> div_ceil n 4 * 4 = n"
  unfolding div_ceil_def by presburger

lemma parse_build_extension:
  assumes "extension_ok eh" "x = (eh \<noteq> None)"
  shows "rtp_parse_extension x (rtp_build_extension eh @ payload) = Some (Inr (eh, payload))"
proof (cases eh)
  case (Some e)
  with assms(1) have len: "div_ceil (length (eh_data e)) 4 * 4 = length (eh_data e)"
      "length (eh_data e) < 4 * 2 ^ 16"
    by (simp_all add: extension_ok_def div_ceil_4)
  then have "unat (of_nat (div_ceil (length (eh_data e)) 4) :: u16) = div_ceil (length (eh_data e)) 4"
    by (simp add: unat_of_nat)
  with len Some assms(2) show ?thesis
    by (simp add: rtp_parse_extension_def rtp_build_extension_def)
qed (use assms(2) in \<open>simp add: rtp_parse_extension_def rtp_build_extension_def\<close>)

lemma rtp_build_shape:
  assumes wf: "rtp_wf p"
  obtains first_byte second_byte where
    "rtp_build p = first_byte # second_byte # u16_be (rp_sequence_number p)
      @ u32_be (rp_timestamp p) @ u32_be (rp_ssrc p) @ concat (map u32_be (rp_csrc p))
      @ rtp_build_extension (rp_extension_header p) @ rp_payload p"
    "drop_bit 6 first_byte AND 3 = 2" "drop_bit 5 first_byte AND 1 \<noteq> 1"
    "drop_bit 4 first_byte AND 1 = 1 \<longleftrightarrow> rp_extension p"
    "unat (first_byte AND 0x0F) = length (rp_csrc p)" "first_byte AND 0x10 = 0 \<longleftrightarrow> \<not> rp_extension p"
    "drop_bit 7 second_byte AND 1 = 1 \<longleftrightarrow> rp_marker p" "second_byte AND 0x7F = rp_payload_type p"
proof -
  define first_byte where "first_byte = push_bit 6 (2 :: u8) OR push_bit 5 (of_bool (rp_padding p))
            OR push_bit 4 (of_bool (rp_extension p)) OR (of_nat (length (rp_csrc p)) AND 0x0F)"
  define second_byte where
    "second_byte = push_bit 7 (of_bool (rp_marker p)) OR (rp_payload_type p AND 0x7F)"
  have build: "rtp_build p = first_byte # second_byte # u16_be (rp_sequence_number p)
      @ u32_be (rp_timestamp p) @ u32_be (rp_ssrc p) @ concat (map u32_be (rp_csrc p))
      @ rtp_build_extension (rp_extension_header p) @ rp_payload p"
    using wf by (simp add: rtp_build_def rtp_wf_def first_byte_def second_byte_def Let_def)
  have "length (rp_csrc p) < 16" "rp_payload_type p < 128" "\<not> rp_padding p"
    using wf by (simp_all add: rtp_wf_def MAX_CSRC_def)
  with build first_byte_fields [OF this(1) first_byte_def]
    second_byte_fields [OF this(2) second_byte_def] that show thesis by simp
qed

lemma rtp_parse_rtp_build:
  assumes wf: "rtp_wf p"
  shows "rtp_parse (rtp_build p) = Some (Inr p)"
  using wf
proof (cases rule: rtp_build_shape)
  case (1 a b)
  have "extension_ok (rp_extension_header p)" "rp_extension p = (rp_extension_header p \<noteq> None)"
      "rp_version p = 2" "\<not> rp_padding p"
    using wf by (simp_all add: rtp_wf_def)
  with 1 show ?thesis
    by (simp add: rtp_parse_def rtp_payload_len_def RTP_HEADER_SIZE_def parse_build_extension)
qed

text \<open>Every check \<open>RtpPacket::parse\<close> makes comes before the read it protects.\<close>

lemma rtp_parse_extension_total: "\<exists>r. rtp_parse_extension x buf = Some r"
  by (simp add: rtp_parse_extension_def read_simps Let_def)

lemma rtp_parse_total: "\<exists>r. rtp_parse data = Some r"
proof -
  obtain f where f: "\<And>x buf. rtp_parse_extension x buf = Some (f x buf)"
    using rtp_parse_extension_total by metis
  show ?thesis
    by (auto simp: rtp_parse_def rtp_payload_len_def RTP_HEADER_SIZE_def read_simps Let_def f
      split: sum.splits)
qed

text \<open>What \<open>parse\<close> accepts is what \<open>build\<close> writes, followed by the padding.\<close>

lemma rtp_parse_extension_exact:
  assumes "rtp_parse_extension x buf = Some (Inr (eh, r))"
  shows "buf = rtp_build_extension eh @ r \<and> x = (eh \<noteq> None) \<and> extension_ok eh"
proof (cases x)
  case True
  with assms obtain profile words buf1 buf2 ext_data where
    reads: "get_u16 buf = Some (profile, buf1)" "get_u16 buf1 = Some (words, buf2)"
      "get_slice (unat words * 4) buf2 = Some (ext_data, r)"
      and eh: "eh = Some \<lparr>eh_profile = profile, eh_data = ext_data\<rparr>"
    by (auto simp: rtp_parse_extension_def Let_def bind_eq_Some_conv split: if_splits)
  from reads have buf: "buf = u16_be profile @ u16_be words @ ext_data @ r"
      "length ext_data = unat words * 4"
    by (auto dest!: read_SomeD)
  have "div_ceil (unat words * 4) 4 = unat words"
    by (simp add: div_ceil_def)
  moreover have "unat words < 2 ^ 16" using unsigned_less [of words] by simp
  ultimately show ?thesis using True buf eh
    by (simp add: rtp_build_extension_def extension_ok_def)
qed (use assms in \<open>simp add: rtp_parse_extension_def rtp_build_extension_def extension_ok_def\<close>)

lemma rtp_payload_len_Some:
  assumes "rtp_payload_len padding data buf = Some (Inr n)"
  shows "\<exists>k. n = length buf - k \<and> k \<le> length buf \<and> k = (if padding \<and> buf \<noteq> [] then unat (last data) else 0)"
proof (cases "padding \<and> buf \<noteq> []")
  case True
  then have "data \<noteq> []" using assms
    by (auto simp: rtp_payload_len_def bind_eq_Some_conv at_def)
  with True assms show ?thesis
    by (auto simp: rtp_payload_len_def bind_eq_Some_conv at_def last_conv_nth split: if_splits)
qed (use assms in \<open>auto simp: rtp_payload_len_def\<close>)

lemma rtp_parse_reads:
  assumes "rtp_parse data = Some (Inr p)"
  obtains first_byte second_byte buf rest n where
    "data = first_byte # second_byte # u16_be (rp_sequence_number p) @ u32_be (rp_timestamp p)
       @ u32_be (rp_ssrc p) @ concat (map u32_be (rp_csrc p)) @ buf"
    "drop_bit 6 first_byte AND 3 = 2" "length (rp_csrc p) = unat (first_byte AND 0x0F)"
    "rtp_parse_extension (drop_bit 4 first_byte AND 1 = 1) buf
       = Some (Inr (rp_extension_header p, rest))"
    "rtp_payload_len (rp_padding p) data rest = Some (Inr n)" "rp_payload p = take n rest"
    "rp_version p = 2" "rp_padding p = (drop_bit 5 first_byte AND 1 = 1)"
    "rp_extension p = (drop_bit 4 first_byte AND 1 = 1)"
    "rp_marker p = (drop_bit 7 second_byte AND 1 = 1)" "rp_payload_type p = second_byte AND 0x7F"
proof -
  from assms obtain a b buf1 buf2 buf3 buf4 buf5 buf6 rest n where
    reads: "get_u8 data = Some (a, buf1)" "get_u8 buf1 = Some (b, buf2)"
      "get_u16 buf2 = Some (rp_sequence_number p, buf3)" "get_u32 buf3 = Some (rp_timestamp p, buf4)"
      "get_u32 buf4 = Some (rp_ssrc p, buf5)"
      "get_u32s (unat (a AND 0x0F)) buf5 = Some (rp_csrc p, buf6)"
    and v: "drop_bit 6 a AND 3 = 2"
    and ext: "rtp_parse_extension (drop_bit 4 a AND 1 = 1) buf6 = Some (Inr (rp_extension_header p, rest))"
    and pay: "rtp_payload_len (rp_padding p) data rest = Some (Inr n)" "rp_payload p = take n rest"
    and fields: "rp_version p = 2" "rp_padding p = (drop_bit 5 a AND 1 = 1)"
      "rp_extension p = (drop_bit 4 a AND 1 = 1)" "rp_marker p = (drop_bit 7 b AND 1 = 1)"
      "rp_payload_type p = b AND 0x7F"
    by (auto simp: rtp_parse_def Let_def bind_eq_Some_conv try_Inr_conv get_slice_def split: if_splits)
  from reads have "data = a # b # u16_be (rp_sequence_number p) @ u32_be (rp_timestamp p)
       @ u32_be (rp_ssrc p) @ concat (map u32_be (rp_csrc p)) @ buf6"
      "length (rp_csrc p) = unat (a AND 0x0F)"
    by (auto dest!: read_SomeD)
  from that [OF this(1) v this(2) ext pay fields] show thesis .
qed

lemma rtp_parse_accepts:
  assumes "rtp_parse data = Some (Inr p)"
  shows "\<exists>pad. data = rtp_build p @ pad
      \<and> length pad = (if rp_padding p \<and> rp_payload p @ pad \<noteq> [] then unat (last data) else 0)
      \<and> rtp_wf (p\<lparr>rp_padding := False\<rparr>)"
  using assms
proof (cases rule: rtp_parse_reads)
  case (1 a b buf rest n)
  from 1(5) obtain k where k: "n = length rest - k" "k \<le> length rest"
      "k = (if rp_padding p \<and> rest \<noteq> [] then unat (last data) else 0)"
    using rtp_payload_len_Some by blast
  note ext = rtp_parse_extension_exact [OF 1(4)]
  have "unat (a AND 0x0F) \<le> 15"
    using word_and_le1 [of a "0x0F"] by (simp add: word_le_nat_alt)
  moreover have "b AND 0x7F < 128"
    using word_and_le1 [of b "0x7F"] by (simp add: word_less_nat_alt word_le_nat_alt)
  moreover have "word_of_nat (unat (a AND 0x0F)) AND 0x0F = a AND 0x0F"
    by simp
  moreover have "rest = take n rest @ drop n rest" by simp
  ultimately have "data = rtp_build p @ drop n rest" "rtp_wf (p\<lparr>rp_padding := False\<rparr>)"
    using 1 ext first_byte_rebuilt [OF 1(2)] second_byte_rebuilt [of b]
    by (simp_all add: rtp_build_def rtp_wf_def MAX_CSRC_def)
  moreover have "rp_payload p @ drop n rest = rest" using 1 by simp
  ultimately show ?thesis using k by (intro exI [of _ "drop n rest"]) simp
qed

lemma length_rtp_build_extension:
  "extension_ok eh \<Longrightarrow> length (rtp_build_extension eh)
     = (case eh of None \<Rightarrow> 0 | Some e \<Rightarrow> 4 + div_ceil (length (eh_data e)) 4 * 4)"
  by (auto simp: rtp_build_extension_def extension_ok_def div_ceil_4 Let_def split: option.splits)

lemma length_rtp_build:
  assumes "rtp_wf p"
  shows "length (rtp_build p) = header_size p + length (rp_payload p)"
  using assms
  by (auto simp: rtp_wf_def rtp_build_def rtp_build_extension_def header_size_def RTP_HEADER_SIZE_def
    extension_ok_def div_ceil_4 Let_def split: option.splits)

subsection \<open>Serial-number arithmetic\<close>

lemma sequence_diff_bounds: "- (2 ^ 15) \<le> sequence_diff a b" "sequence_diff a b < 2 ^ 15"
  using sint_greater_eq [of "a - b"] sint_less [of "a - b"] by (simp_all add: sequence_diff_def)

lemma sequence_diff_swap:
  assumes "sequence_diff a b \<noteq> - (2 ^ 15)"
  shows "sequence_diff b a = - sequence_diff a b"
proof -
  have "b - a = word_of_int (- sint (a - b))" by simp
  then have "sequence_diff b a = signed_take_bit 15 (- sint (a - b))"
    unfolding sequence_diff_def by (simp only: signed_of_int) simp
  with assms sequence_diff_bounds [of a b] show ?thesis
    by (simp add: sequence_diff_def signed_take_bit_int_eq_self)
qed

text \<open>
  Going forward by less than half the circle gives a newer number, whatever the wrap-around, and of
  two different numbers that are not exactly opposite one is newer and the other is not.
\<close>

lemma sequence_newer_forward:
  assumes "0 < k" "k < 2 ^ 15"
  shows "sequence_diff (a + of_nat k) a = int k" "sequence_newer (a + of_nat k) a"
proof -
  show "sequence_diff (a + of_nat k) a = int k"
    using assms by (simp add: sequence_diff_def signed_of_nat signed_take_bit_int_eq_self)
  with assms show "sequence_newer (a + of_nat k) a" by (simp add: sequence_newer_def)
qed

lemma sequence_newer_total:
  assumes "a \<noteq> b" "sequence_diff a b \<noteq> - (2 ^ 15)"
  shows "sequence_newer a b \<longleftrightarrow> \<not> sequence_newer b a"
proof -
  have "sequence_diff a b \<noteq> 0" using assms(1) signed_eq_0_iff [of "a - b"] by (simp add: sequence_diff_def)
  with sequence_diff_swap [OF assms(2)] show ?thesis by (auto simp: sequence_newer_def)
qed

subsection \<open>Properties\<close>

text \<open>
  C24. A packet made by \<open>RtpPacket::new\<close> and the \<open>with_*\<close> operations, or any packet of version 2
  without padding and with an extension of whole words, is built into \<open>header_size\<close> octets of header
  followed by the payload, and \<open>RtpPacket::parse\<close> returns exactly that packet.
\<close>

theorem rtp_round_trip:
  assumes "rtp_wf p"
  shows "rtp_parse (rtp_build p) = Some (Inr p)
    \<and> length (rtp_build p) = header_size p + length (rp_payload p)"
  using rtp_parse_rtp_build [OF assms] length_rtp_build [OF assms] by simp

theorem rtp_round_trip_witness:
  "rtp_parse (rtp_build (with_csrc 7 (with_payload [1, 2] (with_marker True (rtp_new 8 65535 160 12345)))))
     = Some (Inr (with_csrc 7 (with_payload [1, 2] (with_marker True (rtp_new 8 65535 160 12345)))))"
  by (rule rtp_round_trip [THEN conjunct1]) (simp add: rtp_wf_with rtp_wf_new)

text \<open>
  C23. \<open>RtpPacket::parse\<close> never panics, on any octets. What it accepts is well-formed and is, octet
  for octet, what \<open>build\<close> writes for the returned packet followed by the padding: exactly as many octets as
  the last octet counts when the P bit is set and anything follows the header, and none otherwise.
\<close>

theorem rtp_parse_safe_exact:
  "\<exists>r. rtp_parse data = Some r \<and>
     (\<forall>p. r = Inr p \<longrightarrow>
       (\<exists>pad. data = rtp_build p @ pad
         \<and> length pad = (if rp_padding p \<and> rp_payload p @ pad \<noteq> [] then unat (last data) else 0)
         \<and> rtp_wf (p\<lparr>rp_padding := False\<rparr>)))"
proof -
  obtain r where "rtp_parse data = Some r" using rtp_parse_total [of data] by auto
  with rtp_parse_accepts [of data] show ?thesis by (intro exI [of _ r]) simp
qed

theorem rtp_parse_safe_exact_witness:
  "\<exists>p pad. rtp_parse [0xA0, 0, 0, 1, 0, 0, 0, 160, 0, 0, 0x30, 0x39, 0xAA, 0, 2] = Some (Inr p)
     \<and> rp_payload p = [0xAA] \<and> rp_padding p
     \<and> [0xA0, 0, 0, 1, 0, 0, 0, 160, 0, 0, 0x30, 0x39, 0xAA, 0, 2] = rtp_build p @ pad"
  using rtp_parse_safe_exact [of "[0xA0, 0, 0, 1, 0, 0, 0, 160, 0, 0, 0x30, 0x39, 0xAA, 0, 2]"]
  by (auto simp: rtp_parse_def rtp_payload_len_def RTP_HEADER_SIZE_def rtp_parse_extension_def
    get_slice_def at_def)

end
