(* ===== verification/Srtp_Stream.thy ===== *)
theory Srtp_Stream
  imports Srtp_Context
begin

section \<open>SRTP streams\<close>

text \<open>
  A sender context and a receiver context with the same keys, joined by a network that loses,
  duplicates and reorders packets. Packets are numbered by their 48-bit index: the sequence number
  extended by the number of times it wrapped around. The theorem: as long as the sender moves on by
  less than half a cycle per packet, and every packet that arrives is within half a cycle of the
  newest one that arrived, the receiver recovers every packet it is given.
\<close>

subsection \<open>Numbering\<close>

text \<open>The indexes of the packets of a stream, after a packet of index \<open>e\<close>.\<close>

fun index_from :: "nat \<Rightarrow> octets list \<Rightarrow> nat list" where
  "index_from e [] = []"
| "index_from e (p # ps) =
     (let e' = e + unat (rtp_seq p - of_nat e) in e' # index_from e' ps)"

fun steps_ok :: "nat \<Rightarrow> octets list \<Rightarrow> bool" where
  "steps_ok e [] = True"
| "steps_ok e (p # ps) \<longleftrightarrow>
     rtp_seq p - of_nat e < 0x8000 \<and> steps_ok (e + unat (rtp_seq p - of_nat e)) ps"

definition first_index :: "octets list \<Rightarrow> nat" where
  "first_index ps = (case ps of [] \<Rightarrow> 0 | p # _ \<Rightarrow> unat (rtp_seq p))"

definition packet_indexes :: "octets list \<Rightarrow> nat list" where
  "packet_indexes ps = index_from (first_index ps) ps"

text \<open>Arrivals within half a cycle of the newest index \<open>m\<close> that arrived.\<close>

fun in_window :: "nat \<Rightarrow> nat list \<Rightarrow> bool" where
  "in_window m [] = True"
| "in_window m (e # es) \<longleftrightarrow> \<bar>int e - int m\<bar> < 2 ^ 15 \<and> in_window (max m e) es"

definition arrivals_ok :: "nat list \<Rightarrow> bool" where
  "arrivals_ok es = (case es of [] \<Rightarrow> True | e # es \<Rightarrow> e < 65536 \<and> in_window e es)"

text \<open>A context processes packets one after the other.\<close>

fun each :: "('c \<Rightarrow> octets \<Rightarrow> ('c \<times> 'r) option) \<Rightarrow> 'c \<Rightarrow> octets list \<Rightarrow> ('c \<times> 'r list) option" where
  "each f ctx [] = Some (ctx, [])"
| "each f ctx (p # ps) = do {
     (ctx, r) \<leftarrow> f ctx p;
     (ctx, rs) \<leftarrow> each f ctx ps;
     Some (ctx, r # rs)
   }"

lemma length_index_from [simp]: "length (index_from e ps) = length ps"
  by (induction e ps rule: index_from.induct) (simp_all add: Let_def)

lemma seq_of_index: "i < length ps \<Longrightarrow> rtp_seq (ps ! i) = of_nat (index_from e ps ! i)"
  by (induction e ps arbitrary: i rule: index_from.induct) (auto simp: Let_def nth_Cons split: nat.split)

subsection \<open>The sender\<close>

definition sender_at :: "srtp_context \<Rightarrow> nat \<Rightarrow> bool" where
  "sender_at ctx e \<longleftrightarrow> sender_roc ctx = of_nat (e div 65536) \<and> highest_seq ctx = of_nat e"

lemma nat_div_mod: "\<exists>q r. (e :: nat) = 65536 * q + r \<and> r < 65536 \<and> e div 65536 = q \<and> e mod 65536 = r"
  by (intro exI [of _ "e div 65536"] exI [of _ "e mod 65536"]) simp

lemma div_mod_65536: "n = 65536 * q + r \<Longrightarrow> r < 65536 \<Longrightarrow> n div 65536 = q \<and> n mod 65536 = r" for n :: nat
  by simp

lemma unat_seq: "unat (of_nat e :: u16) = e mod 65536"
  by (simp add: unat_of_nat)

lemma sender_step:
  assumes at: "sender_at ctx e" and d: "seq - of_nat e < 0x8000"
  shows "sender_at (sender_advance ctx seq) (e + unat (seq - of_nat e))"
proof -
  define d where "d = unat (seq - of_nat e)"
  have d': "d < 32768" using d by (simp add: d_def word_less_nat_alt)
  have seq: "seq = of_nat (e + d)" by (simp add: d_def)
  obtain q r where e: "e = 65536 * q + r" "r < 65536" "e div 65536 = q" "e mod 65536 = r"
    using nat_div_mod by blast
  have hs: "unat (highest_seq ctx) = r" and roc: "sender_roc ctx = of_nat q"
    using at e(3,4) by (simp_all add: sender_at_def unat_seq)
  have "sender_roc (sender_advance ctx seq) = of_nat ((e + d) div 65536)"
  proof (cases "r + d < 65536")
    case True
    then have "(e + d) div 65536 = q \<and> (e + d) mod 65536 = r + d"
      using e(1) by (intro div_mod_65536) simp_all
    then have "unat seq = r + d" "(e + d) div 65536 = q" by (simp_all only: seq unat_seq)
    with hs roc show ?thesis
      by (simp add: sender_advance_def word_less_nat_alt)
  next
    case False
    then have "(e + d) div 65536 = Suc q \<and> (e + d) mod 65536 = r + d - 65536"
      using e(1,2) d' by (intro div_mod_65536) simp_all
    then have "unat seq = r + d - 65536" "(e + d) div 65536 = Suc q" by (simp_all only: seq unat_seq)
    with False hs roc e(2) d' show ?thesis
      by (simp add: sender_advance_def word_less_nat_alt)
  qed
  moreover have "highest_seq (sender_advance ctx seq) = of_nat (e + d)"
    using seq by (simp add: sender_advance_def)
  ultimately show ?thesis by (simp only: sender_at_def d_def)
qed

lemma sender_advance_same [simp]:
  "sc_suite (sender_advance ctx seq) = sc_suite ctx" "sc_keys (sender_advance ctx seq) = sc_keys ctx"
  "context_ok (sender_advance ctx seq) = context_ok ctx"
  by (simp_all add: sender_advance_def context_ok_def)

lemma sealed_same_keys:
  "sc_suite ctx' = sc_suite ctx \<Longrightarrow> sc_keys ctx' = sc_keys ctx \<Longrightarrow>
     sealed ctr hmac ctx' roc rtp = sealed ctr hmac ctx roc rtp"
  by (simp add: sealed_def sealed_body_def compute_auth_tag_def)

definition seals :: "cipher \<Rightarrow> mac \<Rightarrow> srtp_context \<Rightarrow> nat list \<Rightarrow> octets list \<Rightarrow> octets list" where
  "seals ctr hmac ctx es ps = map2 (\<lambda>e p. sealed ctr hmac ctx (of_nat (e div 65536)) p) es ps"

lemma protect_each:
  assumes "context_ok ctx" "sender_at ctx e" "steps_ok e ps" "\<forall>p \<in> set ps. rtp_header_ok p"
  shows "\<exists>ctx'. each (srtp_protect ctr hmac) ctx ps
    = Some (ctx', map Inr (seals ctr hmac ctx (index_from e ps) ps))"
  using assms
proof (induction ps arbitrary: ctx e)
  case (Cons p ps)
  let ?ctx = "sender_advance ctx (rtp_seq p)" and ?e = "e + unat (rtp_seq p - of_nat e)"
  have at: "sender_at ?ctx ?e" using Cons.prems by (intro sender_step) simp_all
  then obtain ctx' where "each (srtp_protect ctr hmac) ?ctx ps
      = Some (ctx', map Inr (seals ctr hmac ?ctx (index_from ?e ps) ps))"
    using Cons.IH [of ?ctx ?e] Cons.prems by auto
  moreover have "seals ctr hmac ?ctx (index_from ?e ps) ps = seals ctr hmac ctx (index_from ?e ps) ps"
    by (simp add: seals_def sealed_same_keys [of ?ctx ctx])
  moreover have "sender_roc ?ctx = of_nat (?e div 65536)" using at by (simp add: sender_at_def)
  ultimately show ?case
    using Cons.prems by (simp add: srtp_protect_sealed Let_def seals_def)
qed (simp add: seals_def)

lemma protect_stream:
  assumes "context_ok ctx" "sender_roc ctx = 0" "highest_seq ctx = 0"
    and "steps_ok (first_index ps) ps" "\<forall>p \<in> set ps. rtp_header_ok p"
  shows "\<exists>ctx'. each (srtp_protect ctr hmac) ctx ps
    = Some (ctx', map Inr (seals ctr hmac ctx (packet_indexes ps) ps))"
proof (cases ps)
  case (Cons p qs)
  let ?ctx = "sender_advance ctx (rtp_seq p)" and ?e = "unat (rtp_seq p)"
  have "?e < 65536" using unsigned_less [of "rtp_seq p"] by simp
  then have div: "?e div 65536 = 0" by simp
  with assms(2,3) have roc: "sender_roc ?ctx = 0" "sender_at ?ctx ?e"
    by (simp_all add: sender_advance_def sender_at_def)
  then obtain ctx' where "each (srtp_protect ctr hmac) ?ctx qs
      = Some (ctx', map Inr (seals ctr hmac ?ctx (index_from ?e qs) qs))"
    using protect_each [of ?ctx ?e qs ctr hmac] assms Cons by (auto simp: first_index_def)
  moreover have "seals ctr hmac ?ctx (index_from ?e qs) qs = seals ctr hmac ctx (index_from ?e qs) qs"
    by (simp add: seals_def sealed_same_keys [of ?ctx ctx])
  ultimately show ?thesis
    using assms Cons roc div
    by (simp add: srtp_protect_sealed Let_def seals_def packet_indexes_def first_index_def)
qed (simp add: packet_indexes_def seals_def)

subsection \<open>The receiver\<close>

definition receiver_at :: "srtp_context \<Rightarrow> nat \<Rightarrow> bool" where
  "receiver_at ctx m \<longleftrightarrow> \<not> first_packet ctx \<and> m < 2 ^ 48
     \<and> receiver_roc ctx = of_nat (m div 65536) \<and> highest_seq ctx = of_nat m"

lemma packet_index_of:
  "e < 2 ^ 48 \<Longrightarrow> unat (packet_index (of_nat (e div 65536)) (of_nat e)) = e"
  by (simp add: packet_index_nat unat_of_nat)

lemma receiver_step:
  assumes "receiver_at ctx m" "\<bar>int e - int m\<bar> < 2 ^ 15" "e < 2 ^ 48"
  shows "receiver_roc_for ctx (of_nat e) = of_nat (e div 65536)"
    and "receiver_at (receiver_advance ctx (of_nat (e div 65536)) (of_nat e)) (max m e)"
proof -
  show "receiver_roc_for ctx (of_nat e) = of_nat (e div 65536)"
    using assms estimate_roc_within [OF assms(2)] by (simp add: receiver_roc_for_def receiver_at_def)
  have "unat (packet_index (of_nat (e div 65536)) (of_nat e)) = e"
    using assms(3) by (rule packet_index_of)
  moreover have "unat (packet_index (receiver_roc ctx) (highest_seq ctx)) = m"
    using assms(1) packet_index_of [of m] by (simp add: receiver_at_def)
  ultimately show "receiver_at (receiver_advance ctx (of_nat (e div 65536)) (of_nat e)) (max m e)"
    using assms by (simp add: receiver_at_def receiver_advance_def word_less_nat_alt max_def)
qed

lemma unprotect_each:
  assumes "stream_cipher ctr" "sha1_sized hmac" "context_ok ctx" "receiver_at ctx m"
    and "sc_suite tx = sc_suite ctx" "sc_keys tx = sc_keys ctx"
    and "in_window m es" "\<forall>e \<in> set es. e < 2 ^ 48" "length ps = length es"
    and "\<forall>p \<in> set ps. rtp_header_ok p" "\<forall>i < length ps. rtp_seq (ps ! i) = of_nat (es ! i)"
  shows "\<exists>ctx'. each (srtp_unprotect ctr hmac) ctx (seals ctr hmac tx es ps) = Some (ctx', map Inr ps)"
  using assms(3-)
proof (induction es arbitrary: ctx m ps)
  case (Cons e es)
  then obtain p qs where ps: "ps = p # qs" by (cases ps) auto
  with Cons.prems(9) have seq: "rtp_seq p = of_nat e" "\<forall>i < length qs. rtp_seq (qs ! i) = of_nat (es ! i)"
    by (auto dest: spec [of _ 0] spec [of _ "Suc _"])
  let ?roc = "of_nat (e div 65536)"
  let ?ctx = "receiver_advance ctx ?roc (of_nat e)"
  note step = receiver_step [OF Cons.prems(2), of e]
  have "srtp_unprotect ctr hmac ctx (sealed ctr hmac tx ?roc p) = Some (?ctx, Inr p)"
    using srtp_unprotect_sealed [OF assms(1,2) Cons.prems(1), of p tx ?roc] step Cons.prems seq ps
    by (simp add: receiver_at_def)
  moreover have "\<exists>ctx'. each (srtp_unprotect ctr hmac) ?ctx (seals ctr hmac tx es qs) = Some (ctx', map Inr qs)"
    using Cons.prems ps seq step by (intro Cons.IH [of _ "max m e"]) (simp_all add: context_ok_def)
  ultimately show ?case by (auto simp: ps seals_def)
qed (simp add: seals_def)

lemma unprotect_stream:
  assumes "stream_cipher ctr" "sha1_sized hmac" "context_ok ctx" "first_packet ctx" "receiver_roc ctx = 0"
    and "arrivals_ok es" "\<forall>e \<in> set es. e < 2 ^ 48" "length ps = length es"
    and "\<forall>p \<in> set ps. rtp_header_ok p" "\<forall>i < length ps. rtp_seq (ps ! i) = of_nat (es ! i)"
  shows "\<exists>ctx'. each (srtp_unprotect ctr hmac) ctx (seals ctr hmac ctx es ps) = Some (ctx', map Inr ps)"
proof (cases es)
  case (Cons e fs)
  with assms(8) obtain p qs where ps: "ps = p # qs" by (cases ps) auto
  with Cons assms(10) have seq: "rtp_seq p = of_nat e" "\<forall>i < length qs. rtp_seq (qs ! i) = of_nat (fs ! i)"
    by (auto dest: spec [of _ 0] spec [of _ "Suc _"])
  let ?ctx = "receiver_seen ctx (rtp_seq p)"
  have e: "e < 65536" "in_window e fs" using assms(6) Cons by (simp_all add: arrivals_ok_def)
  have "receiver_advance ?ctx 0 (rtp_seq p) = ?ctx"
    using assms(4,5) by (simp add: receiver_advance_def receiver_seen_def)
  moreover have "receiver_roc_for ctx (rtp_seq p) = 0" using assms(4) by (simp add: receiver_roc_for_def)
  ultimately have "srtp_unprotect ctr hmac ctx (sealed ctr hmac ctx 0 p) = Some (?ctx, Inr p)"
    using srtp_unprotect_sealed [OF assms(1,2,3), of p ctx 0] assms(9) ps by simp
  moreover have "receiver_at ?ctx e"
    using assms(4,5) e(1) seq(1) by (simp add: receiver_at_def receiver_seen_def)
  then have "\<exists>ctx'. each (srtp_unprotect ctr hmac) ?ctx (seals ctr hmac ctx fs qs) = Some (ctx', map Inr qs)"
    using assms Cons ps seq(2) e(2)
    by (intro unprotect_each [where m = e]) (simp_all add: context_ok_def)
  ultimately show ?thesis using e(1) by (auto simp: ps Cons seals_def)
qed (use assms(8) in \<open>simp add: seals_def\<close>)

subsection \<open>Properties\<close>

text \<open>
  C4. Two contexts made from the same master key and salt protect a stream against an unreliable
  network. Let the sender protect packets whose sequence numbers move forward by less than \<open>2 ^ 15\<close>
  each (wrapping around any number of times below \<open>2 ^ 48\<close> packets in all). Let any selection of the
  protected packets arrive, in any order and with repetitions, such that the first one belongs to
  the first cycle and each is within \<open>2 ^ 15\<close> of the newest one before it. Then every \<open>protect\<close> and every
  \<open>unprotect\<close> succeeds, and each arrival yields exactly the RTP packet that was sent.
\<close>

theorem srtp_stream_recovered:
  assumes "stream_cipher ctr" "sha1_sized hmac" "srtp_new ctr suite mk ms = Some (Inr ctx)"
    and "\<forall>p \<in> set ps. rtp_header_ok p" "steps_ok (first_index ps) ps"
    and "\<forall>e \<in> set (packet_indexes ps). e < 2 ^ 48"
    and "\<forall>i \<in> set is. i < length ps" "arrivals_ok (map (\<lambda>i. packet_indexes ps ! i) is)"
  shows "\<exists>tx rx sent. each (srtp_protect ctr hmac) ctx ps = Some (tx, map Inr sent)
    \<and> length sent = length ps
    \<and> each (srtp_unprotect ctr hmac) ctx (map (\<lambda>i. sent ! i) is) = Some (rx, map (\<lambda>i. Inr (ps ! i)) is)"
proof -
  note ctx = srtp_new_ok [OF assms(1,3)]
  let ?es = "packet_indexes ps" and ?sent = "seals ctr hmac ctx (packet_indexes ps) ps"
  have len: "length ?es = length ps" "length ?sent = length ps"
    by (simp_all add: packet_indexes_def seals_def)
  have "map (\<lambda>i. ?sent ! i) is = seals ctr hmac ctx (map (\<lambda>i. ?es ! i) is) (map (\<lambda>i. ps ! i) is)"
    using assms(7) len by (simp add: seals_def zip_map_map zip_same_conv_map)
  moreover have "\<exists>rx. each (srtp_unprotect ctr hmac) ctx
      (seals ctr hmac ctx (map (\<lambda>i. ?es ! i) is) (map (\<lambda>i. ps ! i) is)) = Some (rx, map Inr (map (\<lambda>i. ps ! i) is))"
  proof (rule unprotect_stream [OF assms(1,2) ctx(1,5,3) assms(8)])
    show "\<forall>e \<in> set (map (\<lambda>i. ?es ! i) is). e < 2 ^ 48" "\<forall>p \<in> set (map (\<lambda>i. ps ! i) is). rtp_header_ok p"
      using assms(4,6,7) len by auto
    show "\<forall>j < length (map (\<lambda>i. ps ! i) is). rtp_seq (map (\<lambda>i. ps ! i) is ! j) = of_nat (map (\<lambda>i. ?es ! i) is ! j)"
      using assms(7) by (auto simp: packet_indexes_def seq_of_index [where e = "first_index ps"])
  qed simp
  moreover obtain tx where "each (srtp_protect ctr hmac) ctx ps = Some (tx, map Inr ?sent)"
    using protect_stream [OF ctx(1,2,4) assms(5,4)] by blast
  ultimately show ?thesis using len by (auto simp: comp_def)
qed

theorem srtp_stream_recovered_witness:
  "\<exists>ctx tx rx sent. srtp_new sample_cipher AesCm128HmacSha1_80 (replicate 16 1) (replicate 14 2) = Some (Inr ctx)
     \<and> each (srtp_protect sample_cipher sample_mac) ctx
         [[0x80, 0, 0xFF, 0xFF, 0, 0, 0, 0, 0, 0, 0, 1, 9], [0x80, 0, 0, 0, 0, 0, 0, 0, 0, 0, 0, 1, 8]]
         = Some (tx, map Inr sent)
     \<and> each (srtp_unprotect sample_cipher sample_mac) ctx [sent ! 0, sent ! 1, sent ! 0]
         = Some (rx, [Inr [0x80, 0, 0xFF, 0xFF, 0, 0, 0, 0, 0, 0, 0, 1, 9],
             Inr [0x80, 0, 0, 0, 0, 0, 0, 0, 0, 0, 0, 1, 8],
             Inr [0x80, 0, 0xFF, 0xFF, 0, 0, 0, 0, 0, 0, 0, 1, 9]])"
proof -
  let ?p = "[0x80, 0, 0xFF, 0xFF, 0, 0, 0, 0, 0, 0, 0, 1, 9] :: octets"
  let ?q = "[0x80, 0, 0, 0, 0, 0, 0, 0, 0, 0, 0, 1, 8] :: octets"
  obtain ctx where ctx: "srtp_new sample_cipher AesCm128HmacSha1_80 (replicate 16 1) (replicate 14 2) = Some (Inr ctx)"
    using sample_context by blast
  have ok: "\<forall>p \<in> set [?p, ?q]. rtp_header_ok p"
    by (simp add: rtp_header_ok_def get_rtp_header_len_def RTP_HEADER_SIZE_def at_def)
  have seq: "rtp_seq ?p = 0xFFFF" "rtp_seq ?q = 0"
    by (simp_all add: rtp_seq_def u16_at_def u16_of_be_def)
  have "steps_ok (first_index [?p, ?q]) [?p, ?q]" "packet_indexes [?p, ?q] = [65535, 65536]"
    by (simp_all add: first_index_def packet_indexes_def seq)
  from srtp_stream_recovered [OF sample_laws ctx ok this(1), of "[0, 1, 0]"] this(2) ctx
  show ?thesis by (auto simp: arrivals_ok_def)
qed

end
