(* ===== verification/Rtcp_Report.thy ===== *)
theory Rtcp_Report
  imports Wire_Octets
begin

section \<open>RTCP reports\<close>

text \<open>
  The common RTCP header, sender and receiver reports, source descriptions and goodbyes of
  \<open>rtp/rtcp.rs\<close>. An \<open>i32\<close> is held as its 32 bits. The lemmas: no parser panics on any octets, and what
  is built is parsed back; the cumulative loss of a report block alone comes back changed, because
  the parser shifts its 24 bits right by 8.
\<close>

subsection \<open>Packet types and errors\<close>

datatype rtcp_type = SenderReportType | ReceiverReportType | SourceDescriptionType | GoodbyeType
  | ApplicationDefinedType | TransportFeedbackType | PayloadFeedbackType

datatype rtcp_parse_error = RtcpTooShort nat | RtcpInvalidVersion u8 | UnknownPacketType u8
  | InvalidReportCount

text \<open>\<open>header.packet_type as u8\<close>.\<close>

fun rtcp_type_u8 :: "rtcp_type \<Rightarrow> u8" where
  "rtcp_type_u8 SenderReportType = 200"
| "rtcp_type_u8 ReceiverReportType = 201"
| "rtcp_type_u8 SourceDescriptionType = 202"
| "rtcp_type_u8 GoodbyeType = 203"
| "rtcp_type_u8 ApplicationDefinedType = 204"
| "rtcp_type_u8 TransportFeedbackType = 205"
| "rtcp_type_u8 PayloadFeedbackType = 206"

definition rtcp_type_try_from :: "u8 \<Rightarrow> rtcp_parse_error + rtcp_type" where
  "rtcp_type_try_from value =
     (if value = 200 then Inr SenderReportType
      else if value = 201 then Inr ReceiverReportType
      else if value = 202 then Inr SourceDescriptionType
      else if value = 203 then Inr GoodbyeType
      else if value = 204 then Inr ApplicationDefinedType
      else if value = 205 then Inr TransportFeedbackType
      else if value = 206 then Inr PayloadFeedbackType
      else Inl (UnknownPacketType value))"

lemma rtcp_type_round_trip [simp]: "rtcp_type_try_from (rtcp_type_u8 t) = Inr t"
  by (cases t) (simp_all add: rtcp_type_try_from_def)

subsection \<open>The common header\<close>

record rtcp_header =
  rh_version :: u8
  rh_padding :: bool
  rh_count :: u8
  rh_packet_type :: rtcp_type
  rh_length :: u16

definition rtcp_header_parse :: "octets \<Rightarrow> (rtcp_parse_error + rtcp_header \<times> octets) option" where
  "rtcp_header_parse data =
     (if length data < 4 then Some (Inl (RtcpTooShort (length data)))
      else do {
        first_byte \<leftarrow> at data 0;
        let version = drop_bit 6 first_byte AND 0x03;
        let padding = (drop_bit 5 first_byte AND 0x01 = 1);
        let count = first_byte AND 0x1F;
        if version \<noteq> 2 then Some (Inl (RtcpInvalidVersion version))
        else do {
          pt \<leftarrow> at data 1;
          case rtcp_type_try_from pt of
            Inl e \<Rightarrow> Some (Inl e)
          | Inr packet_type \<Rightarrow> do {
              len \<leftarrow> be16_at 2 data;
              (_, rest) \<leftarrow> get_slice 4 data;
              Some (Inr (\<lparr>rh_version = version, rh_padding = padding, rh_count = count,
                rh_packet_type = packet_type, rh_length = len\<rparr>, rest))
            }
        }
      })"

definition rtcp_header_build :: "rtcp_header \<Rightarrow> octets" where
  "rtcp_header_build h =
     [push_bit 6 (rh_version h) OR push_bit 5 (of_bool (rh_padding h)) OR (rh_count h AND 0x1F)]
     @ [rtcp_type_u8 (rh_packet_type h)] @ u16_be (rh_length h)"

text \<open>The header every \<open>build\<close> of this module writes.\<close>

definition plain_header :: "u8 \<Rightarrow> rtcp_type \<Rightarrow> u16 \<Rightarrow> rtcp_header" where
  "plain_header count packet_type len =
     \<lparr>rh_version = 2, rh_padding = False, rh_count = count, rh_packet_type = packet_type,
      rh_length = len\<rparr>"

lemma plain_header_simps [simp]:
  "rh_count (plain_header count t len) = count" "rh_packet_type (plain_header count t len) = t"
  "rh_length (plain_header count t len) = len"
  by (simp_all add: plain_header_def)

lemma length_header_build [simp]: "length (rtcp_header_build h) = 4"
  by (simp add: rtcp_header_build_def)

lemma count_byte:
  fixes count :: u8
  assumes "unat count < 32"
  shows "drop_bit 6 (0x80 OR count) AND 3 = 2" "drop_bit 5 (0x80 OR count) AND 1 = 0"
    "(0x80 OR count) AND 0x1F = count"
proof -
  have mask: "count AND 0x1F = count"
    using and_mask_small [of count 5] assms by (simp add: mask_eq_exp_minus_1)
  have drops: "drop_bit 6 count = 0" "drop_bit 5 count = 0"
    using drop_bit_small [of count 6] drop_bit_small [of count 5] assms by simp_all
  show "drop_bit 6 (0x80 OR count) AND 3 = 2" "drop_bit 5 (0x80 OR count) AND 1 = 0"
    "(0x80 OR count) AND 0x1F = count"
    by (simp_all add: drop_bit_or drops bit.conj_disj_distrib2 mask)
qed

lemma header_parse_build:
  assumes "unat count < 32"
  shows "rtcp_header_parse (rtcp_header_build (plain_header count t len) @ rest)
    = Some (Inr (plain_header count t len, rest))"
proof -
  have mask: "count AND 0x1F = count"
    using and_mask_small [of count 5] assms by (simp add: mask_eq_exp_minus_1)
  define b where "b = 0x80 OR count"
  note b = count_byte [OF assms, folded b_def]
  have build: "rtcp_header_build (plain_header count t len) @ rest = [b, rtcp_type_u8 t] @ u16_be len @ rest"
    by (simp add: rtcp_header_build_def plain_header_def mask b_def)
  show ?thesis
    unfolding build
    using be16_at_append [of 2 "[b, rtcp_type_u8 t]" len rest]
    by (simp add: rtcp_header_parse_def at_def get_slice_def b plain_header_def)
qed

lemma header_parse_total: "\<exists>r. rtcp_header_parse data = Some r"
  by (auto simp: rtcp_header_parse_def read_simps Let_def split: sum.splits)

lemma header_parse_Inr:
  assumes "rtcp_header_parse data = Some (Inr (h, rest))"
  shows "rest = drop 4 data" "4 \<le> length data" "unat (rh_count h) < 32"
proof -
  from assms obtain b where b: "rh_count h = b AND 0x1F" and "rest = drop 4 data" "4 \<le> length data"
    by (auto simp: rtcp_header_parse_def bind_eq_Some_conv try_Inr_conv Let_def get_slice_def
      split: if_splits)
  then show "rest = drop 4 data" "4 \<le> length data" by simp_all
  show "unat (rh_count h) < 32" using word_and_le1 [of b "0x1F"] by (simp add: b word_le_nat_alt)
qed

subsection \<open>NTP timestamps\<close>

record ntp_timestamp =
  ntp_seconds :: u32
  ntp_fraction :: u32

definition NTP_UNIX_OFFSET :: u64 where "NTP_UNIX_OFFSET = 2208988800"

text \<open>\<open>now\<close> reads the clock: the whole seconds and the nanoseconds since 1970 are its arguments.\<close>

definition ntp_now :: "u64 \<Rightarrow> u32 \<Rightarrow> ntp_timestamp" where
  "ntp_now secs subsec_nanos =
     \<lparr>ntp_seconds = ucast (secs + NTP_UNIX_OFFSET),
      ntp_fraction = ucast (push_bit 32 (ucast subsec_nanos :: u64) div 1000000000)\<rparr>"

definition ntp_compact :: "ntp_timestamp \<Rightarrow> u32" where
  "ntp_compact t = push_bit 16 (ntp_seconds t AND 0xFFFF) OR (drop_bit 16 (ntp_fraction t) AND 0xFFFF)"

definition ntp_from_compact :: "u32 \<Rightarrow> ntp_timestamp" where
  "ntp_from_compact compact =
     \<lparr>ntp_seconds = drop_bit 16 compact AND 0xFFFF, ntp_fraction = push_bit 16 (compact AND 0xFFFF)\<rparr>"

lemma and_0xFFFF: "x AND 0xFFFF = take_bit 16 (x :: u32)"
  by (simp add: take_bit_eq_mask mask_eq_exp_minus_1)

lemma ntp_compact_round_trip: "ntp_compact (ntp_from_compact c) = c"
  unfolding ntp_compact_def ntp_from_compact_def
  by (rule bit_word_eqI) (auto simp: and_0xFFFF bit_simps)

text \<open>The fraction of a nanosecond count below one second fits its 32 bits and is exact to one unit.\<close>

lemma ntp_now_fraction:
  assumes "unat nanos < 1000000000"
  shows "unat (ntp_fraction (ntp_now secs nanos)) = unat nanos * 2 ^ 32 div 1000000000"
proof -
  have "unat nanos * 4294967296 div 1000000000 < 4294967296" using assms by simp
  with assms show ?thesis
    by (simp add: ntp_now_def unsigned_ucast_eq unat_div unsigned_push_bit_eq push_bit_eq_mult
      take_bit_eq_mod unat_word_ariths)
qed

subsection \<open>Report blocks\<close>

record report_block =
  rb_ssrc :: u32
  rb_fraction_lost :: u8
  rb_cumulative_lost :: u32
  rb_extended_seq :: u32
  rb_jitter :: u32
  rb_last_sr :: u32
  rb_delay_since_sr :: u32

definition report_block_size :: nat where "report_block_size = 24"

definition report_block_parse :: "octets \<Rightarrow> (rtcp_parse_error + report_block) option" where
  "report_block_parse data =
     (if length data < report_block_size then Some (Inl (RtcpTooShort (length data)))
      else do {
        (ssrc, buf) \<leftarrow> get_u32 data;
        (fraction_lost, buf) \<leftarrow> get_u8 buf;
        (b1, buf) \<leftarrow> get_u8 buf;
        (b2, buf) \<leftarrow> get_u8 buf;
        (b3, buf) \<leftarrow> get_u8 buf;
        let cumulative_lost = signed_drop_bit 8 (u32_of_be 0 b1 b2 b3);
        (extended_seq, buf) \<leftarrow> get_u32 buf;
        (jitter, buf) \<leftarrow> get_u32 buf;
        (last_sr, buf) \<leftarrow> get_u32 buf;
        (delay_since_sr, buf) \<leftarrow> get_u32 buf;
        Some (Inr \<lparr>rb_ssrc = ssrc, rb_fraction_lost = fraction_lost,
          rb_cumulative_lost = cumulative_lost, rb_extended_seq = extended_seq, rb_jitter = jitter,
          rb_last_sr = last_sr, rb_delay_since_sr = delay_since_sr\<rparr>)
      })"

definition report_block_build :: "report_block \<Rightarrow> octets" where
  "report_block_build b =
     u32_be (rb_ssrc b) @ [rb_fraction_lost b] @ drop 1 (u32_be (rb_cumulative_lost b))
     @ u32_be (rb_extended_seq b) @ u32_be (rb_jitter b) @ u32_be (rb_last_sr b)
     @ u32_be (rb_delay_since_sr b)"

lemma length_report_block_build [simp]: "length (report_block_build b) = report_block_size"
  by (simp add: report_block_build_def report_block_size_def)

text \<open>
  What the cumulative loss is after a round trip: its 24 transmitted bits without the last 8, never
  negative. The source's comment announces a sign extension of the 24 bits instead.
\<close>

definition lost_after :: "u32 \<Rightarrow> u32" where
  "lost_after lost = take_bit 16 (drop_bit 8 lost)"

definition block_after :: "report_block \<Rightarrow> report_block" where
  "block_after b = b\<lparr>rb_cumulative_lost := lost_after (rb_cumulative_lost b)\<rparr>"

lemma signed_drop_bit_top:
  "signed_drop_bit 8 (u32_of_be 0 (ucast (drop_bit 16 x)) (ucast (drop_bit 8 x)) (ucast x)) = lost_after x"
proof (rule bit_word_eqI)
  fix n assume "n < LENGTH(32)"
  then consider "n < 8" | "8 \<le> n" "n < 16" | "16 \<le> n" "n < 24" | "24 \<le> n" "n < 32"
    by fastforce
  then show "bit (signed_drop_bit 8 (u32_of_be 0 (ucast (drop_bit 16 x)) (ucast (drop_bit 8 x)) (ucast x))) n
      = bit (lost_after x) n"
    by cases (simp_all add: u32_of_be_def lost_after_def bit_signed_drop_bit_iff bit_simps less_diff_conv2)
qed

lemma report_block_parse_build:
  "report_block_parse (report_block_build b) = Some (Inr (block_after b))"
proof -
  have "drop 1 (u32_be x) = [ucast (drop_bit 16 x), ucast (drop_bit 8 x), ucast x]" for x
    by (simp add: u32_be_def)
  then have build: "report_block_build b = u32_be (rb_ssrc b) @ rb_fraction_lost b
      # ucast (drop_bit 16 (rb_cumulative_lost b)) # ucast (drop_bit 8 (rb_cumulative_lost b))
      # ucast (rb_cumulative_lost b) # u32_be (rb_extended_seq b) @ u32_be (rb_jitter b)
      @ u32_be (rb_last_sr b) @ u32_be (rb_delay_since_sr b) @ []"
    by (simp add: report_block_build_def)
  show ?thesis
    unfolding build
    by (simp add: report_block_parse_def report_block_size_def block_after_def signed_drop_bit_top
      del: append_Nil2)
qed

lemma report_block_parse_read:
  "length data = 24 \<Longrightarrow> \<exists>b. report_block_parse data = Some (Inr b)"
  by (simp add: report_block_parse_def report_block_size_def read_simps Let_def)

subsection \<open>Sender and receiver reports\<close>

record sender_report =
  sr_ssrc :: u32
  sr_ntp_timestamp :: ntp_timestamp
  sr_rtp_timestamp :: u32
  sr_packet_count :: u32
  sr_octet_count :: u32
  sr_report_blocks :: "report_block list"

record receiver_report =
  rr_ssrc :: u32
  rr_report_blocks :: "report_block list"

text \<open>The loop over the announced report blocks, the same in both parsers.\<close>

fun report_blocks_parse :: "nat \<Rightarrow> octets \<Rightarrow> (rtcp_parse_error + report_block list) option" where
  "report_blocks_parse 0 buf = Some (Inr [])"
| "report_blocks_parse (Suc n) buf =
     (if length buf < report_block_size then Some (Inl InvalidReportCount)
      else do {
        (block_data, buf) \<leftarrow> get_slice report_block_size buf;
        block \<leftarrow> report_block_parse block_data;
        case block of
          Inl _ \<Rightarrow> None
        | Inr block \<Rightarrow> do {
            blocks \<leftarrow> report_blocks_parse n buf;
            Some (case blocks of Inl e \<Rightarrow> Inl e | Inr blocks \<Rightarrow> Inr (block # blocks))
          }
      })"

definition sender_report_parse :: "octets \<Rightarrow> (rtcp_parse_error + sender_report) option" where
  "sender_report_parse data = do {
     hd \<leftarrow> rtcp_header_parse data;
     case hd of
       Inl e \<Rightarrow> Some (Inl e)
     | Inr (header, rest) \<Rightarrow>
         if rh_packet_type header \<noteq> SenderReportType
         then Some (Inl (UnknownPacketType (rtcp_type_u8 (rh_packet_type header))))
         else if length rest < 24 then Some (Inl (RtcpTooShort (length rest)))
         else do {
           (ssrc, buf) \<leftarrow> get_u32 rest;
           (seconds, buf) \<leftarrow> get_u32 buf;
           (fraction, buf) \<leftarrow> get_u32 buf;
           (rtp_timestamp, buf) \<leftarrow> get_u32 buf;
           (packet_count, buf) \<leftarrow> get_u32 buf;
           (octet_count, buf) \<leftarrow> get_u32 buf;
           blocks \<leftarrow> report_blocks_parse (unat (rh_count header)) buf;
           case blocks of
             Inl e \<Rightarrow> Some (Inl e)
           | Inr blocks \<Rightarrow>
               Some (Inr \<lparr>sr_ssrc = ssrc,
                 sr_ntp_timestamp = \<lparr>ntp_seconds = seconds, ntp_fraction = fraction\<rparr>,
                 sr_rtp_timestamp = rtp_timestamp, sr_packet_count = packet_count,
                 sr_octet_count = octet_count, sr_report_blocks = blocks\<rparr>)
         }
   }"

definition sender_report_build :: "sender_report \<Rightarrow> octets" where
  "sender_report_build sr =
     (let report_count = of_nat (min (length (sr_report_blocks sr)) 31) :: u8;
          len = 6 + ucast report_count * 6 :: u16
      in rtcp_header_build (plain_header report_count SenderReportType len)
         @ u32_be (sr_ssrc sr) @ u32_be (ntp_seconds (sr_ntp_timestamp sr))
         @ u32_be (ntp_fraction (sr_ntp_timestamp sr)) @ u32_be (sr_rtp_timestamp sr)
         @ u32_be (sr_packet_count sr) @ u32_be (sr_octet_count sr)
         @ concat (map report_block_build (sr_report_blocks sr)))"

definition receiver_report_parse :: "octets \<Rightarrow> (rtcp_parse_error + receiver_report) option" where
  "receiver_report_parse data = do {
     hd \<leftarrow> rtcp_header_parse data;
     case hd of
       Inl e \<Rightarrow> Some (Inl e)
     | Inr (header, rest) \<Rightarrow>
         if rh_packet_type header \<noteq> ReceiverReportType
         then Some (Inl (UnknownPacketType (rtcp_type_u8 (rh_packet_type header))))
         else if length rest < 4 then Some (Inl (RtcpTooShort (length rest)))
         else do {
           (ssrc, buf) \<leftarrow> get_u32 rest;
           blocks \<leftarrow> report_blocks_parse (unat (rh_count header)) buf;
           case blocks of
             Inl e \<Rightarrow> Some (Inl e)
           | Inr blocks \<Rightarrow> Some (Inr \<lparr>rr_ssrc = ssrc, rr_report_blocks = blocks\<rparr>)
         }
   }"

definition receiver_report_build :: "receiver_report \<Rightarrow> octets" where
  "receiver_report_build rr =
     (let report_count = of_nat (min (length (rr_report_blocks rr)) 31) :: u8;
          len = 1 + ucast report_count * 6 :: u16
      in rtcp_header_build (plain_header report_count ReceiverReportType len)
         @ u32_be (rr_ssrc rr) @ concat (map report_block_build (rr_report_blocks rr)))"

text \<open>Reports of at most 31 blocks survive a round trip, up to the cumulative loss.\<close>

lemma report_blocks_parse_build:
  "n = length bs \<Longrightarrow> report_blocks_parse n (concat (map report_block_build bs) @ rest)
     = Some (Inr (map block_after bs))"
proof (induction bs arbitrary: n)
  case (Cons b bs)
  have "report_blocks_parse (Suc (length bs))
      (report_block_build b @ (concat (map report_block_build bs) @ rest))
      = Some (Inr (block_after b # map block_after bs))"
    using Cons.IH [of "length bs"] by (simp add: report_block_parse_build)
  with Cons.prems show ?case by simp
qed simp

lemma length_report_blocks [simp]: "length (concat (map report_block_build bs)) = 24 * length bs"
  by (induction bs) (simp_all add: report_block_size_def)

lemma count_u8:
  assumes "n \<le> 31"
  obtains c :: u8 where "of_nat (min n 31) = c" "unat c = n" "unat c < 32"
  using assms that [of "of_nat n"] by (simp add: unat_of_nat)

lemma sender_report_parse_build:
  assumes "length (sr_report_blocks sr) \<le> 31"
  shows "sender_report_parse (sender_report_build sr)
    = Some (Inr (sr\<lparr>sr_report_blocks := map block_after (sr_report_blocks sr)\<rparr>))"
proof -
  obtain c :: u8 where c: "of_nat (min (length (sr_report_blocks sr)) 31) = c"
      "unat c = length (sr_report_blocks sr)" "unat c < 32"
    using assms by (rule count_u8)
  show ?thesis
    using c(2) report_blocks_parse_build [of "unat c" "sr_report_blocks sr" "[]"]
    unfolding sender_report_build_def c(1)
    by (simp add: sender_report_parse_def Let_def header_parse_build [OF c(3)])
qed

lemma receiver_report_parse_build:
  assumes "length (rr_report_blocks rr) \<le> 31"
  shows "receiver_report_parse (receiver_report_build rr)
    = Some (Inr (rr\<lparr>rr_report_blocks := map block_after (rr_report_blocks rr)\<rparr>))"
proof -
  obtain c :: u8 where c: "of_nat (min (length (rr_report_blocks rr)) 31) = c"
      "unat c = length (rr_report_blocks rr)" "unat c < 32"
    using assms by (rule count_u8)
  show ?thesis
    using c(2) report_blocks_parse_build [of "unat c" "rr_report_blocks rr" "[]"]
    unfolding receiver_report_build_def c(1)
    by (simp add: receiver_report_parse_def Let_def header_parse_build [OF c(3)])
qed

text \<open>No octets make the parsers panic.\<close>

lemma report_blocks_parse_total: "\<exists>r. report_blocks_parse n buf = Some r"
proof (induction n arbitrary: buf)
  case (Suc n)
  show ?case
  proof (cases "length buf < 24")
    case False
    then obtain b where "report_block_parse (take 24 buf) = Some (Inr b)"
      using report_block_parse_read [of "take 24 buf"] by auto
    moreover obtain r where "report_blocks_parse n (drop 24 buf) = Some r" using Suc by blast
    ultimately show ?thesis using False by (simp add: report_block_size_def read_simps)
  qed (simp add: report_block_size_def)
qed simp

lemma sender_report_parse_total: "\<exists>r. sender_report_parse data = Some r"
proof -
  obtain f g where f: "\<And>d. rtcp_header_parse d = Some (f d)"
      "\<And>n d. report_blocks_parse n d = Some (g n d)"
    using header_parse_total report_blocks_parse_total by metis
  show ?thesis
    by (auto simp: sender_report_parse_def f read_simps split: sum.splits)
qed

lemma receiver_report_parse_total: "\<exists>r. receiver_report_parse data = Some r"
proof -
  obtain f g where f: "\<And>d. rtcp_header_parse d = Some (f d)"
      "\<And>n d. report_blocks_parse n d = Some (g n d)"
    using header_parse_total report_blocks_parse_total by metis
  show ?thesis
    by (auto simp: receiver_report_parse_def f read_simps split: sum.splits)
qed

end
