(* ===== verification/Rtcp_Sdes.thy ===== *)
theory Rtcp_Sdes
  imports Rtcp_Report
begin

section \<open>RTCP source descriptions and goodbyes\<close>

text \<open>
  The SDES and BYE packets of \<open>rtp/rtcp.rs\<close>. Text is UTF-8 held as octets; the parsers decode it with
  \<open>from_utf8_lossy\<close>. In the item loop every read directly follows its length check, so the loop
  matches on the buffer and has only the error the check reports. The lemmas: the parsers do not panic,
  and descriptions and goodbyes within the limits of the format survive a round trip.
\<close>

subsection \<open>Source descriptions\<close>

datatype sdes_type = SdesEnd | SdesCName | SdesName | SdesEmail | SdesPhone | SdesLocation
  | SdesTool | SdesNote | SdesPrivate

fun sdes_type_u8 :: "sdes_type \<Rightarrow> u8" where
  "sdes_type_u8 SdesEnd = 0"
| "sdes_type_u8 SdesCName = 1"
| "sdes_type_u8 SdesName = 2"
| "sdes_type_u8 SdesEmail = 3"
| "sdes_type_u8 SdesPhone = 4"
| "sdes_type_u8 SdesLocation = 5"
| "sdes_type_u8 SdesTool = 6"
| "sdes_type_u8 SdesNote = 7"
| "sdes_type_u8 SdesPrivate = 8"

record sdes_item =
  si_type :: sdes_type
  si_value :: string

record sdes_chunk =
  ck_ssrc :: u32
  ck_items :: "sdes_item list"

record source_description =
  sd_chunks :: "sdes_chunk list"

definition with_cname :: "u32 \<Rightarrow> string \<Rightarrow> source_description" where
  "with_cname ssrc cname =
     \<lparr>sd_chunks = [\<lparr>ck_ssrc = ssrc, ck_items = [\<lparr>si_type = SdesCName, si_value = cname\<rparr>]\<rparr>]\<rparr>"

text \<open>The item types the parser keeps; items of any other type are skipped.\<close>

definition sdes_known_type :: "u8 \<Rightarrow> sdes_type option" where
  "sdes_known_type t =
     (if t = 1 then Some SdesCName else if t = 2 then Some SdesName
      else if t = 3 then Some SdesEmail else if t = 4 then Some SdesPhone
      else if t = 5 then Some SdesLocation else if t = 6 then Some SdesTool
      else if t = 7 then Some SdesNote else if t = 8 then Some SdesPrivate else None)"

text \<open>The items of a chunk up to the end marker, and what follows it.\<close>

function sdes_items_parse :: "octets \<Rightarrow> rtcp_parse_error + sdes_item list \<times> octets" where
  "sdes_items_parse [] = Inl (RtcpTooShort 0)"
| "sdes_items_parse (item_type # buf) =
     (if item_type = 0 then Inr ([], buf)
      else (case buf of
        [] \<Rightarrow> Inl (RtcpTooShort 0)
      | len # buf \<Rightarrow>
          if length buf < unat len then Inl (RtcpTooShort (length buf))
          else
            (let value = from_utf8_lossy (from_bytes (take (unat len) buf)) in
             case sdes_items_parse (drop (unat len) buf) of
               Inl e \<Rightarrow> Inl e
             | Inr (items, rest) \<Rightarrow>
                 Inr (case sdes_known_type item_type of
                        Some t \<Rightarrow> \<lparr>si_type = t, si_value = value\<rparr> # items
                      | None \<Rightarrow> items, rest))))"
  by pat_completeness auto
termination by (relation "measure length") simp_all

text \<open>The octets missing to a 32-bit boundary.\<close>

definition pad_len :: "nat \<Rightarrow> nat" where
  "pad_len consumed = (4 - consumed mod 4) mod 4"

text \<open>The chunks, each padded to a 32-bit boundary relative to its own start.\<close>

primrec sdes_chunks_parse :: "nat \<Rightarrow> octets \<Rightarrow> (rtcp_parse_error + sdes_chunk list) option" where
  "sdes_chunks_parse 0 buf = Some (Inr [])"
| "sdes_chunks_parse (Suc n) buf =
     (if length buf < 4 then Some (Inl (RtcpTooShort (length buf)))
      else do {
        let chunk_start = length buf;
        (ssrc, buf) \<leftarrow> get_u32 buf;
        case sdes_items_parse buf of
          Inl e \<Rightarrow> Some (Inl e)
        | Inr (items, buf) \<Rightarrow> do {
            let consumed = chunk_start - length buf;
            let pad = pad_len consumed;
            if length buf < pad then Some (Inl (RtcpTooShort (length buf)))
            else do {
              (_, buf) \<leftarrow> get_slice pad buf;
              chunks \<leftarrow> sdes_chunks_parse n buf;
              Some (case chunks of
                      Inl e \<Rightarrow> Inl e
                    | Inr chunks \<Rightarrow> Inr (\<lparr>ck_ssrc = ssrc, ck_items = items\<rparr> # chunks))
            }
          }
      })"

definition sdes_parse :: "octets \<Rightarrow> (rtcp_parse_error + source_description) option" where
  "sdes_parse data = do {
     hd \<leftarrow> rtcp_header_parse data;
     case hd of
       Inl e \<Rightarrow> Some (Inl e)
     | Inr (header, rest) \<Rightarrow>
         if rh_packet_type header \<noteq> SourceDescriptionType
         then Some (Inl (UnknownPacketType (rtcp_type_u8 (rh_packet_type header))))
         else do {
           let declared = unat (rh_length header) * 4;
           if length rest < declared then Some (Inl (RtcpTooShort (length rest)))
           else do {
             (buf, _) \<leftarrow> get_slice declared rest;
             chunks \<leftarrow> sdes_chunks_parse (unat (rh_count header)) buf;
             case chunks of
               Inl e \<Rightarrow> Some (Inl e)
             | Inr chunks \<Rightarrow> Some (Inr \<lparr>sd_chunks = chunks\<rparr>)
           }
         }
   }"

text \<open>\<open>while !buf.len().is_multiple_of(4) { buf.put_u8(0) }\<close>\<close>

definition pad4 :: "octets \<Rightarrow> octets" where
  "pad4 buf = buf @ replicate (pad_len (length buf)) 0"

definition sdes_item_build :: "sdes_item \<Rightarrow> octets" where
  "sdes_item_build item =
     [sdes_type_u8 (si_type item)] @ [of_nat (length (as_bytes (si_value item)))]
     @ as_bytes (si_value item)"

definition sdes_chunk_build :: "octets \<Rightarrow> sdes_chunk \<Rightarrow> octets" where
  "sdes_chunk_build buf chunk =
     pad4 (buf @ u32_be (ck_ssrc chunk) @ concat (map sdes_item_build (ck_items chunk)) @ [0])"

definition sdes_build :: "source_description \<Rightarrow> octets" where
  "sdes_build sdes =
     (let chunk_count = of_nat (min (length (sd_chunks sdes)) 31) :: u8;
          buf = foldl sdes_chunk_build (u32_be 0) (sd_chunks sdes);
          len = of_nat ((length buf - 4) div 4) :: u16
      in [push_bit 6 2 OR chunk_count, rtcp_type_u8 SourceDescriptionType,
          ucast (drop_bit 8 len), ucast (len AND 0xFF)] @ drop 4 buf)"

subsection \<open>Goodbyes\<close>

record goodbye =
  gb_ssrcs :: "u32 list"
  gb_reason :: "string option"

definition goodbye_new :: "u32 \<Rightarrow> goodbye" where
  "goodbye_new ssrc = \<lparr>gb_ssrcs = [ssrc], gb_reason = None\<rparr>"

definition goodbye_parse :: "octets \<Rightarrow> (rtcp_parse_error + goodbye) option" where
  "goodbye_parse data = do {
     hd \<leftarrow> rtcp_header_parse data;
     case hd of
       Inl e \<Rightarrow> Some (Inl e)
     | Inr (header, rest) \<Rightarrow>
         if rh_packet_type header \<noteq> GoodbyeType
         then Some (Inl (UnknownPacketType (rtcp_type_u8 (rh_packet_type header))))
         else do {
           let declared = unat (rh_length header) * 4;
           if length rest < declared then Some (Inl (RtcpTooShort (length rest)))
           else do {
             (buf, _) \<leftarrow> get_slice declared rest;
             let ssrc_count = unat (rh_count header);
             if length buf < ssrc_count * 4 then Some (Inl (RtcpTooShort (length buf)))
             else do {
               (ssrcs, buf) \<leftarrow> get_u32s ssrc_count buf;
               if length buf \<ge> 1 then do {
                 (len, buf) \<leftarrow> get_u8 buf;
                 if length buf < unat len then Some (Inl (RtcpTooShort (length buf)))
                 else do {
                   (value, buf) \<leftarrow> get_slice (unat len) buf;
                   Some (Inr \<lparr>gb_ssrcs = ssrcs, gb_reason = Some (from_utf8_lossy (from_bytes value))\<rparr>)
                 }
               }
               else Some (Inr \<lparr>gb_ssrcs = ssrcs, gb_reason = None\<rparr>)
             }
           }
         }
   }"

definition goodbye_build :: "goodbye \<Rightarrow> octets" where
  "goodbye_build bye =
     (let ssrc_count = of_nat (min (length (gb_ssrcs bye)) 31) :: u8;
          content_len = length (gb_ssrcs bye) * 4;
          content_len = (case gb_reason bye of
              None \<Rightarrow> content_len
            | Some reason \<Rightarrow> (content_len + (1 + length reason) + 3) div 4 * 4);
          len = of_nat (content_len div 4) :: u16;
          buf = rtcp_header_build (plain_header ssrc_count GoodbyeType len)
            @ concat (map u32_be (gb_ssrcs bye))
      in case gb_reason bye of
           None \<Rightarrow> buf
         | Some reason \<Rightarrow> pad4 (buf @ [of_nat (length (as_bytes reason))] @ as_bytes reason))"

subsection \<open>No panics\<close>

lemma sdes_chunks_parse_total: "\<exists>r. sdes_chunks_parse n buf = Some r"
proof (induction n arbitrary: buf)
  case (Suc n)
  then obtain f where f: "\<And>d. sdes_chunks_parse n d = Some (f d)" by metis
  show ?case
    by (auto simp: read_simps f Let_def split: sum.splits)
qed simp

lemma sdes_parse_total: "\<exists>r. sdes_parse data = Some r"
proof -
  obtain f g where f: "\<And>d. rtcp_header_parse d = Some (f d)"
      "\<And>n d. sdes_chunks_parse n d = Some (g n d)"
    using header_parse_total sdes_chunks_parse_total by metis
  show ?thesis by (auto simp: sdes_parse_def f read_simps Let_def split: sum.splits)
qed

lemma goodbye_parse_total: "\<exists>r. goodbye_parse data = Some r"
proof -
  obtain f where f: "\<And>d. rtcp_header_parse d = Some (f d)" using header_parse_total by metis
  show ?thesis by (auto simp: goodbye_parse_def f read_simps Let_def split: sum.splits)
qed

subsection \<open>Round trips\<close>

definition text_ok :: "string \<Rightarrow> bool" where
  "text_ok s \<longleftrightarrow> utf8_valid s \<and> length s \<le> 255"

definition item_ok :: "sdes_item \<Rightarrow> bool" where
  "item_ok item \<longleftrightarrow> si_type item \<noteq> SdesEnd \<and> text_ok (si_value item)"

definition chunk_ok :: "sdes_chunk \<Rightarrow> bool" where
  "chunk_ok chunk \<longleftrightarrow> (\<forall>item \<in> set (ck_items chunk). item_ok item)"

lemma text_ok_length: "text_ok s \<Longrightarrow> unat (of_nat (length s) :: u8) = length s"
  by (simp add: text_ok_def unat_of_nat)

lemma sdes_type_known: "t \<noteq> SdesEnd \<Longrightarrow> sdes_known_type (sdes_type_u8 t) = Some t \<and> sdes_type_u8 t \<noteq> 0"
  by (cases t) (simp_all add: sdes_known_type_def)

lemma sdes_items_parse_build:
  assumes "\<forall>item \<in> set items. item_ok item"
  shows "sdes_items_parse (concat (map sdes_item_build items) @ 0 # rest) = Inr (items, rest)"
  using assms
proof (induction items)
  case (Cons item items)
  then have ok: "text_ok (si_value item)" "si_type item \<noteq> SdesEnd" by (simp_all add: item_ok_def)
  then have "from_utf8_lossy (si_value item) = si_value item"
    by (simp add: text_ok_def from_utf8_lossy_valid)
  with Cons ok show ?case
    by (simp add: sdes_item_build_def sdes_type_known text_ok_length)
qed simp

lemma pad_len_mod: "(n + pad_len n) mod 4 = 0"
proof -
  have "n mod 4 < 4" by simp
  then consider "n mod 4 = 0" | "n mod 4 = 1" | "n mod 4 = 2" | "n mod 4 = 3" by linarith
  then show ?thesis by cases (simp_all add: pad_len_def, presburger+)
qed

lemma length_pad4 [simp]: "length (pad4 buf) mod 4 = 0"
  by (simp add: pad4_def pad_len_mod)

definition chunk_octets :: "sdes_chunk \<Rightarrow> octets" where
  "chunk_octets chunk =
     pad4 (u32_be (ck_ssrc chunk) @ concat (map sdes_item_build (ck_items chunk)) @ [0])"

lemma mod4_add: "m mod 4 = 0 \<Longrightarrow> (m + n) mod 4 = n mod 4" for m n :: nat
  by presburger

lemma pad4_append: "length a mod 4 = 0 \<Longrightarrow> pad4 (a @ b) = a @ pad4 b"
  by (simp add: pad4_def pad_len_def mod4_add)

lemma sdes_chunks_build:
  "length buf mod 4 = 0 \<Longrightarrow> foldl sdes_chunk_build buf chunks = buf @ concat (map chunk_octets chunks)"
proof (induction chunks arbitrary: buf)
  case (Cons c cs)
  have step: "sdes_chunk_build buf c = buf @ chunk_octets c"
    using Cons.prems by (simp add: sdes_chunk_build_def chunk_octets_def pad4_append)
  have "length (buf @ chunk_octets c) mod 4 = 0"
    using Cons.prems by (simp add: chunk_octets_def mod4_add)
  from Cons.IH [OF this] show ?case by (simp add: step)
qed simp

lemma sdes_chunks_parse_build:
  assumes "\<forall>c \<in> set chunks. chunk_ok c" "n = length chunks"
  shows "sdes_chunks_parse n (concat (map chunk_octets chunks)) = Some (Inr chunks)"
  using assms
proof (induction chunks arbitrary: n)
  case (Cons c cs)
  define body where "body = concat (map sdes_item_build (ck_items c))"
  define tail where "tail = concat (map chunk_octets cs)"
  define pad where "pad = pad_len (5 + length body)"
  have octets: "chunk_octets c = u32_be (ck_ssrc c) @ body @ 0 # replicate pad 0"
    by (simp add: chunk_octets_def pad4_def body_def pad_def)
  have items: "sdes_items_parse (body @ 0 # replicate pad 0 @ tail) = Inr (ck_items c, replicate pad 0 @ tail)"
    using Cons.prems unfolding body_def by (intro sdes_items_parse_build) (simp add: chunk_ok_def)
  have IH: "sdes_chunks_parse (length cs) tail = Some (Inr cs)"
    using Cons by (simp add: tail_def)
  show ?case
    using Cons.prems(2) IH items
    by (simp add: octets Let_def flip: tail_def pad_def)
qed simp

definition sdes_ok :: "source_description \<Rightarrow> bool" where
  "sdes_ok sdes \<longleftrightarrow> length (sd_chunks sdes) \<le> 31 \<and> (\<forall>c \<in> set (sd_chunks sdes). chunk_ok c)
     \<and> length (concat (map chunk_octets (sd_chunks sdes))) < 4 * 2 ^ 16"

definition goodbye_ok :: "goodbye \<Rightarrow> bool" where
  "goodbye_ok bye \<longleftrightarrow> length (gb_ssrcs bye) \<le> 31
     \<and> (case gb_reason bye of None \<Rightarrow> True | Some reason \<Rightarrow> text_ok reason)"

text \<open>
  A built packet: the plain header with the right count and with the length of the body in words.
\<close>

definition built_as :: "octets \<Rightarrow> u8 \<Rightarrow> rtcp_type \<Rightarrow> octets \<Rightarrow> bool" where
  "built_as packet count t body \<longleftrightarrow> unat count < 32 \<and> length body < 4 * 2 ^ 16 \<and> length body mod 4 = 0
     \<and> packet = rtcp_header_build (plain_header count t (of_nat (length body div 4))) @ body"

lemma len_octets: "[ucast (drop_bit 8 len), ucast (len AND 0xFF)] = u16_be (len :: u16)"
  by (simp add: u16_be_def low_octet)

lemma length_chunks_mod4: "length (concat (map chunk_octets cs)) mod 4 = 0"
  by (induction cs) (simp_all add: chunk_octets_def mod4_add del: length_concat)

lemma sdes_built_as:
  assumes "sdes_ok sdes"
  shows "\<exists>c. unat c = length (sd_chunks sdes)
    \<and> built_as (sdes_build sdes) c SourceDescriptionType (concat (map chunk_octets (sd_chunks sdes)))"
proof -
  let ?body = "concat (map chunk_octets (sd_chunks sdes))"
  have ok: "length (sd_chunks sdes) \<le> 31" "length ?body < 4 * 2 ^ 16"
    using assms by (simp_all add: sdes_ok_def del: length_concat)
  from ok(1) obtain c :: u8 where c: "of_nat (min (length (sd_chunks sdes)) 31) = c"
      "unat c = length (sd_chunks sdes)" "unat c < 32"
    by (rule count_u8)
  have mask: "c AND 0x1F = c" using and_mask_small [of c 5] c(3) by (simp add: mask_eq_exp_minus_1)
  have buf: "foldl sdes_chunk_build (u32_be 0) (sd_chunks sdes) = u32_be 0 @ ?body"
    by (rule sdes_chunks_build) simp
  have "sdes_build sdes = [push_bit 6 2 OR c, rtcp_type_u8 SourceDescriptionType]
      @ u16_be (of_nat (length ?body div 4)) @ ?body"
    unfolding sdes_build_def c(1) buf Let_def len_octets [symmetric]
    by (simp del: length_concat)
  then have "sdes_build sdes = rtcp_header_build
      (plain_header c SourceDescriptionType (of_nat (length ?body div 4))) @ ?body"
    by (simp add: rtcp_header_build_def plain_header_def mask del: length_concat)
  with c ok(2) length_chunks_mod4 show ?thesis unfolding built_as_def by blast
qed

lemma declared_length:
  assumes "length body < 4 * 2 ^ 16" "length body mod 4 = 0"
  shows "unat (of_nat (length body div 4) :: u16) * 4 = length body"
  using assms by (simp add: unat_of_nat) presburger

lemma header_of_built:
  assumes "built_as packet c t body"
  shows "\<exists>h. rtcp_header_parse packet = Some (Inr (h, body)) \<and> rh_packet_type h = t \<and> rh_count h = c
    \<and> unat (rh_length h) * 4 = length body"
  using assms declared_length [of body] header_parse_build [of c t "of_nat (length body div 4)" body]
  by (auto simp: built_as_def)

lemma sdes_parse_build:
  assumes "sdes_ok sdes"
  shows "sdes_parse (sdes_build sdes) = Some (Inr sdes)"
proof -
  let ?body = "concat (map chunk_octets (sd_chunks sdes))"
  obtain c where c: "unat c = length (sd_chunks sdes)" "built_as (sdes_build sdes) c SourceDescriptionType ?body"
    using sdes_built_as [OF assms] by blast
  then obtain h where h: "rtcp_header_parse (sdes_build sdes) = Some (Inr (h, ?body))"
      "rh_packet_type h = SourceDescriptionType" "rh_count h = c" "unat (rh_length h) * 4 = length ?body"
    using header_of_built by blast
  have "sdes_chunks_parse (unat c) ?body = Some (Inr (sd_chunks sdes))"
    using assms c(1) by (intro sdes_chunks_parse_build) (simp_all add: sdes_ok_def)
  then show ?thesis
    by (simp add: sdes_parse_def h Let_def get_slice_all del: length_concat)
qed

definition reason_octets :: "string option \<Rightarrow> octets" where
  "reason_octets reason =
     (case reason of None \<Rightarrow> [] | Some r \<Rightarrow> pad4 (of_nat (length (as_bytes r)) # as_bytes r))"

definition goodbye_body :: "goodbye \<Rightarrow> octets" where
  "goodbye_body bye = concat (map u32_be (gb_ssrcs bye)) @ reason_octets (gb_reason bye)"

lemma length_pad4_div: "length (pad4 buf) = (length buf + 3) div 4 * 4"
proof -
  have "pad_len n + n = (n + 3) div 4 * 4" for n
  proof -
    have "n mod 4 < 4" by simp
    then consider "n mod 4 = 0" | "n mod 4 = 1" | "n mod 4 = 2" | "n mod 4 = 3" by linarith
    then show ?thesis by cases (simp_all add: pad_len_def, presburger+)
  qed
  then show ?thesis by (simp add: pad4_def add.commute)
qed

lemma length_reason_octets:
  "length (reason_octets reason) = (case reason of None \<Rightarrow> 0 | Some r \<Rightarrow> (length r + 4) div 4 * 4)"
  by (simp add: reason_octets_def length_pad4_div add.commute split: option.split)

lemma words_round: "(n * 4 + (1 + l) + 3) div 4 * 4 = n * 4 + (l + 4) div 4 * 4" for n l :: nat
  by presburger

lemma goodbye_built_as:
  assumes "goodbye_ok bye"
  shows "\<exists>c. unat c = length (gb_ssrcs bye) \<and> built_as (goodbye_build bye) c GoodbyeType (goodbye_body bye)"
proof -
  have ok: "length (gb_ssrcs bye) \<le> 31" using assms by (simp add: goodbye_ok_def)
  then obtain c :: u8 where c: "of_nat (min (length (gb_ssrcs bye)) 31) = c"
      "unat c = length (gb_ssrcs bye)" "unat c < 32"
    by (rule count_u8)
  have len: "length (goodbye_body bye) = length (gb_ssrcs bye) * 4 + length (reason_octets (gb_reason bye))"
    by (simp add: goodbye_body_def)
  have mod: "length (goodbye_body bye) mod 4 = 0"
    unfolding len by (cases "gb_reason bye") (simp_all add: length_reason_octets mod4_add)
  have small: "length (goodbye_body bye) < 4 * 2 ^ 16"
  proof (cases "gb_reason bye")
    case (Some r)
    with assms have "length r \<le> 255" "length (reason_octets (gb_reason bye)) = (length r + 4) div 4 * 4"
      by (simp_all add: length_reason_octets goodbye_ok_def text_ok_def)
    with ok div_times_less_eq_dividend [of "length r + 4" 4]
    have "length (gb_ssrcs bye) * 4 + length (reason_octets (gb_reason bye)) < 262144" by linarith
    then show ?thesis unfolding len by simp
  qed (use ok in \<open>simp add: len length_reason_octets\<close>)
  have build: "goodbye_build bye = rtcp_header_build
      (plain_header c GoodbyeType (of_nat (length (goodbye_body bye) div 4))) @ goodbye_body bye"
  proof (cases "gb_reason bye")
    case None
    then show ?thesis
      unfolding goodbye_build_def c(1) by (simp add: goodbye_body_def reason_octets_def)
  next
    case (Some r)
    have round: "(length (gb_ssrcs bye) * 4 + (1 + length r) + 3) div 4 * 4 = length (goodbye_body bye)"
      unfolding len Some length_reason_octets option.case by (rule words_round)
    have pad: "pad4 ((h @ concat (map u32_be (gb_ssrcs bye))) @ x)
        = (h @ concat (map u32_be (gb_ssrcs bye))) @ pad4 x" if "length h = 4" for h x
      using that by (intro pad4_append) simp
    have body: "goodbye_body bye = concat (map u32_be (gb_ssrcs bye))
        @ pad4 ([of_nat (length (as_bytes r))] @ as_bytes r)"
      by (simp add: goodbye_body_def reason_octets_def Some)
    define words where "words = (of_nat (length (goodbye_body bye) div 4) :: u16)"
    have "goodbye_build bye = pad4 ((rtcp_header_build (plain_header c GoodbyeType words)
        @ concat (map u32_be (gb_ssrcs bye))) @ [of_nat (length (as_bytes r))] @ as_bytes r)"
      unfolding goodbye_build_def c(1) Let_def Some option.case round words_def ..
    then have "goodbye_build bye
        = rtcp_header_build (plain_header c GoodbyeType words) @ goodbye_body bye"
      unfolding pad [OF length_header_build] body by simp
    then show ?thesis unfolding words_def .
  qed
  show ?thesis
    unfolding built_as_def
    by (intro exI [of _ c] conjI) (rule c(2) c(3) small mod build)+
qed

lemma goodbye_parse_build:
  assumes "goodbye_ok bye"
  shows "goodbye_parse (goodbye_build bye) = Some (Inr bye)"
proof -
  obtain c where c: "unat c = length (gb_ssrcs bye)" "built_as (goodbye_build bye) c GoodbyeType (goodbye_body bye)"
    using goodbye_built_as [OF assms] by blast
  then obtain h where h: "rtcp_header_parse (goodbye_build bye) = Some (Inr (h, goodbye_body bye))"
      "rh_packet_type h = GoodbyeType" "rh_count h = c" "unat (rh_length h) * 4 = length (goodbye_body bye)"
    using header_of_built by blast
  note parse = goodbye_parse_def h(1-3) Let_def c(1) h(4) get_slice_all
  show ?thesis
  proof (cases "gb_reason bye")
    case None
    then have "goodbye_body bye = concat (map u32_be (gb_ssrcs bye)) @ []"
      by (simp add: goodbye_body_def reason_octets_def)
    then have "get_u32s (length (gb_ssrcs bye)) (goodbye_body bye) = Some (gb_ssrcs bye, [])"
        "length (goodbye_body bye) = 4 * length (gb_ssrcs bye)"
      by (simp_all only: get_u32s_append length_append length_concat_u32) simp
    with None show ?thesis by (simp add: parse get_slice_def)
  next
    case (Some r)
    with assms have r: "text_ok r" by (simp add: goodbye_ok_def)
    define pad where "pad = replicate (pad_len (Suc (length r))) (0 :: u8)"
    have body: "goodbye_body bye = concat (map u32_be (gb_ssrcs bye)) @ of_nat (length r) # as_bytes r @ pad"
      by (simp add: goodbye_body_def reason_octets_def Some pad4_def pad_def)
    have "from_utf8_lossy r = r" using r by (simp add: text_ok_def from_utf8_lossy_valid)
    with Some r show ?thesis
      by (simp add: parse) (simp add: body text_ok_length)
  qed
qed

end
