(* ===== verification/Rtcp_Feedback.thy ===== *)
theory Rtcp_Feedback
  imports Rtcp_Sdes
begin

section \<open>RTCP feedback messages\<close>

text \<open>
  The feedback messages of \<open>rtp/rtcp.rs\<close>: generic NACK, picture loss indication, full intra request
  and REMB. The lemmas: a NACK made from a list of lost packets names exactly these packets, whatever
  their order and wrap-around; no parser panics; messages survive a round trip, a REMB bit rate
  rounded down to its 18 leading bits.
\<close>

subsection \<open>Generic NACK\<close>

record nack_entry =
  ne_pid :: u16
  ne_blp :: u16

record nack =
  nk_sender_ssrc :: u32
  nk_media_ssrc :: u32
  nk_nacks :: "nack_entry list"

definition nack_single :: "u16 \<Rightarrow> nack_entry" where
  "nack_single seq = \<lparr>ne_pid = seq, ne_blp = 0\<rparr>"

definition blp_add :: "u16 \<Rightarrow> u16 \<Rightarrow> u16 \<Rightarrow> u16" where
  "blp_add pid blp seq =
     (let diff = seq - pid - 1 in if diff < 16 then blp OR push_bit (unat diff) 1 else blp)"

definition nack_from_sequences :: "u16 list \<Rightarrow> nack_entry option" where
  "nack_from_sequences seqs =
     (case seqs of
        [] \<Rightarrow> None
      | pid # rest \<Rightarrow> Some \<lparr>ne_pid = pid, ne_blp = foldl (blp_add pid) 0 rest\<rparr>)"

definition lost_sequences :: "nack_entry \<Rightarrow> u16 list" where
  "lost_sequences e =
     ne_pid e # map (\<lambda>i. ne_pid e + (of_nat i + 1))
       (filter (\<lambda>i. drop_bit i (ne_blp e) AND 1 = 1) [0..<16])"

definition nack_new :: "u32 \<Rightarrow> u32 \<Rightarrow> u16 \<Rightarrow> nack" where
  "nack_new sender_ssrc media_ssrc lost_seq =
     \<lparr>nk_sender_ssrc = sender_ssrc, nk_media_ssrc = media_ssrc, nk_nacks = [nack_single lost_seq]\<rparr>"

text \<open>Whether \<open>seq\<close> joins the group that \<open>pid\<close> opens, and the loop that forms the groups.\<close>

definition in_group :: "u16 \<Rightarrow> u16 \<Rightarrow> bool" where
  "in_group pid seq \<longleftrightarrow> (let diff = seq - pid in diff > 0 \<and> diff \<le> 16)"

function nack_groups :: "u16 list \<Rightarrow> nack_entry list option" where
  "nack_groups [] = Some []"
| "nack_groups (pid # rest) =
     (case nack_from_sequences (pid # filter (in_group pid) rest) of
        None \<Rightarrow> None
      | Some entry \<Rightarrow>
          (case nack_groups (filter (\<lambda>seq. \<not> in_group pid seq) rest) of
             None \<Rightarrow> None
           | Some entries \<Rightarrow> Some (entry # entries)))"
  by pat_completeness auto
termination by (relation "measure length") (simp_all add: le_imp_less_Suc)

definition nack_from_lost_packets :: "u32 \<Rightarrow> u32 \<Rightarrow> u16 list \<Rightarrow> nack option" where
  "nack_from_lost_packets sender_ssrc media_ssrc lost_seqs = do {
     nacks \<leftarrow> nack_groups (sort lost_seqs);
     Some \<lparr>nk_sender_ssrc = sender_ssrc, nk_media_ssrc = media_ssrc, nk_nacks = nacks\<rparr>
   }"

definition all_lost_sequences :: "nack \<Rightarrow> u16 list" where
  "all_lost_sequences n = concat (map lost_sequences (nk_nacks n))"

text \<open>\<open>while buf.remaining() >= 4\<close>: the entries that are complete.\<close>

fun nack_entries_parse :: "octets \<Rightarrow> nack_entry list" where
  "nack_entries_parse (a # b # c # d # buf) =
     \<lparr>ne_pid = u16_of_be a b, ne_blp = u16_of_be c d\<rparr> # nack_entries_parse buf"
| "nack_entries_parse _ = []"

text \<open>The checks every feedback parser starts with: packet type, feedback type, two SSRCs.\<close>

definition feedback_parse ::
    "rtcp_type \<Rightarrow> u8 \<Rightarrow> nat \<Rightarrow> octets \<Rightarrow> (rtcp_parse_error + octets) option" where
  "feedback_parse t fmt min_len data = do {
     hd \<leftarrow> rtcp_header_parse data;
     case hd of
       Inl e \<Rightarrow> Some (Inl e)
     | Inr (header, rest) \<Rightarrow>
         if rh_packet_type header \<noteq> t \<or> rh_count header \<noteq> fmt
         then Some (Inl (UnknownPacketType (rtcp_type_u8 (rh_packet_type header))))
         else if length rest < min_len then Some (Inl (RtcpTooShort (length rest)))
         else Some (Inr rest)
   }"

definition nack_parse :: "octets \<Rightarrow> (rtcp_parse_error + nack) option" where
  "nack_parse data = do {
     fb \<leftarrow> feedback_parse TransportFeedbackType 1 8 data;
     case fb of
       Inl e \<Rightarrow> Some (Inl e)
     | Inr buf \<Rightarrow> do {
         (sender_ssrc, buf) \<leftarrow> get_u32 buf;
         (media_ssrc, buf) \<leftarrow> get_u32 buf;
         Some (Inr \<lparr>nk_sender_ssrc = sender_ssrc, nk_media_ssrc = media_ssrc,
           nk_nacks = nack_entries_parse buf\<rparr>)
       }
   }"

definition nack_build :: "nack \<Rightarrow> octets" where
  "nack_build n =
     rtcp_header_build (plain_header 1 TransportFeedbackType (of_nat (2 + length (nk_nacks n))))
     @ u32_be (nk_sender_ssrc n) @ u32_be (nk_media_ssrc n)
     @ concat (map (\<lambda>e. u16_be (ne_pid e) @ u16_be (ne_blp e)) (nk_nacks n))"

subsection \<open>Picture loss and full intra requests\<close>

record pli =
  pl_sender_ssrc :: u32
  pl_media_ssrc :: u32

definition pli_new :: "u32 \<Rightarrow> u32 \<Rightarrow> pli" where
  "pli_new sender_ssrc media_ssrc = \<lparr>pl_sender_ssrc = sender_ssrc, pl_media_ssrc = media_ssrc\<rparr>"

definition pli_parse :: "octets \<Rightarrow> (rtcp_parse_error + pli) option" where
  "pli_parse data = do {
     fb \<leftarrow> feedback_parse PayloadFeedbackType 1 8 data;
     case fb of
       Inl e \<Rightarrow> Some (Inl e)
     | Inr buf \<Rightarrow> do {
         (sender_ssrc, buf) \<leftarrow> get_u32 buf;
         (media_ssrc, buf) \<leftarrow> get_u32 buf;
         Some (Inr \<lparr>pl_sender_ssrc = sender_ssrc, pl_media_ssrc = media_ssrc\<rparr>)
       }
   }"

definition pli_build :: "pli \<Rightarrow> octets" where
  "pli_build p =
     rtcp_header_build (plain_header 1 PayloadFeedbackType 2)
     @ u32_be (pl_sender_ssrc p) @ u32_be (pl_media_ssrc p)"

record fir_entry =
  fe_ssrc :: u32
  fe_seq_nr :: u8

record fir =
  fi_sender_ssrc :: u32
  fi_media_ssrc :: u32
  fi_entries :: "fir_entry list"

definition fir_new :: "u32 \<Rightarrow> u32 \<Rightarrow> u8 \<Rightarrow> fir" where
  "fir_new sender_ssrc target_ssrc seq_nr =
     \<lparr>fi_sender_ssrc = sender_ssrc, fi_media_ssrc = 0,
      fi_entries = [\<lparr>fe_ssrc = target_ssrc, fe_seq_nr = seq_nr\<rparr>]\<rparr>"

fun fir_entries_parse :: "octets \<Rightarrow> fir_entry list" where
  "fir_entries_parse (a # b # c # d # seq_nr # _ # _ # _ # buf) =
     \<lparr>fe_ssrc = u32_of_be a b c d, fe_seq_nr = seq_nr\<rparr> # fir_entries_parse buf"
| "fir_entries_parse _ = []"

definition fir_parse :: "octets \<Rightarrow> (rtcp_parse_error + fir) option" where
  "fir_parse data = do {
     fb \<leftarrow> feedback_parse PayloadFeedbackType 4 8 data;
     case fb of
       Inl e \<Rightarrow> Some (Inl e)
     | Inr buf \<Rightarrow> do {
         (sender_ssrc, buf) \<leftarrow> get_u32 buf;
         (media_ssrc, buf) \<leftarrow> get_u32 buf;
         Some (Inr \<lparr>fi_sender_ssrc = sender_ssrc, fi_media_ssrc = media_ssrc,
           fi_entries = fir_entries_parse buf\<rparr>)
       }
   }"

definition fir_build :: "fir \<Rightarrow> octets" where
  "fir_build f =
     rtcp_header_build (plain_header 4 PayloadFeedbackType (of_nat (2 + length (fi_entries f) * 2)))
     @ u32_be (fi_sender_ssrc f) @ u32_be (fi_media_ssrc f)
     @ concat (map (\<lambda>e. u32_be (fe_ssrc e) @ [fe_seq_nr e] @ [0] @ u16_be 0) (fi_entries f))"

subsection \<open>REMB\<close>

record remb =
  re_sender_ssrc :: u32
  re_media_ssrc :: u32
  re_bitrate :: u64
  re_ssrcs :: "u32 list"

definition UNIQUE_ID :: octets where "UNIQUE_ID = [0x52, 0x45, 0x4D, 0x42]"

definition remb_new :: "u32 \<Rightarrow> u64 \<Rightarrow> u32 list \<Rightarrow> remb" where
  "remb_new sender_ssrc bitrate ssrcs =
     \<lparr>re_sender_ssrc = sender_ssrc, re_media_ssrc = 0, re_bitrate = bitrate, re_ssrcs = ssrcs\<rparr>"

text \<open>\<open>u64::leading_zeros\<close>\<close>

definition leading_zeros :: "u64 \<Rightarrow> nat" where
  "leading_zeros w = length (takeWhile (\<lambda>i. \<not> bit w (63 - i)) [0..<64])"

definition encode_bitrate :: "u64 \<Rightarrow> u32 \<times> u8" where
  "encode_bitrate bitrate =
     (if bitrate = 0 then (0, 0)
      else
        (let bits = 64 - leading_zeros bitrate in
         if bits \<le> 18 then (ucast bitrate, 0)
         else
           (let exp = bits - 18; mantissa = ucast (drop_bit exp bitrate) :: u32
            in (mantissa AND 0x3FFFF, of_nat exp))))"

text \<open>At most \<open>num_ssrc\<close> identifiers, as many as are there.\<close>

fun remb_ssrcs_parse :: "nat \<Rightarrow> octets \<Rightarrow> u32 list" where
  "remb_ssrcs_parse (Suc n) (a # b # c # d # buf) = u32_of_be a b c d # remb_ssrcs_parse n buf"
| "remb_ssrcs_parse _ _ = []"

definition remb_parse :: "octets \<Rightarrow> (rtcp_parse_error + remb) option" where
  "remb_parse data = do {
     fb \<leftarrow> feedback_parse PayloadFeedbackType 15 16 data;
     case fb of
       Inl e \<Rightarrow> Some (Inl e)
     | Inr rest \<Rightarrow> do {
         (sender_ssrc, buf) \<leftarrow> get_u32 rest;
         (media_ssrc, buf) \<leftarrow> get_u32 buf;
         (unique_id, buf) \<leftarrow> get_slice 4 buf;
         if unique_id \<noteq> UNIQUE_ID then Some (Inl (UnknownPacketType 206))
         else do {
           (num_ssrc, buf) \<leftarrow> get_u8 buf;
           (b, buf) \<leftarrow> get_u8 buf;
           let br_exp = unat (drop_bit 2 (b AND 0xFC));
           b13 \<leftarrow> at rest 13;
           b14 \<leftarrow> at rest 14;
           b15 \<leftarrow> at rest 15;
           let mantissa = (push_bit 16 (ucast (b13 AND 0x03)) OR push_bit 8 (ucast b14) OR ucast b15 :: u32);
           (_, buf) \<leftarrow> get_slice 2 buf;
           Some (Inr \<lparr>re_sender_ssrc = sender_ssrc, re_media_ssrc = media_ssrc,
             re_bitrate = push_bit br_exp (ucast mantissa),
             re_ssrcs = remb_ssrcs_parse (unat num_ssrc) buf\<rparr>)
         }
       }
   }"

definition remb_build :: "remb \<Rightarrow> octets" where
  "remb_build r =
     (let ssrc_count = min (length (re_ssrcs r)) 255;
          (mantissa, exp) = encode_bitrate (re_bitrate r)
      in rtcp_header_build (plain_header 15 PayloadFeedbackType (of_nat (4 + ssrc_count)))
         @ u32_be (re_sender_ssrc r) @ u32_be (re_media_ssrc r) @ UNIQUE_ID
         @ [of_nat ssrc_count]
         @ [push_bit 2 exp OR (ucast (drop_bit 16 mantissa) AND 0x03)]
         @ u16_be (ucast (mantissa AND 0xFFFF))
         @ concat (map u32_be (take ssrc_count (re_ssrcs r))))"

subsection \<open>What a NACK names\<close>

lemma in_group_iff: "in_group pid seq \<longleftrightarrow> seq - pid - 1 < 16"
proof (cases "seq - pid = 0")
  case True
  then show ?thesis by (simp add: in_group_def)
next
  case False
  then have "unat (seq - pid - 1) = unat (seq - pid) - 1" "0 < unat (seq - pid)"
    by (simp_all add: unat_minus_one unat_gt_0)
  with False show ?thesis
    by (simp add: in_group_def word_less_nat_alt word_le_nat_alt Let_def del: diff_gt_0_iff_gt) linarith
qed

lemma bit_blp_add:
  "i < 16 \<Longrightarrow> bit (blp_add pid blp seq) i \<longleftrightarrow> bit blp i \<or> in_group pid seq \<and> seq = pid + (of_nat i + 1)"
proof -
  assume i: "i < 16"
  have "unat (seq - pid - 1) = i \<longleftrightarrow> seq = pid + (of_nat i + 1)"
  proof
    assume "unat (seq - pid - 1) = i"
    then have "of_nat i = seq - pid - 1" by auto
    then show "seq = pid + (of_nat i + 1)" by simp
  qed (use i in \<open>simp add: unat_of_nat\<close>)
  then show ?thesis
    using i by (auto simp: blp_add_def in_group_iff Let_def bit_simps)
qed

lemma bit_blp:
  "i < 16 \<Longrightarrow> bit (foldl (blp_add pid) blp rest) i
     \<longleftrightarrow> bit blp i \<or> (\<exists>seq \<in> set rest. in_group pid seq \<and> seq = pid + (of_nat i + 1))"
  by (induction rest arbitrary: blp) (auto simp: bit_blp_add)

lemma in_group_nth: "in_group pid seq \<longleftrightarrow> (\<exists>i < 16. seq = pid + (of_nat i + 1))"
proof
  assume "in_group pid seq"
  then have "unat (seq - pid - 1) < 16" "seq = pid + (of_nat (unat (seq - pid - 1)) + 1)"
    by (simp_all add: in_group_iff word_less_nat_alt)
  then show "\<exists>i < 16. seq = pid + (of_nat i + 1)" by blast
next
  assume "\<exists>i < 16. seq = pid + (of_nat i + 1)"
  then show "in_group pid seq" by (auto simp: in_group_iff word_less_nat_alt unat_of_nat)
qed

lemma drop_bit_odd: "drop_bit i w AND 1 = 1 \<longleftrightarrow> bit w i" for w :: "'a::len word"
  by (simp add: and_one_eq bit_iff_odd_drop_bit odd_iff_mod_2_eq_one)

lemma lost_sequences_from:
  assumes "nack_from_sequences (pid # rest) = Some e" "\<forall>seq \<in> set rest. in_group pid seq"
  shows "set (lost_sequences e) = insert pid (set rest)" "distinct (lost_sequences e)"
proof -
  have e: "ne_pid e = pid" "ne_blp e = foldl (blp_add pid) 0 rest"
    using assms(1) by (auto simp: nack_from_sequences_def)
  have bit: "bit (ne_blp e) i \<longleftrightarrow> pid + (of_nat i + 1) \<in> set rest" if "i < 16" for i
    using that assms(2) by (auto simp: e bit_blp)
  have "set (lost_sequences e) = insert pid {seq. \<exists>i < 16. bit (ne_blp e) i \<and> seq = pid + (of_nat i + 1)}"
    by (auto simp: lost_sequences_def e(1) drop_bit_odd)
  also have "{seq. \<exists>i < 16. bit (ne_blp e) i \<and> seq = pid + (of_nat i + 1)} = set rest"
  proof (intro equalityI subsetI)
    fix seq assume seq: "seq \<in> set rest"
    with assms(2) obtain i where "i < 16" "seq = pid + (of_nat i + 1)" unfolding in_group_nth by blast
    with bit [of i] seq show "seq \<in> {seq. \<exists>i < 16. bit (ne_blp e) i \<and> seq = pid + (of_nat i + 1)}"
      by blast
  qed (use bit in auto)
  finally show "set (lost_sequences e) = insert pid (set rest)" .
  have inj: "of_nat i = (of_nat j :: u16) \<Longrightarrow> i = j" if "i < 16" "j < 16" for i j :: nat
    using that by (auto dest!: arg_cong [of _ _ unat] simp: unat_of_nat)
  have "pid \<noteq> pid + (of_nat i + 1)" if "i < 16" for i
  proof
    assume "pid = pid + (of_nat i + 1)"
    then have "of_nat (Suc i) = (0 :: u16)" by (simp add: add.commute)
    then have "unat (of_nat (Suc i) :: u16) = 0" by (simp only: unat_eq_zero)
    then show False using that by (simp only: unat_of_nat) simp
  qed
  then show "distinct (lost_sequences e)"
    by (auto simp: lost_sequences_def e distinct_map inj_on_def dest: inj)
qed

lemma nack_groups_exact:
  "\<exists>es. nack_groups xs = Some es \<and> set (concat (map lost_sequences es)) = set xs
     \<and> (distinct xs \<longrightarrow> distinct (concat (map lost_sequences es)))"
proof (induction xs rule: nack_groups.induct)
  case (2 pid rest)
  let ?in = "filter (in_group pid) rest" and ?out = "filter (\<lambda>seq. \<not> in_group pid seq) rest"
  obtain e where e: "nack_from_sequences (pid # ?in) = Some e" by (simp add: nack_from_sequences_def)
  from lost_sequences_from [OF this]
  have lost: "set (lost_sequences e) = insert pid (set ?in)" "distinct (lost_sequences e)" by simp_all
  from 2 [OF e] obtain es where es: "nack_groups ?out = Some es"
      "set (concat (map lost_sequences es)) = set ?out"
      "distinct ?out \<longrightarrow> distinct (concat (map lost_sequences es))" by blast
  have "set (lost_sequences e) \<inter> set (concat (map lost_sequences es)) = {}" if "distinct (pid # rest)"
    using that unfolding lost es by auto
  moreover have "set (lost_sequences e) \<union> set (concat (map lost_sequences es)) = set (pid # rest)"
    unfolding lost es by auto
  ultimately show ?case using e es lost by auto
qed simp

lemma nack_from_lost_exact:
  "\<exists>n. nack_from_lost_packets s m lost = Some n \<and> set (all_lost_sequences n) = set lost
     \<and> (distinct lost \<longrightarrow> distinct (all_lost_sequences n))"
  using nack_groups_exact [of "sort lost"]
  by (auto simp: nack_from_lost_packets_def all_lost_sequences_def)

subsection \<open>Bit rates\<close>

lemma leading_zeros_bounds:
  assumes "w \<noteq> 0"
  shows "leading_zeros w < 64" "2 ^ (63 - leading_zeros w) \<le> unat w" "unat w < 2 ^ (64 - leading_zeros w)"
proof -
  let ?P = "\<lambda>i. \<not> bit w (63 - i)" and ?n = "leading_zeros w"
  obtain k where "bit w k" using assms by (auto simp: bit_eq_iff)
  moreover from this have "k < 64" using bit_imp_le_length [of w k] by simp
  ultimately have "\<exists>i \<in> set [0..<64]. \<not> ?P i" by (intro bexI [of _ "63 - k"]) simp_all
  then have all: "takeWhile ?P [0..<64] \<noteq> [0..<64]" by (metis takeWhile_eq_all_conv)
  show n: "?n < 64"
  proof (rule ccontr)
    assume "\<not> ?n < 64"
    then have "takeWhile ?P [0..<64] = take 64 [0..<64]"
      using takeWhile_eq_take [of ?P "[0..<64]"] length_takeWhile_le [of ?P "[0..<64]"]
      by (simp add: leading_zeros_def)
    with all show False by simp
  qed
  have top: "bit w (63 - ?n)"
    using nth_length_takeWhile [of ?P "[0..<64]"] n by (simp add: leading_zeros_def)
  have above: "\<not> bit w j" if "64 - ?n \<le> j" for j
  proof (cases "j < 64")
    case True
    have "63 - j < ?n" using that True n by simp
    then have "?P (takeWhile ?P [0..<64] ! (63 - j))"
      using nth_mem [of "63 - j" "takeWhile ?P [0..<64]"] set_takeWhileD [of _ ?P "[0..<64]"]
      by (auto simp: leading_zeros_def)
    with \<open>63 - j < ?n\<close> True show ?thesis
      by (simp add: takeWhile_nth leading_zeros_def)
  qed (use bit_imp_le_length [of w j] in auto)
  have "take_bit (64 - ?n) w = w"
  proof (rule bit_eqI)
    fix i
    show "bit (take_bit (64 - ?n) w) i = bit w i"
      using above [of i] by (cases "i < 64 - ?n") (simp_all add: bit_take_bit_iff)
  qed
  then show "unat w < 2 ^ (64 - ?n)"
    by (metis take_bit_nat_less_exp unsigned_take_bit_eq)
  show "2 ^ (63 - ?n) \<le> unat w"
  proof (rule ccontr)
    assume "\<not> 2 ^ (63 - ?n) \<le> unat w"
    then have "drop_bit (63 - ?n) w = 0" by (intro drop_bit_small) simp
    with top show False by (simp add: bit_iff_odd_drop_bit)
  qed
qed

text \<open>The rate a REMB message transports: the 18 leading bits of the rate.\<close>

definition rate_exp :: "u64 \<Rightarrow> nat" where
  "rate_exp b = 64 - leading_zeros b - 18"

definition rate_sent :: "u64 \<Rightarrow> u64" where
  "rate_sent b = push_bit (rate_exp b) (drop_bit (rate_exp b) b)"

lemma unat_drop_bit_div: "unat (drop_bit n w) = unat w div 2 ^ n"
  by (simp only: unat_drop_bit_eq) (simp add: drop_bit_eq_div)

lemma unat_ucast_small: "unat (w :: 'a::len word) < 2 ^ LENGTH('b) \<Longrightarrow> unat (ucast w :: 'b::len word) = unat w"
  by (simp add: unsigned_ucast_eq unsigned_take_bit_eq take_bit_nat_eq_self)

lemma rate_exp_le: "rate_exp b \<le> 46"
  by (simp add: rate_exp_def)

lemma rate_top_small:
  assumes "b \<noteq> 0"
  shows "unat (drop_bit (rate_exp b) b) < 2 ^ 18"
proof -
  have "unat b < 2 ^ (64 - leading_zeros b)" by (rule leading_zeros_bounds(3) [OF assms])
  also have "\<dots> \<le> 2 ^ (18 + rate_exp b)" by (rule power_increasing) (simp_all add: rate_exp_def)
  also have "\<dots> = 2 ^ 18 * 2 ^ rate_exp b" by (rule power_add)
  finally have "unat b div 2 ^ rate_exp b < 2 ^ 18" by (rule less_mult_imp_div_less)
  then show ?thesis by (simp only: unat_drop_bit_div)
qed

lemma encode_bitrate_spec:
  obtains m where "encode_bitrate b = (m, of_nat (rate_exp b))" "unat m < 2 ^ 18"
    "ucast m = drop_bit (rate_exp b) b"
proof (cases "b = 0")
  case True
  then show thesis using that [of 0]
    by (simp add: encode_bitrate_def rate_exp_def leading_zeros_def takeWhile_eq_all_conv [THEN iffD2])
next
  case False
  define d where "d = drop_bit (rate_exp b) b"
  have small: "unat d < 2 ^ 18" unfolding d_def by (rule rate_top_small [OF False])
  let ?m = "ucast d :: u32"
  have m: "unat ?m = unat d"
    using small by (intro unat_ucast_small) simp
  have "?m AND mask 18 = ?m" by (rule and_mask_small) (use small m in simp)
  then have mask: "?m AND 0x3FFFF = ?m" by (simp add: mask_eq_exp_minus_1)
  have "encode_bitrate b = (?m, of_nat (rate_exp b))"
  proof (cases "64 - leading_zeros b \<le> 18")
    case True
    then have "rate_exp b = 0" by (simp add: rate_exp_def)
    with False True show ?thesis by (simp add: encode_bitrate_def d_def)
  next
    case bits: False
    then show ?thesis using False mask
      by (simp add: encode_bitrate_def Let_def d_def rate_exp_def)
  qed
  moreover have "ucast ?m = d"
    using small m unat_ucast_small [of ?m, where 'b = 64] by (simp add: word_unat_eq_iff)
  ultimately show thesis using that [of ?m] small m by (simp add: d_def)
qed

lemma rate_sent_bounds:
  "unat (rate_sent b) \<le> unat b" "(unat b - unat (rate_sent b)) * 2 ^ 17 \<le> unat b"
  "unat b < 2 ^ 18 \<Longrightarrow> rate_sent b = b"
proof -
  let ?e = "rate_exp b"
  have "unat b < 2 ^ 64" using unsigned_less [of b] by simp
  then have "unat b div 2 ^ ?e * 2 ^ ?e < 2 ^ 64"
    by (rule le_less_trans [OF div_times_less_eq_dividend])
  then have sent: "unat (rate_sent b) = unat b div 2 ^ ?e * 2 ^ ?e"
    unfolding rate_sent_def unsigned_push_bit_eq unat_drop_bit_div
    by (simp add: push_bit_eq_mult take_bit_nat_eq_self)
  then show "unat (rate_sent b) \<le> unat b" by simp
  have diff: "unat b - unat (rate_sent b) = unat b mod 2 ^ ?e"
    unfolding sent by (simp add: minus_div_mult_eq_mod)
  show "(unat b - unat (rate_sent b)) * 2 ^ 17 \<le> unat b"
  proof (cases "?e = 0")
    case False
    then have "b \<noteq> 0" by (auto simp: rate_exp_def leading_zeros_def takeWhile_eq_all_conv [THEN iffD2])
    then have "2 ^ (63 - leading_zeros b) \<le> unat b" by (rule leading_zeros_bounds(2))
    moreover have "63 - leading_zeros b = 17 + ?e" using False by (simp add: rate_exp_def)
    ultimately have "2 ^ ?e * 2 ^ 17 \<le> unat b" by (simp only: power_add mult.commute)
    moreover have "unat b mod 2 ^ ?e \<le> 2 ^ ?e" by (simp add: less_imp_le)
    then have "unat b mod 2 ^ ?e * 2 ^ 17 \<le> 2 ^ ?e * 2 ^ 17" by (rule mult_right_mono) simp
    ultimately show ?thesis unfolding diff by (rule order_trans [rotated])
  qed (simp add: diff)
  assume small: "unat b < 2 ^ 18"
  have "?e = 0"
  proof (rule ccontr)
    assume e: "?e \<noteq> 0"
    then have "b \<noteq> 0" by (auto simp: rate_exp_def leading_zeros_def takeWhile_eq_all_conv [THEN iffD2])
    then have "2 ^ (63 - leading_zeros b) \<le> unat b" by (rule leading_zeros_bounds(2))
    moreover have "(2 :: nat) ^ 18 \<le> 2 ^ (63 - leading_zeros b)"
      using e by (intro power_increasing) (simp_all add: rate_exp_def)
    ultimately show False using small by simp
  qed
  then show "rate_sent b = b" by (simp add: rate_sent_def)
qed

subsection \<open>No panics\<close>

lemma feedback_parse_total: "\<exists>r. feedback_parse t fmt n data = Some r"
proof -
  obtain f where f: "\<And>d. rtcp_header_parse d = Some (f d)" using header_parse_total by metis
  show ?thesis by (auto simp: feedback_parse_def f split: sum.splits)
qed

lemma feedback_parse_length: "feedback_parse t fmt n data = Some (Inr buf) \<Longrightarrow> n \<le> length buf"
  by (auto simp: feedback_parse_def bind_eq_Some_conv try_Inr_conv split: if_splits)

lemma feedback_parse_cases:
  obtains e where "feedback_parse t fmt n data = Some (Inl e)"
  | buf where "feedback_parse t fmt n data = Some (Inr buf)" "n \<le> length buf"
  using feedback_parse_total [of t fmt n data] feedback_parse_length [of t fmt n data]
  by (metis sumE)

lemma nack_parse_total: "\<exists>r. nack_parse data = Some r"
  by (cases rule: feedback_parse_cases [of TransportFeedbackType 1 8 data])
    (simp_all add: nack_parse_def read_simps)

lemma pli_parse_total: "\<exists>r. pli_parse data = Some r"
  by (cases rule: feedback_parse_cases [of PayloadFeedbackType 1 8 data])
    (simp_all add: pli_parse_def read_simps)

lemma fir_parse_total: "\<exists>r. fir_parse data = Some r"
  by (cases rule: feedback_parse_cases [of PayloadFeedbackType 4 8 data])
    (simp_all add: fir_parse_def read_simps)

lemma remb_parse_total: "\<exists>r. remb_parse data = Some r"
  by (cases rule: feedback_parse_cases [of PayloadFeedbackType 15 16 data])
    (simp_all add: remb_parse_def read_simps Let_def)

subsection \<open>Round trips\<close>

lemma feedback_parse_build:
  assumes "unat fmt < 32" "n \<le> length body"
  shows "feedback_parse t fmt n (rtcp_header_build (plain_header fmt t len) @ body) = Some (Inr body)"
  using assms by (simp add: feedback_parse_def header_parse_build)

lemma nack_entries_parse_build:
  "nack_entries_parse (concat (map (\<lambda>e. u16_be (ne_pid e) @ u16_be (ne_blp e)) es)) = es"
  by (induction es) (simp_all add: u16_be_def octet_simps)

lemma nack_parse_build: "nack_parse (nack_build n) = Some (Inr n)"
  by (simp add: nack_parse_def nack_build_def feedback_parse_build nack_entries_parse_build)

lemma pli_parse_build: "pli_parse (pli_build p) = Some (Inr p)"
  using get_u32_append [of "pl_media_ssrc p" "[]"]
  by (simp add: pli_parse_def pli_build_def feedback_parse_build)

lemma fir_entries_parse_build:
  "fir_entries_parse (concat (map (\<lambda>e. u32_be (fe_ssrc e) @ [fe_seq_nr e] @ [0] @ u16_be 0) es)) = es"
  by (induction es) (simp_all add: u16_be_def u32_be_def octet_simps)

lemma fir_parse_build: "fir_parse (fir_build f) = Some (Inr f)"
  using fir_entries_parse_build [of "fi_entries f"]
  by (simp add: fir_parse_def fir_build_def feedback_parse_build)

lemma remb_ssrcs_parse_build: "n = length xs \<Longrightarrow> remb_ssrcs_parse n (concat (map u32_be xs)) = xs"
  by (induction xs arbitrary: n) (simp_all add: u32_be_def octet_simps)

lemma exp_octet:
  fixes exp hi :: u8
  assumes "unat exp < 64"
  shows "drop_bit 2 ((push_bit 2 exp OR (hi AND 0x03)) AND 0xFC) = exp"
    "(push_bit 2 exp OR (hi AND 0x03)) AND 0x03 = hi AND 0x03"
proof -
  have top: "\<not> bit exp 6" "\<not> bit exp 7" using assms bit_above [of exp 6] by simp_all
  show "drop_bit 2 ((push_bit 2 exp OR (hi AND 0x03)) AND 0xFC) = exp"
  proof (rule octet_bits)
    fix n :: nat assume n: "n < 8"
    show "bit (drop_bit 2 ((push_bit 2 exp OR (hi AND 0x03)) AND 0xFC)) n = bit exp n"
      by (cases rule: octet_bit_cases [OF n]) (simp_all add: bit_simps top)
  qed
  show "(push_bit 2 exp OR (hi AND 0x03)) AND 0x03 = hi AND 0x03"
  proof (rule octet_bits)
    fix n :: nat assume n: "n < 8"
    show "bit ((push_bit 2 exp OR (hi AND 0x03)) AND 0x03) n = bit (hi AND 0x03) n"
      by (cases rule: octet_bit_cases [OF n]) (simp_all add: bit_simps)
  qed
qed

lemma mantissa_octets:
  fixes m :: u32
  assumes "unat m < 2 ^ 18"
  shows "push_bit 16 (ucast (ucast (drop_bit 16 m) AND (0x03 :: u8)))
      OR push_bit 8 (ucast (ucast (drop_bit 8 (ucast (m AND 0xFFFF) :: u16)) :: u8))
      OR ucast (ucast (ucast (m AND 0xFFFF) :: u16) :: u8) = m"
proof -
  have masks: "x AND 0x03 = take_bit 2 x" "m AND 0xFFFF = take_bit 16 m" for x :: u8
    by (simp_all add: take_bit_eq_mask mask_eq_exp_minus_1)
  show ?thesis
    unfolding masks
  proof (rule bit_word_eqI)
    fix n assume "n < LENGTH(32)"
    then consider "n < 8" | "8 \<le> n" "n < 16" | "16 \<le> n" "n < 18" | "18 \<le> n" "n < 32" by fastforce
    then show "bit (push_bit 16 (ucast (take_bit 2 (ucast (drop_bit 16 m) :: u8)))
      OR push_bit 8 (ucast (ucast (drop_bit 8 (ucast (take_bit 16 m) :: u16)) :: u8))
      OR ucast (ucast (ucast (take_bit 16 m) :: u16) :: u8) :: u32) n = bit m n"
      by cases (simp_all add: bit_simps less_diff_conv2 bit_above [OF assms])
  qed
qed

lemma length_UNIQUE_ID [simp]: "length UNIQUE_ID = 4"
  by (simp add: UNIQUE_ID_def)

lemma remb_parse_build:
  assumes "length (re_ssrcs r) \<le> 255"
  shows "remb_parse (remb_build r) = Some (Inr (r\<lparr>re_bitrate := rate_sent (re_bitrate r)\<rparr>))"
proof -
  obtain m where m: "encode_bitrate (re_bitrate r) = (m, of_nat (rate_exp (re_bitrate r)))"
      "unat m < 2 ^ 18" "ucast m = drop_bit (rate_exp (re_bitrate r)) (re_bitrate r)"
    by (rule encode_bitrate_spec)
  let ?e = "of_nat (rate_exp (re_bitrate r)) :: u8"
  have e: "unat ?e = rate_exp (re_bitrate r)" "unat ?e < 64"
    using rate_exp_le [of "re_bitrate r"] by (simp_all add: unat_of_nat)
  define b where "b = push_bit 2 ?e OR (ucast (drop_bit 16 m) AND 0x03)"
  define b14 where "b14 = (ucast (drop_bit 8 (ucast (m AND 0xFFFF) :: u16)) :: u8)"
  define b15 where "b15 = (ucast (ucast (m AND 0xFFFF) :: u16) :: u8)"
  have b: "drop_bit 2 (b AND 0xFC) = ?e" "b AND 0x03 = ucast (drop_bit 16 m) AND 0x03"
    unfolding b_def by (rule exp_octet [OF e(2)])+
  have b_exp: "drop_bit 2 b AND 63 = ?e" using b(1) by (simp add: drop_bit_and)
  have n: "unat (of_nat (length (re_ssrcs r)) :: u8) = length (re_ssrcs r)"
    using assms by (simp add: unat_of_nat)
  let ?hd = "u32_be (re_sender_ssrc r) @ u32_be (re_media_ssrc r) @ UNIQUE_ID
      @ [of_nat (length (re_ssrcs r)), b, b14, b15]"
  let ?body = "?hd @ concat (map u32_be (re_ssrcs r))"
  have build: "remb_build r = rtcp_header_build (plain_header 15 PayloadFeedbackType
      (of_nat (4 + length (re_ssrcs r)))) @ ?body"
    using assms by (simp add: remb_build_def m(1) b_def b14_def b15_def u16_be_def Let_def)
  have at: "at ?body 13 = Some b" "at ?body 14 = Some b14" "at ?body 15 = Some b15"
    by (simp_all add: at_def UNIQUE_ID_def u32_be_def nth_append)
  have "feedback_parse PayloadFeedbackType 15 16 (remb_build r) = Some (Inr ?body)"
    unfolding build by (rule feedback_parse_build) (simp_all add: UNIQUE_ID_def)
  then show ?thesis
    using at mantissa_octets [OF m(2), folded b14_def b15_def]
      get_slice_append [of 2 "[b14, b15]" "concat (map u32_be (re_ssrcs r))"]
    by (simp add: remb_parse_def b b_exp n e(1) m(3) remb_ssrcs_parse_build rate_sent_def)
qed

end
