(* ===== verification/Rtcp_Compound.thy ===== *)
theory Rtcp_Compound
  imports Rtcp_Feedback
begin

section \<open>RTCP compound packets\<close>

text \<open>
  Compound packets of \<open>rtp/rtcp.rs\<close>: their packets in sequence, each found by the length in its own
  header. The theorems: parsing a datagram terminates without a panic and cuts it into packets
  exactly; what is built comes back, apart from the cumulative loss, the rounding of REMB rates,
  and NACK, PLI and FIR messages, which the parser hands over undecoded.
\<close>

subsection \<open>Packets\<close>

datatype rtcp_packet =
    SenderReport sender_report
  | ReceiverReport receiver_report
  | SourceDescription source_description
  | Goodbye goodbye
  | Nack nack
  | Pli pli
  | Fir fir
  | Remb remb
  | Unknown u8 octets

record rtcp_compound =
  cp_packets :: "rtcp_packet list"

definition sender_compound :: "sender_report \<Rightarrow> string \<Rightarrow> rtcp_compound" where
  "sender_compound sr cname =
     \<lparr>cp_packets = [SenderReport sr, SourceDescription (with_cname (sr_ssrc sr) cname)]\<rparr>"

definition receiver_compound :: "receiver_report \<Rightarrow> string \<Rightarrow> rtcp_compound" where
  "receiver_compound rr cname =
     \<lparr>cp_packets = [ReceiverReport rr, SourceDescription (with_cname (rr_ssrc rr) cname)]\<rparr>"

text \<open>\<open>add_nack\<close>, \<open>add_pli\<close>, \<open>add_fir\<close> and \<open>add_remb\<close>.\<close>

definition add_packet :: "rtcp_packet \<Rightarrow> rtcp_compound \<Rightarrow> rtcp_compound" where
  "add_packet p c = c\<lparr>cp_packets := cp_packets c @ [p]\<rparr>"

fun packet_build :: "rtcp_packet \<Rightarrow> octets" where
  "packet_build (SenderReport sr) = sender_report_build sr"
| "packet_build (ReceiverReport rr) = receiver_report_build rr"
| "packet_build (SourceDescription sdes) = sdes_build sdes"
| "packet_build (Goodbye bye) = goodbye_build bye"
| "packet_build (Nack nack) = nack_build nack"
| "packet_build (Pli pli) = pli_build pli"
| "packet_build (Fir fir) = fir_build fir"
| "packet_build (Remb remb) = remb_build remb"
| "packet_build (Unknown _ bytes) = bytes"

definition compound_build :: "rtcp_compound \<Rightarrow> octets" where
  "compound_build c = concat (map packet_build (cp_packets c))"

subsection \<open>Parsing\<close>

text \<open>\<open>Display\<close> of the error.\<close>

fun rtcp_error_display :: "rtcp_parse_error \<Rightarrow> string" where
  "rtcp_error_display (RtcpTooShort n) = ''Packet too short: '' @ to_dec n @ '' bytes''"
| "rtcp_error_display (RtcpInvalidVersion v) = ''Invalid RTCP version: '' @ to_dec (unat v)"
| "rtcp_error_display (UnknownPacketType t) = ''Unknown packet type: '' @ to_dec (unat t)"
| "rtcp_error_display InvalidReportCount = ''Invalid report block count''"

definition decoded :: "('a \<Rightarrow> rtcp_packet) \<Rightarrow> (rtcp_parse_error + 'a) option \<Rightarrow> (string + rtcp_packet) option" where
  "decoded f r =
     (case r of
        None \<Rightarrow> None
      | Some (Inl e) \<Rightarrow> Some (Inl (rtcp_error_display e))
      | Some (Inr x) \<Rightarrow> Some (Inr (f x)))"

definition packet_parse :: "u8 \<Rightarrow> u8 \<Rightarrow> octets \<Rightarrow> (string + rtcp_packet) option" where
  "packet_parse pt subtype pkt_bytes =
     (if pt = 200 then decoded SenderReport (sender_report_parse pkt_bytes)
      else if pt = 201 then decoded ReceiverReport (receiver_report_parse pkt_bytes)
      else if pt = 202 then decoded SourceDescription (sdes_parse pkt_bytes)
      else if pt = 203 then decoded Goodbye (goodbye_parse pkt_bytes)
      else if pt = 206 \<and> subtype = 15 \<and> length pkt_bytes \<ge> 16 \<and> take 4 (drop 12 pkt_bytes) = UNIQUE_ID
      then decoded Remb (remb_parse pkt_bytes)
      else Some (Inr (Unknown pt pkt_bytes)))"

definition pkt_len :: "octets \<Rightarrow> nat" where
  "pkt_len remaining = (unat (u16_of_be (remaining ! 2) (remaining ! 3)) + 1) * 4"

definition truncated_header :: "nat \<Rightarrow> string" where
  "truncated_header left = ''truncated RTCP packet: '' @ to_dec left @ '' bytes left, need at least 4''"

definition truncated_packet :: "nat \<Rightarrow> nat \<Rightarrow> string" where
  "truncated_packet declared left =
     ''truncated RTCP packet: declared '' @ to_dec declared @ '' bytes, only '' @ to_dec left @ '' remain''"

function packets_parse :: "octets \<Rightarrow> (string + rtcp_packet list) option" where
  "packets_parse remaining =
     (if remaining = [] then Some (Inr [])
      else if length remaining < 4 then Some (Inl (truncated_header (length remaining)))
      else if drop_bit 6 (remaining ! 0) AND 0x03 \<noteq> 2
      then Some (Inl (''invalid RTCP version: '' @ to_dec (unat (drop_bit 6 (remaining ! 0) AND 0x03))))
      else if pkt_len remaining > length remaining
      then Some (Inl (truncated_packet (pkt_len remaining) (length remaining)))
      else
        (case packet_parse (remaining ! 1) (remaining ! 0 AND 0x1F) (take (pkt_len remaining) remaining) of
           None \<Rightarrow> None
         | Some (Inl e) \<Rightarrow> Some (Inl e)
         | Some (Inr packet) \<Rightarrow>
             (case packets_parse (drop (pkt_len remaining) remaining) of
                None \<Rightarrow> None
              | Some (Inl e) \<Rightarrow> Some (Inl e)
              | Some (Inr packets) \<Rightarrow> Some (Inr (packet # packets)))))"
  by pat_completeness auto
termination by (relation "measure length") (simp_all add: pkt_len_def)

definition compound_parse :: "octets \<Rightarrow> (string + rtcp_compound) option" where
  "compound_parse data = do {
     packets \<leftarrow> packets_parse data;
     case packets of
       Inl e \<Rightarrow> Some (Inl e)
     | Inr packets \<Rightarrow> Some (Inr \<lparr>cp_packets = packets\<rparr>)
   }"

declare packets_parse.simps [simp del]

subsection \<open>Termination without a panic, and what is accepted\<close>

lemma decoded_total: "\<exists>r. x = Some r \<Longrightarrow> \<exists>r. decoded f x = Some r"
  by (auto simp: decoded_def split: sum.split)

lemma packet_parse_total: "\<exists>r. packet_parse pt subtype pkt = Some r"
  by (simp add: packet_parse_def decoded_total sender_report_parse_total receiver_report_parse_total
    sdes_parse_total goodbye_parse_total remb_parse_total)

lemma packets_parse_total: "\<exists>r. packets_parse data = Some r"
proof (induction data rule: measure_induct_rule [of length])
  case (less data)
  obtain r where r: "packet_parse (data ! 1) (data ! 0 AND 0x1F) (take (pkt_len data) data) = Some r"
    using packet_parse_total by blast
  have "\<exists>q. packets_parse (drop (pkt_len data) data) = Some q" if "data \<noteq> []"
    using that by (intro less) (simp add: pkt_len_def)
  then show ?case
    using r by (subst packets_parse.simps) (auto split: sum.split)
qed

text \<open>A datagram as a sequence of packets, each as long as its header says.\<close>

fun cuts :: "octets list \<Rightarrow> rtcp_packet list \<Rightarrow> bool" where
  "cuts [] [] = True"
| "cuts (s # ss) (p # ps) \<longleftrightarrow>
     length s \<ge> 4 \<and> drop_bit 6 (s ! 0) AND 0x03 = 2 \<and> length s = pkt_len s
     \<and> packet_parse (s ! 1) (s ! 0 AND 0x1F) s = Some (Inr p) \<and> cuts ss ps"
| "cuts _ _ = False"

lemma pkt_len_take: "4 \<le> pkt_len d" "pkt_len d \<le> length d \<Longrightarrow> pkt_len (take (pkt_len d) d) = pkt_len d"
  by (simp_all add: pkt_len_def)

lemma packets_parse_cuts:
  "packets_parse data = Some (Inr ps) \<Longrightarrow> \<exists>ss. data = concat ss \<and> cuts ss ps"
proof (induction data arbitrary: ps rule: packets_parse.induct)
  case (1 data)
  show ?case
  proof (cases "data = []")
    case True
    with 1(2) show ?thesis by (intro exI [of _ "[]"]) (simp add: packets_parse.simps)
  next
    case False
    let ?n = "pkt_len data" and ?s = "take (pkt_len data) data"
    from False 1(2) obtain p qs where ok: "4 \<le> length data" "drop_bit 6 (data ! 0) AND 0x03 = 2"
        "?n \<le> length data" "packet_parse (data ! 1) (data ! 0 AND 0x1F) ?s = Some (Inr p)"
        "packets_parse (drop ?n data) = Some (Inr qs)" "ps = p # qs"
      by (subst (asm) packets_parse.simps) (auto split: if_splits option.splits sum.splits)
    with 1(1) [of "Inr p" p qs] False obtain ss where ss: "drop ?n data = concat ss" "cuts ss qs" by auto
    have "data = concat (?s # ss)" using ss(1) by (metis append_take_drop_id concat.simps(2))
    moreover have "cuts (?s # ss) ps"
      using ok ss pkt_len_take [of data] by simp
    ultimately show ?thesis by blast
  qed
qed

subsection \<open>Round trip\<close>

lemma header_byte:
  fixes count :: u8
  assumes "unat count < 32"
  shows "rtcp_header_build (plain_header count t len)
    = [0x80 OR count, rtcp_type_u8 t, ucast (drop_bit 8 len), ucast len]"
proof -
  have "count AND 0x1F = count"
    using and_mask_small [of count 5] assms by (simp add: mask_eq_exp_minus_1)
  then show ?thesis by (simp add: rtcp_header_build_def plain_header_def u16_be_def)
qed

lemma built_pkt_len:
  assumes "built_as pkt c t body"
  shows "length pkt = pkt_len pkt" "pkt_len (pkt @ rest) = length pkt" "4 \<le> length pkt"
    "drop_bit 6 (pkt ! 0) AND 3 = 2" "pkt ! 1 = rtcp_type_u8 t" "pkt ! 0 AND 0x1F = c"
proof -
  let ?len = "of_nat (length body div 4) :: u16"
  have c: "unat c < 32" and body: "length body < 4 * 2 ^ 16" "length body mod 4 = 0"
    and pkt: "pkt = [0x80 OR c, rtcp_type_u8 t, ucast (drop_bit 8 ?len), ucast ?len] @ body"
    using assms header_byte by (simp_all add: built_as_def del: of_nat_div)
  have "pkt_len (pkt @ r) = length pkt" for r
    using declared_length [OF body] unfolding pkt
    by (simp add: pkt_len_def u16_of_be_be del: of_nat_div)
  from this [of rest] this [of "[]"] show "pkt_len (pkt @ rest) = length pkt" "length pkt = pkt_len pkt"
    by simp_all
  show "4 \<le> length pkt" "pkt ! 1 = rtcp_type_u8 t" by (simp_all add: pkt)
  have first: "pkt ! 0 = 0x80 OR c" by (simp add: pkt)
  show "drop_bit 6 (pkt ! 0) AND 3 = 2" "pkt ! 0 AND 0x1F = c"
    unfolding first by (rule count_byte [OF c])+
qed

text \<open>A packet of which the loop sees the whole and nothing else.\<close>

definition framed :: "octets \<Rightarrow> bool" where
  "framed pkt \<longleftrightarrow> 4 \<le> length pkt \<and> length pkt = pkt_len pkt \<and> drop_bit 6 (pkt ! 0) AND 3 = 2"

lemma packets_parse_framed:
  assumes "framed pkt" "packet_parse (pkt ! 1) (pkt ! 0 AND 0x1F) pkt = Some (Inr p)"
    and "packets_parse rest = Some (Inr ps)"
  shows "packets_parse (pkt @ rest) = Some (Inr (p # ps))"
proof -
  have "pkt_len (pkt @ rest) = length pkt" "(pkt @ rest) ! 0 = pkt ! 0" "(pkt @ rest) ! 1 = pkt ! 1"
    using assms(1) by (auto simp: framed_def pkt_len_def nth_append)
  with assms show ?thesis
    by (subst packets_parse.simps) (auto simp: framed_def)
qed

lemma built_framed: "built_as pkt c t body \<Longrightarrow> framed pkt"
  using built_pkt_len [of pkt c t body] by (simp add: framed_def)

lemma sender_report_built_as:
  assumes "length (sr_report_blocks sr) \<le> 31"
  shows "\<exists>c body. built_as (sender_report_build sr) c SenderReportType body"
proof -
  obtain c :: u8 where c: "of_nat (min (length (sr_report_blocks sr)) 31) = c"
      "unat c = length (sr_report_blocks sr)" "unat c < 32"
    using assms by (rule count_u8)
  let ?body = "u32_be (sr_ssrc sr) @ u32_be (ntp_seconds (sr_ntp_timestamp sr))
         @ u32_be (ntp_fraction (sr_ntp_timestamp sr)) @ u32_be (sr_rtp_timestamp sr)
         @ u32_be (sr_packet_count sr) @ u32_be (sr_octet_count sr)
         @ concat (map report_block_build (sr_report_blocks sr))"
  have len: "length ?body = 24 + 24 * unat c" using c(2) by simp
  have "length ?body div 4 = 6 + unat c * 6" "length ?body mod 4 = 0" unfolding len by simp_all
  moreover have "(6 + ucast c * 6 :: u16) = of_nat (6 + unat c * 6)" by simp
  ultimately have "built_as (sender_report_build sr) c SenderReportType ?body"
    using c(3) len unfolding built_as_def sender_report_build_def c(1) Let_def
    by (simp only: conj_assoc) simp
  then show ?thesis by blast
qed

lemma receiver_report_built_as:
  assumes "length (rr_report_blocks rr) \<le> 31"
  shows "\<exists>c body. built_as (receiver_report_build rr) c ReceiverReportType body"
proof -
  obtain c :: u8 where c: "of_nat (min (length (rr_report_blocks rr)) 31) = c"
      "unat c = length (rr_report_blocks rr)" "unat c < 32"
    using assms by (rule count_u8)
  let ?body = "u32_be (rr_ssrc rr) @ concat (map report_block_build (rr_report_blocks rr))"
  have len: "length ?body = 4 + 24 * unat c" using c(2) by simp
  have "length ?body div 4 = 1 + unat c * 6" "length ?body mod 4 = 0" unfolding len by simp_all
  moreover have "(1 + ucast c * 6 :: u16) = of_nat (1 + unat c * 6)" by simp
  ultimately have "built_as (receiver_report_build rr) c ReceiverReportType ?body"
    using c(3) len unfolding built_as_def receiver_report_build_def c(1) Let_def
    by (simp only: conj_assoc) simp
  then show ?thesis by blast
qed

lemma length_concat_const: "\<forall>x. length (f x) = k \<Longrightarrow> length (concat (map f xs)) = k * length xs"
  by (induction xs) simp_all

lemma built_asI:
  assumes "unat c < 32" "length body = 4 * n" "n < 2 ^ 16"
  shows "built_as (rtcp_header_build (plain_header c t (of_nat n)) @ body) c t body"
  using assms by (simp add: built_as_def)

lemma nack_built_as:
  assumes "length (nk_nacks n) < 65534"
  shows "\<exists>body. built_as (nack_build n) 1 TransportFeedbackType body"
  unfolding nack_build_def
  by (rule exI, rule built_asI) (use assms in \<open>simp_all add: length_concat_const [where k = 4]\<close>)

lemma pli_built_as: "\<exists>body. built_as (pli_build p) 1 PayloadFeedbackType body"
  using built_asI [of 1 "u32_be (pl_sender_ssrc p) @ u32_be (pl_media_ssrc p)" 2 PayloadFeedbackType]
  by (auto simp: pli_build_def)

lemma fir_built_as:
  assumes "length (fi_entries f) < 32767"
  shows "\<exists>body. built_as (fir_build f) 4 PayloadFeedbackType body"
  unfolding fir_build_def
  by (rule exI, rule built_asI) (use assms in \<open>simp_all add: length_concat_const [where k = 8]\<close>)

lemma remb_built_as:
  "\<exists>body. built_as (remb_build r) 15 PayloadFeedbackType body \<and> 16 \<le> length body
     \<and> take 4 (drop 8 body) = UNIQUE_ID"
proof -
  obtain m e where m: "encode_bitrate (re_bitrate r) = (m, e)" by fastforce
  let ?k = "min (length (re_ssrcs r)) 255"
  let ?body = "u32_be (re_sender_ssrc r) @ u32_be (re_media_ssrc r) @ UNIQUE_ID @ [of_nat ?k]
      @ [push_bit 2 e OR (ucast (drop_bit 16 m) AND 0x03)] @ u16_be (ucast (m AND 0xFFFF))
      @ concat (map u32_be (take ?k (re_ssrcs r)))"
  have len: "length ?body = 4 * (4 + ?k)" by simp
  have "built_as (remb_build r) 15 PayloadFeedbackType ?body"
    unfolding remb_build_def Let_def m prod.case by (rule built_asI [OF _ len]) simp_all
  moreover have "take 4 (drop 8 ?body) = UNIQUE_ID" by simp
  moreover have "16 \<le> length ?body" unfolding len by simp
  ultimately show ?thesis by blast
qed

text \<open>Packets the format can hold, and what the receiver makes of them.\<close>

definition unknown_ok :: "u8 \<Rightarrow> octets \<Rightarrow> bool" where
  "unknown_ok pt bytes \<longleftrightarrow> framed bytes \<and> bytes ! 1 = pt \<and> pt \<notin> {200, 201, 202, 203}
     \<and> \<not> (pt = 206 \<and> bytes ! 0 AND 0x1F = 15 \<and> 16 \<le> length bytes \<and> take 4 (drop 12 bytes) = UNIQUE_ID)"

fun packet_ok :: "rtcp_packet \<Rightarrow> bool" where
  "packet_ok (SenderReport sr) \<longleftrightarrow> length (sr_report_blocks sr) \<le> 31"
| "packet_ok (ReceiverReport rr) \<longleftrightarrow> length (rr_report_blocks rr) \<le> 31"
| "packet_ok (SourceDescription sdes) \<longleftrightarrow> sdes_ok sdes"
| "packet_ok (Goodbye bye) \<longleftrightarrow> goodbye_ok bye"
| "packet_ok (Nack nack) \<longleftrightarrow> length (nk_nacks nack) < 65534"
| "packet_ok (Pli pli) \<longleftrightarrow> True"
| "packet_ok (Fir fir) \<longleftrightarrow> length (fi_entries fir) < 32767"
| "packet_ok (Remb remb) \<longleftrightarrow> length (re_ssrcs remb) \<le> 255"
| "packet_ok (Unknown pt bytes) \<longleftrightarrow> unknown_ok pt bytes"

fun received :: "rtcp_packet \<Rightarrow> rtcp_packet" where
  "received (SenderReport sr) = SenderReport (sr\<lparr>sr_report_blocks := map block_after (sr_report_blocks sr)\<rparr>)"
| "received (ReceiverReport rr) = ReceiverReport (rr\<lparr>rr_report_blocks := map block_after (rr_report_blocks rr)\<rparr>)"
| "received (Nack nack) = Unknown 205 (nack_build nack)"
| "received (Pli pli) = Unknown 206 (pli_build pli)"
| "received (Fir fir) = Unknown 206 (fir_build fir)"
| "received (Remb remb) = Remb (remb\<lparr>re_bitrate := rate_sent (re_bitrate remb)\<rparr>)"
| "received p = p"

lemma packet_parse_build:
  assumes "packet_ok p"
  shows "framed (packet_build p)
    \<and> packet_parse (packet_build p ! 1) (packet_build p ! 0 AND 0x1F) (packet_build p) = Some (Inr (received p))"
proof (cases p)
  case (SenderReport sr)
  with assms obtain c body where b: "built_as (packet_build p) c SenderReportType body"
    using sender_report_built_as [of sr] by auto
  show ?thesis using built_framed [OF b] built_pkt_len(5) [OF b] assms SenderReport
    by (simp add: packet_parse_def decoded_def sender_report_parse_build)
next
  case (ReceiverReport rr)
  with assms obtain c body where b: "built_as (packet_build p) c ReceiverReportType body"
    using receiver_report_built_as [of rr] by auto
  show ?thesis using built_framed [OF b] built_pkt_len(5) [OF b] assms ReceiverReport
    by (simp add: packet_parse_def decoded_def receiver_report_parse_build)
next
  case (SourceDescription sdes)
  with assms obtain c body where b: "built_as (packet_build p) c SourceDescriptionType body"
    using sdes_built_as [of sdes] by auto
  show ?thesis using built_framed [OF b] built_pkt_len(5) [OF b] assms SourceDescription
    by (simp add: packet_parse_def decoded_def sdes_parse_build)
next
  case (Goodbye bye)
  with assms obtain c body where b: "built_as (packet_build p) c GoodbyeType body"
    using goodbye_built_as [of bye] by auto
  show ?thesis using built_framed [OF b] built_pkt_len(5) [OF b] assms Goodbye
    by (simp add: packet_parse_def decoded_def goodbye_parse_build)
next
  case (Nack n)
  with assms obtain body where b: "built_as (packet_build p) 1 TransportFeedbackType body"
    using nack_built_as [of n] by auto
  show ?thesis using built_framed [OF b] built_pkt_len(5) [OF b] Nack
    by (simp add: packet_parse_def)
next
  case (Pli q)
  obtain body where b: "built_as (packet_build p) 1 PayloadFeedbackType body"
    using pli_built_as [of q] Pli by auto
  show ?thesis using built_framed [OF b] built_pkt_len(5,6) [OF b] Pli
    by (simp add: packet_parse_def)
next
  case (Fir f)
  with assms obtain body where b: "built_as (packet_build p) 4 PayloadFeedbackType body"
    using fir_built_as [of f] by auto
  show ?thesis using built_framed [OF b] built_pkt_len(5,6) [OF b] Fir
    by (simp add: packet_parse_def)
next
  case (Remb r)
  obtain body where b: "built_as (packet_build p) 15 PayloadFeedbackType body"
      "16 \<le> length body" "take 4 (drop 8 body) = UNIQUE_ID"
    using remb_built_as [of r] Remb by auto
  then have "drop 12 (packet_build p) = drop 8 body" "16 \<le> length (packet_build p)"
    by (simp_all add: built_as_def)
  with built_framed [OF b(1)] built_pkt_len(5,6) [OF b(1)] assms Remb b(3) show ?thesis
    by (simp add: packet_parse_def decoded_def remb_parse_build)
next
  case (Unknown pt bytes)
  with assms show ?thesis by (auto simp: packet_parse_def unknown_ok_def)
qed

lemma packets_parse_build:
  "\<forall>p \<in> set ps. packet_ok p \<Longrightarrow> packets_parse (concat (map packet_build ps)) = Some (Inr (map received ps))"
proof (induction ps)
  case (Cons p ps)
  with packet_parse_build [of p] show ?case by (simp add: packets_parse_framed)
qed (simp add: packets_parse.simps)

subsection \<open>Properties\<close>

text \<open>
  C12. \<open>RtcpCompound::parse\<close> returns on every datagram, without a panic. It cuts an accepted datagram
  completely into packets: the octets are the concatenation of slices, one per returned packet, each
  of version 2 and exactly as long as its own header says, and each packet is what its own slice
  decodes to.
\<close>

theorem compound_parse_exact:
  "\<exists>r. compound_parse data = Some r
     \<and> (\<forall>c. r = Inr c \<longrightarrow> (\<exists>slices. data = concat slices \<and> cuts slices (cp_packets c)))"
  using packets_parse_total [of data] packets_parse_cuts [of data]
  by (fastforce simp: compound_parse_def split: sum.split)

theorem compound_parse_exact_witness:
  "\<exists>c slices. compound_parse [0x80, 204, 0, 0, 0x81, 203, 0, 1, 0, 0, 0, 7] = Some (Inr c)
     \<and> length (cp_packets c) = 2 \<and> concat slices = [0x80, 204, 0, 0, 0x81, 203, 0, 1, 0, 0, 0, 7]
     \<and> cuts slices (cp_packets c)"
proof -
  let ?d = "[0x80, 204, 0, 0, 0x81, 203, 0, 1, 0, 0, 0, 7] :: octets"
  have "compound_parse ?d = Some (Inr \<lparr>cp_packets = [Unknown 204 [0x80, 204, 0, 0], Goodbye (goodbye_new 7)]\<rparr>)"
    by (simp add: compound_parse_def packets_parse.simps pkt_len_def u16_of_be_def packet_parse_def
      decoded_def goodbye_parse_def rtcp_header_parse_def at_def be16_at_def u16_at_def get_slice_def
      rtcp_type_try_from_def u32_of_be_def goodbye_new_def)
  with compound_parse_exact [of ?d] show ?thesis by auto
qed

text \<open>
  Packets whose meaning the format and the parser agree on: report blocks without a cumulative loss, whose
  24-bit field is read wrongly otherwise, no NACK, PLI or FIR message, which the parser of compounds leaves
  undecoded, and unknown packets of types outside 200 to 206.
\<close>

fun agreed_packet :: "rtcp_packet \<Rightarrow> bool" where
  "agreed_packet (SenderReport sr) \<longleftrightarrow> (\<forall>b \<in> set (sr_report_blocks sr). rb_cumulative_lost b = 0)"
| "agreed_packet (ReceiverReport rr) \<longleftrightarrow> (\<forall>b \<in> set (rr_report_blocks rr). rb_cumulative_lost b = 0)"
| "agreed_packet (Unknown pt bytes) \<longleftrightarrow> pt < 200 \<or> 206 < pt"
| "agreed_packet (Nack nack) \<longleftrightarrow> False"
| "agreed_packet (Pli pli) \<longleftrightarrow> False"
| "agreed_packet (Fir fir) \<longleftrightarrow> False"
| "agreed_packet p \<longleftrightarrow> True"

fun round_rate :: "rtcp_packet \<Rightarrow> rtcp_packet" where
  "round_rate (Remb remb) = Remb (remb\<lparr>re_bitrate := rate_sent (re_bitrate remb)\<rparr>)"
| "round_rate p = p"

lemma block_after_no_loss: "rb_cumulative_lost b = 0 \<Longrightarrow> block_after b = b"
  by (simp add: block_after_def lost_after_def)

lemma received_agreed: assumes "agreed_packet p" shows "received p = round_rate p"
proof (cases p)
  case (SenderReport sr)
  then have "map block_after (sr_report_blocks sr) = sr_report_blocks sr"
    using assms by (intro map_idI) (auto simp: block_after_no_loss)
  with SenderReport show ?thesis by simp
next
  case (ReceiverReport rr)
  then have "map block_after (rr_report_blocks rr) = rr_report_blocks rr"
    using assms by (intro map_idI) (auto simp: block_after_no_loss)
  with ReceiverReport show ?thesis by simp
qed (use assms in simp_all)

text \<open>
  C18. What a compound packet sends is what its receiver decodes. Take any sequence of sender and receiver
  reports without cumulative losses, source descriptions, goodbyes, REMB messages and packets of types
  outside 200 to 206, within the limits of the format: the receiver gets this sequence, in order, up to the
  rates of REMB messages, which are rounded down by at most one part in \<open>2 ^ 17\<close>. Every NACK, PLI and FIR
  message on its own is decoded by its parser to the message sent.
\<close>

theorem compound_round_trip:
  assumes "\<forall>p \<in> set (cp_packets c). packet_ok p \<and> agreed_packet p"
  shows "compound_parse (compound_build c) = Some (Inr \<lparr>cp_packets = map round_rate (cp_packets c)\<rparr>)
    \<and> nack_parse (nack_build n) = Some (Inr n) \<and> pli_parse (pli_build l) = Some (Inr l)
    \<and> fir_parse (fir_build f) = Some (Inr f)
    \<and> unat (rate_sent b) \<le> unat b \<and> (unat b - unat (rate_sent b)) * 2 ^ 17 \<le> unat b"
proof -
  have "map received (cp_packets c) = map round_rate (cp_packets c)"
    using assms received_agreed by simp
  with packets_parse_build [of "cp_packets c"] assms
  have "compound_parse (compound_build c) = Some (Inr \<lparr>cp_packets = map round_rate (cp_packets c)\<rparr>)"
    by (simp add: compound_parse_def compound_build_def)
  then show ?thesis
    using rate_sent_bounds(1,2) [of b] by (simp add: nack_parse_build pli_parse_build fir_parse_build)
qed

theorem compound_round_trip_witness:
  "compound_parse (compound_build (add_packet (Goodbye (goodbye_new 7))
       (receiver_compound \<lparr>rr_ssrc = 7, rr_report_blocks = []\<rparr> ''a'')))
     = Some (Inr \<lparr>cp_packets = [ReceiverReport \<lparr>rr_ssrc = 7, rr_report_blocks = []\<rparr>,
         SourceDescription (with_cname 7 ''a''), Goodbye (goodbye_new 7)]\<rparr>)"
proof -
  let ?c = "add_packet (Goodbye (goodbye_new 7)) (receiver_compound \<lparr>rr_ssrc = 7, rr_report_blocks = []\<rparr> ''a'')"
  have "\<forall>p \<in> set (cp_packets ?c). packet_ok p \<and> agreed_packet p"
    by (simp add: add_packet_def receiver_compound_def with_cname_def sdes_ok_def chunk_ok_def item_ok_def
      text_ok_def code_def chunk_octets_def pad4_def pad_len_def sdes_item_build_def goodbye_ok_def goodbye_new_def)
  from compound_round_trip [OF this, THEN conjunct1] show ?thesis
    by (simp add: add_packet_def receiver_compound_def)
qed

text \<open>
  C21. A NACK made from any list of lost sequence numbers asks for exactly these packets: in any
  order, with repetitions and across the wrap-around, grouping never panics, no other packet is
  named, none is left out, and when the list has no repetition neither has the NACK.
\<close>

theorem nack_names_lost_packets:
  "\<exists>n. nack_from_lost_packets sender media lost = Some n
     \<and> set (all_lost_sequences n) = set lost
     \<and> (distinct lost \<longrightarrow> distinct (all_lost_sequences n))
     \<and> nack_parse (nack_build n) = Some (Inr n)"
  using nack_from_lost_exact [of sender media lost] by (auto simp: nack_parse_build)

theorem nack_names_lost_packets_witness:
  "\<exists>n. nack_from_lost_packets 1 2 [3, 65535, 0] = Some n \<and> set (all_lost_sequences n) = {65535, 0, 3}
     \<and> distinct (all_lost_sequences n)"
  using nack_names_lost_packets [of 1 2 "[3, 65535, 0]"] by auto

end
