(* ===== verification/Rtp_Session.thy ===== *)
theory Rtp_Session
  imports Rtp_Packet Rtcp_Compound
begin

section \<open>RTP sessions\<close>

text \<open>
  The RTP session of \<open>rtp/session.rs\<close>: numbering of the packets sent, the reception statistics and the
  RTCP reports made from them. Counters keep their width and wrap around as in a release build. The
  clock is an argument (\<open>now\<close>), as are the random initial values and the three results of
  floating-point computations: the samples that correspond to an elapsed time, the arrival
  distance in samples, and the fraction of lost packets.

  The theorem: for packets of one session that arrive in order, with any losses of less than \<open>2 ^ 15\<close>
  packets in a row, the statistics count exactly the packets that arrived and the packets missing
  between them.
\<close>

subsection \<open>State\<close>

type_synonym instant = nat

record receiver_state =
  rs_max_seq :: u16
  rs_base_seq :: u16
  rs_initialized :: bool
  rs_packets_received :: u64
  rs_packets_lost :: u64
  rs_expected_packets :: u64
  rs_last_timestamp :: u32
  rs_jitter :: u32
  rs_last_arrival :: "instant option"

definition receiver_state_default :: receiver_state where
  "receiver_state_default =
     \<lparr>rs_max_seq = 0, rs_base_seq = 0, rs_initialized = False, rs_packets_received = 0,
      rs_packets_lost = 0, rs_expected_packets = 0, rs_last_timestamp = 0, rs_jitter = 0,
      rs_last_arrival = None\<rparr>"

record rtp_session =
  ss_ssrc :: u32
  ss_payload_type :: u8
  ss_clock_rate :: u32
  ss_next_seq :: u16
  ss_current_timestamp :: u32
  ss_packets_sent :: u64
  ss_octets_sent :: u64
  ss_start_time :: instant
  ss_receiver_state :: receiver_state

definition rtp_session_new :: "u32 \<Rightarrow> u8 \<Rightarrow> u32 \<Rightarrow> u16 \<Rightarrow> u32 \<Rightarrow> instant \<Rightarrow> rtp_session" where
  "rtp_session_new ssrc payload_type clock_rate initial_seq initial_ts now =
     \<lparr>ss_ssrc = ssrc, ss_payload_type = payload_type, ss_clock_rate = clock_rate,
      ss_next_seq = initial_seq, ss_current_timestamp = initial_ts, ss_packets_sent = 0,
      ss_octets_sent = 0, ss_start_time = now, ss_receiver_state = receiver_state_default\<rparr>"

subsection \<open>Sending\<close>

definition create_packet :: "octets \<Rightarrow> u32 \<Rightarrow> bool \<Rightarrow> rtp_session \<Rightarrow> rtp_packet \<times> rtp_session" where
  "create_packet payload samples marker s =
     (with_payload payload (with_marker marker
        (rtp_new (ss_payload_type s) (ss_next_seq s) (ss_current_timestamp s) (ss_ssrc s))),
      s\<lparr>ss_next_seq := ss_next_seq s + 1,
        ss_current_timestamp := ss_current_timestamp s + samples,
        ss_packets_sent := ss_packets_sent s + 1,
        ss_octets_sent := ss_octets_sent s + of_nat (length payload)\<rparr>)"

definition create_packet_at :: "octets \<Rightarrow> u32 \<Rightarrow> bool \<Rightarrow> rtp_session \<Rightarrow> rtp_packet \<times> rtp_session" where
  "create_packet_at payload timestamp marker s =
     (with_payload payload (with_marker marker
        (rtp_new (ss_payload_type s) (ss_next_seq s) timestamp (ss_ssrc s))),
      s\<lparr>ss_next_seq := ss_next_seq s + 1,
        ss_current_timestamp := timestamp,
        ss_packets_sent := ss_packets_sent s + 1,
        ss_octets_sent := ss_octets_sent s + of_nat (length payload)\<rparr>)"

definition update_timestamp :: "u32 \<Rightarrow> instant \<Rightarrow> rtp_session \<Rightarrow> rtp_session" where
  "update_timestamp samples now s =
     s\<lparr>ss_current_timestamp := ss_current_timestamp s + samples, ss_start_time := now\<rparr>"

subsection \<open>Receiving\<close>

text \<open>\<open>i32::unsigned_abs\<close>, \<open>u32::saturating_add\<close> and \<open>u32::saturating_sub\<close>.\<close>

definition unsigned_abs :: "u32 \<Rightarrow> u32" where
  "unsigned_abs x = (if sint x < 0 then - x else x)"

definition sat_add :: "u32 \<Rightarrow> u32 \<Rightarrow> u32" where
  "sat_add a b = (if unat a + unat b < 2 ^ 32 then a + b else - 1)"

definition sat_sub :: "u32 \<Rightarrow> u32 \<Rightarrow> u32" where
  "sat_sub a b = (if a < b then 0 else a - b)"

text \<open>\<open>J(i) = J(i-1) + (|D(i-1,i)| - J(i-1)) / 16\<close>, signed values as their 32 bits.\<close>

definition jitter_update :: "u32 \<Rightarrow> u32 \<Rightarrow> u32 \<Rightarrow> u32" where
  "jitter_update arrival_samples ts_diff jitter =
     (let d = unsigned_abs (arrival_samples - ts_diff);
          adjustment = signed_drop_bit 4 (d - jitter)
      in if sint adjustment \<ge> 0 then sat_add jitter adjustment else sat_sub jitter (- adjustment))"

definition receive_sequence :: "u16 \<Rightarrow> receiver_state \<Rightarrow> receiver_state" where
  "receive_sequence seq r =
     (let r = r\<lparr>rs_packets_received := rs_packets_received r + 1\<rparr>;
          seq_diff = sequence_diff seq (rs_max_seq r)
      in if seq_diff > 0 then
           (let expected_increase = of_int seq_diff :: u64;
                r = r\<lparr>rs_expected_packets := rs_expected_packets r + expected_increase\<rparr>;
                r = (if expected_increase > 1
                     then r\<lparr>rs_packets_lost := rs_packets_lost r + (expected_increase - 1)\<rparr> else r)
            in r\<lparr>rs_max_seq := seq\<rparr>)
         else r)"

definition receive_packet :: "instant \<Rightarrow> u32 \<Rightarrow> rtp_packet \<Rightarrow> receiver_state \<Rightarrow> receiver_state" where
  "receive_packet now arrival_samples packet r =
     (if \<not> rs_initialized r then
        r\<lparr>rs_base_seq := rp_sequence_number packet, rs_max_seq := rp_sequence_number packet,
          rs_initialized := True, rs_last_timestamp := rp_timestamp packet,
          rs_last_arrival := Some now, rs_packets_received := 1, rs_expected_packets := 1\<rparr>
      else
        (let r = receive_sequence (rp_sequence_number packet) r;
             r = (case rs_last_arrival r of
                    None \<Rightarrow> r
                  | Some last_arrival \<Rightarrow>
                      r\<lparr>rs_jitter := jitter_update arrival_samples
                          (rp_timestamp packet - rs_last_timestamp r) (rs_jitter r)\<rparr>)
         in r\<lparr>rs_last_timestamp := rp_timestamp packet, rs_last_arrival := Some now\<rparr>))"

definition session_receive :: "instant \<Rightarrow> u32 \<Rightarrow> rtp_packet \<Rightarrow> rtp_session \<Rightarrow> rtp_session" where
  "session_receive now arrival_samples packet s =
     s\<lparr>ss_receiver_state := receive_packet now arrival_samples packet (ss_receiver_state s)\<rparr>"

subsection \<open>Reports\<close>

definition session_report_block :: "(u64 \<Rightarrow> u64 \<Rightarrow> u8) \<Rightarrow> u32 \<Rightarrow> receiver_state \<Rightarrow> report_block" where
  "session_report_block fraction ssrc r =
     \<lparr>rb_ssrc = ssrc,
      rb_fraction_lost =
        (if rs_expected_packets r > 0 then fraction (rs_packets_lost r) (rs_expected_packets r) else 0),
      rb_cumulative_lost = ucast (min (rs_packets_lost r) 0x7FFFFF),
      rb_extended_seq = ucast (rs_max_seq r), rb_jitter = rs_jitter r, rb_last_sr = 0,
      rb_delay_since_sr = 0\<rparr>"

definition create_sender_report ::
    "(u64 \<Rightarrow> u64 \<Rightarrow> u8) \<Rightarrow> u64 \<Rightarrow> u32 \<Rightarrow> rtp_session \<Rightarrow> sender_report" where
  "create_sender_report fraction now_secs now_nanos s =
     \<lparr>sr_ssrc = ss_ssrc s, sr_ntp_timestamp = ntp_now now_secs now_nanos,
      sr_rtp_timestamp = ss_current_timestamp s, sr_packet_count = ucast (ss_packets_sent s),
      sr_octet_count = ucast (ss_octets_sent s),
      sr_report_blocks =
        (if rs_initialized (ss_receiver_state s)
         then [session_report_block fraction 0 (ss_receiver_state s)] else [])\<rparr>"

definition create_receiver_report :: "(u64 \<Rightarrow> u64 \<Rightarrow> u8) \<Rightarrow> u32 \<Rightarrow> rtp_session \<Rightarrow> receiver_report" where
  "create_receiver_report fraction remote_ssrc s =
     \<lparr>rr_ssrc = ss_ssrc s,
      rr_report_blocks =
        (if rs_initialized (ss_receiver_state s)
         then [session_report_block fraction remote_ssrc (ss_receiver_state s)] else [])\<rparr>"

definition create_rtcp_compound ::
    "(u64 \<Rightarrow> u64 \<Rightarrow> u8) \<Rightarrow> u64 \<Rightarrow> u32 \<Rightarrow> string \<Rightarrow> bool \<Rightarrow> rtp_session \<Rightarrow> rtcp_compound" where
  "create_rtcp_compound fraction now_secs now_nanos cname is_sender s =
     (if is_sender then sender_compound (create_sender_report fraction now_secs now_nanos s) cname
      else receiver_compound (create_receiver_report fraction 0 s) cname)"

subsection \<open>Numbering\<close>

text \<open>A session that sends a list of payloads, each with its samples and marker.\<close>

fun send_all :: "(octets \<times> u32 \<times> bool) list \<Rightarrow> rtp_session \<Rightarrow> rtp_packet list" where
  "send_all [] s = []"
| "send_all ((payload, samples, marker) # xs) s =
     (let (p, s) = create_packet payload samples marker s in p # send_all xs s)"

lemma length_send_all [simp]: "length (send_all xs s) = length xs"
  by (induction xs s rule: send_all.induct) (simp_all add: Let_def split: prod.split)

lemma send_all_nth:
  assumes "i < length xs" "ss_payload_type s < 128"
  shows "rp_sequence_number (send_all xs s ! i) = ss_next_seq s + of_nat i"
    and "rtp_wf (send_all xs s ! i)" and "rp_payload (send_all xs s ! i) = fst (xs ! i)"
proof -
  have "rp_sequence_number (send_all xs s ! i) = ss_next_seq s + of_nat i \<and> rtp_wf (send_all xs s ! i)
      \<and> rp_payload (send_all xs s ! i) = fst (xs ! i)"
    using assms
  proof (induction xs s arbitrary: i rule: send_all.induct)
    case (2 payload samples marker xs s)
    show ?case
    proof (cases i)
      case 0
      with 2(3) show ?thesis
        by (simp add: create_packet_def with_payload_def with_marker_def rtp_new_def rtp_wf_def extension_ok_def)
    next
      case (Suc j)
      with 2 show ?thesis by (simp add: create_packet_def algebra_simps)
    qed
  qed simp
  then show "rp_sequence_number (send_all xs s ! i) = ss_next_seq s + of_nat i"
    "rtp_wf (send_all xs s ! i)" "rp_payload (send_all xs s ! i) = fst (xs ! i)" by simp_all
qed

subsection \<open>Counting\<close>

text \<open>Datagrams as they arrive, each with the clock and the arrival distance; others than RTP are dropped.\<close>

fun receive_all :: "(instant \<times> u32 \<times> octets) list \<Rightarrow> receiver_state \<Rightarrow> receiver_state" where
  "receive_all [] r = r"
| "receive_all ((now, arrival_samples, d) # ds) r =
     receive_all ds
       (case rtp_parse d of Some (Inr p) \<Rightarrow> receive_packet now arrival_samples p r | _ \<Rightarrow> r)"

fun gaps_ok :: "nat \<Rightarrow> nat list \<Rightarrow> bool" where
  "gaps_ok i [] = True"
| "gaps_ok i (j # js) \<longleftrightarrow> i < j \<and> j < i + 2 ^ 15 \<and> gaps_ok j js"

lemma gaps_ok_last: "gaps_ok i js \<Longrightarrow> i + length js \<le> last (i # js)"
  by (induction i js rule: gaps_ok.induct) fastforce+

definition counted :: "u16 \<Rightarrow> nat \<Rightarrow> nat \<Rightarrow> nat \<Rightarrow> receiver_state \<Rightarrow> bool" where
  "counted seq0 first i n r \<longleftrightarrow> rs_initialized r \<and> rs_base_seq r = seq0 + of_nat first
     \<and> rs_max_seq r = seq0 + of_nat i \<and> rs_packets_received r = of_nat n
     \<and> rs_expected_packets r = of_nat (i - first + 1)
     \<and> rs_packets_lost r + of_nat n = of_nat (i - first + 1)"

lemma receive_sequence_forward:
  assumes "0 < k" "k < 2 ^ 15" "seq = rs_max_seq r + of_nat k"
  shows "receive_sequence seq r =
    r\<lparr>rs_packets_received := rs_packets_received r + 1,
      rs_expected_packets := rs_expected_packets r + of_nat k,
      rs_packets_lost := rs_packets_lost r + of_nat (k - 1), rs_max_seq := seq\<rparr>"
proof -
  have diff: "sequence_diff seq (rs_max_seq r) = int k"
    using sequence_newer_forward(1) [OF assms(1,2)] assms(3) by simp
  have "(of_nat k :: u64) > 1 \<longleftrightarrow> k > 1"
    using assms(2) by (simp add: word_less_nat_alt unat_of_nat)
  moreover have "(of_nat k :: u64) - 1 = of_nat (k - 1)" using assms(1) by (simp add: of_nat_diff)
  moreover have "k = 1" if "\<not> k > 1" using that assms(1) by simp
  ultimately show ?thesis using assms(1)
    by (cases "k > 1") (simp_all add: receive_sequence_def Let_def diff)
qed

lemma counted_step:
  assumes "counted seq0 first i n r" "first \<le> i" "i < j" "j < i + 2 ^ 15"
    and "rp_sequence_number p = seq0 + of_nat j"
  shows "counted seq0 first j (Suc n) (receive_packet now a p r)"
proof -
  define k where "k = j - i"
  have k: "0 < k" "k < 2 ^ 15" "j = i + k" using assms(3,4) by (simp_all add: k_def)
  have r: "rs_initialized r" "rs_base_seq r = seq0 + of_nat first" "rs_max_seq r = seq0 + of_nat i"
      "rs_packets_received r = of_nat n" "rs_expected_packets r = of_nat (i - first + 1)"
      "rs_packets_lost r + of_nat n = of_nat (i - first + 1)"
    using assms(1) by (simp_all add: counted_def)
  have "rp_sequence_number p = rs_max_seq r + of_nat k" using assms(5) r(3) k(3) by simp
  note seq = receive_sequence_forward [OF k(1,2) this]
  let ?r = "receive_packet now a p r"
  have fields: "rs_initialized ?r" "rs_base_seq ?r = seq0 + of_nat first" "rs_max_seq ?r = seq0 + of_nat j"
      "rs_packets_received ?r = of_nat (Suc n)" "rs_expected_packets ?r = of_nat (i - first + 1) + of_nat k"
      "rs_packets_lost ?r = rs_packets_lost r + of_nat (k - 1)"
    using r(1,2,4,5) assms(5) unfolding receive_packet_def seq by (simp_all add: Let_def split: option.split)
  have total: "(of_nat (j - first + 1) :: u64) = of_nat (i - first + 1) + of_nat k"
    using assms(2) k(3) by (simp flip: of_nat_add)
  have "rs_packets_lost r + of_nat (k - 1) + of_nat (Suc n) = (rs_packets_lost r + of_nat n) + of_nat k"
    using k(1) by (cases k) simp_all
  with fields total r(6) show ?thesis unfolding counted_def by (simp only: simp_thms)
qed

lemma counted_lost:
  assumes "counted seq0 first i n r" "n \<le> i - first + 1"
  shows "rs_packets_lost r = of_nat (i - first + 1 - n)"
  using assms unfolding of_nat_diff [OF assms(2)] by (simp add: counted_def eq_diff_eq)

lemma counted_all:
  assumes "counted seq0 first i n r" "first \<le> i" "gaps_ok i js" "length clocks = length js"
    and "\<forall>j \<in> set js. rtp_wf (sent ! j) \<and> rp_sequence_number (sent ! j) = seq0 + of_nat j"
  shows "counted seq0 first (last (i # js)) (n + length js)
    (receive_all (map2 (\<lambda>(now, a) j. (now, a, rtp_build (sent ! j))) clocks js) r)"
  using assms
proof (induction js arbitrary: i n r clocks)
  case (Cons j js)
  then obtain now a cs where c: "clocks = (now, a) # cs" by (cases clocks) auto
  have "counted seq0 first j (Suc n) (receive_packet now a (sent ! j) r)"
    using Cons.prems by (auto intro: counted_step)
  with Cons.prems c Cons.IH [of j "Suc n" "receive_packet now a (sent ! j) r" cs] show ?case
    by (simp add: rtp_parse_rtp_build)
qed simp

subsection \<open>Property\<close>

text \<open>
  C19. A session sends packets with \<open>create_packet\<close>; of these, any selection arrives in order, with
  less than \<open>2 ^ 15\<close> packets between two arrivals, at any times. Whatever the initial sequence number
  and its wrap-arounds, the receiver's statistics then count the packets received, the packets
  expected from the first to the last arrival, and as lost exactly those missing in between.
\<close>

theorem session_counts_losses:
  assumes "ss_payload_type tx < 128" "length clocks = Suc (length js)"
    and "gaps_ok i js" "\<forall>j \<in> set (i # js). j < length xs"
  shows "\<exists>r. receive_all
      (map2 (\<lambda>(now, a) j. (now, a, rtp_build (send_all xs tx ! j))) clocks (i # js)) receiver_state_default = r
    \<and> rs_packets_received r = of_nat (length (i # js))
    \<and> rs_expected_packets r = of_nat (last (i # js) - i + 1)
    \<and> rs_packets_lost r = of_nat (last (i # js) - i + 1 - length (i # js))
    \<and> rs_max_seq r = ss_next_seq tx + of_nat (last (i # js))"
proof -
  obtain now a cs where c: "clocks = (now, a) # cs" "length cs = length js"
    using assms(2) by (cases clocks) auto
  let ?p = "send_all xs tx ! i"
  have p: "rtp_wf ?p" "rp_sequence_number ?p = ss_next_seq tx + of_nat i"
    using send_all_nth [OF _ assms(1), of i xs] assms(4) by simp_all
  define r where "r = receive_all
      (map2 (\<lambda>(now, a) j. (now, a, rtp_build (send_all xs tx ! j))) clocks (i # js)) receiver_state_default"
  have "counted (ss_next_seq tx) i i 1 (receive_packet now a ?p receiver_state_default)"
    using p(2) by (simp add: counted_def receive_packet_def receiver_state_default_def)
  from counted_all [OF this order_refl assms(3) c(2), of "send_all xs tx"] send_all_nth [OF _ assms(1)] assms(4)
  have r: "counted (ss_next_seq tx) i (last (i # js)) (length (i # js)) r"
    using p(1) by (simp add: r_def c(1) rtp_parse_rtp_build)
  have "length (i # js) \<le> last (i # js) - i + 1" using gaps_ok_last [OF assms(3)] by simp
  from counted_lost [OF r this] r show ?thesis
    unfolding r_def [symmetric] counted_def by (intro exI [of _ r]) (elim conjE, intro conjI refl)
qed

theorem session_counts_losses_witness:
  "\<exists>r. receive_all
      (map2 (\<lambda>(now, a) j. (now, a, rtp_build (send_all (replicate 4 ([1], 160, False))
          (rtp_session_new 7 0 8000 65534 0 0) ! j))) [(0, 0), (20, 160), (60, 320)] [0, 1, 3])
      receiver_state_default = r
    \<and> rs_packets_received r = 3 \<and> rs_packets_lost r = 1 \<and> rs_max_seq r = 1"
  using session_counts_losses [of "rtp_session_new 7 0 8000 65534 0 0" "[(0, 0), (20, 160), (60, 320)]" "[1, 3]" 0
      "replicate 4 ([1], 160, False)"]
  by (simp add: rtp_session_new_def)

end
