(* ===== verification/Rtp_Dtmf.thy ===== *)
theory Rtp_Dtmf
  imports Rtp_Packet
begin

section \<open>DTMF telephone events\<close>

text \<open>
  DTMF digits as RTP telephone events, \<open>rtp/dtmf.rs\<close>: the event payload, the sender that spreads a
  key press over several packets, and the receiver that reports each press once. The receiver is
  driven the way the media path does it, on the payload type and the payload of the parsed RTP
  packet. The random first sequence number is an argument, and \<^const>\<open>None\<close> is a panic.

  The theorem: key presses of at least 100 ms are reported exactly once and in order, even if packets
  are lost, as long as one packet of the beginning and one of the end of each press arrive. Shorter
  presses have no packet that is not an end packet, and of two such presses of the same key only one is
  reported.
\<close>

subsection \<open>Digits\<close>

datatype dtmf_digit = DtmfZero | DtmfOne | DtmfTwo | DtmfThree | DtmfFour | DtmfFive | DtmfSix
  | DtmfSeven | DtmfEight | DtmfNine | DtmfStar | DtmfPound | DtmfA | DtmfB | DtmfC | DtmfD

fun event_code :: "dtmf_digit \<Rightarrow> u8" where
  "event_code DtmfZero = 0"
| "event_code DtmfOne = 1"
| "event_code DtmfTwo = 2"
| "event_code DtmfThree = 3"
| "event_code DtmfFour = 4"
| "event_code DtmfFive = 5"
| "event_code DtmfSix = 6"
| "event_code DtmfSeven = 7"
| "event_code DtmfEight = 8"
| "event_code DtmfNine = 9"
| "event_code DtmfStar = 10"
| "event_code DtmfPound = 11"
| "event_code DtmfA = 12"
| "event_code DtmfB = 13"
| "event_code DtmfC = 14"
| "event_code DtmfD = 15"

definition from_event_code :: "u8 \<Rightarrow> dtmf_digit option" where
  "from_event_code c =
     (if c = 0 then Some DtmfZero else if c = 1 then Some DtmfOne
      else if c = 2 then Some DtmfTwo else if c = 3 then Some DtmfThree
      else if c = 4 then Some DtmfFour else if c = 5 then Some DtmfFive
      else if c = 6 then Some DtmfSix else if c = 7 then Some DtmfSeven
      else if c = 8 then Some DtmfEight else if c = 9 then Some DtmfNine
      else if c = 10 then Some DtmfStar else if c = 11 then Some DtmfPound
      else if c = 12 then Some DtmfA else if c = 13 then Some DtmfB
      else if c = 14 then Some DtmfC else if c = 15 then Some DtmfD else None)"

fun as_char :: "dtmf_digit \<Rightarrow> char" where
  "as_char DtmfZero = CHR ''0''"
| "as_char DtmfOne = CHR ''1''"
| "as_char DtmfTwo = CHR ''2''"
| "as_char DtmfThree = CHR ''3''"
| "as_char DtmfFour = CHR ''4''"
| "as_char DtmfFive = CHR ''5''"
| "as_char DtmfSix = CHR ''6''"
| "as_char DtmfSeven = CHR ''7''"
| "as_char DtmfEight = CHR ''8''"
| "as_char DtmfNine = CHR ''9''"
| "as_char DtmfStar = CHR ''*''"
| "as_char DtmfPound = CHR ''#''"
| "as_char DtmfA = CHR ''A''"
| "as_char DtmfB = CHR ''B''"
| "as_char DtmfC = CHR ''C''"
| "as_char DtmfD = CHR ''D''"

definition from_char :: "char \<Rightarrow> dtmf_digit option" where
  "from_char c =
     (if c = CHR ''0'' then Some DtmfZero else if c = CHR ''1'' then Some DtmfOne
      else if c = CHR ''2'' then Some DtmfTwo else if c = CHR ''3'' then Some DtmfThree
      else if c = CHR ''4'' then Some DtmfFour else if c = CHR ''5'' then Some DtmfFive
      else if c = CHR ''6'' then Some DtmfSix else if c = CHR ''7'' then Some DtmfSeven
      else if c = CHR ''8'' then Some DtmfEight else if c = CHR ''9'' then Some DtmfNine
      else if c = CHR ''*'' then Some DtmfStar else if c = CHR ''#'' then Some DtmfPound
      else if c = CHR ''A'' \<or> c = CHR ''a'' then Some DtmfA
      else if c = CHR ''B'' \<or> c = CHR ''b'' then Some DtmfB
      else if c = CHR ''C'' \<or> c = CHR ''c'' then Some DtmfC
      else if c = CHR ''D'' \<or> c = CHR ''d'' then Some DtmfD else None)"

lemma from_event_code_round_trip [simp]: "from_event_code (event_code d) = Some d"
  by (cases d) (simp_all add: from_event_code_def)

lemma from_char_round_trip: "from_char (as_char d) = Some d"
  by (cases d) (simp_all add: from_char_def)

subsection \<open>Events\<close>

record dtmf_event =
  de_digit :: dtmf_digit
  de_end :: bool
  de_volume :: u8
  de_duration :: u16

definition dtmf_event_new :: "dtmf_digit \<Rightarrow> u16 \<Rightarrow> dtmf_event" where
  "dtmf_event_new digit duration =
     \<lparr>de_digit = digit, de_end = False, de_volume = 10, de_duration = duration\<rparr>"

definition with_end :: "dtmf_event \<Rightarrow> dtmf_event" where
  "with_end e = e\<lparr>de_end := True\<rparr>"

definition with_volume :: "u8 \<Rightarrow> dtmf_event \<Rightarrow> dtmf_event" where
  "with_volume volume e = e\<lparr>de_volume := min volume 63\<rparr>"

definition dtmf_encode :: "dtmf_event \<Rightarrow> octets" where
  "dtmf_encode e =
     [event_code (de_digit e), (if de_end e then 0x80 else 0x00) OR (de_volume e AND 0x3F),
      ucast (drop_bit 8 (de_duration e)), ucast (de_duration e AND 0xFF)]"

definition dtmf_decode :: "octets \<Rightarrow> dtmf_event option" where
  "dtmf_decode data =
     (if length data < 4 then None
      else do {
        digit \<leftarrow> from_event_code (data ! 0);
        Some \<lparr>de_digit = digit, de_end = (data ! 1 AND 0x80 \<noteq> 0), de_volume = data ! 1 AND 0x3F,
          de_duration = u16_of_be (data ! 2) (data ! 3)\<rparr>
      })"

lemma volume_octet:
  fixes v :: u8
  assumes "unat v < 64"
  shows "((if e then 0x80 else 0x00) OR (v AND 0x3F)) AND 0x80 \<noteq> 0 \<longleftrightarrow> e"
    "((if e then 0x80 else 0x00) OR (v AND 0x3F)) AND 0x3F = v"
proof -
  have v: "v AND 0x3F = v" using and_mask_small [of v 6] assms by (simp add: mask_eq_exp_minus_1)
  have top: "v AND 0x80 = 0"
  proof (rule octet_bits)
    fix n :: nat assume n: "n < 8"
    show "bit (v AND 0x80) n = bit 0 n"
      using bit_above [of v 6 7] assms by (cases rule: octet_bit_cases [OF n]) (simp_all add: bit_simps)
  qed
  show "((if e then 0x80 else 0x00) OR (v AND 0x3F)) AND 0x80 \<noteq> 0 \<longleftrightarrow> e"
    "((if e then 0x80 else 0x00) OR (v AND 0x3F)) AND 0x3F = v"
    by (simp_all add: v top bit.conj_disj_distrib2)
qed

lemma dtmf_decode_encode:
  assumes "unat (de_volume e) < 64"
  shows "dtmf_decode (dtmf_encode e) = Some e"
  using volume_octet [OF assms, of "de_end e"]
  by (simp add: dtmf_encode_def dtmf_decode_def u16_of_be_be low_octet)

lemma with_volume_fits: "unat (de_volume (with_volume v e)) < 64"
  by (simp add: with_volume_def min_def word_le_nat_alt)

subsection \<open>Sender\<close>

record dtmf_sender =
  ds_payload_type :: u8
  ds_ssrc :: u32
  ds_sequence :: u16
  ds_sample_rate :: u32

definition dtmf_sender_new :: "u8 \<Rightarrow> u32 \<Rightarrow> u16 \<Rightarrow> dtmf_sender" where
  "dtmf_sender_new payload_type ssrc random_seq =
     \<lparr>ds_payload_type = payload_type, ds_ssrc = ssrc, ds_sequence = random_seq, ds_sample_rate = 8000\<rparr>"

definition set_sample_rate :: "u32 \<Rightarrow> dtmf_sender \<Rightarrow> dtmf_sender" where
  "set_sample_rate rate s = s\<lparr>ds_sample_rate := rate\<rparr>"

definition build_rtp_packet :: "dtmf_sender \<Rightarrow> dtmf_event \<Rightarrow> u32 \<Rightarrow> bool \<Rightarrow> octets" where
  "build_rtp_packet s event timestamp marker =
     [0x80] @ [(if marker then 0x80 else 0x00) OR ds_payload_type s] @ u16_be (ds_sequence s)
     @ u32_be timestamp @ u32_be (ds_ssrc s) @ dtmf_encode event"

definition next_sequence :: "dtmf_sender \<Rightarrow> dtmf_sender" where
  "next_sequence s = s\<lparr>ds_sequence := ds_sequence s + 1\<rparr>"

text \<open>One turn of the loop: the packet with index \<open>i\<close>, the last one followed by two copies.\<close>

definition dtmf_turn ::
    "dtmf_digit \<Rightarrow> u32 \<Rightarrow> nat \<Rightarrow> nat \<Rightarrow> dtmf_sender \<Rightarrow> nat \<Rightarrow> octets list \<times> dtmf_sender" where
  "dtmf_turn digit timestamp samples_per_packet packet_count s i =
     (let is_last = (i = packet_count - 1);
          current_duration = (i + 1) * samples_per_packet;
          new = dtmf_event_new digit (of_nat (min current_duration 0xFFFF));
          event = (if is_last then with_end new else new);
          packet = build_rtp_packet s event timestamp (i = 0)
      in if is_last then
           (let s1 = next_sequence s; s2 = next_sequence s1
            in ([packet, build_rtp_packet s1 event timestamp False,
                 build_rtp_packet s2 event timestamp False], next_sequence s2))
         else ([packet], next_sequence s))"

fun dtmf_turns ::
    "dtmf_digit \<Rightarrow> u32 \<Rightarrow> nat \<Rightarrow> nat \<Rightarrow> dtmf_sender \<Rightarrow> nat list \<Rightarrow> octets list \<times> dtmf_sender" where
  "dtmf_turns digit timestamp spp n s [] = ([], s)"
| "dtmf_turns digit timestamp spp n s (i # is) =
     (let (ps, s) = dtmf_turn digit timestamp spp n s i; (qs, s) = dtmf_turns digit timestamp spp n s is
      in (ps @ qs, s))"

text \<open>
  \<open>generate_packets\<close>: the 32-bit product wraps around, as in a release build, and the division by
  the samples of a packet panics when the sample rate is below 20.
\<close>

definition packet_count :: "dtmf_sender \<Rightarrow> u32 \<Rightarrow> nat" where
  "packet_count s duration_ms =
     max (unat (duration_ms * ds_sample_rate s) div 1000 div (unat (ds_sample_rate s) div 20)) 1"

definition generate_packets ::
    "dtmf_digit \<Rightarrow> u32 \<Rightarrow> u32 \<Rightarrow> dtmf_sender \<Rightarrow> (octets list \<times> dtmf_sender) option" where
  "generate_packets digit duration_ms timestamp s =
     (let samples_per_packet = unat (ds_sample_rate s) div 20 in
      if samples_per_packet = 0 then None
      else Some (dtmf_turns digit timestamp samples_per_packet (packet_count s duration_ms) s
        [0..<packet_count s duration_ms]))"

subsection \<open>Receiver\<close>

record dtmf_receiver =
  dr_payload_type :: u8
  dr_current_event :: "(dtmf_digit \<times> u32) option"
  dr_last_event :: "dtmf_digit option"

definition dtmf_receiver_new :: "u8 \<Rightarrow> dtmf_receiver" where
  "dtmf_receiver_new payload_type =
     \<lparr>dr_payload_type = payload_type, dr_current_event = None, dr_last_event = None\<rparr>"

definition process_packet :: "u8 \<Rightarrow> octets \<Rightarrow> dtmf_receiver \<Rightarrow> dtmf_receiver \<times> dtmf_digit option" where
  "process_packet payload_type payload r =
     (if payload_type \<noteq> dr_payload_type r then (r, None)
      else (case dtmf_decode payload of
        None \<Rightarrow> (r, None)
      | Some event \<Rightarrow>
          if de_end event then
            (let r = r\<lparr>dr_current_event := None\<rparr> in
             if dr_last_event r \<noteq> Some (de_digit event)
             then (r\<lparr>dr_last_event := Some (de_digit event)\<rparr>, Some (de_digit event))
             else (r, None))
          else (r\<lparr>dr_current_event := Some (de_digit event, 0), dr_last_event := None\<rparr>, None)))"

definition current_digit :: "dtmf_receiver \<Rightarrow> dtmf_digit option" where
  "current_digit r = map_option fst (dr_current_event r)"

definition dtmf_reset :: "dtmf_receiver \<Rightarrow> dtmf_receiver" where
  "dtmf_reset r = r\<lparr>dr_current_event := None, dr_last_event := None\<rparr>"

text \<open>The receiver behind the RTP parser: the digits reported for a sequence of datagrams.\<close>

fun digits_received :: "dtmf_receiver \<Rightarrow> octets list \<Rightarrow> dtmf_digit list" where
  "digits_received r [] = []"
| "digits_received r (p # ps) =
     (case rtp_parse p of
        Some (Inr packet) \<Rightarrow>
          (let (r, digit) = process_packet (rp_payload_type packet) (rp_payload packet) r
           in (case digit of None \<Rightarrow> [] | Some d \<Rightarrow> [d]) @ digits_received r ps)
      | _ \<Rightarrow> digits_received r ps)"

subsection \<open>What the sender's packets are\<close>

definition telephone_event :: "u8 \<Rightarrow> dtmf_digit \<Rightarrow> bool \<Rightarrow> octets \<Rightarrow> bool" where
  "telephone_event pt digit is_end p \<longleftrightarrow>
     (\<exists>packet e. rtp_parse p = Some (Inr packet) \<and> rp_payload_type packet = pt
        \<and> dtmf_decode (rp_payload packet) = Some e \<and> de_digit e = digit \<and> de_end e = is_end)"

lemma marker_octet: "unat pt < 128 \<Longrightarrow> push_bit 7 (of_bool m) OR (pt AND 0x7F) = (if m then 0x80 else 0x00) OR pt"
  for pt :: u8
  using and_mask_small [of pt 7] by (simp add: mask_eq_exp_minus_1)

lemma built_telephone_event:
  assumes "unat (ds_payload_type s) < 128" "unat (de_volume e) < 64"
  shows "telephone_event (ds_payload_type s) (de_digit e) (de_end e) (build_rtp_packet s e ts m)"
proof -
  let ?p = "with_payload (dtmf_encode e) (with_marker m (rtp_new (ds_payload_type s) (ds_sequence s) ts (ds_ssrc s)))"
  have "build_rtp_packet s e ts m = rtp_build ?p"
    using marker_octet [OF assms(1), of m]
    by (simp add: build_rtp_packet_def rtp_build_def rtp_build_extension_def with_payload_def with_marker_def
      rtp_new_def Let_def)
  moreover have "rtp_wf ?p" using assms(1) by (intro rtp_wf_with rtp_wf_new) (simp add: word_less_nat_alt)
  ultimately have "rtp_parse (build_rtp_packet s e ts m) = Some (Inr ?p)" by (simp add: rtp_parse_rtp_build)
  with dtmf_decode_encode [OF assms(2)] show ?thesis
    by (simp add: telephone_event_def with_payload_def with_marker_def rtp_new_def)
qed

lemma telephone_event_fun: "telephone_event pt d b p \<Longrightarrow> telephone_event pt' d' b' p \<Longrightarrow> d = d' \<and> b = b'"
  by (auto simp: telephone_event_def)

lemma next_sequence_same [simp]:
  "ds_payload_type (next_sequence s) = ds_payload_type s" "ds_sample_rate (next_sequence s) = ds_sample_rate s"
  by (simp_all add: next_sequence_def)

lemma event_volume [simp]: "unat (de_volume (dtmf_event_new d n)) < 64" "unat (de_volume (with_end (dtmf_event_new d n))) < 64"
  by (simp_all add: dtmf_event_new_def with_end_def)

lemma event_fields [simp]:
  "de_digit (dtmf_event_new d n) = d" "\<not> de_end (dtmf_event_new d n)"
  "de_digit (with_end e) = de_digit e" "de_end (with_end e)"
  by (simp_all add: dtmf_event_new_def with_end_def)

lemma dtmf_turn_start:
  assumes "unat (ds_payload_type s) < 128" "i \<noteq> n - 1"
  shows "\<exists>p. dtmf_turn d ts spp n s i = ([p], next_sequence s) \<and> telephone_event (ds_payload_type s) d False p"
  using assms built_telephone_event [OF assms(1), of "dtmf_event_new d (of_nat (min ((i + 1) * spp) 0xFFFF))"]
  by (simp add: dtmf_turn_def)

lemma dtmf_turn_last:
  assumes "unat (ds_payload_type s) < 128"
  shows "\<exists>ps s'. dtmf_turn d ts spp n s (n - 1) = (ps, s') \<and> ps \<noteq> []
    \<and> ds_payload_type s' = ds_payload_type s \<and> ds_sample_rate s' = ds_sample_rate s
    \<and> (\<forall>p \<in> set ps. telephone_event (ds_payload_type s) d True p)"
proof -
  have "telephone_event (ds_payload_type s) d True (build_rtp_packet s' (with_end (dtmf_event_new d k)) ts m)"
    if "ds_payload_type s' = ds_payload_type s" for s' k m
    using built_telephone_event [of s' "with_end (dtmf_event_new d k)"] assms that by simp
  then show ?thesis by (simp add: dtmf_turn_def Let_def)
qed

lemma dtmf_turns_append:
  "dtmf_turns d ts spp n s (is @ js) =
     (let (ps, s) = dtmf_turns d ts spp n s is; (qs, s) = dtmf_turns d ts spp n s js in (ps @ qs, s))"
  by (induction "is" arbitrary: s) (simp_all add: Let_def split: prod.splits)

lemma dtmf_turns_start:
  assumes "unat (ds_payload_type s) < 128" "\<forall>i \<in> set is. i \<noteq> n - 1"
  shows "\<exists>ps s'. dtmf_turns d ts spp n s is = (ps, s') \<and> length ps = length is
    \<and> ds_payload_type s' = ds_payload_type s \<and> ds_sample_rate s' = ds_sample_rate s
    \<and> (\<forall>p \<in> set ps. telephone_event (ds_payload_type s) d False p)"
  using assms
proof (induction "is" arbitrary: s)
  case (Cons i "is")
  obtain p where p: "dtmf_turn d ts spp n s i = ([p], next_sequence s)" "telephone_event (ds_payload_type s) d False p"
    using dtmf_turn_start [of s i n d ts spp] Cons.prems by auto
  obtain ps s' where "dtmf_turns d ts spp n (next_sequence s) is = (ps, s')" "length ps = length is"
      "ds_payload_type s' = ds_payload_type s" "ds_sample_rate s' = ds_sample_rate s"
      "\<forall>p \<in> set ps. telephone_event (ds_payload_type s) d False p"
    using Cons.IH [of "next_sequence s"] Cons.prems by auto
  with p show ?case by simp
qed simp

lemma long_press_count:
  assumes "20 \<le> unat (ds_sample_rate s)" "100 \<le> unat ms" "unat ms * unat (ds_sample_rate s) < 2 ^ 32"
  shows "2 \<le> packet_count s ms"
proof -
  let ?r = "unat (ds_sample_rate s)"
  have "unat (ms * ds_sample_rate s) = unat ms * ?r"
    using assms(3) by (simp add: unat_word_ariths)
  moreover have "100 * ?r \<le> unat ms * ?r" using assms(2) by simp
  then have "100 * ?r div 1000 \<le> unat ms * ?r div 1000" by (rule div_le_mono)
  moreover have "100 * ?r div 1000 = ?r div 10" using div_mult_mult1 [of 100 ?r 10] by simp
  moreover have "2 * (?r div 20) \<le> ?r div 10" by presburger
  ultimately have "2 * (?r div 20) \<le> unat (ms * ds_sample_rate s) div 1000" by linarith
  then have "2 * (?r div 20) div (?r div 20) \<le> unat (ms * ds_sample_rate s) div 1000 div (?r div 20)"
    by (rule div_le_mono)
  moreover have "0 < ?r div 20" using assms(1) by (simp add: div_greater_zero_iff)
  ultimately show ?thesis by (simp add: packet_count_def)
qed

lemma generate_long_press:
  assumes "unat (ds_payload_type s) < 128" "20 \<le> unat (ds_sample_rate s)" "100 \<le> unat ms"
    "unat ms * unat (ds_sample_rate s) < 2 ^ 32"
  shows "\<exists>starts ends s'. generate_packets d ms ts s = Some (starts @ ends, s')
    \<and> starts \<noteq> [] \<and> ends \<noteq> []
    \<and> ds_payload_type s' = ds_payload_type s \<and> ds_sample_rate s' = ds_sample_rate s
    \<and> (\<forall>p \<in> set starts. telephone_event (ds_payload_type s) d False p)
    \<and> (\<forall>p \<in> set ends. telephone_event (ds_payload_type s) d True p)"
proof -
  let ?n = "packet_count s ms" and ?spp = "unat (ds_sample_rate s) div 20"
  have n: "2 \<le> ?n" by (rule long_press_count [OF assms(2-4)])
  then have idx: "[0..<?n] = [0..<?n - 1] @ [?n - 1]"
    using upt_Suc_append [of 0 "?n - 1"] by simp
  obtain starts s1 where st: "dtmf_turns d ts ?spp ?n s [0..<?n - 1] = (starts, s1)" "length starts = ?n - 1"
      "ds_payload_type s1 = ds_payload_type s" "ds_sample_rate s1 = ds_sample_rate s"
      "\<forall>p \<in> set starts. telephone_event (ds_payload_type s) d False p"
    using dtmf_turns_start [OF assms(1), of "[0..<?n - 1]" ?n d ts ?spp] by auto
  obtain ends s2 where en: "dtmf_turn d ts ?spp ?n s1 (?n - 1) = (ends, s2)" "ends \<noteq> []"
      "ds_payload_type s2 = ds_payload_type s" "ds_sample_rate s2 = ds_sample_rate s"
      "\<forall>p \<in> set ends. telephone_event (ds_payload_type s) d True p"
    using dtmf_turn_last [of s1 d ts ?spp ?n] assms(1) st(3,4) by auto
  have "dtmf_turns d ts ?spp ?n s [0..<?n] = (starts @ ends, s2)"
    unfolding idx dtmf_turns_append st(1) dtmf_turns.simps Let_def prod.case en(1) by simp
  then have "generate_packets d ms ts s = Some (starts @ ends, s2)"
    using assms(2) by (simp add: generate_packets_def Let_def)
  moreover have "starts \<noteq> []" using st(2) n by auto
  ultimately show ?thesis using st(5) en by blast
qed

subsection \<open>What the receiver reports\<close>

lemma receive_start:
  assumes "telephone_event (dr_payload_type r) d False p"
  shows "digits_received r (p # ps) =
    digits_received (r\<lparr>dr_current_event := Some (d, 0), dr_last_event := None\<rparr>) ps"
  using assms by (auto simp: telephone_event_def process_packet_def)

lemma receive_end:
  assumes "telephone_event (dr_payload_type r) d True p"
  shows "digits_received r (p # ps) =
    (if dr_last_event r = Some d then [] else [d])
    @ digits_received (r\<lparr>dr_current_event := None, dr_last_event := Some d\<rparr>) ps"
proof (cases "dr_last_event r = Some d")
  case True
  then have same: "r\<lparr>dr_current_event := None, dr_last_event := Some d\<rparr> = r\<lparr>dr_current_event := None\<rparr>" by simp
  show ?thesis unfolding same using True assms by (auto simp: telephone_event_def process_packet_def)
qed (use assms in \<open>auto simp: telephone_event_def process_packet_def\<close>)

declare digits_received.simps(2) [simp del]

lemma receive_starts:
  assumes "\<forall>p \<in> set ps. telephone_event (dr_payload_type r) d False p" "ps \<noteq> []"
  shows "digits_received r (ps @ rest) =
    digits_received (r\<lparr>dr_current_event := Some (d, 0), dr_last_event := None\<rparr>) rest"
  using assms
proof (induction ps arbitrary: r)
  case (Cons p ps)
  then show ?case by (cases "ps = []") (simp_all add: receive_start [of r d p])
qed simp

lemma receive_ends:
  assumes "\<forall>p \<in> set ps. telephone_event (dr_payload_type r) d True p" "ps \<noteq> []"
  shows "digits_received r (ps @ rest) = (if dr_last_event r = Some d then [] else [d])
    @ digits_received (r\<lparr>dr_current_event := None, dr_last_event := Some d\<rparr>) rest"
  using assms
proof (induction ps arbitrary: r)
  case (Cons p ps)
  then show ?case by (cases "ps = []") (simp_all add: receive_end [of r d p])
qed simp

text \<open>Packets of a press that arrive: some are lost, but one of the beginning and one of the end are not.\<close>

definition heard :: "u8 \<Rightarrow> octets list \<Rightarrow> octets list \<Rightarrow> bool" where
  "heard pt arrived sent \<longleftrightarrow> subseq arrived sent
     \<and> (\<exists>p \<in> set arrived. \<exists>d. telephone_event pt d False p)
     \<and> (\<exists>p \<in> set arrived. \<exists>d. telephone_event pt d True p)"

lemma receive_press:
  assumes "heard (dr_payload_type r) arrived (starts @ ends)"
    and st: "\<forall>p \<in> set starts. telephone_event (dr_payload_type r) d False p"
    and en: "\<forall>p \<in> set ends. telephone_event (dr_payload_type r) d True p"
  shows "digits_received r (arrived @ rest)
    = d # digits_received (r\<lparr>dr_current_event := None, dr_last_event := Some d\<rparr>) rest"
proof -
  from assms(1) obtain a b where ab: "arrived = a @ b" "subseq a starts" "subseq b ends"
    by (auto simp: heard_def subseq_append_iff)
  then have "set a \<subseteq> set starts" "set b \<subseteq> set ends"
    by (auto elim: list_emb_set)
  then have a: "\<forall>p \<in> set a. telephone_event (dr_payload_type r) d False p"
    and b: "\<forall>p \<in> set b. telephone_event (dr_payload_type r) d True p"
    using st en by auto
  have "a \<noteq> []" "b \<noteq> []"
    using assms(1) a b by (auto simp: heard_def ab dest: telephone_event_fun)
  with a b receive_starts [OF a, of "b @ rest"]
  show ?thesis
    by (simp add: ab receive_ends [of b "r\<lparr>dr_current_event := Some (d, 0), dr_last_event := None\<rparr>"])
qed

text \<open>A sequence of key presses, each a digit, a duration and an RTP timestamp.\<close>

fun generate_all :: "(dtmf_digit \<times> u32 \<times> u32) list \<Rightarrow> dtmf_sender \<Rightarrow> (octets list list \<times> dtmf_sender) option" where
  "generate_all [] s = Some ([], s)"
| "generate_all ((d, ms, ts) # presses) s = do {
     (ps, s) \<leftarrow> generate_packets d ms ts s;
     (pss, s) \<leftarrow> generate_all presses s;
     Some (ps # pss, s)
   }"

lemma presses_received:
  assumes "unat (ds_payload_type s) < 128" "20 \<le> unat (ds_sample_rate s)"
    and "\<forall>(d, ms, ts) \<in> set presses. 100 \<le> unat ms \<and> unat ms * unat (ds_sample_rate s) < 2 ^ 32"
    and "dr_payload_type r = ds_payload_type s"
  shows "\<exists>pss s'. generate_all presses s = Some (pss, s')
    \<and> list_all2 (heard (ds_payload_type s)) pss pss
    \<and> (\<forall>arrived. list_all2 (heard (ds_payload_type s)) arrived pss
         \<longrightarrow> digits_received r (concat arrived) = map fst presses)"
  using assms
proof (induction presses arbitrary: s r)
  case (Cons press presses)
  obtain d ms ts where p: "press = (d, ms, ts)" by (cases press)
  have ms: "100 \<le> unat ms" "unat ms * unat (ds_sample_rate s) < 2 ^ 32" using Cons.prems(3) p by simp_all
  from generate_long_press [OF Cons.prems(1,2) ms] obtain starts ends s1 where
    g: "generate_packets d ms ts s = Some (starts @ ends, s1)" "starts \<noteq> []" "ends \<noteq> []"
      "ds_payload_type s1 = ds_payload_type s" "ds_sample_rate s1 = ds_sample_rate s"
      "\<forall>p \<in> set starts. telephone_event (ds_payload_type s) d False p"
      "\<forall>p \<in> set ends. telephone_event (ds_payload_type s) d True p" by blast
  let ?r = "r\<lparr>dr_current_event := None, dr_last_event := Some d\<rparr>"
  have full: "heard (ds_payload_type s) (starts @ ends) (starts @ ends)"
    unfolding heard_def using g(2,3,6,7) by (cases starts; cases ends) auto
  from Cons.IH [of s1 ?r] Cons.prems g(4,5) obtain pss s' where
    I: "generate_all presses s1 = Some (pss, s')" "list_all2 (heard (ds_payload_type s)) pss pss"
      "\<And>arrived. list_all2 (heard (ds_payload_type s)) arrived pss \<Longrightarrow> digits_received ?r (concat arrived) = map fst presses"
    by auto
  have "digits_received r (concat arrived) = map fst (press # presses)"
    if "list_all2 (heard (ds_payload_type s)) arrived ((starts @ ends) # pss)" for arrived
  proof -
    from that obtain a as where a: "arrived = a # as" "heard (ds_payload_type s) a (starts @ ends)"
        "list_all2 (heard (ds_payload_type s)) as pss"
      by (auto simp: list_all2_Cons2)
    with receive_press [of r a starts ends d "concat as"] I(3) [OF a(3)] Cons.prems(4) g(6,7)
    show ?thesis by (simp add: p)
  qed
  with I(1,2) g(1) full show ?case by (simp add: p)
qed simp

subsection \<open>Properties\<close>

text \<open>
  C17. Key presses of at least 100 ms each, sent by one \<open>DtmfSender\<close> with a 7-bit payload type and a
  sample rate of at least 20, produce packets without a panic; if of each press any packets are lost
  but one that is not an end packet and one that is, the \<open>DtmfReceiver\<close> behind the RTP parser reports
  exactly the digits pressed, each once and in order, equal neighbours included.
\<close>

theorem dtmf_presses_reported:
  assumes "unat (ds_payload_type s) < 128" "20 \<le> unat (ds_sample_rate s)"
    and "\<forall>(d, ms, ts) \<in> set presses. 100 \<le> unat ms \<and> unat ms * unat (ds_sample_rate s) < 2 ^ 32"
  shows "\<exists>pss s'. generate_all presses s = Some (pss, s')
    \<and> list_all2 (heard (ds_payload_type s)) pss pss
    \<and> (\<forall>arrived. list_all2 (heard (ds_payload_type s)) arrived pss
         \<longrightarrow> digits_received (dtmf_receiver_new (ds_payload_type s)) (concat arrived) = map fst presses)"
  using presses_received [OF assms] by (simp add: dtmf_receiver_new_def)

theorem dtmf_presses_reported_witness:
  "\<exists>pss s'. generate_all [(DtmfOne, 100, 0), (DtmfOne, 100, 1600)] (dtmf_sender_new 101 7 65535) = Some (pss, s')
     \<and> digits_received (dtmf_receiver_new 101) (concat pss) = [DtmfOne, DtmfOne]"
  using dtmf_presses_reported [of "dtmf_sender_new 101 7 65535" "[(DtmfOne, 100, 0), (DtmfOne, 100, 1600)]"]
  by (auto simp: dtmf_sender_new_def)

text \<open>Presses of 50 ms: of two equal ones the second is not reported.\<close>

lemma short_presses_merged:
  "\<exists>pss s'. generate_all [(DtmfOne, 50, 0), (DtmfOne, 50, 1600)] (dtmf_sender_new 101 7 0) = Some (pss, s')
     \<and> digits_received (dtmf_receiver_new 101) (concat pss) = [DtmfOne]"
proof -
  let ?s = "dtmf_sender_new 101 7 0"
  have g: "\<exists>ps s'. generate_packets DtmfOne 50 ts s = Some (ps, s') \<and> ps \<noteq> []
      \<and> ds_payload_type s' = 101 \<and> ds_sample_rate s' = 8000
      \<and> (\<forall>p \<in> set ps. telephone_event 101 DtmfOne True p)"
    if "ds_payload_type s = 101" "ds_sample_rate s = 8000" for s ts
    using dtmf_turn_last [of s DtmfOne ts 400 1] that
    by (auto simp: generate_packets_def packet_count_def)
  obtain ps s1 where 1: "generate_packets DtmfOne 50 0 ?s = Some (ps, s1)" "ps \<noteq> []"
      "ds_payload_type s1 = 101" "ds_sample_rate s1 = 8000" "\<forall>p \<in> set ps. telephone_event 101 DtmfOne True p"
    using g [of ?s 0] by (auto simp: dtmf_sender_new_def)
  obtain qs s2 where 2: "generate_packets DtmfOne 50 1600 s1 = Some (qs, s2)" "qs \<noteq> []"
      "\<forall>p \<in> set qs. telephone_event 101 DtmfOne True p"
    using g [of s1 1600] 1(3,4) by auto
  have "digits_received (dtmf_receiver_new 101) (ps @ qs @ []) = [DtmfOne]"
    using 1(2,5) 2(2,3) by (simp add: receive_ends [where d = DtmfOne] dtmf_receiver_new_def del: append_Nil2)
  with 1(1) 2(1) show ?thesis by auto
qed

end
