(* ===== verification/Media_Jitter.thy ===== *)
theory Media_Jitter
  imports Wire_Octets "HOL-Library.Multiset"
begin

section \<open>The jitter buffer\<close>

text \<open>
  The adaptive jitter buffer of \<open>media/jitter.rs\<close>: packets by timestamp, the target delay, and the
  decisions of playout. The \<open>BTreeMap\<close> is its list of entries in the order of the keys. Clock readings
  are arguments. The jitter estimate is an \<open>f64\<close>: its type \<open>'f\<close> and the floating-point operations on it
  are arguments, and so is the fading of concealed samples. Unsigned arithmetic wraps as in a release
  build, and \<^const>\<open>None\<close> is a panic.

  The lemmas: no operation panics with a positive clock rate and packet size; the delay stays between
  its limits; and every accepted packet is either still in the buffer or has been played exactly once.
\<close>

subsection \<open>State\<close>

type_synonym i16 = "16 word"

record jitter_config =
  jc_min_delay_ms :: u32
  jc_max_delay_ms :: u32
  jc_initial_delay_ms :: u32
  jc_clock_rate :: u32
  jc_samples_per_packet :: u32

definition jitter_config_default :: jitter_config where
  "jitter_config_default = \<lparr>jc_min_delay_ms = 20, jc_max_delay_ms = 200, jc_initial_delay_ms = 60,
     jc_clock_rate = 8000, jc_samples_per_packet = 160\<rparr>"

definition ms_to_samples :: "jitter_config \<Rightarrow> u32 \<Rightarrow> u32" where
  "ms_to_samples c ms = (ms * jc_clock_rate c) div 1000"

definition samples_to_ms :: "jitter_config \<Rightarrow> u32 \<Rightarrow> u32 option" where
  "samples_to_ms c samples =
     (if jc_clock_rate c = 0 then None else Some ((samples * 1000) div jc_clock_rate c))"

record buffered_packet =
  bp_sequence :: u16
  bp_timestamp :: u32
  bp_samples :: "i16 list"
  bp_received_at :: nat

datatype playout_decision = Play | Expand | Conceal | Accelerate | Silence

record 'f jitter_stats =
  js_packets_received :: u64
  js_packets_played :: u64
  js_packets_lost :: u64
  js_packets_late :: u64
  js_packets_duplicate :: u64
  js_buffer_depth :: nat
  js_target_delay_ms :: u32
  js_jitter_ms :: 'f

record 'f jitter_buffer =
  jb_config :: jitter_config
  jb_packets :: "(u32 \<times> buffered_packet) list"
  jb_target_delay :: u32
  jb_jitter :: 'f
  jb_next_seq :: "u16 option"
  jb_next_playout_ts :: "u32 option"
  jb_last_arrival :: "(nat \<times> u32) option"
  jb_stats :: "'f jitter_stats"
  jb_last_samples :: "i16 list"
  jb_primed :: bool
  jb_first_packet_time :: "nat option"

text \<open>
  The floating-point part: \<open>0.0\<close>, \<open>(secs * clock_rate) as i64\<close>, \<open>jitter + (d - jitter) / 16.0\<close>,
  \<open>jitter as u32\<close>, \<open>jitter * 1000.0 / clock_rate\<close>, and one sample of the fade-out at position \<open>i\<close> of \<open>len\<close>.
\<close>

record 'f float_ops =
  f_zero :: 'f
  f_samples :: "nat \<Rightarrow> u32 \<Rightarrow> u64"
  f_smooth :: "u64 \<Rightarrow> 'f \<Rightarrow> 'f"
  f_as_u32 :: "'f \<Rightarrow> u32"
  f_in_ms :: "'f \<Rightarrow> u32 \<Rightarrow> 'f"
  f_fade :: "nat \<Rightarrow> nat \<Rightarrow> i16 \<Rightarrow> i16"

text \<open>The ordered map.\<close>

definition btree_remove :: "'k \<Rightarrow> ('k \<times> 'v) list \<Rightarrow> ('k \<times> 'v) list" where
  "btree_remove k m = filter (\<lambda>e. fst e \<noteq> k) m"

definition btree_insert :: "'k :: linorder \<Rightarrow> 'v \<Rightarrow> ('k \<times> 'v) list \<Rightarrow> ('k \<times> 'v) list" where
  "btree_insert k v m = insort_key fst (k, v) (btree_remove k m)"

definition first_key :: "('k \<times> 'v) list \<Rightarrow> 'k option" where
  "first_key m = (case m of [] \<Rightarrow> None | e # _ \<Rightarrow> Some (fst e))"

subsection \<open>Operations\<close>

definition jb_sequence_diff :: "u16 \<Rightarrow> u16 \<Rightarrow> int" where
  "jb_sequence_diff a b = sint (a - b)"

definition timestamp_diff :: "u32 \<Rightarrow> u32 \<Rightarrow> int" where
  "timestamp_diff a b = sint (a - b)"

definition timestamp_before :: "u32 \<Rightarrow> u32 \<Rightarrow> bool" where
  "timestamp_before a b \<longleftrightarrow> timestamp_diff a b < 0"

definition jitter_buffer_new :: "'f float_ops \<Rightarrow> jitter_config \<Rightarrow> 'f jitter_buffer" where
  "jitter_buffer_new fl c =
     \<lparr>jb_config = c, jb_packets = [], jb_target_delay = ms_to_samples c (jc_initial_delay_ms c),
      jb_jitter = f_zero fl, jb_next_seq = None, jb_next_playout_ts = None, jb_last_arrival = None,
      jb_stats = \<lparr>js_packets_received = 0, js_packets_played = 0, js_packets_lost = 0, js_packets_late = 0,
        js_packets_duplicate = 0, js_buffer_depth = 0, js_target_delay_ms = 0, js_jitter_ms = f_zero fl\<rparr>,
      jb_last_samples = replicate (unat (jc_samples_per_packet c)) 0, jb_primed = False,
      jb_first_packet_time = None\<rparr>"

text \<open>\<open>unsigned_abs\<close> of a signed 64-bit value.\<close>

definition i64_unsigned_abs :: "u64 \<Rightarrow> u64" where
  "i64_unsigned_abs x = (if sint x < 0 then - x else x)"

definition update_jitter :: "'f float_ops \<Rightarrow> nat \<Rightarrow> u32 \<Rightarrow> 'f jitter_buffer \<Rightarrow> 'f jitter_buffer" where
  "update_jitter fl now timestamp b =
     (let b = (case jb_last_arrival b of
          None \<Rightarrow> b
        | Some (last_time, last_ts) \<Rightarrow>
            (let arrival_samples = f_samples fl (now - last_time) (jc_clock_rate (jb_config b));
                 ts_diff = scast (timestamp - last_ts);
                 d = i64_unsigned_abs (arrival_samples - ts_diff)
             in b\<lparr>jb_jitter := f_smooth fl d (jb_jitter b)\<rparr>))
      in b\<lparr>jb_last_arrival := Some (now, timestamp)\<rparr>)"

definition adapt_delay :: "'f float_ops \<Rightarrow> 'f jitter_buffer \<Rightarrow> 'f jitter_buffer option" where
  "adapt_delay fl b =
     (let c = jb_config b;
          new_target = min (max (2 * f_as_u32 fl (jb_jitter b)) (ms_to_samples c (jc_min_delay_ms c)))
            (ms_to_samples c (jc_max_delay_ms c));
          target = jb_target_delay b;
          b = (if new_target > target then b\<lparr>jb_target_delay := target + (new_target - target) div 4\<rparr>
               else if new_target < target then b\<lparr>jb_target_delay := target - (target - new_target) div 16\<rparr>
               else b)
      in do {
        ms \<leftarrow> samples_to_ms c (jb_target_delay b);
        Some (b\<lparr>jb_stats := (jb_stats b)\<lparr>js_target_delay_ms := ms,
          js_jitter_ms := f_in_ms fl (jb_jitter b) (jc_clock_rate c)\<rparr>\<rparr>)
      })"

definition check_primed :: "'f jitter_buffer \<Rightarrow> 'f jitter_buffer option" where
  "check_primed b =
     (if jb_primed b then Some b
      else if jc_samples_per_packet (jb_config b) = 0 then None
      else
        (let packets_needed = unat (jb_target_delay b div jc_samples_per_packet (jb_config b)) in
         Some (if length (jb_packets b) \<ge> max packets_needed 1 then b\<lparr>jb_primed := True\<rparr> else b)))"

definition track_sequence :: "u16 \<Rightarrow> 'f jitter_buffer \<Rightarrow> 'f jitter_buffer" where
  "track_sequence sequence b =
     (case jb_next_seq b of
        None \<Rightarrow> b
      | Some expected_seq \<Rightarrow>
          (let seq_diff = jb_sequence_diff sequence expected_seq in
           if seq_diff > 0 then b\<lparr>jb_next_seq := Some (sequence + 1)\<rparr>
           else if seq_diff = 0 then b\<lparr>jb_next_seq := Some (sequence + 1)\<rparr>
           else b))"

definition jb_push ::
    "'f float_ops \<Rightarrow> nat \<Rightarrow> u16 \<Rightarrow> u32 \<Rightarrow> i16 list \<Rightarrow> 'f jitter_buffer \<Rightarrow> ('f jitter_buffer \<times> bool) option" where
  "jb_push fl now sequence timestamp samples b =
     (let b = b\<lparr>jb_stats := (jb_stats b)\<lparr>js_packets_received := js_packets_received (jb_stats b) + 1\<rparr>\<rparr>;
          b = (if jb_first_packet_time b = None
               then b\<lparr>jb_first_packet_time := Some now, jb_next_seq := Some sequence,
                      jb_next_playout_ts := Some timestamp\<rparr>
               else b);
          b = update_jitter fl now timestamp b
      in if map_of (jb_packets b) timestamp \<noteq> None
         then Some (b\<lparr>jb_stats := (jb_stats b)\<lparr>js_packets_duplicate := js_packets_duplicate (jb_stats b) + 1\<rparr>\<rparr>, False)
         else if (case jb_next_playout_ts b of None \<Rightarrow> False
                  | Some playout_ts \<Rightarrow> timestamp_before timestamp playout_ts)
         then Some (b\<lparr>jb_stats := (jb_stats b)\<lparr>js_packets_late := js_packets_late (jb_stats b) + 1\<rparr>\<rparr>, False)
         else
           (let b = track_sequence sequence b;
                b = b\<lparr>jb_packets := btree_insert timestamp
                  \<lparr>bp_sequence = sequence, bp_timestamp = timestamp, bp_samples = samples, bp_received_at = now\<rparr>
                  (jb_packets b)\<rparr>
            in do {
              b \<leftarrow> adapt_delay fl b;
              b \<leftarrow> check_primed b;
              Some (b, True)
            }))"

definition conceal_packet :: "'f float_ops \<Rightarrow> 'f jitter_buffer \<Rightarrow> 'f jitter_buffer \<times> i16 list" where
  "conceal_packet fl b =
     (let len = length (jb_last_samples b);
          concealed = map (\<lambda>(i, sample). f_fade fl i len sample) (enumerate 0 (jb_last_samples b))
      in (b\<lparr>jb_last_samples := concealed\<rparr>, concealed))"

definition count_lost :: "'f jitter_buffer \<Rightarrow> 'f jitter_buffer" where
  "count_lost b = b\<lparr>jb_stats := (jb_stats b)\<lparr>js_packets_lost := js_packets_lost (jb_stats b) + 1\<rparr>\<rparr>"

definition count_played :: "'f jitter_buffer \<Rightarrow> 'f jitter_buffer" where
  "count_played b = b\<lparr>jb_stats := (jb_stats b)\<lparr>js_packets_played := js_packets_played (jb_stats b) + 1\<rparr>\<rparr>"

definition set_depth :: "nat \<Rightarrow> 'f jitter_buffer \<Rightarrow> 'f jitter_buffer" where
  "set_depth n b = b\<lparr>jb_stats := (jb_stats b)\<lparr>js_buffer_depth := n\<rparr>\<rparr>"

text \<open>A frame that is missing: it is counted as lost and concealed.\<close>

definition conceal_frame :: "'f float_ops \<Rightarrow> 'f jitter_buffer \<Rightarrow> 'f jitter_buffer \<times> playout_decision \<times> i16 list" where
  "conceal_frame fl b =
     (let (b, concealed) = conceal_packet fl (count_lost b)
      in (set_depth (length (jb_packets b)) b, Conceal, concealed))"

definition jb_pop :: "'f float_ops \<Rightarrow> 'f jitter_buffer \<Rightarrow> ('f jitter_buffer \<times> playout_decision \<times> i16 list) option" where
  "jb_pop fl b =
     (let c = jb_config b; silence = replicate (unat (jc_samples_per_packet c)) 0 in
      if \<not> jb_primed b then Some (b, Silence, silence)
      else (case jb_next_playout_ts b of
        None \<Rightarrow> Some (b, Silence, silence)
      | Some playout_ts \<Rightarrow>
          (let b = b\<lparr>jb_next_playout_ts := Some (playout_ts + jc_samples_per_packet c)\<rparr> in
           case map_of (jb_packets b) playout_ts of
             Some packet \<Rightarrow>
               (let b = count_played (b\<lparr>jb_packets := btree_remove playout_ts (jb_packets b)\<rparr>);
                    b = b\<lparr>jb_last_samples := bp_samples packet\<rparr>
                in Some (set_depth (length (jb_packets b)) b, Play, bp_samples packet))
           | None \<Rightarrow>
               (case first_key (jb_packets b) of
                  None \<Rightarrow> Some (conceal_frame fl b)
                | Some next_ts \<Rightarrow>
                    (let gap = timestamp_diff next_ts playout_ts in
                     if gap \<le> sint (jc_samples_per_packet c) then Some (conceal_frame fl b)
                     else if gap > sint (jb_target_delay b * 2) then
                       (let b = b\<lparr>jb_next_playout_ts := Some next_ts\<rparr> in
                        case map_of (jb_packets b) next_ts of
                          None \<Rightarrow> None
                        | Some packet \<Rightarrow>
                            (let b = b\<lparr>jb_packets := btree_remove next_ts (jb_packets b)\<rparr>;
                                 b = count_played (set_depth (length (jb_packets b)) b);
                                 b = b\<lparr>jb_last_samples := bp_samples packet\<rparr>
                             in Some (b, Accelerate, bp_samples packet)))
                     else Some (conceal_frame fl b))))))"

definition jb_reset :: "'f float_ops \<Rightarrow> 'f jitter_buffer \<Rightarrow> 'f jitter_buffer" where
  "jb_reset fl b =
     b\<lparr>jb_packets := [], jb_next_seq := None, jb_next_playout_ts := None, jb_last_arrival := None,
       jb_last_samples := replicate (unat (jc_samples_per_packet (jb_config b))) 0, jb_primed := False,
       jb_first_packet_time := None, jb_jitter := f_zero fl,
       jb_target_delay := ms_to_samples (jb_config b) (jc_initial_delay_ms (jb_config b))\<rparr>"


subsection \<open>The ordered map\<close>

definition btree_ok :: "('k :: linorder \<times> 'v) list \<Rightarrow> bool" where
  "btree_ok m \<longleftrightarrow> sorted (map fst m) \<and> distinct (map fst m)"

lemma btree_ok_Nil [simp]: "btree_ok []"
  by (simp add: btree_ok_def)

lemma btree_remove_absent: "map_of m k = None \<Longrightarrow> btree_remove k m = m"
  by (auto simp: btree_remove_def map_of_eq_None_iff intro!: filter_True)

lemma btree_remove_ok [simp]: "btree_ok m \<Longrightarrow> btree_ok (btree_remove k m)"
  by (simp add: btree_ok_def btree_remove_def distinct_map_filter)
    (induction m, auto)

lemma set_btree_remove: "set (btree_remove k m) = {e \<in> set m. fst e \<noteq> k}"
  by (simp add: btree_remove_def)

lemma keys_insort: "map fst (insort_key fst e m) = insort (fst e) (map fst m)"
  by (induction m) auto

lemma btree_insert_ok [simp]: "btree_ok m \<Longrightarrow> btree_ok (btree_insert k v m)"
  using btree_remove_ok [of m k]
  by (auto simp: btree_ok_def btree_insert_def keys_insort sorted_insort distinct_insort set_btree_remove)

lemma mset_btree_insert:
  assumes "map_of m k = None" shows "mset (btree_insert k v m) = add_mset (k, v) (mset m)"
  using btree_remove_absent [OF assms] by (simp add: btree_insert_def)

lemma set_btree_insert: "map_of m k = None \<Longrightarrow> set (btree_insert k v m) = insert (k, v) (set m)"
  using mset_btree_insert [of m k v] by (metis set_mset_add_mset_insert set_mset_mset)

lemma length_btree_insert: "map_of m k = None \<Longrightarrow> length (btree_insert k v m) = Suc (length m)"
  using mset_btree_insert [of m k v] by (metis size_add_mset size_mset)

lemma mset_btree_remove:
  assumes "btree_ok m" "map_of m k = Some v" shows "mset m = add_mset (k, v) (mset (btree_remove k m))"
  using assms
proof (induction m)
  case (Cons e m)
  show ?case
  proof (cases "fst e = k")
    case True
    then have "map_of m k = None" using Cons.prems(1) by (auto simp: btree_ok_def map_of_eq_None_iff)
    with True Cons.prems(2) btree_remove_absent [of m k] show ?thesis
      by (cases e) (simp add: btree_remove_def)
  next
    case False
    with Cons show ?thesis by (cases e) (simp add: btree_ok_def btree_remove_def)
  qed
qed simp

lemma first_key_least:
  assumes "btree_ok m" "first_key m = Some k"
  shows "\<exists>v. map_of m k = Some v" and "e \<in> set m \<Longrightarrow> k \<le> fst e"
  using assms by (auto simp: first_key_def btree_ok_def split: list.splits)

subsection \<open>Delay limits\<close>

definition delay_ok :: "'f jitter_buffer \<Rightarrow> bool" where
  "delay_ok b \<longleftrightarrow> (let c = jb_config b in
     ms_to_samples c (jc_min_delay_ms c) \<le> jb_target_delay b
     \<and> jb_target_delay b \<le> ms_to_samples c (jc_max_delay_ms c))"

lemma word_up_between:
  fixes t :: "'a :: len word"
  assumes "t < n" shows "t \<le> t + (n - t) div k \<and> t + (n - t) div k \<le> n"
proof -
  have "unat ((n - t) div k) \<le> unat n - unat t"
    using assms by (simp add: unat_div unat_sub div_le_dividend le_trans less_imp_le)
  with assms have *: "unat t + unat ((n - t) div k) \<le> unat n" by (simp add: word_less_nat_alt)
  then have "unat (t + (n - t) div k) = unat t + unat ((n - t) div k)"
    by (intro unat_add_lem [THEN iffD1]) (rule le_less_trans [OF _ unsigned_less])
  with * show ?thesis by (simp add: word_le_nat_alt)
qed

lemma word_down_between:
  fixes t :: "'a :: len word"
  assumes "n < t" shows "n \<le> t - (t - n) div k \<and> t - (t - n) div k \<le> t"
proof -
  have d: "unat ((t - n) div k) \<le> unat t - unat n"
    using assms by (simp add: unat_div unat_sub div_le_dividend le_trans less_imp_le)
  then have "(t - n) div k \<le> t" by (simp add: word_le_nat_alt)
  then have "unat (t - (t - n) div k) = unat t - unat ((t - n) div k)" by (simp add: unat_sub)
  with d assms show ?thesis unfolding word_le_nat_alt word_less_nat_alt by simp
qed

lemma adapt_delay_limits:
  assumes "adapt_delay fl b = Some b'" "delay_ok b"
    and "ms_to_samples (jb_config b) (jc_min_delay_ms (jb_config b)) \<le> ms_to_samples (jb_config b) (jc_max_delay_ms (jb_config b))"
  shows "delay_ok b'"
proof -
  let ?c = "jb_config b"
  let ?lo = "ms_to_samples ?c (jc_min_delay_ms ?c)" and ?hi = "ms_to_samples ?c (jc_max_delay_ms ?c)"
  define n where "n = min (max (2 * f_as_u32 fl (jb_jitter b)) ?lo) ?hi"
  define t where "t = jb_target_delay b"
  have n: "?lo \<le> n" "n \<le> ?hi" using assms(3) by (auto simp: n_def)
  have t: "?lo \<le> t" "t \<le> ?hi" using assms(2) by (simp_all add: delay_ok_def Let_def t_def)
  have "jb_config b' = ?c" and "jb_target_delay b' =
      (if n > t then t + (n - t) div 4 else if n < t then t - (t - n) div 16 else t)"
    using assms(1) by (auto simp: adapt_delay_def Let_def bind_eq_Some_conv n_def t_def)
  with n t word_up_between [of t n 4] word_down_between [of n t 16] show ?thesis
    by (auto simp: delay_ok_def Let_def)
qed


subsection \<open>What push and pop do\<close>

definition rates_ok :: "jitter_config \<Rightarrow> bool" where
  "rates_ok c \<longleftrightarrow> jc_clock_rate c \<noteq> 0 \<and> jc_samples_per_packet c \<noteq> 0"

text \<open>What the bookkeeping of delays and sequence numbers leaves alone.\<close>

definition same_core :: "'f jitter_buffer \<Rightarrow> 'f jitter_buffer \<Rightarrow> bool" where
  "same_core b b' \<longleftrightarrow> jb_config b' = jb_config b \<and> jb_packets b' = jb_packets b
     \<and> jb_next_playout_ts b' = jb_next_playout_ts b \<and> jb_first_packet_time b' = jb_first_packet_time b
     \<and> js_packets_received (jb_stats b') = js_packets_received (jb_stats b)
     \<and> js_packets_played (jb_stats b') = js_packets_played (jb_stats b)
     \<and> js_packets_late (jb_stats b') = js_packets_late (jb_stats b)
     \<and> js_packets_duplicate (jb_stats b') = js_packets_duplicate (jb_stats b)"

lemma same_core_trans: "same_core a b \<Longrightarrow> same_core b c \<Longrightarrow> same_core a c"
  by (simp add: same_core_def)

lemma update_jitter_core: "same_core b (update_jitter fl now ts b)"
  by (simp add: same_core_def update_jitter_def Let_def split: option.split prod.split)

lemma track_sequence_core: "same_core b (track_sequence seq b)"
  by (simp add: same_core_def track_sequence_def Let_def split: option.split)

lemma adapt_delay_core:
  assumes "rates_ok (jb_config b)" shows "\<exists>b'. adapt_delay fl b = Some b' \<and> same_core b b'"
  using assms by (simp add: same_core_def adapt_delay_def samples_to_ms_def rates_ok_def Let_def)

lemma check_primed_core:
  assumes "rates_ok (jb_config b)" shows "\<exists>b'. check_primed b = Some b' \<and> same_core b b'"
  using assms by (simp add: same_core_def check_primed_def rates_ok_def Let_def)

lemma settle_core:
  assumes "rates_ok (jb_config b)"
  shows "\<exists>b'. (adapt_delay fl b \<bind> (\<lambda>b. check_primed b \<bind> (\<lambda>b. Some (b, True)))) = Some (b', True) \<and> same_core b b'"
proof -
  obtain b1 where b1: "adapt_delay fl b = Some b1" "same_core b b1" using adapt_delay_core [OF assms] by blast
  moreover have "rates_ok (jb_config b1)" using assms b1(2) by (simp add: same_core_def)
  then obtain b2 where "check_primed b1 = Some b2" "same_core b1 b2" using check_primed_core by blast
  ultimately show ?thesis using same_core_trans by fastforce
qed

text \<open>The states before and after a \<open>push\<close>, which accepts the packet or not.\<close>

definition pushed :: "bool \<Rightarrow> buffered_packet \<Rightarrow> 'f jitter_buffer \<Rightarrow> 'f jitter_buffer \<Rightarrow> bool" where
  "pushed acc pk b b' \<longleftrightarrow> jb_config b' = jb_config b \<and> jb_first_packet_time b' \<noteq> None
    \<and> jb_next_playout_ts b' = (if jb_first_packet_time b = None then Some (bp_timestamp pk) else jb_next_playout_ts b)
    \<and> js_packets_received (jb_stats b') = js_packets_received (jb_stats b) + 1
    \<and> js_packets_played (jb_stats b') = js_packets_played (jb_stats b)
    \<and> js_packets_late (jb_stats b') + js_packets_duplicate (jb_stats b')
        = js_packets_late (jb_stats b) + js_packets_duplicate (jb_stats b) + of_bool (\<not> acc)
    \<and> (acc \<longrightarrow> map_of (jb_packets b) (bp_timestamp pk) = None
         \<and> (\<forall>p. jb_next_playout_ts b' = Some p \<longrightarrow> \<not> timestamp_before (bp_timestamp pk) p))
    \<and> jb_packets b' = (if acc then btree_insert (bp_timestamp pk) pk (jb_packets b) else jb_packets b)"

lemma jb_push_effect:
  assumes "rates_ok (jb_config b)"
  shows "\<exists>b' acc. jb_push fl now seq ts samples b = Some (b', acc) \<and> pushed acc
    \<lparr>bp_sequence = seq, bp_timestamp = ts, bp_samples = samples, bp_received_at = now\<rparr> b b'"
proof -
  let ?p = "\<lparr>bp_sequence = seq, bp_timestamp = ts, bp_samples = samples, bp_received_at = now\<rparr>"
  define b1 where "b1 = b\<lparr>jb_stats := (jb_stats b)\<lparr>js_packets_received := js_packets_received (jb_stats b) + 1\<rparr>\<rparr>"
  define b2 where "b2 = (if jb_first_packet_time b1 = None
      then b1\<lparr>jb_first_packet_time := Some now, jb_next_seq := Some seq, jb_next_playout_ts := Some ts\<rparr> else b1)"
  define b3 where "b3 = update_jitter fl now ts b2"
  define b4 where "b4 = (track_sequence seq b3)\<lparr>jb_packets := btree_insert ts ?p (jb_packets (track_sequence seq b3))\<rparr>"
  have push: "jb_push fl now seq ts samples b =
     (if map_of (jb_packets b3) ts \<noteq> None
      then Some (b3\<lparr>jb_stats := (jb_stats b3)\<lparr>js_packets_duplicate := js_packets_duplicate (jb_stats b3) + 1\<rparr>\<rparr>, False)
      else if (case jb_next_playout_ts b3 of None \<Rightarrow> False | Some p \<Rightarrow> timestamp_before ts p)
      then Some (b3\<lparr>jb_stats := (jb_stats b3)\<lparr>js_packets_late := js_packets_late (jb_stats b3) + 1\<rparr>\<rparr>, False)
      else adapt_delay fl b4 \<bind> (\<lambda>b. check_primed b \<bind> (\<lambda>b. Some (b, True))))"
    by (simp only: jb_push_def Let_def b1_def b2_def b3_def b4_def)
  have c3: "jb_config b3 = jb_config b" "jb_packets b3 = jb_packets b" "jb_first_packet_time b3 \<noteq> None"
      "jb_next_playout_ts b3 = (if jb_first_packet_time b = None then Some ts else jb_next_playout_ts b)"
      "js_packets_received (jb_stats b3) = js_packets_received (jb_stats b) + 1"
      "js_packets_played (jb_stats b3) = js_packets_played (jb_stats b)"
      "js_packets_late (jb_stats b3) = js_packets_late (jb_stats b)"
      "js_packets_duplicate (jb_stats b3) = js_packets_duplicate (jb_stats b)"
    using update_jitter_core [of b2 fl now ts]
    by (auto simp: b3_def b2_def b1_def same_core_def)
  have c4: "same_core (b3\<lparr>jb_packets := btree_insert ts ?p (jb_packets b)\<rparr>) b4"
    using track_sequence_core [of b3 seq] by (auto simp: b4_def same_core_def c3(2))
  then have "rates_ok (jb_config b4)" using assms by (simp add: same_core_def c3)
  from settle_core [OF this, of fl] obtain b5 where
    b5: "(adapt_delay fl b4 \<bind> (\<lambda>b. check_primed b \<bind> (\<lambda>b. Some (b, True)))) = Some (b5, True)" "same_core b4 b5"
    by blast
  note c5 = same_core_trans [OF c4 b5(2), unfolded same_core_def, simplified]
  show ?thesis
  proof (cases "map_of (jb_packets b3) ts \<noteq> None \<or> (case jb_next_playout_ts b3 of None \<Rightarrow> False | Some p \<Rightarrow> timestamp_before ts p)")
    case True
    then show ?thesis unfolding push pushed_def using c3 by (cases "map_of (jb_packets b3) ts") auto
  next
    case False
    then have "jb_push fl now seq ts samples b = Some (b5, True)" unfolding push by (simp add: b5(1))
    with False c5 c3 show ?thesis unfolding pushed_def
      by (intro exI [of _ b5] exI [of _ True]) (auto split: option.splits)
  qed
qed


definition plays :: "playout_decision \<Rightarrow> bool" where
  "plays d \<longleftrightarrow> d = Play \<or> d = Accelerate"

lemma conceal_frame_core:
  "\<exists>b' xs. conceal_frame fl b = (b', Conceal, xs) \<and> same_core b b'"
  by (simp add: conceal_frame_def conceal_packet_def count_lost_def set_depth_def same_core_def Let_def)

text \<open>The states before and after a \<open>pop\<close>: a packet is taken out and played, or none is.\<close>

definition pop_plays :: "u32 \<Rightarrow> i16 list \<Rightarrow> 'f jitter_buffer \<Rightarrow> 'f jitter_buffer \<Rightarrow> bool" where
  "pop_plays ts xs b b' \<longleftrightarrow> (\<exists>pk. map_of (jb_packets b) ts = Some pk \<and> xs = bp_samples pk)
     \<and> same_core (count_played (b\<lparr>jb_packets := btree_remove ts (jb_packets b),
         jb_next_playout_ts := jb_next_playout_ts b'\<rparr>)) b'
     \<and> (jb_next_playout_ts b = Some ts \<and> jb_next_playout_ts b' = Some (ts + jc_samples_per_packet (jb_config b))
        \<or> (\<exists>p. jb_next_playout_ts b = Some p \<and> sint (jc_samples_per_packet (jb_config b)) < timestamp_diff ts p)
          \<and> first_key (jb_packets b) = Some ts \<and> jb_next_playout_ts b' = Some ts)"

definition pop_skips :: "'f jitter_buffer \<Rightarrow> 'f jitter_buffer \<Rightarrow> bool" where
  "pop_skips b b' \<longleftrightarrow> same_core (b\<lparr>jb_next_playout_ts := jb_next_playout_ts b'\<rparr>) b'
     \<and> (jb_next_playout_ts b' = jb_next_playout_ts b
        \<or> (\<exists>p. jb_next_playout_ts b = Some p \<and> map_of (jb_packets b) p = None
            \<and> jb_next_playout_ts b' = Some (p + jc_samples_per_packet (jb_config b))))"

lemma jb_pop_effect:
  assumes "btree_ok (jb_packets b)"
  shows "\<exists>b' d xs. jb_pop fl b = Some (b', d, xs)
    \<and> (if plays d then (\<exists>ts. pop_plays ts xs b b') else pop_skips b b')"
proof -
  let ?spp = "jc_samples_per_packet (jb_config b)"
  note sel = pop_plays_def pop_skips_def same_core_def count_played_def set_depth_def plays_def
  consider (silent) "\<not> jb_primed b \<or> jb_next_playout_ts b = None"
    | (play) p pk where "jb_primed b" "jb_next_playout_ts b = Some p" "map_of (jb_packets b) p = Some pk"
    | (empty) p where "jb_primed b" "jb_next_playout_ts b = Some p" "map_of (jb_packets b) p = None"
        "first_key (jb_packets b) = None"
    | (gap) p ts where "jb_primed b" "jb_next_playout_ts b = Some p" "map_of (jb_packets b) p = None"
        "first_key (jb_packets b) = Some ts"
    by (cases "jb_next_playout_ts b"; cases "map_of (jb_packets b) (the (jb_next_playout_ts b))";
        cases "first_key (jb_packets b)") auto
  then show ?thesis
  proof cases
    case silent
    then show ?thesis by (auto simp: jb_pop_def sel Let_def split: option.split)
  next
    case play
    then show ?thesis by (auto simp: jb_pop_def sel Let_def)
  next
    case empty
    let ?b = "b\<lparr>jb_next_playout_ts := Some (p + ?spp)\<rparr>"
    obtain b' xs where "conceal_frame fl ?b = (b', Conceal, xs)" "same_core ?b b'"
      using conceal_frame_core [of fl ?b] by blast
    with empty show ?thesis by (auto simp: jb_pop_def sel Let_def)
  next
    case gap
    let ?b = "b\<lparr>jb_next_playout_ts := Some (p + ?spp)\<rparr>"
    obtain b' xs where c: "conceal_frame fl ?b = (b', Conceal, xs)" "same_core ?b b'"
      using conceal_frame_core [of fl ?b] by blast
    obtain pk where "map_of (jb_packets b) ts = Some pk" using first_key_least(1) [OF assms gap(4)] by blast
    with gap c show ?thesis by (auto simp: jb_pop_def sel Let_def)
  qed
qed

subsection \<open>Runs\<close>

datatype jb_op = JbPush nat u16 u32 "i16 list" | JbPop

text \<open>A run of operations with the frames that \<open>push\<close> accepted and those that \<open>pop\<close> played.\<close>

fun jb_run :: "'f float_ops \<Rightarrow> jb_op list \<Rightarrow> 'f jitter_buffer \<Rightarrow> (i16 list list \<times> i16 list list \<times> 'f jitter_buffer) option" where
  "jb_run fl [] b = Some ([], [], b)"
| "jb_run fl (JbPush now seq ts samples # ops) b = do {
     (b, acc) \<leftarrow> jb_push fl now seq ts samples b;
     (accepted, played, b) \<leftarrow> jb_run fl ops b;
     Some ((if acc then [samples] else []) @ accepted, played, b)
   }"
| "jb_run fl (JbPop # ops) b = do {
     (b, d, xs) \<leftarrow> jb_pop fl b;
     (accepted, played, b) \<leftarrow> jb_run fl ops b;
     Some (accepted, (if plays d then [xs] else []) @ played, b)
   }"

definition frames :: "'f jitter_buffer \<Rightarrow> i16 list multiset" where
  "frames b = image_mset (bp_samples \<circ> snd) (mset (jb_packets b))"

text \<open>Received packets, less those played, late and duplicate.\<close>

definition outstanding :: "'f jitter_buffer \<Rightarrow> u64" where
  "outstanding b = js_packets_received (jb_stats b) - js_packets_played (jb_stats b)
     - (js_packets_late (jb_stats b) + js_packets_duplicate (jb_stats b))"

lemma pushed_frames:
  assumes "pushed acc pk b b'" "btree_ok (jb_packets b)"
  shows "frames b' = frames b + (if acc then {#bp_samples pk#} else {#})" "btree_ok (jb_packets b')"
    "jb_config b' = jb_config b" "outstanding b' = outstanding b + of_bool acc"
    "js_packets_received (jb_stats b') = js_packets_received (jb_stats b) + 1"
    "js_packets_played (jb_stats b') = js_packets_played (jb_stats b)"
  using assms by (auto simp: pushed_def frames_def mset_btree_insert outstanding_def)

lemma pop_plays_frames:
  assumes "pop_plays ts xs b b'" "btree_ok (jb_packets b)"
  shows "frames b = add_mset xs (frames b')" "btree_ok (jb_packets b')" "jb_config b' = jb_config b"
    "outstanding b = outstanding b' + 1" "js_packets_received (jb_stats b') = js_packets_received (jb_stats b)"
    "js_packets_played (jb_stats b') = js_packets_played (jb_stats b) + 1"
  using assms mset_btree_remove [OF assms(2), of ts]
  by (auto simp: pop_plays_def frames_def same_core_def count_played_def outstanding_def)

lemma pop_skips_frames:
  assumes "pop_skips b b'"
  shows "frames b' = frames b" "jb_packets b' = jb_packets b" "jb_config b' = jb_config b"
    "outstanding b' = outstanding b" "js_packets_received (jb_stats b') = js_packets_received (jb_stats b)"
    "js_packets_played (jb_stats b') = js_packets_played (jb_stats b)"
  using assms by (auto simp: pop_skips_def frames_def same_core_def outstanding_def)

lemma popped_frames:
  assumes "if plays d then (\<exists>ts. pop_plays ts xs b b') else pop_skips b b'" "btree_ok (jb_packets b)"
  shows "frames b = (if plays d then {#xs#} else {#}) + frames b' \<and> btree_ok (jb_packets b')
    \<and> jb_config b' = jb_config b \<and> outstanding b = outstanding b' + of_bool (plays d)
    \<and> js_packets_received (jb_stats b') = js_packets_received (jb_stats b)
    \<and> js_packets_played (jb_stats b') = js_packets_played (jb_stats b) + of_bool (plays d)"
proof (cases "plays d")
  case True
  with assms(1) obtain ts where "pop_plays ts xs b b'" by auto
  from pop_plays_frames [OF this assms(2)] True show ?thesis by simp
next
  case False
  with assms(1) have "pop_skips b b'" by simp
  from pop_skips_frames [OF this] False assms(2) show ?thesis by simp
qed

lemma jb_run_conserves:
  assumes "rates_ok (jb_config b)" "btree_ok (jb_packets b)"
  shows "\<exists>accepted played b'. jb_run fl ops b = Some (accepted, played, b')
    \<and> frames b + mset accepted = mset played + frames b'
    \<and> outstanding b' + of_nat (size (frames b)) = outstanding b + of_nat (size (frames b'))
    \<and> js_packets_received (jb_stats b') = js_packets_received (jb_stats b) + of_nat (length (filter (\<lambda>x. x \<noteq> JbPop) ops))
    \<and> js_packets_played (jb_stats b') = js_packets_played (jb_stats b) + of_nat (length played)"
  using assms
proof (induction ops arbitrary: b)
  case (Cons x ops)
  show ?case
  proof (cases x)
    case (JbPush now seq ts samples)
    obtain b1 acc where p: "jb_push fl now seq ts samples b = Some (b1, acc)"
        "pushed acc \<lparr>bp_sequence = seq, bp_timestamp = ts, bp_samples = samples, bp_received_at = now\<rparr> b b1"
      using jb_push_effect [OF Cons.prems(1), of fl now seq ts samples] by blast
    note q = pushed_frames [OF p(2) Cons.prems(2)]
    from Cons.IH [of b1] q(2,3) Cons.prems(1) obtain accepted played b2 where
      r: "jb_run fl ops b1 = Some (accepted, played, b2)" "frames b1 + mset accepted = mset played + frames b2"
        "outstanding b2 + of_nat (size (frames b1)) = outstanding b1 + of_nat (size (frames b2))"
        "js_packets_received (jb_stats b2) = js_packets_received (jb_stats b1) + of_nat (length (filter (\<lambda>x. x \<noteq> JbPop) ops))"
        "js_packets_played (jb_stats b2) = js_packets_played (jb_stats b1) + of_nat (length played)"
      by auto
    show ?thesis using r q(1,4,5,6) p(1) JbPush by (cases acc) (auto simp: algebra_simps)
  next
    case JbPop
    obtain b1 d xs where p: "jb_pop fl b = Some (b1, d, xs)"
        "if plays d then (\<exists>ts. pop_plays ts xs b b1) else pop_skips b b1"
      using jb_pop_effect [OF Cons.prems(2), of fl] by blast
    note q = popped_frames [OF p(2) Cons.prems(2)]
    from Cons.IH [of b1] q Cons.prems(1) obtain accepted played b2 where
      r: "jb_run fl ops b1 = Some (accepted, played, b2)" "frames b1 + mset accepted = mset played + frames b2"
        "outstanding b2 + of_nat (size (frames b1)) = outstanding b1 + of_nat (size (frames b2))"
        "js_packets_received (jb_stats b2) = js_packets_received (jb_stats b1) + of_nat (length (filter (\<lambda>x. x \<noteq> JbPop) ops))"
        "js_packets_played (jb_stats b2) = js_packets_played (jb_stats b1) + of_nat (length played)"
      by auto
    show ?thesis using r q p(1) JbPop by (cases "plays d") (auto simp: algebra_simps)
  qed
qed simp


subsection \<open>Order of playout\<close>

text \<open>
  A sender's frames: frame \<open>k\<close> has the timestamp \<open>t0 + k * spp\<close>. Below \<open>m\<close> frames the timestamps stay
  within half of their range, so that they do not wrap around.
\<close>

definition grid :: "u32 \<Rightarrow> u32 \<Rightarrow> nat \<Rightarrow> u32" where
  "grid t0 spp k = t0 + of_nat k * spp"

definition grid_range :: "u32 \<Rightarrow> u32 \<Rightarrow> nat \<Rightarrow> bool" where
  "grid_range t0 spp m \<longleftrightarrow> unat t0 + m * unat spp < 2 ^ 31 \<and> spp \<noteq> 0"

lemma grid_bound:
  assumes "grid_range t0 spp m" "k \<le> m" shows "unat t0 + k * unat spp < 2 ^ 31"
proof -
  have "unat t0 + m * unat spp < 2 ^ 31" using assms(1) by (simp add: grid_range_def)
  moreover have "k * unat spp \<le> m * unat spp" using assms(2) by (rule mult_le_mono1)
  ultimately show ?thesis by linarith
qed

lemma unat_grid:
  assumes "grid_range t0 spp m" "k \<le> m" shows "unat (grid t0 spp k) = unat t0 + k * unat spp"
proof -
  have lt: "unat t0 + k * unat spp < 2 ^ 32" using grid_bound [OF assms] by simp
  have "of_nat (unat t0 + k * unat spp) = grid t0 spp k" by (simp add: grid_def)
  from of_nat_inverse [OF this] lt show ?thesis by simp
qed

lemma grid_less:
  assumes "grid_range t0 spp m" "j \<le> m" "k \<le> m"
  shows "grid t0 spp j < grid t0 spp k \<longleftrightarrow> j < k" "grid t0 spp j = grid t0 spp k \<longleftrightarrow> j = k"
proof -
  have "0 < unat spp" using assms(1) by (simp add: grid_range_def unat_gt_0)
  then show "grid t0 spp j < grid t0 spp k \<longleftrightarrow> j < k" "grid t0 spp j = grid t0 spp k \<longleftrightarrow> j = k"
    using unat_grid [OF assms(1)] assms(2,3)
    by (simp_all add: word_less_nat_alt word_unat_eq_iff)
qed

lemma nat_diff_range: "a < 2 ^ 31 \<Longrightarrow> b < 2 ^ 31 \<Longrightarrow> - (2 ^ 31) \<le> int a - int b \<and> int a - int b < 2 ^ 31"
  by auto

lemma grid_before:
  assumes "grid_range t0 spp m" "j \<le> m" "k \<le> m"
  shows "timestamp_before (grid t0 spp j) (grid t0 spp k) \<longleftrightarrow> j < k"
proof -
  let ?a = "unat (grid t0 spp j)" and ?b = "unat (grid t0 spp k)"
  have b: "?a < 2 ^ 31" "?b < 2 ^ 31"
    using grid_bound [OF assms(1)] unat_grid [OF assms(1)] assms(2,3) by simp_all
  note i = nat_diff_range [OF b]
  have "grid t0 spp j - grid t0 spp k = word_of_int (int ?a - int ?b)" by simp
  then have "timestamp_diff (grid t0 spp j) (grid t0 spp k) = signed_take_bit 31 (int ?a - int ?b)"
    unfolding timestamp_diff_def by (simp only: sint_sbintrunc') simp
  also have "\<dots> = int ?a - int ?b" using i by (intro signed_take_bit_int_eq_self) blast+
  finally have "timestamp_diff (grid t0 spp j) (grid t0 spp k) = int ?a - int ?b" .
  then have "timestamp_before (grid t0 spp j) (grid t0 spp k) \<longleftrightarrow> ?a < ?b"
    unfolding timestamp_before_def by linarith
  also have "\<dots> \<longleftrightarrow> grid t0 spp j < grid t0 spp k" by (simp add: word_less_nat_alt)
  finally show ?thesis using grid_less(1) [OF assms] by simp
qed

lemma grid_Suc: "grid t0 spp k + spp = grid t0 spp (Suc k)"
  by (simp add: grid_def algebra_simps)

text \<open>Playout has reached frame \<open>n\<close>, and the buffer holds later frames only.\<close>

definition on_grid :: "u32 \<Rightarrow> nat \<Rightarrow> (nat \<Rightarrow> i16 list) \<Rightarrow> nat \<Rightarrow> 'f jitter_buffer \<Rightarrow> bool" where
  "on_grid t0 K frame n b \<longleftrightarrow> btree_ok (jb_packets b)
     \<and> (\<forall>(ts, pk) \<in> set (jb_packets b). \<exists>k. n \<le> k \<and> k \<le> K \<and> ts = grid t0 (jc_samples_per_packet (jb_config b)) k
          \<and> bp_samples pk = frame k)
     \<and> (if jb_first_packet_time b = None then jb_packets b = [] \<and> jb_next_playout_ts b = None \<and> n = 0
        else jb_next_playout_ts b = Some (grid t0 (jc_samples_per_packet (jb_config b)) n))"

lemma on_gridI:
  assumes "btree_ok (jb_packets b)" "jb_first_packet_time b \<noteq> None"
    and "jb_next_playout_ts b = Some (grid t0 (jc_samples_per_packet (jb_config b)) n)"
    and "\<And>t q. (t, q) \<in> set (jb_packets b) \<Longrightarrow> \<exists>k. n \<le> k \<and> k \<le> K
      \<and> t = grid t0 (jc_samples_per_packet (jb_config b)) k \<and> bp_samples q = frame k"
  shows "on_grid t0 K frame n b"
  using assms by (auto simp: on_grid_def)

lemma on_gridE:
  assumes "on_grid t0 K frame n b" "(t, q) \<in> set (jb_packets b)"
  shows "\<exists>k. n \<le> k \<and> k \<le> K \<and> t = grid t0 (jc_samples_per_packet (jb_config b)) k \<and> bp_samples q = frame k"
  using assms by (auto simp: on_grid_def)

lemma on_grid_pushed:
  assumes "pushed acc pk b b'" "on_grid t0 K frame n b" "grid_range t0 (jc_samples_per_packet (jb_config b)) m"
    and "bp_timestamp pk = grid t0 (jc_samples_per_packet (jb_config b)) k" "bp_samples pk = frame k"
    and "k \<le> K" "K \<le> m" "n \<le> m"
  shows "\<exists>n'. n \<le> n' \<and> n' \<le> max n K \<and> on_grid t0 K frame n' b'"
proof -
  let ?spp = "jc_samples_per_packet (jb_config b)"
  have b': "btree_ok (jb_packets b')" "jb_config b' = jb_config b" "jb_first_packet_time b' \<noteq> None"
    using assms(1,2) by (auto simp: pushed_def on_grid_def)
  have set: "set (jb_packets b') \<subseteq> insert (bp_timestamp pk, pk) (set (jb_packets b))"
      "\<not> acc \<Longrightarrow> jb_packets b' = jb_packets b"
    using assms(1) by (auto simp: pushed_def set_btree_insert)
  show ?thesis
  proof (cases "jb_first_packet_time b = None")
    case True
    then have "jb_packets b = []" "n = 0" using assms(2) by (simp_all add: on_grid_def)
    have "on_grid t0 K frame k b'"
    proof (rule on_gridI)
      fix t q assume "(t, q) \<in> set (jb_packets b')"
      with set(1) \<open>jb_packets b = []\<close> assms(4-6) b'(2)
      show "\<exists>j. k \<le> j \<and> j \<le> K \<and> t = grid t0 (jc_samples_per_packet (jb_config b')) j \<and> bp_samples q = frame j"
        by (intro exI [of _ k]) auto
    qed (use b' True assms(1,4) in \<open>simp_all add: pushed_def\<close>)
    with \<open>n = 0\<close> assms(6) show ?thesis by (intro exI [of _ k]) auto
  next
    case False
    have next_ts: "jb_next_playout_ts b' = Some (grid t0 ?spp n)"
      using False assms(1,2) by (auto simp: on_grid_def pushed_def)
    have "n \<le> k" if acc
      using that assms(1) next_ts grid_before [OF assms(3), of k n] assms(4,6,7,8) by (auto simp: pushed_def)
    have "on_grid t0 K frame n b'"
    proof (rule on_gridI)
      fix t q assume tq: "(t, q) \<in> set (jb_packets b')"
      show "\<exists>j. n \<le> j \<and> j \<le> K \<and> t = grid t0 (jc_samples_per_packet (jb_config b')) j \<and> bp_samples q = frame j"
      proof (cases "(t, q) \<in> set (jb_packets b)")
        case True
        with on_gridE [OF assms(2) True] b'(2) show ?thesis by simp
      next
        case new: False
        then have acc using tq set(2) by metis
        moreover have "t = bp_timestamp pk" "q = pk" using new tq subsetD [OF set(1) tq] by auto
        ultimately show ?thesis using \<open>acc \<Longrightarrow> n \<le> k\<close> assms(4-6) b'(2) by (intro exI [of _ k]) simp
      qed
    qed (use b' next_ts in simp_all)
    then show ?thesis by (intro exI [of _ n]) simp
  qed
qed

lemma on_grid_skips:
  assumes "pop_skips b b'" "on_grid t0 K frame n b"
    and "grid_range t0 (jc_samples_per_packet (jb_config b)) m" "K \<le> m" "n \<le> m"
  shows "\<exists>n'. n \<le> n' \<and> n' \<le> Suc n \<and> on_grid t0 K frame n' b'"
proof (cases "jb_next_playout_ts b' = jb_next_playout_ts b")
  case True
  with assms(1,2) have "on_grid t0 K frame n b'"
    by (auto simp: on_grid_def pop_skips_def same_core_def)
  then show ?thesis by (intro exI [of _ n]) simp
next
  case False
  let ?spp = "jc_samples_per_packet (jb_config b)"
  have started: "jb_first_packet_time b \<noteq> None"
    using False assms(1,2) by (auto simp: on_grid_def pop_skips_def split: if_splits)
  with False assms(1,2) have n: "map_of (jb_packets b) (grid t0 ?spp n) = None"
      "jb_next_playout_ts b' = Some (grid t0 ?spp (Suc n))"
    by (auto simp: on_grid_def pop_skips_def grid_Suc)
  have core: "jb_packets b' = jb_packets b" "jb_config b' = jb_config b"
      "jb_first_packet_time b' = jb_first_packet_time b"
    using assms(1) by (simp_all add: pop_skips_def same_core_def)
  have "on_grid t0 K frame (Suc n) b'"
  proof (rule on_gridI)
    fix t q assume tq: "(t, q) \<in> set (jb_packets b')"
    with on_gridE [OF assms(2), of t q] core obtain k where
      k: "n \<le> k" "k \<le> K" "t = grid t0 ?spp k" "bp_samples q = frame k" by auto
    have "k \<noteq> n" using k(3) tq n(1) core(1) by (auto simp: map_of_eq_None_iff image_iff)
    with k core(2) show "\<exists>k. Suc n \<le> k \<and> k \<le> K \<and> t = grid t0 (jc_samples_per_packet (jb_config b')) k \<and> bp_samples q = frame k"
      by (intro exI [of _ k]) simp
  qed (use started core n(2) assms(2) in \<open>simp_all add: on_grid_def\<close>)
  then show ?thesis by (intro exI [of _ "Suc n"]) simp
qed

lemma on_grid_plays:
  assumes "pop_plays ts xs b b'" "on_grid t0 K frame n b"
    and "grid_range t0 (jc_samples_per_packet (jb_config b)) m" "K \<le> m" "n \<le> m"
  shows "\<exists>k n'. n \<le> k \<and> k \<le> n' \<and> n' \<le> max (Suc n) K \<and> xs = frame k \<and> on_grid t0 K frame n' b'"
proof -
  let ?spp = "jc_samples_per_packet (jb_config b)"
  obtain pk where pk: "map_of (jb_packets b) ts = Some pk" "xs = bp_samples pk"
    using assms(1) by (auto simp: pop_plays_def)
  have "(ts, pk) \<in> set (jb_packets b)" using map_of_SomeD [OF pk(1)] .
  with assms(2) obtain k where k: "n \<le> k" "k \<le> K" "ts = grid t0 ?spp k" "bp_samples pk = frame k"
    by (auto simp: on_grid_def)
  have started: "jb_first_packet_time b \<noteq> None"
    using assms(2) pk(1) by (auto simp: on_grid_def split: if_splits)
  have core: "jb_packets b' = btree_remove ts (jb_packets b)" "jb_config b' = jb_config b"
      "jb_first_packet_time b' = jb_first_packet_time b"
    using assms(1) by (simp_all add: pop_plays_def same_core_def count_played_def)
  have rest: "\<exists>j. n \<le> j \<and> j \<noteq> k \<and> j \<le> K \<and> t = grid t0 ?spp j \<and> bp_samples q = frame j"
    if "(t, q) \<in> set (jb_packets b')" for t q
    using that on_gridE [OF assms(2), of t q] core(1) k(3) by (auto simp: set_btree_remove)
  have ok: "btree_ok (jb_packets b')" using assms(2) core(1) by (simp add: on_grid_def)
  from assms(1) consider
      (play) "jb_next_playout_ts b = Some ts" "jb_next_playout_ts b' = Some (ts + ?spp)"
    | (jump) "first_key (jb_packets b) = Some ts" "jb_next_playout_ts b' = Some ts"
    by (auto simp: pop_plays_def)
  then show ?thesis
  proof cases
    case play
    then have "grid t0 ?spp k = grid t0 ?spp n" using assms(2) started k(3) by (simp add: on_grid_def)
    then have "k = n" using grid_less(2) [OF assms(3), of k n] k(2) assms(4,5) by simp
    have "on_grid t0 K frame (Suc n) b'"
    proof (rule on_gridI)
      fix t q assume "(t, q) \<in> set (jb_packets b')"
      from rest [OF this] obtain j where "n \<le> j" "j \<noteq> k" "j \<le> K" "t = grid t0 ?spp j" "bp_samples q = frame j"
        by blast
      with \<open>k = n\<close> core(2)
      show "\<exists>k. Suc n \<le> k \<and> k \<le> K \<and> t = grid t0 (jc_samples_per_packet (jb_config b')) k \<and> bp_samples q = frame k"
        by (intro exI [of _ j]) simp
    qed (use ok started core play k(3) \<open>k = n\<close> in \<open>simp_all add: grid_Suc\<close>)
    with \<open>k = n\<close> k(4) pk(2) show ?thesis by (intro exI [of _ n] exI [of _ "Suc n"]) simp
  next
    case jump
    have least: "k \<le> j" if "(grid t0 ?spp j, q) \<in> set (jb_packets b')" "j \<le> K" for j q
    proof -
      have "(grid t0 ?spp j, q) \<in> set (jb_packets b)" using that(1) core(1) by (simp add: set_btree_remove)
      then have "ts \<le> grid t0 ?spp j"
        using first_key_least(2) [OF _ jump(1), of "(grid t0 ?spp j, q)"] assms(2) by (simp add: on_grid_def)
      then have "\<not> j < k" using grid_less(1) [OF assms(3), of j k] that(2) k(2,3) assms(4) by (auto simp: not_less)
      then show ?thesis by simp
    qed
    have "on_grid t0 K frame k b'"
    proof (rule on_gridI)
      fix t q assume tq: "(t, q) \<in> set (jb_packets b')"
      from rest [OF this] obtain j where "j \<le> K" "t = grid t0 ?spp j" "bp_samples q = frame j" by blast
      moreover have "k \<le> j" using least [of j q] tq calculation by simp
      ultimately show "\<exists>j. k \<le> j \<and> j \<le> K \<and> t = grid t0 (jc_samples_per_packet (jb_config b')) j \<and> bp_samples q = frame j"
        using core(2) by auto
    qed (use ok started core jump k(3) in simp_all)
    with k pk(2) show ?thesis by (intro exI [of _ k]) auto
  qed
qed


text \<open>Operations of a receiver: frame \<open>k\<close> arrives, or the next frame is played.\<close>

fun grid_op :: "u32 \<Rightarrow> u32 \<Rightarrow> (nat \<Rightarrow> i16 list) \<Rightarrow> (nat \<times> u16 \<times> nat) option \<Rightarrow> jb_op" where
  "grid_op t0 spp frame (Some (now, seq, k)) = JbPush now seq (grid t0 spp k) (frame k)"
| "grid_op t0 spp frame None = JbPop"

definition arriving :: "(nat \<times> u16 \<times> nat) option list \<Rightarrow> nat set" where
  "arriving es = {k. \<exists>now seq. Some (now, seq, k) \<in> set es}"

lemma jb_run_in_order:
  assumes "rates_ok (jb_config b)" "jc_samples_per_packet (jb_config b) = spp"
    and "on_grid t0 K frame n b" "grid_range t0 spp m" "n + length es \<le> m" "K + length es \<le> m"
    and "\<forall>k \<in> arriving es. k \<le> K"
    and "jb_run fl (map (grid_op t0 spp frame) es) b = Some (accepted, played, b')"
  shows "\<exists>ks. played = map frame ks \<and> sorted ks \<and> (\<forall>k \<in> set ks. n \<le> k)"
  using assms
proof (induction es arbitrary: b n accepted played)
  case (Cons e es)
  have m: "K \<le> m" "n \<le> m" using Cons.prems(5,6) by simp_all
  have later: "\<forall>k \<in> arriving es. k \<le> K" using Cons.prems(7) by (auto simp: arriving_def)
  show ?case
  proof (cases e)
    case None
    obtain b1 d xs acc2 played2 where
      p: "jb_pop fl b = Some (b1, d, xs)" "jb_run fl (map (grid_op t0 spp frame) es) b1 = Some (acc2, played2, b')"
        "played = (if plays d then [xs] else []) @ played2"
      using Cons.prems(8) None by (auto simp: bind_eq_Some_conv)
    have ok: "btree_ok (jb_packets b)" using Cons.prems(3) by (simp add: on_grid_def)
    have pop: "if plays d then (\<exists>ts. pop_plays ts xs b b1) else pop_skips b b1"
      using jb_pop_effect [OF ok, of fl] p(1) by auto
    have cfg: "jb_config b1 = jb_config b" using popped_frames [OF pop ok] by blast
    have IH: "\<exists>ks. played2 = map frame ks \<and> sorted ks \<and> (\<forall>k \<in> set ks. n' \<le> k)"
      if "on_grid t0 K frame n' b1" "n' \<le> max (Suc n) K" for n'
      using Cons.IH [OF _ _ that(1) Cons.prems(4) _ _ later p(2)] cfg that(2) Cons.prems(1,2,5,6) by simp
    show ?thesis
    proof (cases "plays d")
      case True
      with pop obtain ts where "pop_plays ts xs b b1" by auto
      from on_grid_plays [OF this Cons.prems(3), of m] Cons.prems(2,4) m obtain k n' where
        k: "n \<le> k" "k \<le> n'" "n' \<le> max (Suc n) K" "xs = frame k" "on_grid t0 K frame n' b1" by auto
      obtain ks where "played2 = map frame ks" "sorted ks" "\<forall>j \<in> set ks. n' \<le> j" using IH [OF k(5,3)] by blast
      with k True p(3) show ?thesis by (intro exI [of _ "k # ks"]) auto
    next
      case False
      with pop have "pop_skips b b1" by simp
      from on_grid_skips [OF this Cons.prems(3), of m] Cons.prems(2,4) m obtain n' where
        k: "n \<le> n'" "n' \<le> Suc n" "on_grid t0 K frame n' b1" by auto
      then have "n' \<le> max (Suc n) K" by simp
      from IH [OF k(3) this] k(1) False p(3) show ?thesis by fastforce
    qed
  next
    case (Some x)
    obtain now seq k where x: "x = (now, seq, k)" by (cases x) auto
    obtain b1 acc acc2 where
      p: "jb_push fl now seq (grid t0 spp k) (frame k) b = Some (b1, acc)"
        "jb_run fl (map (grid_op t0 spp frame) es) b1 = Some (acc2, played, b')"
      using Cons.prems(8) Some x by (auto simp: bind_eq_Some_conv)
    have push: "pushed acc \<lparr>bp_sequence = seq, bp_timestamp = grid t0 spp k, bp_samples = frame k, bp_received_at = now\<rparr> b b1"
      using jb_push_effect [OF Cons.prems(1), of fl now seq "grid t0 spp k" "frame k"] p(1) by auto
    have "k \<le> K" using Cons.prems(7) Some x by (auto simp: arriving_def)
    with on_grid_pushed [OF push Cons.prems(3), of m k] Cons.prems(2,4) m obtain n' where
      n': "n \<le> n'" "n' \<le> max n K" "on_grid t0 K frame n' b1" by auto
    have cfg: "jb_config b1 = jb_config b" using push by (simp add: pushed_def)
    have "\<exists>ks. played = map frame ks \<and> sorted ks \<and> (\<forall>k \<in> set ks. n' \<le> k)"
      using Cons.IH [OF _ _ n'(3) Cons.prems(4) _ _ later p(2)] cfg n'(2) Cons.prems(1,2,5,6) by simp
    with n'(1) show ?thesis by fastforce
  qed
qed simp

lemma on_grid_new: "on_grid t0 K frame 0 (jitter_buffer_new fl c)"
  by (simp add: on_grid_def jitter_buffer_new_def)

section \<open>Theorems\<close>

text \<open>
  C6. No sequence of \<open>push\<close> and \<open>pop\<close> calls makes a jitter buffer panic (with a positive clock rate and
  packet size), and none loses or invents audio: the frames accepted by \<open>push\<close> are, as a multiset,
  the frames played by \<open>pop\<close> together with those still buffered, and the statistics count them: what
  was received was played, came late, was a duplicate or is buffered.
\<close>

theorem jitter_conserves_frames:
  assumes "rates_ok c"
  shows "\<exists>accepted played b. jb_run fl ops (jitter_buffer_new fl c) = Some (accepted, played, b)
    \<and> mset accepted = mset played + mset (map (bp_samples \<circ> snd) (jb_packets b))
    \<and> js_packets_received (jb_stats b) = of_nat (length (filter (\<lambda>x. x \<noteq> JbPop) ops))
    \<and> js_packets_played (jb_stats b) = of_nat (length played)
    \<and> js_packets_received (jb_stats b) = js_packets_played (jb_stats b) + js_packets_late (jb_stats b)
        + js_packets_duplicate (jb_stats b) + of_nat (length (jb_packets b))"
proof -
  let ?b = "jitter_buffer_new fl c"
  have "rates_ok (jb_config ?b)" "btree_ok (jb_packets ?b)" "frames ?b = {#}" "outstanding ?b = 0"
      "js_packets_received (jb_stats ?b) = 0" "js_packets_played (jb_stats ?b) = 0"
    using assms by (simp_all add: jitter_buffer_new_def frames_def outstanding_def)
  with jb_run_conserves [of ?b fl ops] obtain accepted played b where
    r: "jb_run fl ops ?b = Some (accepted, played, b)" "mset accepted = mset played + frames b"
      "outstanding b = of_nat (size (frames b))"
      "js_packets_received (jb_stats b) = of_nat (length (filter (\<lambda>x. x \<noteq> JbPop) ops))"
      "js_packets_played (jb_stats b) = of_nat (length played)"
    by auto
  have "js_packets_received (jb_stats b) = js_packets_played (jb_stats b) + js_packets_late (jb_stats b)
      + js_packets_duplicate (jb_stats b) + outstanding b"
    by (simp add: outstanding_def)
  with r show ?thesis by (intro exI conjI) (assumption | simp add: frames_def)+
qed

definition unit_floats :: "unit float_ops" where
  "unit_floats = \<lparr>f_zero = (), f_samples = (\<lambda>_ _. 0), f_smooth = (\<lambda>_ _. ()), f_as_u32 = (\<lambda>_. 0),
     f_in_ms = (\<lambda>_ _. ()), f_fade = (\<lambda>_ _ x. x)\<rparr>"

theorem jitter_conserves_frames_witness:
  "\<exists>accepted played b. jb_run unit_floats [JbPush 0 1 160 [5], JbPush 9 2 160 [5], JbPop] (jitter_buffer_new unit_floats jitter_config_default)
       = Some (accepted, played, b)
     \<and> mset accepted = mset played + mset (map (bp_samples \<circ> snd) (jb_packets b))
     \<and> js_packets_received (jb_stats b) = 2"
  using jitter_conserves_frames [of jitter_config_default unit_floats "[JbPush 0 1 160 [5], JbPush 9 2 160 [5], JbPop]"]
  by (auto simp: rates_ok_def jitter_config_default_def)

text \<open>
  C16. The jitter buffer restores the order of a stream. Whatever the order, loss and repetition in
  which a sender's frames arrive, and however arrivals and playout interleave, the frames that are
  played are frames of the sender in the order of their timestamps, as long as the timestamps
  concerned stay below \<open>2 ^ 31\<close>.
\<close>

theorem jitter_plays_in_order:
  assumes "rates_ok c" "\<forall>k \<in> arriving es. k \<le> K"
    and "unat t0 + (K + length es) * unat (jc_samples_per_packet c) < 2 ^ 31"
  shows "\<exists>accepted ks b. jb_run fl (map (grid_op t0 (jc_samples_per_packet c) frame) es) (jitter_buffer_new fl c)
      = Some (accepted, map frame ks, b) \<and> sorted ks"
proof -
  let ?b = "jitter_buffer_new fl c"
  have c: "jb_config ?b = c" "btree_ok (jb_packets ?b)" by (simp_all add: jitter_buffer_new_def)
  obtain accepted played b where
    r: "jb_run fl (map (grid_op t0 (jc_samples_per_packet c) frame) es) ?b = Some (accepted, played, b)"
    using jb_run_conserves [of ?b fl "map (grid_op t0 (jc_samples_per_packet c) frame) es"] c assms(1) by auto
  have g: "grid_range t0 (jc_samples_per_packet c) (K + length es)"
    using assms(1,3) by (simp add: grid_range_def rates_ok_def)
  obtain ks where "played = map frame ks" "sorted ks"
    using jb_run_in_order [OF _ _ on_grid_new g _ _ assms(2) r] assms(1) c(1) by auto
  with r show ?thesis by blast
qed

theorem jitter_plays_in_order_witness:
  "\<exists>accepted ks b. jb_run unit_floats
      (map (grid_op 8000 160 (\<lambda>k. [of_nat k])) [Some (0, 7, 0), Some (1, 9, 2), Some (2, 8, 1), None, None, None])
      (jitter_buffer_new unit_floats jitter_config_default) = Some (accepted, map (\<lambda>k. [of_nat k]) ks, b) \<and> sorted ks"
proof -
  let ?es = "[Some (0, 7, 0), Some (1, 9, 2), Some (2, 8, 1), None, None, None] :: (nat \<times> u16 \<times> nat) option list"
  have spp: "jc_samples_per_packet jitter_config_default = 160" by (simp add: jitter_config_default_def)
  have "rates_ok jitter_config_default" "\<forall>k \<in> arriving ?es. k \<le> 2"
      "unat (8000 :: u32) + (2 + length ?es) * unat (jc_samples_per_packet jitter_config_default) < 2 ^ 31"
    by (auto simp: rates_ok_def arriving_def jitter_config_default_def)
  from jitter_plays_in_order [OF this, of unit_floats "\<lambda>k. [of_nat k]"] show ?thesis unfolding spp .
qed

end
