(* ===== verification/Session_Hold.thy ===== *)
theory Session_Hold
  imports Rust_Prelude
begin

section \<open>Call hold\<close>

text \<open>
  Hold and resume of calls, \<open>session/hold.rs\<close>: media directions, the hold state computed from them,
  and the manager with the pending request of each call. The hash map of calls is a map from call
  identifiers. The theorem: two managers at the ends of a call that exchange hold and resume requests,
  the directions travelling as SDP text, always agree on who may send and who is held.
\<close>

subsection \<open>Directions and states\<close>

datatype hold_error = CallNotFound string | InvalidHoldState string | HoldSdpError string

datatype media_direction = MdSendRecv | MdSendOnly | MdRecvOnly | MdInactive

definition direction_from_sdp :: "string \<Rightarrow> media_direction option" where
  "direction_from_sdp s =
     (let l = to_ascii_lowercase s in
      if l = ''sendrecv'' then Some MdSendRecv
      else if l = ''sendonly'' then Some MdSendOnly
      else if l = ''recvonly'' then Some MdRecvOnly
      else if l = ''inactive'' then Some MdInactive
      else None)"

fun direction_to_sdp :: "media_direction \<Rightarrow> string" where
  "direction_to_sdp MdSendRecv = ''sendrecv''"
| "direction_to_sdp MdSendOnly = ''sendonly''"
| "direction_to_sdp MdRecvOnly = ''recvonly''"
| "direction_to_sdp MdInactive = ''inactive''"

definition direction_can_send :: "media_direction \<Rightarrow> bool" where
  "direction_can_send d \<longleftrightarrow> d = MdSendRecv \<or> d = MdSendOnly"

definition direction_can_recv :: "media_direction \<Rightarrow> bool" where
  "direction_can_recv d \<longleftrightarrow> d = MdSendRecv \<or> d = MdRecvOnly"

fun remote_direction :: "media_direction \<Rightarrow> media_direction" where
  "remote_direction MdSendRecv = MdSendRecv"
| "remote_direction MdSendOnly = MdRecvOnly"
| "remote_direction MdRecvOnly = MdSendOnly"
| "remote_direction MdInactive = MdInactive"

datatype hold_state = HoldActive | LocalHold | RemoteHold | BothHold

definition is_local_hold :: "hold_state \<Rightarrow> bool" where
  "is_local_hold s \<longleftrightarrow> s = LocalHold \<or> s = BothHold"

definition is_remote_hold :: "hold_state \<Rightarrow> bool" where
  "is_remote_hold s \<longleftrightarrow> s = RemoteHold \<or> s = BothHold"

definition compute_hold_state :: "media_direction \<Rightarrow> media_direction \<Rightarrow> hold_state" where
  "compute_hold_state loc remote =
     (let local_holding = (loc = MdSendOnly \<or> loc = MdInactive);
          remote_holding = (remote = MdSendOnly \<or> remote = MdInactive)
      in case (local_holding, remote_holding) of
           (False, False) \<Rightarrow> HoldActive
         | (True, False) \<Rightarrow> LocalHold
         | (False, True) \<Rightarrow> RemoteHold
         | (True, True) \<Rightarrow> BothHold)"

subsection \<open>The manager\<close>

record hold_request =
  hr_call_id :: string
  hr_direction :: media_direction
  hr_music_on_hold :: bool

record hold_response =
  hp_call_id :: string
  hp_direction :: media_direction
  hp_state :: hold_state

record call_hold_info =
  hi_state :: hold_state
  hi_local_direction :: media_direction
  hi_remote_direction :: media_direction
  hi_pending_request :: "hold_request option"

definition call_hold_info_default :: call_hold_info where
  "call_hold_info_default = \<lparr>hi_state = HoldActive, hi_local_direction = MdSendRecv,
     hi_remote_direction = MdSendRecv, hi_pending_request = None\<rparr>"

type_synonym hold_manager = "string \<rightharpoonup> call_hold_info"

definition hold_manager_new :: hold_manager where
  "hold_manager_new = Map.empty"

definition hold_add_call :: "string \<Rightarrow> hold_manager \<Rightarrow> hold_manager" where
  "hold_add_call call_id m = m(call_id \<mapsto> call_hold_info_default)"

definition hold_remove_call :: "string \<Rightarrow> hold_manager \<Rightarrow> hold_manager" where
  "hold_remove_call call_id m = m(call_id := None)"

definition call_hold_state :: "hold_manager \<Rightarrow> string \<Rightarrow> hold_state option" where
  "call_hold_state m call_id = map_option hi_state (m call_id)"

definition create_hold_request ::
    "string \<Rightarrow> bool \<Rightarrow> hold_manager \<Rightarrow> hold_manager \<times> (hold_error + media_direction)" where
  "create_hold_request call_id inactive m =
     (case m call_id of
        None \<Rightarrow> (m, Inl (CallNotFound call_id))
      | Some info \<Rightarrow>
          if hi_state info = LocalHold \<or> hi_state info = BothHold
          then (m, Inl (InvalidHoldState ''already on local hold''))
          else
            (let direction = (if inactive then MdInactive else MdSendOnly);
                 info = info\<lparr>hi_pending_request := Some \<lparr>hr_call_id = call_id, hr_direction = direction,
                   hr_music_on_hold = (\<not> inactive)\<rparr>\<rparr>
             in (m(call_id \<mapsto> info), Inr direction)))"

definition create_resume_request :: "string \<Rightarrow> hold_manager \<Rightarrow> hold_manager \<times> (hold_error + media_direction)" where
  "create_resume_request call_id m =
     (case m call_id of
        None \<Rightarrow> (m, Inl (CallNotFound call_id))
      | Some info \<Rightarrow>
          if \<not> is_local_hold (hi_state info) then (m, Inl (InvalidHoldState ''not on local hold''))
          else
            (let direction = MdSendRecv;
                 info = info\<lparr>hi_pending_request := Some \<lparr>hr_call_id = call_id, hr_direction = direction,
                   hr_music_on_hold = False\<rparr>\<rparr>
             in (m(call_id \<mapsto> info), Inr direction)))"

definition handle_hold_response ::
    "string \<Rightarrow> media_direction \<Rightarrow> hold_manager \<Rightarrow> hold_manager \<times> (hold_error + hold_response)" where
  "handle_hold_response call_id remote m =
     (case m call_id of
        None \<Rightarrow> (m, Inl (CallNotFound call_id))
      | Some info \<Rightarrow>
          (case hi_pending_request info of
             None \<Rightarrow> (m, Inl (InvalidHoldState ''no pending hold request''))
           | Some request \<Rightarrow>
               (let info = info\<lparr>hi_pending_request := None, hi_local_direction := hr_direction request,
                      hi_remote_direction := remote\<rparr>;
                    info = info\<lparr>hi_state := compute_hold_state (hi_local_direction info) (hi_remote_direction info)\<rparr>
                in (m(call_id \<mapsto> info),
                    Inr \<lparr>hp_call_id = call_id, hp_direction = hi_local_direction info, hp_state = hi_state info\<rparr>))))"

definition handle_remote_hold ::
    "string \<Rightarrow> media_direction \<Rightarrow> hold_manager \<Rightarrow> hold_manager \<times> (hold_error + hold_state)" where
  "handle_remote_hold call_id remote m =
     (case m call_id of
        None \<Rightarrow> (m, Inl (CallNotFound call_id))
      | Some info \<Rightarrow>
          (let info = info\<lparr>hi_remote_direction := remote\<rparr>;
               info = info\<lparr>hi_local_direction := remote_direction remote\<rparr>;
               info = info\<lparr>hi_state := compute_hold_state (hi_local_direction info) (hi_remote_direction info)\<rparr>
           in (m(call_id \<mapsto> info), Inr (hi_state info))))"

definition hold_cancel_pending :: "string \<Rightarrow> hold_manager \<Rightarrow> hold_manager" where
  "hold_cancel_pending call_id m =
     (case m call_id of None \<Rightarrow> m | Some info \<Rightarrow> m(call_id \<mapsto> info\<lparr>hi_pending_request := None\<rparr>))"

definition hold_can_send :: "hold_manager \<Rightarrow> string \<Rightarrow> bool" where
  "hold_can_send m call_id = (case m call_id of None \<Rightarrow> False | Some info \<Rightarrow> direction_can_send (hi_local_direction info))"

definition hold_can_recv :: "hold_manager \<Rightarrow> string \<Rightarrow> bool" where
  "hold_can_recv m call_id = (case m call_id of None \<Rightarrow> False | Some info \<Rightarrow> direction_can_recv (hi_local_direction info))"

subsection \<open>Two ends of a call\<close>

lemma direction_round_trip: "direction_from_sdp (direction_to_sdp d) = Some d"
  by (cases d) (simp_all add: direction_from_sdp_def to_ascii_lowercase_def ascii_lower_def is_ascii_upper_def Let_def)

text \<open>What one end asks for: hold, full hold or resume; the pending request may also be cancelled.\<close>

datatype hold_ask = AskHold bool | AskResume

definition hold_ask :: "hold_ask \<Rightarrow> string \<Rightarrow> hold_manager \<Rightarrow> hold_manager \<times> (hold_error + media_direction)" where
  "hold_ask a call_id m =
     (case a of AskHold inactive \<Rightarrow> create_hold_request call_id inactive m | AskResume \<Rightarrow> create_resume_request call_id m)"

text \<open>
  One re-INVITE: the asking end \<open>x\<close> creates its request, the other end \<open>y\<close> handles the direction read from
  the offer and answers with its own, and \<open>x\<close> handles the answer. A refused request sends nothing; if the
  answer is an error response, the request is cancelled. The exchange composes the operations of the two
  ends; requests that cross each other on the way are not part of it.
\<close>

definition reinvite :: "hold_ask \<Rightarrow> bool \<Rightarrow> string \<Rightarrow> hold_manager \<Rightarrow> hold_manager \<Rightarrow> hold_manager \<times> hold_manager" where
  "reinvite a refused call_id x y =
     (case hold_ask a call_id x of
        (x, Inl _) \<Rightarrow> (x, y)
      | (x, Inr offered) \<Rightarrow>
          if refused then (hold_cancel_pending call_id x, y)
          else (case direction_from_sdp (direction_to_sdp offered) of
            None \<Rightarrow> (x, y)
          | Some offered \<Rightarrow>
              (let y = fst (handle_remote_hold call_id offered y) in
               case y call_id of
                 None \<Rightarrow> (x, y)
               | Some info \<Rightarrow>
                   (case direction_from_sdp (direction_to_sdp (hi_local_direction info)) of
                      None \<Rightarrow> (x, y)
                    | Some answer \<Rightarrow> (fst (handle_hold_response call_id answer x), y)))))"

text \<open>A history: who asks (\<open>True\<close> for the first end), for what, and whether it is refused.\<close>

fun hold_history :: "(bool \<times> hold_ask \<times> bool) list \<Rightarrow> string \<Rightarrow> hold_manager \<times> hold_manager \<Rightarrow> hold_manager \<times> hold_manager" where
  "hold_history [] call_id s = s"
| "hold_history ((first, a, refused) # h) call_id (x, y) =
     hold_history h call_id
       (if first then reinvite a refused call_id x y
        else (case reinvite a refused call_id y x of (y, x) \<Rightarrow> (x, y)))"

definition mirrored :: "string \<Rightarrow> hold_manager \<Rightarrow> hold_manager \<Rightarrow> bool" where
  "mirrored call_id x y \<longleftrightarrow>
     (\<exists>i j. x call_id = Some i \<and> y call_id = Some j
       \<and> hi_pending_request i = None \<and> hi_pending_request j = None
       \<and> hi_state i = compute_hold_state (hi_local_direction i) (hi_remote_direction i)
       \<and> hi_state j = compute_hold_state (hi_local_direction j) (hi_remote_direction j)
       \<and> hi_remote_direction i = hi_local_direction j \<and> hi_remote_direction j = hi_local_direction i
       \<and> hi_local_direction j = remote_direction (hi_local_direction i))"

lemma remote_direction_involutive [simp]: "remote_direction (remote_direction d) = d"
  by (cases d) simp_all

lemma mirrored_sym: "mirrored call_id x y \<Longrightarrow> mirrored call_id y x"
  by (auto simp: mirrored_def)

lemma reinvite_mirrored:
  assumes "mirrored call_id x y" "reinvite a refused call_id x y = (x', y')"
  shows "mirrored call_id x' y'"
proof -
  from assms(1) obtain i j where ij: "x call_id = Some i" "y call_id = Some j" by (auto simp: mirrored_def)
  show ?thesis
  proof (cases "snd (hold_ask a call_id x)")
    case (Inl e)
    then have "x' = x \<and> y' = y"
      using assms(2) ij
      by (auto simp: reinvite_def hold_ask_def create_hold_request_def create_resume_request_def Let_def
        split: hold_ask.splits if_splits)
    with assms(1) show ?thesis by simp
  next
    case (Inr d)
    let ?req = "\<lparr>hr_call_id = call_id, hr_direction = d, hr_music_on_hold = (d = MdSendOnly)\<rparr>"
    have "hold_ask a call_id x = (x(call_id \<mapsto> i\<lparr>hi_pending_request := Some ?req\<rparr>), Inr d)"
      using Inr ij(1)
      by (auto simp: hold_ask_def create_hold_request_def create_resume_request_def Let_def
        split: hold_ask.splits if_splits)
    with assms ij show ?thesis
      by (cases refused) (auto simp: reinvite_def direction_round_trip handle_remote_hold_def
        handle_hold_response_def hold_cancel_pending_def mirrored_def Let_def)
  qed
qed

lemma hold_history_mirrored:
  "mirrored call_id x y \<Longrightarrow> hold_history h call_id (x, y) = (x', y') \<Longrightarrow> mirrored call_id x' y'"
proof (induction h arbitrary: x y)
  case (Cons e h)
  obtain first a refused where e: "e = (first, a, refused)" by (cases e) auto
  show ?case
  proof (cases first)
    case True
    obtain x1 y1 where r: "reinvite a refused call_id x y = (x1, y1)" by fastforce
    from Cons.IH [OF reinvite_mirrored [OF Cons.prems(1) r]] Cons.prems(2) e True r show ?thesis by simp
  next
    case False
    obtain x1 y1 where r: "reinvite a refused call_id y x = (y1, x1)" by fastforce
    from Cons.IH [OF mirrored_sym [OF reinvite_mirrored [OF mirrored_sym [OF Cons.prems(1)] r]]] Cons.prems(2) e False r
    show ?thesis by simp
  qed
qed simp

text \<open>
  C15. After any history of hold, full hold and resume requests by either end of a call, refused ones
  included and each completed before the next one starts, each end may send exactly when the other may receive, each end's hold state is the mirror
  image of the other's, and no request is left pending.
\<close>

theorem hold_ends_agree:
  assumes "hold_history h call_id (hold_add_call call_id m, hold_add_call call_id n) = (x, y)"
  shows "hold_can_send x call_id = hold_can_recv y call_id \<and> hold_can_recv x call_id = hold_can_send y call_id
    \<and> (\<exists>s t. call_hold_state x call_id = Some s \<and> call_hold_state y call_id = Some t
         \<and> is_local_hold s = is_remote_hold t \<and> is_remote_hold s = is_local_hold t)
    \<and> map_option hi_pending_request (x call_id) = Some None \<and> map_option hi_pending_request (y call_id) = Some None"
proof -
  have "mirrored call_id (hold_add_call call_id m) (hold_add_call call_id n)"
    by (simp add: mirrored_def hold_add_call_def call_hold_info_default_def compute_hold_state_def)
  from hold_history_mirrored [OF this assms] obtain i j where
    "x call_id = Some i" "y call_id = Some j" "hi_pending_request i = None" "hi_pending_request j = None"
    "hi_state i = compute_hold_state (hi_local_direction i) (remote_direction (hi_local_direction i))"
    "hi_state j = compute_hold_state (remote_direction (hi_local_direction i)) (hi_local_direction i)"
    "hi_local_direction j = remote_direction (hi_local_direction i)"
    by (auto simp: mirrored_def)
  then show ?thesis
    by (cases "hi_local_direction i")
      (simp_all add: hold_can_send_def hold_can_recv_def direction_can_send_def direction_can_recv_def
        call_hold_state_def compute_hold_state_def is_local_hold_def is_remote_hold_def)
qed

theorem hold_ends_agree_witness:
  "\<exists>x y. hold_history [(True, AskHold False, False), (False, AskHold True, True)] ''c''
       (hold_add_call ''c'' hold_manager_new, hold_add_call ''c'' hold_manager_new) = (x, y)
     \<and> hold_can_send x ''c'' = hold_can_recv y ''c''"
  using hold_ends_agree [of "[(True, AskHold False, False), (False, AskHold True, True)]" "''c''" hold_manager_new hold_manager_new]
  by (cases "hold_history [(True, AskHold False, False), (False, AskHold True, True)] ''c''
       (hold_add_call ''c'' hold_manager_new, hold_add_call ''c'' hold_manager_new)") blast

text \<open>An incoming offer replaces the own direction, so that a hold of the own side is forgotten.\<close>

lemma remote_hold_forgets_local_hold:
  assumes "m call_id = Some i" "hi_state i = LocalHold"
  shows "call_hold_state (fst (handle_remote_hold call_id MdSendOnly m)) call_id = Some RemoteHold"
  using assms by (simp add: handle_remote_hold_def call_hold_state_def compute_hold_state_def Let_def)

end
