(* ===== verification/Net_Addr.thy ===== *)
theory Net_Addr
  imports Rust_Text Wire_Octets
begin

section \<open>IP addresses\<close>

text \<open>
  \<open>IpAddr\<close> and \<open>SocketAddr\<close> of the Rust standard library as the SDP and ICE sources use them: the text of
  an address (\<open>Display\<close>) and its parser (\<open>FromStr\<close>), IPv4 and IPv6. The lemmas: the text of an address
  is a word without separators, and IPv4 addresses survive printing and parsing.
\<close>

datatype ip_addr = IpV4 u8 u8 u8 u8 | IpV6 "u16 list"

fun is_ipv4 :: "ip_addr \<Rightarrow> bool" where
  "is_ipv4 (IpV4 _ _ _ _) = True"
| "is_ipv4 (IpV6 _) = False"

record socket_addr =
  sa_ip :: ip_addr
  sa_port :: u16

subsection \<open>Display\<close>

fun to_hex :: "nat \<Rightarrow> string" where
  "to_hex n =
     (let digit = (if n mod 16 < 10 then octet (48 + n mod 16) else octet (87 + n mod 16))
      in if n < 16 then [digit] else to_hex (n div 16) @ [digit])"

declare to_hex.simps [simp del]

text \<open>Start and length of the first longest run of zero groups.\<close>

fun zero_run :: "nat \<Rightarrow> nat \<times> nat \<Rightarrow> nat \<times> nat \<Rightarrow> u16 list \<Rightarrow> nat \<times> nat" where
  "zero_run i longest current [] = longest"
| "zero_run i longest current (g # gs) =
     (if g = 0 then
        (let current = (if snd current = 0 then (i, 1) else (fst current, snd current + 1)) in
         zero_run (Suc i) (if snd current > snd longest then current else longest) current gs)
      else zero_run (Suc i) longest (0, 0) gs)"

definition hex_groups :: "u16 list \<Rightarrow> string" where
  "hex_groups gs = join '':'' (map (\<lambda>g. to_hex (unat g)) gs)"

definition ipv4_text :: "u8 \<Rightarrow> u8 \<Rightarrow> u8 \<Rightarrow> u8 \<Rightarrow> string" where
  "ipv4_text a b c d =
     to_dec (unat a) @ ''.'' @ to_dec (unat b) @ ''.'' @ to_dec (unat c) @ ''.'' @ to_dec (unat d)"

fun ip_text :: "ip_addr \<Rightarrow> string" where
  "ip_text (IpV4 a b c d) = ipv4_text a b c d"
| "ip_text (IpV6 gs) =
     (if take 6 gs = [0, 0, 0, 0, 0, 65535] \<and> length gs = 8 then
        ''::ffff:'' @ ipv4_text (ucast (drop_bit 8 (gs ! 6))) (ucast (gs ! 6)) (ucast (drop_bit 8 (gs ! 7))) (ucast (gs ! 7))
      else
        (case zero_run 0 (0, 0) (0, 0) gs of (start, len) \<Rightarrow>
           if len > 1 then hex_groups (take start gs) @ ''::'' @ hex_groups (drop (start + len) gs)
           else hex_groups gs))"

subsection \<open>Parsing\<close>

definition radix_digit :: "nat \<Rightarrow> char \<Rightarrow> nat option" where
  "radix_digit radix c =
     (if is_ascii_digit c then Some (code c - 48)
      else if radix = 16 \<and> 97 \<le> code c \<and> code c \<le> 102 then Some (code c - 87)
      else if radix = 16 \<and> 65 \<le> code c \<and> code c \<le> 70 then Some (code c - 55)
      else None)"

definition digits_value :: "nat \<Rightarrow> string \<Rightarrow> nat" where
  "digits_value radix ds = foldl (\<lambda>n c. radix * n + the (radix_digit radix c)) 0 ds"

text \<open>
  A number of at most \<open>max\<close> digits below \<open>bound\<close>. The reader stops at the first character that is no
  digit; too many digits and an overflow fail alike.
\<close>

definition read_number :: "nat \<Rightarrow> nat \<Rightarrow> bool \<Rightarrow> nat \<Rightarrow> string \<Rightarrow> (nat \<times> string) option" where
  "read_number radix max_digits allow_zero_prefix bound s =
     (let ds = takeWhile (\<lambda>c. radix_digit radix c \<noteq> None) s in
      if ds = [] \<or> length ds > max_digits \<or> digits_value radix ds \<ge> bound then None
      else if \<not> allow_zero_prefix \<and> hd ds = CHR ''0'' \<and> length ds > 1 then None
      else Some (digits_value radix ds, drop (length ds) s))"

definition read_char :: "char \<Rightarrow> string \<Rightarrow> string option" where
  "read_char c s = (case s of x # xs \<Rightarrow> if x = c then Some xs else None | [] \<Rightarrow> None)"

definition read_separator :: "char \<Rightarrow> nat \<Rightarrow> (string \<Rightarrow> ('a \<times> string) option) \<Rightarrow> string \<Rightarrow> ('a \<times> string) option" where
  "read_separator sep index inner s =
     (if index > 0 then (case read_char sep s of None \<Rightarrow> None | Some s \<Rightarrow> inner s) else inner s)"

definition read_ipv4 :: "string \<Rightarrow> ((u8 \<times> u8 \<times> u8 \<times> u8) \<times> string) option" where
  "read_ipv4 s = do {
     (a, s) \<leftarrow> read_separator CHR ''.'' 0 (read_number 10 3 False 256) s;
     (b, s) \<leftarrow> read_separator CHR ''.'' 1 (read_number 10 3 False 256) s;
     (c, s) \<leftarrow> read_separator CHR ''.'' 2 (read_number 10 3 False 256) s;
     (d, s) \<leftarrow> read_separator CHR ''.'' 3 (read_number 10 3 False 256) s;
     Some ((of_nat a, of_nat b, of_nat c, of_nat d), s)
   }"

text \<open>Up to \<open>slots\<close> groups from index \<open>i\<close> on, and whether they end in an embedded IPv4 address.\<close>

fun read_groups :: "nat \<Rightarrow> nat \<Rightarrow> string \<Rightarrow> u16 list \<times> bool \<times> string" where
  "read_groups i 0 s = ([], False, s)"
| "read_groups i (Suc slots) s =
     (case (if slots > 0 then read_separator CHR '':'' i read_ipv4 s else None) of
        Some ((a, b, c, d), s) \<Rightarrow> ([u16_of_be a b, u16_of_be c d], True, s)
      | None \<Rightarrow>
          (case read_separator CHR '':'' i (read_number 16 4 True 65536) s of
             None \<Rightarrow> ([], False, s)
           | Some (g, s) \<Rightarrow>
               (case read_groups (Suc i) slots s of (gs, v4, s) \<Rightarrow> (of_nat g # gs, v4, s))))"

definition read_ipv6 :: "string \<Rightarrow> (u16 list \<times> string) option" where
  "read_ipv6 s =
     (case read_groups 0 8 s of (head, head_ipv4, s) \<Rightarrow>
        if length head = 8 then Some (head, s)
        else if head_ipv4 then None
        else do {
          s \<leftarrow> read_char CHR '':'' s;
          s \<leftarrow> read_char CHR '':'' s;
          case read_groups 0 (8 - (length head + 1)) s of (tail, _, s) \<Rightarrow>
            Some (head @ replicate (8 - length head - length tail) 0 @ tail, s)
        })"

definition ip_parse :: "string \<Rightarrow> ip_addr option" where
  "ip_parse s =
     (case read_ipv4 s of
        Some ((a, b, c, d), rest) \<Rightarrow> if rest = [] then Some (IpV4 a b c d) else None
      | None \<Rightarrow>
          (case read_ipv6 s of
             Some (gs, rest) \<Rightarrow> if rest = [] then Some (IpV6 gs) else None
           | None \<Rightarrow> None))"

subsection \<open>Round trip\<close>

lemma radix_digit_10: "radix_digit 10 c \<noteq> None \<longleftrightarrow> is_ascii_digit c"
  by (simp add: radix_digit_def)

lemma digits_value_10:
  assumes "digits_val n ds = Some v" "list_all is_ascii_digit ds"
  shows "foldl (\<lambda>n c. 10 * n + the (radix_digit 10 c)) n ds = v"
  using assms by (induction ds arbitrary: n) (auto simp: radix_digit_def)

lemma to_dec_hd: "0 < n \<Longrightarrow> hd (to_dec n) \<noteq> CHR ''0''"
proof (induction n rule: to_dec.induct)
  case (1 n)
  show ?case
  proof (cases "n < 10")
    case True
    with 1(2) show ?thesis by (subst to_dec.simps) (simp add: ascii_simps)
  next
    case False
    then have "0 < n div 10" by (simp add: div_greater_zero_iff)
    with 1(1) False show ?thesis by (subst to_dec.simps) simp
  qed
qed

lemma read_number_to_dec:
  assumes "n < 256" "s = [] \<or> \<not> is_ascii_digit (hd s)"
  shows "read_number 10 3 False 256 (to_dec n @ s) = Some (n, s)"
proof -
  have digits: "takeWhile (\<lambda>c. radix_digit 10 c \<noteq> None) (to_dec n @ s) = to_dec n"
    unfolding radix_digit_10
    using assms(2) to_dec_digits [of _ n] by (cases s) (simp_all add: takeWhile_append)
  have val: "digits_value 10 (to_dec n) = n"
    unfolding digits_value_def by (rule digits_value_10) (simp_all add: digits_val_to_dec)
  have "length (to_dec n) \<le> 3" using length_to_dec [of n 2] assms(1) by simp
  moreover have "\<not> (hd (to_dec n) = CHR ''0'' \<and> length (to_dec n) > 1)"
    using to_dec_hd [of n] by (cases "n = 0") (simp_all add: to_dec.simps [of 0])
  ultimately show ?thesis
    unfolding read_number_def digits Let_def val using assms(1) by auto
qed

lemma ip_parse_ipv4: "ip_parse (ip_text (IpV4 a b c d)) = Some (IpV4 a b c d)"
proof -
  have dot: "\<not> is_ascii_digit CHR ''.''" by (simp add: ascii_simps)
  have "unat x < 256" for x :: u8 using unsigned_less [of x, where ?'a = nat] by simp
  then have "read_ipv4 (ip_text (IpV4 a b c d)) = Some ((a, b, c, d), [])"
    using read_number_to_dec [of "unat d" "[]"]
    by (simp add: read_ipv4_def ipv4_text_def read_separator_def read_char_def read_number_to_dec dot)
  then show ?thesis by (simp add: ip_parse_def)
qed

lemma graphic_to_hex [simp]: "graphic (to_hex n)"
proof (induction n rule: to_hex.induct)
  case (1 n)
  have "n mod 16 < 16" by simp
  with 1 show ?case by (subst to_hex.simps) (auto simp: Let_def code_octet)
qed

lemma graphic_ip_text: "graphic (ip_text ip)"
proof -
  have "graphic (hex_groups gs)" for gs by (simp add: hex_groups_def graphic_join)
  moreover have "graphic (ipv4_text a b c d)" for a b c d by (simp add: ipv4_text_def)
  ultimately show ?thesis by (cases ip) (auto split: list.split prod.split)
qed

lemma ip_text_not_Nil: "ip_text ip \<noteq> [] \<or> (\<exists>gs. ip = IpV6 gs)"
  by (cases ip) (simp_all add: ipv4_text_def)

end
