(* ===== verification/Sdp_Parser.thy ===== *)
theory Sdp_Parser
  imports Net_Addr "HOL-Library.Finite_Map" "HOL-Library.List_Lexorder" "HOL-Library.Char_ord"
begin

section \<open>Session descriptions\<close>

text \<open>
  SDP session descriptions and their parser, \<open>sdp/parser.rs\<close>. The loop over the lines is a step
  function on the parser's variables; a malformed field ends it with an error. Numbers are natural
  numbers within the range of their Rust type. The hash map of bandwidths is a finite map. Media types
  are compared without case; no character outside ASCII has a lower case among their letters.
\<close>

subsection \<open>Data\<close>

datatype sdp_parse_error = MissingVersion | InvalidSdpVersion | MissingOrigin | InvalidOrigin
  | InvalidConnection | MissingTiming | InvalidTiming | InvalidMedia

record sdp_origin =
  so_username :: string
  so_session_id :: string
  so_session_version :: string
  so_net_type :: string
  so_addr_type :: string
  so_unicast_address :: string

record sdp_connection =
  sn_net_type :: string
  sn_addr_type :: string
  sn_address :: string

record sdp_timing =
  st_start :: nat
  st_stop :: nat

datatype media_type = MtAudio | MtVideo | MtApplication | MtMessage | MtOther

datatype direction = SendRecv | SendOnly | RecvOnly | Inactive

record sdp_attribute =
  at_name :: string
  at_value :: "string option"

record rtp_map =
  rm_payload_type :: nat
  rm_encoding :: string
  rm_clock_rate :: nat
  rm_params :: "string option"

record sdp_fmtp =
  fp_payload_type :: nat
  fp_params :: string

record media_description =
  md_media_type :: media_type
  md_port :: nat
  md_num_ports :: "nat option"
  md_protocol :: string
  md_formats :: "string list"
  md_connection :: "sdp_connection option"
  md_bandwidth :: "(string, nat) fmap"
  md_attributes :: "sdp_attribute list"

record session_description =
  sd_version :: nat
  sd_origin :: sdp_origin
  sd_session_name :: string
  sd_session_info :: "string option"
  sd_connection :: "sdp_connection option"
  sd_timing :: sdp_timing
  sd_media :: "media_description list"
  sd_attributes :: "sdp_attribute list"

subsection \<open>Fields\<close>

definition origin_parse :: "string \<Rightarrow> sdp_parse_error + sdp_origin" where
  "origin_parse value =
     (case split_whitespace value of
        a # b # c # d # e # f # _ \<Rightarrow>
          Inr \<lparr>so_username = a, so_session_id = b, so_session_version = c, so_net_type = d, so_addr_type = e,
               so_unicast_address = f\<rparr>
      | _ \<Rightarrow> Inl InvalidOrigin)"

definition connection_parse :: "string \<Rightarrow> sdp_parse_error + sdp_connection" where
  "connection_parse value =
     (case split_whitespace value of
        a # b # c # _ \<Rightarrow> Inr \<lparr>sn_net_type = a, sn_addr_type = b, sn_address = c\<rparr>
      | _ \<Rightarrow> Inl InvalidConnection)"

definition connection_ip_addr :: "sdp_connection \<Rightarrow> ip_addr option" where
  "connection_ip_addr c = ip_parse (hd (split_char CHR ''/'' (sn_address c)))"

definition unwrap_or :: "'a \<Rightarrow> 'a option \<Rightarrow> 'a" where
  "unwrap_or d x = (case x of None \<Rightarrow> d | Some y \<Rightarrow> y)"

definition timing_parse :: "string \<Rightarrow> sdp_parse_error + sdp_timing" where
  "timing_parse value =
     (case split_whitespace value of
        a # b # _ \<Rightarrow> Inr \<lparr>st_start = unwrap_or 0 (parse_uint (2 ^ 64) a), st_stop = unwrap_or 0 (parse_uint (2 ^ 64) b)\<rparr>
      | _ \<Rightarrow> Inl InvalidTiming)"

definition media_type_from :: "string \<Rightarrow> media_type" where
  "media_type_from s =
     (let l = to_ascii_lowercase s in
      if l = ''audio'' then MtAudio
      else if l = ''video'' then MtVideo
      else if l = ''application'' then MtApplication
      else if l = ''message'' then MtMessage
      else MtOther)"

definition port_parse :: "string \<Rightarrow> sdp_parse_error + nat \<times> nat option" where
  "port_parse s =
     (case split_once CHR ''/'' s of
        Some (p, n) \<Rightarrow>
          and_then (ok_or InvalidMedia (parse_u16 p)) (\<lambda>p.
          and_then (ok_or InvalidMedia (parse_u16 n)) (\<lambda>n. Inr (p, Some n)))
      | None \<Rightarrow> and_then (ok_or InvalidMedia (parse_u16 s)) (\<lambda>p. Inr (p, None)))"

definition media_parse :: "string \<Rightarrow> sdp_parse_error + media_description" where
  "media_parse value =
     (case split_whitespace value of
        a # b # c # d # formats \<Rightarrow>
          and_then (port_parse b) (\<lambda>(port, num_ports).
            Inr \<lparr>md_media_type = media_type_from a, md_port = port, md_num_ports = num_ports, md_protocol = c,
                 md_formats = d # formats, md_connection = None, md_bandwidth = fmempty, md_attributes = []\<rparr>)
      | _ \<Rightarrow> Inl InvalidMedia)"

definition attribute_parse :: "string \<Rightarrow> sdp_attribute" where
  "attribute_parse value =
     (case split_once CHR '':'' value of
        Some (name, val) \<Rightarrow> \<lparr>at_name = name, at_value = Some val\<rparr>
      | None \<Rightarrow> \<lparr>at_name = value, at_value = None\<rparr>)"

definition rtpmap_parse :: "string \<Rightarrow> rtp_map option" where
  "rtpmap_parse value =
     (case split_once CHR '' '' value of
        None \<Rightarrow> None
      | Some (pt_str, rest) \<Rightarrow>
          (case parse_u8 pt_str of
             None \<Rightarrow> None
           | Some payload_type \<Rightarrow>
               (let parts = split_char CHR ''/'' rest; encoding = trim (hd parts) in
                if encoding = [] then None
                else Some \<lparr>rm_payload_type = payload_type, rm_encoding = encoding,
                  rm_clock_rate = unwrap_or 8000 (case parts of _ # s # _ \<Rightarrow> parse_u32 s | _ \<Rightarrow> None),
                  rm_params = (case parts of _ # _ # s # _ \<Rightarrow> Some s | _ \<Rightarrow> None)\<rparr>)))"

definition rtpmap_channels :: "rtp_map \<Rightarrow> nat" where
  "rtpmap_channels r = unwrap_or 1 (case rm_params r of None \<Rightarrow> None | Some p \<Rightarrow> parse_u8 p)"

definition fmtp_parse :: "string \<Rightarrow> sdp_fmtp option" where
  "fmtp_parse value =
     (case split_once CHR '' '' value of
        None \<Rightarrow> None
      | Some (pt_str, params) \<Rightarrow>
          (case parse_u8 pt_str of
             None \<Rightarrow> None
           | Some pt \<Rightarrow> Some \<lparr>fp_payload_type = pt, fp_params = params\<rparr>))"

subsection \<open>Media descriptions\<close>

fun attributes_direction :: "sdp_attribute list \<Rightarrow> direction" where
  "attributes_direction [] = SendRecv"
| "attributes_direction (a # as) =
     (if at_name a = ''sendrecv'' then SendRecv
      else if at_name a = ''sendonly'' then SendOnly
      else if at_name a = ''recvonly'' then RecvOnly
      else if at_name a = ''inactive'' then Inactive
      else attributes_direction as)"

definition media_direction_of :: "media_description \<Rightarrow> direction" where
  "media_direction_of m = attributes_direction (md_attributes m)"

definition attribute_values :: "string \<Rightarrow> (string \<Rightarrow> 'a option) \<Rightarrow> sdp_attribute list \<Rightarrow> 'a list" where
  "attribute_values name f as =
     List.map_filter (\<lambda>a. if at_name a = name then (case at_value a of None \<Rightarrow> None | Some v \<Rightarrow> f v) else None) as"

definition rtpmaps :: "media_description \<Rightarrow> rtp_map list" where
  "rtpmaps m = attribute_values ''rtpmap'' rtpmap_parse (md_attributes m)"

definition fmtps :: "media_description \<Rightarrow> sdp_fmtp list" where
  "fmtps m = attribute_values ''fmtp'' fmtp_parse (md_attributes m)"

definition is_rejected :: "media_description \<Rightarrow> bool" where
  "is_rejected m \<longleftrightarrow> md_port m = 0"

definition audio_media :: "session_description \<Rightarrow> media_description option" where
  "audio_media sd = find (\<lambda>m. md_media_type m = MtAudio) (sd_media sd)"

subsection \<open>The parser\<close>

record sdp_state =
  ps_version :: "nat option"
  ps_origin :: "sdp_origin option"
  ps_session_name :: "string option"
  ps_session_info :: "string option"
  ps_connection :: "sdp_connection option"
  ps_timing :: "sdp_timing option"
  ps_attributes :: "sdp_attribute list"
  ps_media :: "media_description list"
  ps_current :: "media_description option"

definition sdp_initial :: sdp_state where
  "sdp_initial = \<lparr>ps_version = None, ps_origin = None, ps_session_name = None, ps_session_info = None,
     ps_connection = None, ps_timing = None, ps_attributes = [], ps_media = [], ps_current = None\<rparr>"

text \<open>A field of a media section, of the session section, and a new media section.\<close>

definition media_field :: "char \<Rightarrow> string \<Rightarrow> media_description \<Rightarrow> sdp_parse_error + media_description" where
  "media_field type_char value m =
     (if type_char = CHR ''c'' then and_then (connection_parse value) (\<lambda>c. Inr (m\<lparr>md_connection := Some c\<rparr>))
      else if type_char = CHR ''b'' then
        (case split_once CHR '':'' value of
           None \<Rightarrow> Inr m
         | Some (btype, bw) \<Rightarrow>
             Inr (m\<lparr>md_bandwidth := fmupd btype (unwrap_or 0 (parse_u32 bw)) (md_bandwidth m)\<rparr>))
      else if type_char = CHR ''a'' then Inr (m\<lparr>md_attributes := md_attributes m @ [attribute_parse value]\<rparr>)
      else Inr m)"

definition session_field :: "char \<Rightarrow> string \<Rightarrow> sdp_state \<Rightarrow> sdp_parse_error + sdp_state" where
  "session_field type_char value st =
     (if type_char = CHR ''v'' then
        and_then (ok_or InvalidSdpVersion (parse_u8 value)) (\<lambda>v. Inr (st\<lparr>ps_version := Some v\<rparr>))
      else if type_char = CHR ''o'' then and_then (origin_parse value) (\<lambda>v. Inr (st\<lparr>ps_origin := Some v\<rparr>))
      else if type_char = CHR ''s'' then Inr (st\<lparr>ps_session_name := Some value\<rparr>)
      else if type_char = CHR ''i'' then Inr (st\<lparr>ps_session_info := Some value\<rparr>)
      else if type_char = CHR ''c'' then and_then (connection_parse value) (\<lambda>v. Inr (st\<lparr>ps_connection := Some v\<rparr>))
      else if type_char = CHR ''t'' then and_then (timing_parse value) (\<lambda>v. Inr (st\<lparr>ps_timing := Some v\<rparr>))
      else if type_char = CHR ''a'' then Inr (st\<lparr>ps_attributes := ps_attributes st @ [attribute_parse value]\<rparr>)
      else Inr st)"

definition option_list :: "'a option \<Rightarrow> 'a list" where
  "option_list x = (case x of None \<Rightarrow> [] | Some y \<Rightarrow> [y])"

definition new_media :: "string \<Rightarrow> sdp_state \<Rightarrow> sdp_parse_error + sdp_state" where
  "new_media value st =
     (let st = st\<lparr>ps_media := ps_media st @ option_list (ps_current st), ps_current := None\<rparr> in
      and_then (media_parse value) (\<lambda>m. Inr (st\<lparr>ps_current := Some m\<rparr>)))"

definition sdp_line :: "string \<Rightarrow> sdp_state \<Rightarrow> sdp_parse_error + sdp_state" where
  "sdp_line line st =
     (case trim line of
        type_char # eq # value \<Rightarrow>
          if \<not> is_ascii_alphabetic type_char \<or> eq \<noteq> CHR ''='' then Inr st
          else if type_char \<noteq> CHR ''m'' then
            (case ps_current st of
               Some m \<Rightarrow> and_then (media_field type_char value m) (\<lambda>m. Inr (st\<lparr>ps_current := Some m\<rparr>))
             | None \<Rightarrow> session_field type_char value st)
          else new_media value st
      | _ \<Rightarrow> Inr st)"

fun sdp_lines_parse :: "string list \<Rightarrow> sdp_state \<Rightarrow> sdp_parse_error + sdp_state" where
  "sdp_lines_parse [] st = Inr st"
| "sdp_lines_parse (l # ls) st = and_then (sdp_line l st) (sdp_lines_parse ls)"

definition sdp_finish :: "sdp_state \<Rightarrow> sdp_parse_error + session_description" where
  "sdp_finish st =
     (let media = ps_media st @ option_list (ps_current st) in
      and_then (ok_or MissingVersion (ps_version st)) (\<lambda>version.
      and_then (ok_or MissingOrigin (ps_origin st)) (\<lambda>origin.
      and_then (ok_or MissingTiming (ps_timing st)) (\<lambda>timing.
        Inr \<lparr>sd_version = version, sd_origin = origin,
             sd_session_name = unwrap_or ''-'' (ps_session_name st), sd_session_info = ps_session_info st,
             sd_connection = ps_connection st, sd_timing = timing, sd_media = media,
             sd_attributes = ps_attributes st\<rparr>))))"

definition sdp_parse :: "string \<Rightarrow> sdp_parse_error + session_description" where
  "sdp_parse sdp = and_then (sdp_lines_parse (str_lines sdp) sdp_initial) sdp_finish"

subsection \<open>What the parser returns\<close>

text \<open>
  Well-formed descriptions: the parts that become words of a line are words, and the free text of a
  line has no line feed and no white space at its ends.
\<close>

definition plain_line :: "string \<Rightarrow> bool" where
  "plain_line l \<longleftrightarrow> tight l \<and> LF \<notin> set l"

definition origin_ok :: "sdp_origin \<Rightarrow> bool" where
  "origin_ok o' \<longleftrightarrow> word_text (so_username o') \<and> word_text (so_session_id o') \<and> word_text (so_session_version o')
     \<and> word_text (so_net_type o') \<and> word_text (so_addr_type o') \<and> word_text (so_unicast_address o')"

definition connection_ok :: "sdp_connection \<Rightarrow> bool" where
  "connection_ok c \<longleftrightarrow> word_text (sn_net_type c) \<and> word_text (sn_addr_type c) \<and> word_text (sn_address c)"

definition timing_ok :: "sdp_timing \<Rightarrow> bool" where
  "timing_ok t \<longleftrightarrow> st_start t < 2 ^ 64 \<and> st_stop t < 2 ^ 64"

definition attribute_text :: "sdp_attribute \<Rightarrow> string" where
  "attribute_text a = at_name a @ (case at_value a of None \<Rightarrow> [] | Some v \<Rightarrow> '':'' @ v)"

definition attribute_ok :: "sdp_attribute \<Rightarrow> bool" where
  "attribute_ok a \<longleftrightarrow> CHR '':'' \<notin> set (at_name a) \<and> plain_line (''a='' @ attribute_text a)"

definition bandwidth_ok :: "(string, nat) fmap \<Rightarrow> bool" where
  "bandwidth_ok b \<longleftrightarrow> (\<forall>k v. fmlookup b k = Some v \<longrightarrow> CHR '':'' \<notin> set k \<and> LF \<notin> set k \<and> v < 2 ^ 32)"

definition media_ok :: "media_description \<Rightarrow> bool" where
  "media_ok m \<longleftrightarrow> md_port m < 2 ^ 16 \<and> word_text (md_protocol m) \<and> md_formats m \<noteq> []
     \<and> list_all word_text (md_formats m) \<and> pred_option connection_ok (md_connection m)
     \<and> bandwidth_ok (md_bandwidth m) \<and> list_all attribute_ok (md_attributes m)"

definition sdp_ok :: "session_description \<Rightarrow> bool" where
  "sdp_ok sd \<longleftrightarrow> sd_version sd < 2 ^ 8 \<and> origin_ok (sd_origin sd)
     \<and> plain_line (''s='' @ sd_session_name sd) \<and> pred_option (\<lambda>i. plain_line (''i='' @ i)) (sd_session_info sd)
     \<and> pred_option connection_ok (sd_connection sd) \<and> timing_ok (sd_timing sd)
     \<and> list_all attribute_ok (sd_attributes sd) \<and> list_all media_ok (sd_media sd)"

definition state_ok :: "sdp_state \<Rightarrow> bool" where
  "state_ok st \<longleftrightarrow> pred_option (\<lambda>v. v < 2 ^ 8) (ps_version st) \<and> pred_option origin_ok (ps_origin st)
     \<and> pred_option (\<lambda>i. plain_line (''s='' @ i)) (ps_session_name st)
     \<and> pred_option (\<lambda>i. plain_line (''i='' @ i)) (ps_session_info st)
     \<and> pred_option connection_ok (ps_connection st) \<and> pred_option timing_ok (ps_timing st)
     \<and> list_all attribute_ok (ps_attributes st) \<and> list_all media_ok (ps_media st)
     \<and> pred_option media_ok (ps_current st)"

lemma set_option_list [simp]: "x \<in> set (option_list y) \<longleftrightarrow> y = Some x"
  by (cases y) (auto simp: option_list_def)

lemma split_once_absent [simp]: "c \<notin> set s \<Longrightarrow> split_once c s = None"
  by simp

lemma split_whitespace_mem: "split_whitespace s = ws \<Longrightarrow> w \<in> set ws \<Longrightarrow> word_text w"
  using split_whitespace_word_text by blast

lemma origin_parse_ok: "origin_parse v = Inr x \<Longrightarrow> origin_ok x"
  by (auto simp: origin_parse_def origin_ok_def split: list.splits intro: split_whitespace_mem)

lemma connection_parse_ok: "connection_parse v = Inr x \<Longrightarrow> connection_ok x"
  by (auto simp: connection_parse_def connection_ok_def split: list.splits intro: split_whitespace_mem)

lemma unwrap_or_bound: "d < b \<Longrightarrow> unwrap_or d (parse_uint b s) < b"
  using parse_uint_bound [of b s] by (cases "parse_uint b s") (simp_all add: unwrap_or_def)

lemma timing_parse_ok: "timing_parse v = Inr x \<Longrightarrow> timing_ok x"
  by (auto simp: timing_parse_def timing_ok_def unwrap_or_bound split: list.splits)

lemma port_parse_bound: "port_parse s = Inr (p, n) \<Longrightarrow> p < 2 ^ 16"
  by (auto simp: port_parse_def and_then_Inr_iff split: option.splits dest: parse_uint_bound)

lemma media_parse_ok: "media_parse v = Inr m \<Longrightarrow> media_ok m"
  using port_parse_bound
  by (fastforce simp: media_parse_def media_ok_def bandwidth_ok_def and_then_Inr_iff list_all_iff
    split: list.splits intro: split_whitespace_mem)

lemma attribute_text_parse [simp]: "attribute_text (attribute_parse v) = v"
  by (auto simp: attribute_text_def attribute_parse_def split_once_Some split: option.splits)

lemma attribute_parse_ok: "plain_line (''a='' @ v) \<Longrightarrow> attribute_ok (attribute_parse v)"
  by (auto simp: attribute_ok_def) (auto simp: attribute_parse_def split_once_Some split: option.splits)

lemma media_field_ok:
  assumes "media_field t v m = Inr m'" "media_ok m" "plain_line (t # ''='' @ v)"
  shows "media_ok m'"
  using assms
  by (auto simp: media_field_def media_ok_def and_then_Inr_iff bandwidth_ok_def split_once_Some plain_line_def
      unwrap_or_bound attribute_parse_ok [unfolded plain_line_def] split: if_splits option.splits
      dest: connection_parse_ok)

lemma session_field_ok:
  assumes "session_field t v st = Inr st'" "state_ok st" "plain_line (t # ''='' @ v)"
  shows "state_ok st'"
  using assms
  by (auto simp: session_field_def state_ok_def and_then_Inr_iff attribute_parse_ok split: if_splits
      dest: connection_parse_ok origin_parse_ok timing_parse_ok parse_uint_bound)

lemma new_media_ok:
  assumes "new_media v st = Inr st'" "state_ok st" shows "state_ok st'"
  using assms media_parse_ok
  by (auto simp: new_media_def state_ok_def option_list_def and_then_Inr_iff Let_def split: option.splits)

lemma sdp_line_ok:
  assumes "sdp_line l st = Inr st'" "state_ok st" "LF \<notin> set l"
  shows "state_ok st'"
proof -
  have plain: "plain_line (trim l)" using assms(3) set_trim_subset [of l] by (auto simp: plain_line_def)
  consider "st' = st" | t v where "trim l = t # CHR ''='' # v" "is_ascii_alphabetic t"
    using assms(1) by (auto simp: sdp_line_def split: list.splits if_splits)
  then show ?thesis
  proof cases
    case 2
    then have p: "plain_line (t # ''='' @ v)" using plain by simp
    show ?thesis
    proof (cases "t = CHR ''m''")
      case True
      with 2 assms new_media_ok show ?thesis by (auto simp: sdp_line_def)
    next
      case False
      show ?thesis
      proof (cases "ps_current st")
        case None
        with False 2 assms session_field_ok [OF _ assms(2) p] show ?thesis by (auto simp: sdp_line_def)
      next
        case (Some m)
        with False 2 assms(1) obtain m' where "media_field t v m = Inr m'" "st' = st\<lparr>ps_current := Some m'\<rparr>"
          by (auto simp: sdp_line_def and_then_Inr_iff)
        moreover have "media_ok m" using assms(2) Some by (simp add: state_ok_def)
        ultimately show ?thesis using media_field_ok [OF _ _ p] assms(2) by (auto simp: state_ok_def)
      qed
    qed
  qed (use assms(2) in simp)
qed

lemma sdp_lines_parse_ok:
  "sdp_lines_parse ls st = Inr st' \<Longrightarrow> state_ok st \<Longrightarrow> \<forall>l \<in> set ls. LF \<notin> set l \<Longrightarrow> state_ok st'"
  by (induction ls arbitrary: st) (auto simp: and_then_Inr_iff dest: sdp_line_ok)

lemma str_lines_aux_no_LF: "LF \<notin> set cur \<Longrightarrow> l \<in> set (str_lines_aux cur s) \<Longrightarrow> LF \<notin> set l"
proof (induction cur s rule: str_lines_aux.induct)
  case (2 cur x xs)
  have "LF \<notin> set (strip_cr (rev cur))" using 2(3) in_set_butlastD [of LF "rev cur"] by (auto simp: strip_cr_def)
  with 2 show ?case by (auto split: if_splits)
qed (auto split: if_splits)

lemma str_lines_no_LF: "l \<in> set (str_lines s) \<Longrightarrow> LF \<notin> set l"
  using str_lines_aux_no_LF [of "[]" l s] by (simp add: str_lines_def)

lemma sdp_finish_ok: "sdp_finish st = Inr sd \<Longrightarrow> state_ok st \<Longrightarrow> sdp_ok sd"
proof -
  have "plain_line ''s=-''" by (simp add: plain_line_def tight_graphic LF_def ascii_simps)
  then show "sdp_finish st = Inr sd \<Longrightarrow> state_ok st \<Longrightarrow> sdp_ok sd"
    by (auto simp: sdp_finish_def state_ok_def sdp_ok_def and_then_Inr_iff unwrap_or_def option_list_def Let_def
      split: option.splits)
qed

lemma sdp_parse_ok: "sdp_parse s = Inr sd \<Longrightarrow> sdp_ok sd"
proof -
  assume "sdp_parse s = Inr sd"
  then obtain st where st: "sdp_lines_parse (str_lines s) sdp_initial = Inr st" "sdp_finish st = Inr sd"
    by (auto simp: sdp_parse_def and_then_Inr_iff)
  have "state_ok sdp_initial" by (simp add: state_ok_def sdp_initial_def)
  from sdp_finish_ok [OF st(2) sdp_lines_parse_ok [OF st(1) this]] str_lines_no_LF show ?thesis by blast
qed

end
