(* ===== verification/Sdp_Display.thy ===== *)
theory Sdp_Display
  imports Sdp_Parser
begin

section \<open>Building and printing session descriptions\<close>

text \<open>
  The builders and the text form of session descriptions, \<open>sdp/builder.rs\<close>. A random session
  identifier is an argument. The lemmas: the text of a well-formed description is parsed back to the
  description, apart from the number of ports of a media line, which the text does not carry; and
  what the parser returns is always well-formed.
\<close>

subsection \<open>Builders\<close>

record media_builder =
  mb_media_type :: media_type
  mb_port :: nat
  mb_protocol :: string
  mb_formats :: "string list"
  mb_direction :: direction
  mb_rtpmaps :: "(nat \<times> string \<times> nat \<times> nat option) list"
  mb_fmtps :: "(nat \<times> string) list"
  mb_ptime :: "nat option"

definition mb_audio :: "nat \<Rightarrow> media_builder" where
  "mb_audio port = \<lparr>mb_media_type = MtAudio, mb_port = port, mb_protocol = ''RTP/AVP'', mb_formats = [],
     mb_direction = SendRecv, mb_rtpmaps = [], mb_fmtps = [], mb_ptime = None\<rparr>"

definition mb_with_protocol :: "string \<Rightarrow> media_builder \<Rightarrow> media_builder" where
  "mb_with_protocol protocol b = b\<lparr>mb_protocol := protocol\<rparr>"

definition mb_with_direction :: "direction \<Rightarrow> media_builder \<Rightarrow> media_builder" where
  "mb_with_direction d b = b\<lparr>mb_direction := d\<rparr>"

definition mb_codec :: "nat \<Rightarrow> string \<Rightarrow> nat \<Rightarrow> nat option \<Rightarrow> media_builder \<Rightarrow> media_builder" where
  "mb_codec pt encoding clock_rate channels b =
     b\<lparr>mb_formats := mb_formats b @ [to_dec pt], mb_rtpmaps := mb_rtpmaps b @ [(pt, encoding, clock_rate, channels)]\<rparr>"

definition mb_pcmu :: "media_builder \<Rightarrow> media_builder" where
  "mb_pcmu b = b\<lparr>mb_formats := mb_formats b @ [''0''], mb_rtpmaps := mb_rtpmaps b @ [(0, ''PCMU'', 8000, None)]\<rparr>"

definition mb_pcma :: "media_builder \<Rightarrow> media_builder" where
  "mb_pcma b = b\<lparr>mb_formats := mb_formats b @ [''8''], mb_rtpmaps := mb_rtpmaps b @ [(8, ''PCMA'', 8000, None)]\<rparr>"

definition mb_g722 :: "media_builder \<Rightarrow> media_builder" where
  "mb_g722 b = b\<lparr>mb_formats := mb_formats b @ [''9''], mb_rtpmaps := mb_rtpmaps b @ [(9, ''G722'', 8000, None)]\<rparr>"

definition mb_fmtp :: "nat \<Rightarrow> string \<Rightarrow> media_builder \<Rightarrow> media_builder" where
  "mb_fmtp pt params b = b\<lparr>mb_fmtps := mb_fmtps b @ [(pt, params)]\<rparr>"

definition mb_telephone_event :: "nat \<Rightarrow> media_builder \<Rightarrow> media_builder" where
  "mb_telephone_event pt b =
     b\<lparr>mb_formats := mb_formats b @ [to_dec pt], mb_rtpmaps := mb_rtpmaps b @ [(pt, ''telephone-event'', 8000, None)],
       mb_fmtps := mb_fmtps b @ [(pt, ''0-16'')]\<rparr>"

definition mb_with_ptime :: "nat \<Rightarrow> media_builder \<Rightarrow> media_builder" where
  "mb_with_ptime ptime b = b\<lparr>mb_ptime := Some ptime\<rparr>"

fun direction_text :: "direction \<Rightarrow> string" where
  "direction_text SendRecv = ''sendrecv''"
| "direction_text SendOnly = ''sendonly''"
| "direction_text RecvOnly = ''recvonly''"
| "direction_text Inactive = ''inactive''"

fun rtpmap_text :: "nat \<times> string \<times> nat \<times> nat option \<Rightarrow> string" where
  "rtpmap_text (pt, encoding, rate, channels) =
     to_dec pt @ '' '' @ encoding @ ''/'' @ to_dec rate @ (case channels of None \<Rightarrow> [] | Some ch \<Rightarrow> ''/'' @ to_dec ch)"

definition mb_build :: "media_builder \<Rightarrow> media_description" where
  "mb_build b =
     \<lparr>md_media_type = mb_media_type b, md_port = mb_port b, md_num_ports = None, md_protocol = mb_protocol b,
      md_formats = mb_formats b, md_connection = None, md_bandwidth = fmempty,
      md_attributes =
        map (\<lambda>r. \<lparr>at_name = ''rtpmap'', at_value = Some (rtpmap_text r)\<rparr>) (mb_rtpmaps b)
        @ map (\<lambda>(pt, params). \<lparr>at_name = ''fmtp'', at_value = Some (to_dec pt @ '' '' @ params)\<rparr>) (mb_fmtps b)
        @ map (\<lambda>ptime. \<lparr>at_name = ''ptime'', at_value = Some (to_dec ptime)\<rparr>) (option_list (mb_ptime b))
        @ [\<lparr>at_name = direction_text (mb_direction b), at_value = None\<rparr>]\<rparr>"

record sdp_builder =
  sb_username :: string
  sb_session_id :: nat
  sb_session_version :: nat
  sb_local_addr :: ip_addr
  sb_session_name :: string
  sb_media :: "media_builder list"

definition sdp_builder_new :: "ip_addr \<Rightarrow> nat \<Rightarrow> sdp_builder" where
  "sdp_builder_new local_addr session_id =
     \<lparr>sb_username = ''-'', sb_session_id = session_id, sb_session_version = 1, sb_local_addr = local_addr,
      sb_session_name = ''-'', sb_media = []\<rparr>"

definition sb_add_media :: "media_builder \<Rightarrow> sdp_builder \<Rightarrow> sdp_builder" where
  "sb_add_media media b = b\<lparr>sb_media := sb_media b @ [media]\<rparr>"

definition sb_audio :: "nat \<Rightarrow> sdp_builder \<Rightarrow> sdp_builder" where
  "sb_audio port b = b\<lparr>sb_media := sb_media b @ [mb_audio port]\<rparr>"

definition sdp_build :: "sdp_builder \<Rightarrow> session_description" where
  "sdp_build b =
     (let addr_type = (if is_ipv4 (sb_local_addr b) then ''IP4'' else ''IP6'') in
      \<lparr>sd_version = 0,
       sd_origin = \<lparr>so_username = sb_username b, so_session_id = to_dec (sb_session_id b),
         so_session_version = to_dec (sb_session_version b), so_net_type = ''IN'', so_addr_type = addr_type,
         so_unicast_address = ip_text (sb_local_addr b)\<rparr>,
       sd_session_name = sb_session_name b, sd_session_info = None,
       sd_connection = Some \<lparr>sn_net_type = ''IN'', sn_addr_type = addr_type, sn_address = ip_text (sb_local_addr b)\<rparr>,
       sd_timing = \<lparr>st_start = 0, st_stop = 0\<rparr>, sd_media = map mb_build (sb_media b), sd_attributes = []\<rparr>)"

subsection \<open>Display\<close>

fun media_type_text :: "media_type \<Rightarrow> string" where
  "media_type_text MtAudio = ''audio''"
| "media_type_text MtVideo = ''video''"
| "media_type_text MtApplication = ''application''"
| "media_type_text MtMessage = ''message''"
| "media_type_text MtOther = ''other''"

definition connection_line :: "sdp_connection \<Rightarrow> string" where
  "connection_line c = ''c='' @ sn_net_type c @ '' '' @ sn_addr_type c @ '' '' @ sn_address c"

definition attribute_line :: "sdp_attribute \<Rightarrow> string" where
  "attribute_line a =
     (case at_value a of
        Some v \<Rightarrow> ''a='' @ at_name a @ '':'' @ v
      | None \<Rightarrow> ''a='' @ at_name a)"

definition media_line :: "media_description \<Rightarrow> string" where
  "media_line m = ''m='' @ media_type_text (md_media_type m) @ '' '' @ to_dec (md_port m) @ '' '' @ md_protocol m
     @ concat (map (\<lambda>f. '' '' @ f) (md_formats m))"

definition bandwidth_lines :: "(string, nat) fmap \<Rightarrow> string list" where
  "bandwidth_lines b = map (\<lambda>(btype, bw). ''b='' @ btype @ '':'' @ to_dec bw) (sorted_list_of_fmap b)"

text \<open>The lines of a media section and of the whole description, and the text with its line ends.\<close>

definition write_media :: "media_description \<Rightarrow> string list" where
  "write_media m = [media_line m] @ map connection_line (option_list (md_connection m))
     @ bandwidth_lines (md_bandwidth m) @ map attribute_line (md_attributes m)"

definition origin_line :: "sdp_origin \<Rightarrow> string" where
  "origin_line x = ''o='' @ so_username x @ '' '' @ so_session_id x @ '' '' @ so_session_version x @ '' ''
     @ so_net_type x @ '' '' @ so_addr_type x @ '' '' @ so_unicast_address x"

definition timing_line :: "sdp_timing \<Rightarrow> string" where
  "timing_line t = ''t='' @ to_dec (st_start t) @ '' '' @ to_dec (st_stop t)"

definition sdp_display_lines :: "session_description \<Rightarrow> string list" where
  "sdp_display_lines sd = [''v='' @ to_dec (sd_version sd), origin_line (sd_origin sd), ''s='' @ sd_session_name sd]
     @ map (\<lambda>info. ''i='' @ info) (option_list (sd_session_info sd))
     @ map connection_line (option_list (sd_connection sd))
     @ [timing_line (sd_timing sd)]
     @ map attribute_line (sd_attributes sd)
     @ concat (map write_media (sd_media sd))"

definition sdp_display :: "session_description \<Rightarrow> string" where
  "sdp_display sd = concat (map writeln (sdp_display_lines sd))"

definition sdp_build_string :: "sdp_builder \<Rightarrow> string" where
  "sdp_build_string b = sdp_display (sdp_build b)"

subsection \<open>Lines of well-formed descriptions\<close>

lemma not_LF [simp]: "32 \<le> code c \<Longrightarrow> LF \<noteq> c" "32 \<le> code c \<Longrightarrow> c \<noteq> LF"
  by (auto simp: LF_def code_octet)

lemma graphic_word_no_LF: "graphic s \<Longrightarrow> LF \<notin> set s"
  by (auto simp: graphic_def LF_def code_octet)

lemma plain_line_words:
  assumes "33 \<le> code c" "code c \<le> 126" "LF \<notin> set s" "word_text w" "code d < 128" "d \<noteq> LF"
  shows "plain_line (c # s @ d # w)"
  using assms tight_line_word [of c w d s] word_text_no_LF [of w] by (auto simp: plain_line_def)

lemma plain_line_graphic: "graphic l \<Longrightarrow> plain_line l"
  by (simp add: plain_line_def tight_graphic graphic_word_no_LF)

lemma origin_line_plain: "origin_ok x \<Longrightarrow> plain_line (origin_line x)"
  using plain_line_words [of "CHR ''o''" "''='' @ so_username x @ '' '' @ so_session_id x @ '' '' @ so_session_version x @ '' ''
     @ so_net_type x @ '' '' @ so_addr_type x" "so_unicast_address x" "CHR '' ''"]
  by (auto simp: origin_line_def origin_ok_def word_text_no_LF)

lemma connection_line_plain: "connection_ok c \<Longrightarrow> plain_line (connection_line c)"
  using plain_line_words [of "CHR ''c''" "''='' @ sn_net_type c @ '' '' @ sn_addr_type c" "sn_address c" "CHR '' ''"]
  by (auto simp: connection_line_def connection_ok_def word_text_no_LF)

lemma timing_line_plain: "plain_line (timing_line t)"
  using plain_line_words [of "CHR ''t''" "''='' @ to_dec (st_start t)" "to_dec (st_stop t)" "CHR '' ''"]
  by (auto simp: timing_line_def graphic_word_no_LF)

lemma attribute_line_text: "attribute_line a = ''a='' @ attribute_text a"
  by (simp add: attribute_line_def attribute_text_def split: option.split)

lemma bandwidth_line_plain:
  assumes "LF \<notin> set k" shows "plain_line (''b='' @ k @ '':'' @ to_dec v)"
  using assms plain_line_words [of "CHR ''b''" "''='' @ k" "to_dec v" "CHR '':''"] by auto

lemma fmlookup_sorted_list: "(k, v) \<in> set (sorted_list_of_fmap b) \<Longrightarrow> fmlookup b k = Some v"
  by (auto simp: sorted_list_of_fmap_def fmlookup_dom_iff)

lemma media_line_plain:
  assumes "media_ok m" shows "plain_line (media_line m)"
proof -
  obtain fs f where f: "md_formats m = fs @ [f]" using assms by (cases "md_formats m" rule: rev_cases) (auto simp: media_ok_def)
  have "graphic (media_type_text t)" for t by (cases t) simp_all
  then have "LF \<notin> set (''='' @ media_type_text (md_media_type m) @ '' '' @ to_dec (md_port m) @ '' '' @ md_protocol m
      @ concat (map (\<lambda>f. '' '' @ f) fs))"
    using assms f by (auto simp: media_ok_def graphic_word_no_LF word_text_no_LF list_all_iff)
  from plain_line_words [OF _ _ this, of "CHR ''m''" f "CHR '' ''"] assms f show ?thesis
    by (simp add: media_line_def media_ok_def)
qed

lemma bandwidth_lines_plain:
  assumes "bandwidth_ok b" "l \<in> set (bandwidth_lines b)" shows "plain_line l"
proof -
  obtain k v where "(k, v) \<in> set (sorted_list_of_fmap b)" "l = ''b='' @ k @ '':'' @ to_dec v"
    using assms(2) by (auto simp: bandwidth_lines_def)
  then show ?thesis using assms(1) fmlookup_sorted_list [of k v b] bandwidth_line_plain [of k v]
    by (auto simp: bandwidth_ok_def)
qed

lemma attribute_line_plain: "attribute_ok a \<Longrightarrow> plain_line (attribute_line a)"
  by (simp add: attribute_line_text attribute_ok_def)

lemma write_media_plain:
  assumes "media_ok m" "l \<in> set (write_media m)" shows "plain_line l"
proof -
  consider "l = media_line m" | c where "md_connection m = Some c" "l = connection_line c"
    | "l \<in> set (bandwidth_lines (md_bandwidth m))" | a where "a \<in> set (md_attributes m)" "l = attribute_line a"
    using assms(2) by (auto simp: write_media_def)
  then show ?thesis
    using assms(1)
    by cases (auto simp: media_line_plain media_ok_def list_all_iff
      intro: connection_line_plain bandwidth_lines_plain attribute_line_plain)
qed

lemma sdp_display_lines_plain:
  assumes "sdp_ok sd" "l \<in> set (sdp_display_lines sd)" shows "plain_line l"
proof -
  consider "l = ''v='' @ to_dec (sd_version sd)" | "l = origin_line (sd_origin sd)" | "l = ''s='' @ sd_session_name sd"
    | i where "sd_session_info sd = Some i" "l = ''i='' @ i"
    | c where "sd_connection sd = Some c" "l = connection_line c"
    | "l = timing_line (sd_timing sd)" | a where "a \<in> set (sd_attributes sd)" "l = attribute_line a"
    | m where "m \<in> set (sd_media sd)" "l \<in> set (write_media m)"
    using assms(2) by (auto simp: sdp_display_lines_def)
  then show ?thesis
    using assms(1)
    by cases (auto simp: sdp_ok_def list_all_iff plain_line_graphic timing_line_plain
      intro: origin_line_plain connection_line_plain attribute_line_plain write_media_plain)
qed

subsection \<open>Parsing the lines\<close>

lemma sdp_lines_parse_append:
  "sdp_lines_parse (xs @ ys) st = and_then (sdp_lines_parse xs st) (sdp_lines_parse ys)"
  by (induction xs arbitrary: st) (auto simp: and_then_def split: sum.splits)

lemma sdp_line_field:
  assumes "plain_line (t # CHR ''='' # v)" "is_ascii_alphabetic t"
  shows "sdp_line (t # CHR ''='' # v) st =
    (if t \<noteq> CHR ''m'' then
       (case ps_current st of
          Some m \<Rightarrow> and_then (media_field t v m) (\<lambda>m. Inr (st\<lparr>ps_current := Some m\<rparr>))
        | None \<Rightarrow> session_field t v st)
     else new_media v st)"
  using assms by (simp add: sdp_line_def plain_line_def)

lemma alphabetic_types [simp]:
  "is_ascii_alphabetic CHR ''v''" "is_ascii_alphabetic CHR ''o''" "is_ascii_alphabetic CHR ''s''"
  "is_ascii_alphabetic CHR ''i''" "is_ascii_alphabetic CHR ''c''" "is_ascii_alphabetic CHR ''t''"
  "is_ascii_alphabetic CHR ''a''" "is_ascii_alphabetic CHR ''m''" "is_ascii_alphabetic CHR ''b''"
  by (simp_all add: is_ascii_alphabetic_def is_ascii_upper_def is_ascii_lower_def)

lemma join_space: "join '' '' (x # xs) = x @ concat (map (\<lambda>f. '' '' @ f) xs)"
  by (induction xs arbitrary: x) auto

lemma origin_parse_line: "origin_ok x \<Longrightarrow> origin_parse (drop 2 (origin_line x)) = Inr x"
proof -
  assume ok: "origin_ok x"
  let ?ws = "[so_username x, so_session_id x, so_session_version x, so_net_type x, so_addr_type x, so_unicast_address x]"
  have "split_whitespace (join '' '' ?ws) = ?ws"
    using ok by (intro split_whitespace_join) (auto simp: origin_ok_def)
  moreover have "drop 2 (origin_line x) = join '' '' ?ws" by (simp add: origin_line_def)
  ultimately show ?thesis by (simp add: origin_parse_def)
qed

lemma connection_parse_line: "connection_ok c \<Longrightarrow> connection_parse (drop 2 (connection_line c)) = Inr c"
proof -
  assume ok: "connection_ok c"
  let ?ws = "[sn_net_type c, sn_addr_type c, sn_address c]"
  have "split_whitespace (join '' '' ?ws) = ?ws"
    using ok by (intro split_whitespace_join) (auto simp: connection_ok_def)
  moreover have "drop 2 (connection_line c) = join '' '' ?ws" by (simp add: connection_line_def)
  ultimately show ?thesis by (simp add: connection_parse_def)
qed

lemma timing_parse_line: "timing_ok t \<Longrightarrow> timing_parse (drop 2 (timing_line t)) = Inr t"
proof -
  assume ok: "timing_ok t"
  let ?ws = "[to_dec (st_start t), to_dec (st_stop t)]"
  have "split_whitespace (join '' '' ?ws) = ?ws" by (intro split_whitespace_join) simp
  moreover have "drop 2 (timing_line t) = join '' '' ?ws" by (simp add: timing_line_def)
  ultimately show ?thesis using ok by (simp add: timing_parse_def timing_ok_def unwrap_or_def)
qed

lemma attribute_parse_text: "CHR '':'' \<notin> set (at_name a) \<Longrightarrow> attribute_parse (attribute_text a) = a"
  by (cases "at_value a") (simp_all add: attribute_parse_def attribute_text_def)

lemma media_type_from_text: "media_type_from (media_type_text t) = t"
  by (cases t) (simp_all add: media_type_from_def to_ascii_lowercase_def ascii_lower_def is_ascii_upper_def Let_def)

text \<open>What the text keeps of a media description.\<close>

definition without_ports :: "media_description \<Rightarrow> media_description" where
  "without_ports m = m\<lparr>md_num_ports := None\<rparr>"

lemma media_parse_line:
  assumes "media_ok m"
  shows "media_parse (drop 2 (media_line m)) = Inr ((without_ports m)\<lparr>md_connection := None, md_bandwidth := fmempty,
    md_attributes := []\<rparr>)"
proof -
  let ?ws = "media_type_text (md_media_type m) # to_dec (md_port m) # md_protocol m # md_formats m"
  have "graphic (media_type_text t) \<and> media_type_text t \<noteq> []" for t by (cases t) simp_all
  then have "split_whitespace (join '' '' ?ws) = ?ws"
    using assms by (intro split_whitespace_join) (auto simp: media_ok_def list_all_iff word_text_graphic)
  moreover have "drop 2 (media_line m) = join '' '' ?ws" by (simp add: media_line_def join_space)
  moreover have "port_parse (to_dec (md_port m)) = Inr (md_port m, None)"
    using assms by (simp add: port_parse_def media_ok_def)
  moreover obtain f fs where "md_formats m = f # fs" using assms by (cases "md_formats m") (auto simp: media_ok_def)
  ultimately show ?thesis by (simp add: media_parse_def media_type_from_text without_ports_def)
qed


subsection \<open>Round trip\<close>

text \<open>A line whose field does not start a media section, read inside such a section or before any.\<close>

lemma media_lines_parse:
  assumes "\<And>x m. x \<in> set xs \<Longrightarrow> plain_line (t # CHR ''='' # f x) \<and> media_field t (f x) m = Inr (g x m)"
    and "is_ascii_alphabetic t" "t \<noteq> CHR ''m''" "ps_current st = Some m"
  shows "sdp_lines_parse (map (\<lambda>x. t # CHR ''='' # f x) xs) st = Inr (st\<lparr>ps_current := Some (foldl (\<lambda>m x. g x m) m xs)\<rparr>)"
  using assms(1,4)
proof (induction xs arbitrary: st m)
  case Nil
  then show ?case by simp
next
  case (Cons x xs)
  have "sdp_line (t # CHR ''='' # f x) st = Inr (st\<lparr>ps_current := Some (g x m)\<rparr>)"
    using Cons.prems assms(2,3) by (simp add: sdp_line_field)
  moreover have "sdp_lines_parse (map (\<lambda>x. t # CHR ''='' # f x) xs) (st\<lparr>ps_current := Some (g x m)\<rparr>)
      = Inr (st\<lparr>ps_current := Some (g x m)\<rparr>\<lparr>ps_current := Some (foldl (\<lambda>m x. g x m) (g x m) xs)\<rparr>)"
    by (rule Cons.IH) (use Cons.prems(1) in auto)
  ultimately show ?case by simp
qed

lemma foldl_attributes: "foldl (\<lambda>m a. m\<lparr>md_attributes := md_attributes m @ [a]\<rparr>) m as = m\<lparr>md_attributes := md_attributes m @ as\<rparr>"
  by (induction as arbitrary: m) simp_all

lemma foldl_bandwidth:
  "foldl (\<lambda>m (k, v). m\<lparr>md_bandwidth := fmupd k v (md_bandwidth m)\<rparr>) m kvs
     = m\<lparr>md_bandwidth := foldl (\<lambda>b (k, v). fmupd k v b) (md_bandwidth m) kvs\<rparr>"
  by (induction kvs arbitrary: m) (simp_all add: split_beta)

lemma fmlookup_foldl_fmupd:
  "distinct (map fst kvs) \<Longrightarrow>
     fmlookup (foldl (\<lambda>b (k, v). fmupd k v b) b kvs) k = (case map_of kvs k of Some v \<Rightarrow> Some v | None \<Rightarrow> fmlookup b k)"
proof (induction kvs arbitrary: b)
  case (Cons kv kvs)
  obtain k' v' where kv: "kv = (k', v')" by (cases kv)
  then have "k' \<notin> fst ` set kvs" using Cons.prems by simp
  then have "map_of kvs k' = None" by (simp add: map_of_eq_None_iff)
  with Cons kv show ?case by (cases "k = k'") (simp_all split: option.split)
qed simp

lemma map_of_sorted_list_of_fmap: "map_of (sorted_list_of_fmap b) = fmlookup b"
proof
  fix k
  show "map_of (sorted_list_of_fmap b) k = fmlookup b k"
    by (cases "fmlookup b k")
      (auto simp: sorted_list_of_fmap_def map_of_map_restrict restrict_map_def fmlookup_dom_iff fmdom_notI)
qed

lemma bandwidth_rebuilt: "foldl (\<lambda>b (k, v). fmupd k v b) fmempty (sorted_list_of_fmap b) = b"
proof (rule fmap_ext)
  have "distinct (map fst (sorted_list_of_fmap b))" by (simp add: sorted_list_of_fmap_def comp_def sorted_list_of_fset.rep_eq)
  then show "fmlookup (foldl (\<lambda>b (k, v). fmupd k v b) fmempty (sorted_list_of_fmap b)) k = fmlookup b k" for k
    by (simp add: fmlookup_foldl_fmupd map_of_sorted_list_of_fmap split: option.split)
qed

lemma attribute_lines_parse:
  assumes "list_all attribute_ok as" "ps_current st = Some m"
  shows "sdp_lines_parse (map attribute_line as) st = Inr (st\<lparr>ps_current := Some (m\<lparr>md_attributes := md_attributes m @ as\<rparr>)\<rparr>)"
proof -
  have line: "attribute_line = (\<lambda>a. CHR ''a'' # CHR ''='' # attribute_text a)"
    by (simp add: fun_eq_iff attribute_line_text)
  have "sdp_lines_parse (map (\<lambda>a. CHR ''a'' # CHR ''='' # attribute_text a) as) st
      = Inr (st\<lparr>ps_current := Some (foldl (\<lambda>m a. m\<lparr>md_attributes := md_attributes m @ [a]\<rparr>) m as)\<rparr>)"
    by (rule media_lines_parse [OF _ _ _ assms(2)])
      (use assms(1) in \<open>auto simp: list_all_iff attribute_ok_def media_field_def attribute_parse_text\<close>)
  then show ?thesis unfolding line by (simp add: foldl_attributes)
qed

lemma bandwidth_lines_parse:
  assumes "bandwidth_ok b" "ps_current st = Some m" "md_bandwidth m = fmempty"
  shows "sdp_lines_parse (bandwidth_lines b) st = Inr (st\<lparr>ps_current := Some (m\<lparr>md_bandwidth := b\<rparr>)\<rparr>)"
proof -
  let ?f = "\<lambda>(k, v). k @ '':'' @ to_dec v"
  have "bandwidth_lines b = map (\<lambda>x. CHR ''b'' # CHR ''='' # ?f x) (sorted_list_of_fmap b)"
    by (simp add: bandwidth_lines_def split_beta)
  moreover have "sdp_lines_parse (map (\<lambda>x. CHR ''b'' # CHR ''='' # ?f x) (sorted_list_of_fmap b)) st
      = Inr (st\<lparr>ps_current := Some (foldl (\<lambda>m x. (case x of (k, v) \<Rightarrow> m\<lparr>md_bandwidth := fmupd k v (md_bandwidth m)\<rparr>)) m (sorted_list_of_fmap b))\<rparr>)"
  proof (rule media_lines_parse [OF _ _ _ assms(2)])
    fix x m assume x: "x \<in> set (sorted_list_of_fmap b)"
    obtain k v where kv: "x = (k, v)" by (cases x)
    have "fmlookup b k = Some v" using x kv fmlookup_sorted_list [of k v b] by simp
    then have "CHR '':'' \<notin> set k" "LF \<notin> set k" "v < 2 ^ 32" using assms(1) by (auto simp: bandwidth_ok_def)
    then show "plain_line (CHR ''b'' # CHR ''='' # ?f x) \<and>
        media_field CHR ''b'' (?f x) m = Inr (case x of (k, v) \<Rightarrow> m\<lparr>md_bandwidth := fmupd k v (md_bandwidth m)\<rparr>)"
      using bandwidth_line_plain [of k v] kv by (simp add: media_field_def unwrap_or_def)
  qed simp_all
  ultimately show ?thesis using assms(3) foldl_bandwidth [of m "sorted_list_of_fmap b"]
    by (simp add: bandwidth_rebuilt)
qed

lemma write_media_parse:
  assumes "media_ok m"
  shows "sdp_lines_parse (write_media m) st =
    Inr (st\<lparr>ps_media := ps_media st @ option_list (ps_current st), ps_current := Some (without_ports m)\<rparr>)"
proof -
  let ?m0 = "(without_ports m)\<lparr>md_connection := None, md_bandwidth := fmempty, md_attributes := []\<rparr>"
  let ?st0 = "st\<lparr>ps_media := ps_media st @ option_list (ps_current st), ps_current := Some ?m0\<rparr>"
  let ?m1 = "?m0\<lparr>md_connection := md_connection m\<rparr>"
  have "media_line m = CHR ''m'' # CHR ''='' # drop 2 (media_line m)" by (simp add: media_line_def)
  then have 1: "sdp_line (media_line m) st = Inr ?st0"
    using sdp_line_field [of "CHR ''m''" "drop 2 (media_line m)" st] media_line_plain [OF assms]
    by (simp add: new_media_def media_parse_line [OF assms])
  have 2: "sdp_lines_parse (map connection_line (option_list (md_connection m))) ?st0 = Inr (?st0\<lparr>ps_current := Some ?m1\<rparr>)"
  proof (cases "md_connection m")
    case None
    then show ?thesis by (simp add: option_list_def)
  next
    case (Some c)
    then have ok: "connection_ok c" using assms by (simp add: media_ok_def)
    have "connection_line c = CHR ''c'' # CHR ''='' # drop 2 (connection_line c)" by (simp add: connection_line_def)
    with sdp_line_field [of "CHR ''c''" "drop 2 (connection_line c)" ?st0] connection_line_plain [OF ok] Some
    show ?thesis by (simp add: option_list_def media_field_def connection_parse_line [OF ok])
  qed
  have 3: "sdp_lines_parse (bandwidth_lines (md_bandwidth m)) (?st0\<lparr>ps_current := Some ?m1\<rparr>)
      = Inr (?st0\<lparr>ps_current := Some (?m1\<lparr>md_bandwidth := md_bandwidth m\<rparr>)\<rparr>)"
    using assms bandwidth_lines_parse [of "md_bandwidth m" "?st0\<lparr>ps_current := Some ?m1\<rparr>" ?m1]
    by (simp add: media_ok_def)
  have 4: "sdp_lines_parse (map attribute_line (md_attributes m)) (?st0\<lparr>ps_current := Some (?m1\<lparr>md_bandwidth := md_bandwidth m\<rparr>)\<rparr>)
      = Inr (?st0\<lparr>ps_current := Some (?m1\<lparr>md_bandwidth := md_bandwidth m, md_attributes := md_attributes m\<rparr>)\<rparr>)"
    using assms attribute_lines_parse [of "md_attributes m" "?st0\<lparr>ps_current := Some (?m1\<lparr>md_bandwidth := md_bandwidth m\<rparr>)\<rparr>"]
    by (simp add: media_ok_def)
  show ?thesis
    by (simp only: write_media_def append_Cons append_Nil sdp_lines_parse.simps sdp_lines_parse_append 1 2 3 4
      and_then_simps) (simp add: without_ports_def)
qed


lemma session_attributes_parse:
  assumes "list_all attribute_ok as" "ps_current st = None"
  shows "sdp_lines_parse (map attribute_line as) st = Inr (st\<lparr>ps_attributes := ps_attributes st @ as\<rparr>)"
  using assms
proof (induction as arbitrary: st)
  case (Cons a as)
  have "sdp_line (attribute_line a) st = Inr (st\<lparr>ps_attributes := ps_attributes st @ [a]\<rparr>)"
    using Cons.prems sdp_line_field [of "CHR ''a''" "attribute_text a" st]
    by (simp add: attribute_line_text attribute_ok_def session_field_def attribute_parse_text)
  with Cons show ?case by simp
qed simp

lemma media_sections_parse:
  assumes "list_all media_ok ms"
  shows "\<exists>media current. sdp_lines_parse (concat (map write_media ms)) st = Inr (st\<lparr>ps_media := media, ps_current := current\<rparr>)
    \<and> media @ option_list current = ps_media st @ option_list (ps_current st) @ map without_ports ms"
  using assms
proof (induction ms arbitrary: st)
  case Nil
  show ?case by (intro exI [of _ "ps_media st"] exI [of _ "ps_current st"]) simp
next
  case (Cons m ms)
  let ?st = "st\<lparr>ps_media := ps_media st @ option_list (ps_current st), ps_current := Some (without_ports m)\<rparr>"
  from Cons.IH [of ?st] Cons.prems obtain media current where
    "sdp_lines_parse (concat (map write_media ms)) ?st = Inr (?st\<lparr>ps_media := media, ps_current := current\<rparr>)"
    "media @ option_list current = ps_media ?st @ option_list (ps_current ?st) @ map without_ports ms" by auto
  with Cons.prems write_media_parse [of m st] show ?case
    by (intro exI [of _ media] exI [of _ current]) (simp add: sdp_lines_parse_append option_list_def)
qed

definition sdp_without_ports :: "session_description \<Rightarrow> session_description" where
  "sdp_without_ports sd = sd\<lparr>sd_media := map without_ports (sd_media sd)\<rparr>"

lemma session_lines_parse:
  assumes "sdp_ok sd"
  shows "sdp_lines_parse ([''v='' @ to_dec (sd_version sd), origin_line (sd_origin sd), ''s='' @ sd_session_name sd]
      @ map (\<lambda>info. ''i='' @ info) (option_list (sd_session_info sd))
      @ map connection_line (option_list (sd_connection sd)) @ [timing_line (sd_timing sd)]) sdp_initial
    = Inr (sdp_initial\<lparr>ps_version := Some (sd_version sd), ps_origin := Some (sd_origin sd),
        ps_session_name := Some (sd_session_name sd), ps_session_info := sd_session_info sd,
        ps_connection := sd_connection sd, ps_timing := Some (sd_timing sd)\<rparr>)"
proof -
  note ok = assms [unfolded sdp_ok_def]
  have lines: "origin_line (sd_origin sd) = CHR ''o'' # CHR ''='' # drop 2 (origin_line (sd_origin sd))"
      "timing_line (sd_timing sd) = CHR ''t'' # CHR ''='' # drop 2 (timing_line (sd_timing sd))"
      "connection_line c = CHR ''c'' # CHR ''='' # drop 2 (connection_line c)" for c
    by (simp_all add: origin_line_def timing_line_def connection_line_def)
  have v: "sdp_line (''v='' @ to_dec (sd_version sd)) st = Inr (st\<lparr>ps_version := Some (sd_version sd)\<rparr>)"
    if "ps_current st = None" for st
    using that ok sdp_line_field [of "CHR ''v''" "to_dec (sd_version sd)" st] plain_line_graphic [of "''v='' @ to_dec (sd_version sd)"]
    by (simp add: session_field_def)
  have o: "sdp_line (origin_line (sd_origin sd)) st = Inr (st\<lparr>ps_origin := Some (sd_origin sd)\<rparr>)"
    if "ps_current st = None" for st
    using that ok origin_line_plain [of "sd_origin sd"]
      sdp_line_field [of "CHR ''o''" "drop 2 (origin_line (sd_origin sd))" st, folded lines(1)]
    by (simp add: session_field_def origin_parse_line)
  have s: "sdp_line (''s='' @ sd_session_name sd) st = Inr (st\<lparr>ps_session_name := Some (sd_session_name sd)\<rparr>)"
    if "ps_current st = None" for st
    using that ok sdp_line_field [of "CHR ''s''" "sd_session_name sd" st] by (simp add: session_field_def)
  have i: "sdp_line (''i='' @ x) st = Inr (st\<lparr>ps_session_info := Some x\<rparr>)"
    if "ps_current st = None" "sd_session_info sd = Some x" for st x
    using that ok sdp_line_field [of "CHR ''i''" x st] by (simp add: session_field_def)
  have c: "sdp_line (connection_line x) st = Inr (st\<lparr>ps_connection := Some x\<rparr>)"
    if "ps_current st = None" "sd_connection sd = Some x" for st x
    using that ok connection_line_plain [of x]
      sdp_line_field [of "CHR ''c''" "drop 2 (connection_line x)" st, folded lines(3)]
    by (simp add: session_field_def connection_parse_line)
  have t: "sdp_line (timing_line (sd_timing sd)) st = Inr (st\<lparr>ps_timing := Some (sd_timing sd)\<rparr>)"
    if "ps_current st = None" for st
    using that ok timing_line_plain [of "sd_timing sd"]
      sdp_line_field [of "CHR ''t''" "drop 2 (timing_line (sd_timing sd))" st, folded lines(2)]
    by (simp add: session_field_def timing_parse_line)
  show ?thesis
    by (cases "sd_session_info sd"; cases "sd_connection sd")
      (simp_all add: v [simplified] o s [simplified] i [simplified] c t option_list_def sdp_initial_def)
qed

lemma sdp_parse_display:
  assumes "sdp_ok sd" shows "sdp_parse (sdp_display sd) = Inr (sdp_without_ports sd)"
proof -
  let ?st = "sdp_initial\<lparr>ps_version := Some (sd_version sd), ps_origin := Some (sd_origin sd),
        ps_session_name := Some (sd_session_name sd), ps_session_info := sd_session_info sd,
        ps_connection := sd_connection sd, ps_timing := Some (sd_timing sd), ps_attributes := sd_attributes sd\<rparr>"
  have "str_lines (sdp_display sd) = sdp_display_lines sd"
    unfolding sdp_display_def using sdp_display_lines_plain [OF assms]
    by (intro str_lines_writeln) (simp add: plain_line_def)
  moreover obtain media current where
    m: "sdp_lines_parse (concat (map write_media (sd_media sd))) ?st = Inr (?st\<lparr>ps_media := media, ps_current := current\<rparr>)"
      "media @ option_list current = map without_ports (sd_media sd)"
    using media_sections_parse [of "sd_media sd" ?st] assms by (auto simp: sdp_ok_def sdp_initial_def option_list_def)
  have "sdp_lines_parse (sdp_display_lines sd) sdp_initial = Inr (?st\<lparr>ps_media := media, ps_current := current\<rparr>)"
    using session_lines_parse [OF assms] session_attributes_parse [of "sd_attributes sd"
        "sdp_initial\<lparr>ps_version := Some (sd_version sd), ps_origin := Some (sd_origin sd),
        ps_session_name := Some (sd_session_name sd), ps_session_info := sd_session_info sd,
        ps_connection := sd_connection sd, ps_timing := Some (sd_timing sd)\<rparr>"] assms m(1)
    unfolding sdp_display_lines_def
    by (simp only: sdp_lines_parse_append append_assoc [symmetric]) (simp add: sdp_ok_def sdp_initial_def)
  ultimately show ?thesis
    using m(2) by (simp add: sdp_parse_def sdp_finish_def sdp_without_ports_def unwrap_or_def sdp_initial_def)
qed


subsection \<open>What the builders build\<close>

lemma rtpmap_parse_text:
  assumes "pt < 2 ^ 8" "enc \<noteq> []" "tight enc" "CHR ''/'' \<notin> set enc" "rate < 2 ^ 32"
  shows "rtpmap_parse (rtpmap_text (pt, enc, rate, ch)) =
    Some \<lparr>rm_payload_type = pt, rm_encoding = enc, rm_clock_rate = rate, rm_params = map_option to_dec ch\<rparr>"
proof -
  let ?rest = "enc @ CHR ''/'' # to_dec rate @ (case ch of None \<Rightarrow> [] | Some ch \<Rightarrow> CHR ''/'' # to_dec ch)"
  have "split_char CHR ''/'' ?rest = enc # to_dec rate # (case ch of None \<Rightarrow> [] | Some ch \<Rightarrow> [to_dec ch])"
    using assms(4) by (simp add: scan_simps split: option.split)
  moreover have "rtpmap_text (pt, enc, rate, ch) = to_dec pt @ CHR '' '' # ?rest" by (simp split: option.split)
  ultimately show ?thesis using assms(1-3,5)
    by (simp add: rtpmap_parse_def unwrap_or_def Let_def del: rtpmap_text.simps split: option.split)
qed

lemma rtpmap_attribute_ok:
  assumes "LF \<notin> set enc" shows "attribute_ok \<lparr>at_name = ''rtpmap'', at_value = Some (rtpmap_text (pt, enc, rate, ch))\<rparr>"
proof -
  have "LF \<notin> set (to_dec n)" for n by (simp add: graphic_word_no_LF)
  with assms plain_line_words [of "CHR ''a''" "''=rtpmap:'' @ to_dec pt @ '' '' @ enc" "to_dec rate" "CHR ''/''"]
    plain_line_words [of "CHR ''a''" "''=rtpmap:'' @ to_dec pt @ '' '' @ enc @ ''/'' @ to_dec rate" "to_dec c" "CHR ''/''" for c]
  show ?thesis by (cases ch) (simp_all add: attribute_ok_def attribute_text_def)
qed

lemma ws_len_rev_before_ascii: "t \<noteq> [] \<Longrightarrow> code d < 128 \<Longrightarrow> ws_len_rev (t @ d # s) = ws_len_rev t"
  by (cases t rule: ws_len_rev.cases; cases s) (auto simp: ws23_ascii)

lemma plain_line_text:
  assumes "33 \<le> code c" "code c \<le> 126" "LF \<notin> set s" "f \<noteq> []" "plain_line f" "code d < 128" "d \<noteq> LF"
  shows "plain_line (c # s @ d # f)"
  using assms ws_len_rev_before_ascii [of "rev f" d "rev s @ [c]"] by (auto simp: plain_line_def tight_def)

definition fmtp_ok :: "string \<Rightarrow> bool" where
  "fmtp_ok f \<longleftrightarrow> f \<noteq> [] \<and> plain_line f"

lemma fmtp_attribute_ok: "fmtp_ok f \<Longrightarrow> attribute_ok \<lparr>at_name = ''fmtp'', at_value = Some (to_dec pt @ '' '' @ f)\<rparr>"
  using plain_line_text [of "CHR ''a''" "''=fmtp:'' @ to_dec pt" f "CHR '' ''"]
  by (simp add: attribute_ok_def attribute_text_def fmtp_ok_def graphic_word_no_LF)

lemma direction_attribute_ok: "attribute_ok \<lparr>at_name = direction_text d, at_value = None\<rparr>"
  by (cases d) (simp_all add: attribute_ok_def attribute_text_def plain_line_graphic)

definition media_builder_ok :: "media_builder \<Rightarrow> bool" where
  "media_builder_ok b \<longleftrightarrow> mb_port b < 2 ^ 16 \<and> word_text (mb_protocol b) \<and> mb_formats b \<noteq> []
     \<and> list_all word_text (mb_formats b) \<and> list_all (\<lambda>(pt, enc, rate, ch). LF \<notin> set enc) (mb_rtpmaps b)
     \<and> list_all (\<lambda>(pt, params). fmtp_ok params) (mb_fmtps b)"

lemma mb_build_ok: "media_builder_ok b \<Longrightarrow> media_ok (mb_build b)"
proof -
  assume ok: "media_builder_ok b"
  have "attribute_ok \<lparr>at_name = ''ptime'', at_value = Some (to_dec n)\<rparr>" for n
    by (simp add: attribute_ok_def attribute_text_def plain_line_graphic)
  with ok show ?thesis
    using rtpmap_attribute_ok fmtp_attribute_ok direction_attribute_ok
    by (auto simp: media_builder_ok_def media_ok_def mb_build_def bandwidth_ok_def list_all_iff
      simp del: rtpmap_text.simps)
qed

end
