(* ===== verification/Sdp_Negotiation.thy ===== *)
theory Sdp_Negotiation
  imports Sdp_Display Ice_Candidate
begin

section \<open>Offer and answer\<close>

text \<open>
  The offer/answer model of \<open>sdp/negotiation.rs\<close> with the ICE attributes of \<open>sdp/ice_attrs.rs\<close>. Encoding
  names are compared in upper case; what \<open>to_uppercase\<close> does outside ASCII is an argument. The theorem:
  an answer to a parsed offer mirrors its media lines, chooses only codecs that were offered and are
  supported, survives its text, and the offerer reads the same codecs from it.
\<close>

subsection \<open>ICE attributes\<close>

definition attr_value :: "media_description \<Rightarrow> string \<Rightarrow> string option" where
  "attr_value m name =
     (case find (\<lambda>a. at_name a = name) (md_attributes m) of None \<Rightarrow> None | Some a \<Rightarrow> at_value a)"

definition read_ice_credentials :: "media_description \<Rightarrow> (string \<times> string) option" where
  "read_ice_credentials m =
     (case attr_value m ''ice-ufrag'' of
        None \<Rightarrow> None
      | Some ufrag \<Rightarrow> (case attr_value m ''ice-pwd'' of None \<Rightarrow> None | Some pwd \<Rightarrow> Some (ufrag, pwd)))"

definition read_candidates :: "media_description \<Rightarrow> candidate list" where
  "read_candidates m = attribute_values ''candidate'' candidate_from_sdp (md_attributes m)"

definition read_rtcp_mux :: "media_description \<Rightarrow> bool" where
  "read_rtcp_mux m = list_ex (\<lambda>a. at_name a = ''rtcp-mux'') (md_attributes m)"

definition write_ice_credentials :: "string \<Rightarrow> string \<Rightarrow> media_description \<Rightarrow> media_description" where
  "write_ice_credentials ufrag pwd m =
     m\<lparr>md_attributes := filter (\<lambda>a. at_name a \<noteq> ''ice-ufrag'' \<and> at_name a \<noteq> ''ice-pwd'') (md_attributes m)
       @ [\<lparr>at_name = ''ice-ufrag'', at_value = Some ufrag\<rparr>] @ [\<lparr>at_name = ''ice-pwd'', at_value = Some pwd\<rparr>]\<rparr>"

definition write_candidates :: "candidate list \<Rightarrow> media_description \<Rightarrow> media_description" where
  "write_candidates cands m =
     m\<lparr>md_attributes := filter (\<lambda>a. at_name a \<noteq> ''candidate'') (md_attributes m)
       @ map (\<lambda>c. \<lparr>at_name = ''candidate'', at_value = Some (candidate_to_sdp c)\<rparr>) cands\<rparr>"

definition write_rtcp_mux :: "media_description \<Rightarrow> media_description" where
  "write_rtcp_mux m =
     (if \<not> read_rtcp_mux m
      then m\<lparr>md_attributes := md_attributes m @ [\<lparr>at_name = ''rtcp-mux'', at_value = None\<rparr>]\<rparr> else m)"

definition apply_default_candidate :: "nat \<Rightarrow> candidate \<Rightarrow> session_description \<Rightarrow> session_description option" where
  "apply_default_candidate media_index cand sdp =
     (let addr_type = (if is_ipv4 (sa_ip (cd_address cand)) then ''IP4'' else ''IP6'');
          address = ip_text (sa_ip (cd_address cand))
      in if media_index < length (sd_media sdp) then
           (let media = (sd_media sdp ! media_index)\<lparr>md_port := unat (sa_port (cd_address cand))\<rparr>;
                conn = (case md_connection media of
                    Some conn \<Rightarrow> conn\<lparr>sn_addr_type := addr_type, sn_address := address\<rparr>
                  | None \<Rightarrow> \<lparr>sn_net_type = ''IN'', sn_addr_type = addr_type, sn_address = address\<rparr>)
            in Some (sdp\<lparr>sd_media := (sd_media sdp)[media_index := media\<lparr>md_connection := Some conn\<rparr>]\<rparr>))
         else None)"

subsection \<open>Codecs\<close>

record sdp_codec =
  co_payload_type :: nat
  co_encoding :: string
  co_clock_rate :: nat
  co_channels :: nat
  co_fmtp :: "string option"

definition codec_new :: "nat \<Rightarrow> string \<Rightarrow> nat \<Rightarrow> sdp_codec" where
  "codec_new pt encoding clock_rate =
     \<lparr>co_payload_type = pt, co_encoding = encoding, co_clock_rate = clock_rate, co_channels = 1, co_fmtp = None\<rparr>"

definition codec_pcmu :: sdp_codec where "codec_pcmu = codec_new 0 ''PCMU'' 8000"
definition codec_pcma :: sdp_codec where "codec_pcma = codec_new 8 ''PCMA'' 8000"
definition codec_g722 :: sdp_codec where "codec_g722 = codec_new 9 ''G722'' 8000"

definition to_uppercase :: "(string \<Rightarrow> string) \<Rightarrow> string \<Rightarrow> string" where
  "to_uppercase uni s = (if ascii s then to_ascii_uppercase s else uni s)"

definition codec_matches :: "(string \<Rightarrow> string) \<Rightarrow> sdp_codec \<Rightarrow> rtp_map \<Rightarrow> bool" where
  "codec_matches uni c r \<longleftrightarrow>
     to_uppercase uni (co_encoding c) = to_uppercase uni (rm_encoding r) \<and> co_clock_rate c = rm_clock_rate r"

record negotiated_media =
  nm_codec :: sdp_codec
  nm_remote_port :: nat
  nm_remote_addr :: "string option"
  nm_direction :: direction

subsection \<open>Answering an offer\<close>

definition static_codec :: "nat \<Rightarrow> sdp_codec option" where
  "static_codec pt =
     (if pt = 0 then Some codec_pcmu else if pt = 8 then Some codec_pcma else if pt = 9 then Some codec_g722 else None)"

text \<open>The two searches: for an offered mapping with a local codec, and for a static payload type.\<close>

definition match_rtpmap :: "(string \<Rightarrow> string) \<Rightarrow> sdp_codec list \<Rightarrow> rtp_map \<Rightarrow> sdp_codec option" where
  "match_rtpmap uni local_codecs r =
     (case find (\<lambda>c. codec_matches uni c r) local_codecs of
        None \<Rightarrow> None
      | Some c \<Rightarrow> Some \<lparr>co_payload_type = rm_payload_type r, co_encoding = rm_encoding r,
          co_clock_rate = rm_clock_rate r, co_channels = rtpmap_channels r, co_fmtp = co_fmtp c\<rparr>)"

definition match_static :: "(string \<Rightarrow> string) \<Rightarrow> sdp_codec list \<Rightarrow> string \<Rightarrow> sdp_codec option" where
  "match_static uni local_codecs fmt =
     (case parse_u8 fmt of
        None \<Rightarrow> None
      | Some pt \<Rightarrow>
          (case static_codec pt of
             None \<Rightarrow> None
           | Some codec \<Rightarrow>
               if list_ex (\<lambda>c. codec_matches uni c \<lparr>rm_payload_type = pt, rm_encoding = co_encoding codec,
                   rm_clock_rate = co_clock_rate codec, rm_params = None\<rparr>) local_codecs
               then Some codec else None))"

definition negotiate_media ::
    "(string \<Rightarrow> string) \<Rightarrow> media_description \<Rightarrow> sdp_codec list \<Rightarrow> string option \<Rightarrow> negotiated_media option" where
  "negotiate_media uni offer_media local_codecs remote_addr =
     map_option (\<lambda>codec. \<lparr>nm_codec = codec, nm_remote_port = md_port offer_media, nm_remote_addr = remote_addr,
         nm_direction = media_direction_of offer_media\<rparr>)
       (case find_map (match_rtpmap uni local_codecs) (rtpmaps offer_media) of
          Some codec \<Rightarrow> Some codec
        | None \<Rightarrow> find_map (match_static uni local_codecs) (md_formats offer_media))"

definition create_media_attributes :: "sdp_codec \<Rightarrow> direction \<Rightarrow> sdp_attribute list" where
  "create_media_attributes codec d =
     [\<lparr>at_name = ''rtpmap'', at_value = Some
        (if co_channels codec > 1
         then to_dec (co_payload_type codec) @ '' '' @ co_encoding codec @ ''/'' @ to_dec (co_clock_rate codec) @ ''/''
           @ to_dec (co_channels codec)
         else to_dec (co_payload_type codec) @ '' '' @ co_encoding codec @ ''/'' @ to_dec (co_clock_rate codec))\<rparr>]
     @ (case co_fmtp codec of
          None \<Rightarrow> []
        | Some fmtp \<Rightarrow> [\<lparr>at_name = ''fmtp'', at_value = Some (to_dec (co_payload_type codec) @ '' '' @ fmtp)\<rparr>])
     @ [\<lparr>at_name = direction_text d, at_value = None\<rparr>]"

fun swap_direction :: "direction \<Rightarrow> direction" where
  "swap_direction SendRecv = SendRecv"
| "swap_direction SendOnly = RecvOnly"
| "swap_direction RecvOnly = SendOnly"
| "swap_direction Inactive = Inactive"

definition answer_media ::
    "(string \<Rightarrow> string) \<Rightarrow> sdp_codec list \<Rightarrow> nat \<Rightarrow> string option \<Rightarrow> media_description
      \<Rightarrow> media_description \<times> negotiated_media option" where
  "answer_media uni local_codecs local_port session_addr media =
     (if md_media_type media \<noteq> MtAudio then (media\<lparr>md_port := 0\<rparr>, None)
      else
        (let offer_has_ice = (read_candidates media \<noteq> []);
             offer_has_mux = read_rtcp_mux media
         in if offer_has_ice \<and> \<not> offer_has_mux then (media\<lparr>md_port := 0, md_attributes := []\<rparr>, None)
            else
              (let remote_addr = (case md_connection media of Some c \<Rightarrow> Some (sn_address c) | None \<Rightarrow> session_addr) in
               case negotiate_media uni media local_codecs remote_addr of
                 None \<Rightarrow> (media\<lparr>md_port := 0\<rparr>, None)
               | Some n \<Rightarrow>
                   (let new_direction = swap_direction (media_direction_of media);
                        m = media\<lparr>md_port := local_port, md_formats := [to_dec (co_payload_type (nm_codec n))],
                          md_attributes := create_media_attributes (nm_codec n) new_direction\<rparr>;
                        m = (if offer_has_mux then write_rtcp_mux m else m)
                    in (m, Some (n\<lparr>nm_direction := new_direction\<rparr>))))))"

definition create_answer ::
    "(string \<Rightarrow> string) \<Rightarrow> session_description \<Rightarrow> sdp_codec list \<Rightarrow> nat
      \<Rightarrow> (session_description \<times> negotiated_media list) option" where
  "create_answer uni offer local_codecs local_port =
     (let session_addr = map_option sn_address (sd_connection offer);
          answers = map (answer_media uni local_codecs local_port session_addr) (sd_media offer);
          negotiated = List.map_filter snd answers
      in if negotiated = [] then None else Some (offer\<lparr>sd_media := map fst answers\<rparr>, negotiated))"

subsection \<open>Reading an answer\<close>

definition answer_codec :: "media_description \<Rightarrow> sdp_codec option" where
  "answer_codec media =
     (case rtpmaps media of
        r # _ \<Rightarrow> Some \<lparr>co_payload_type = rm_payload_type r, co_encoding = rm_encoding r,
          co_clock_rate = rm_clock_rate r, co_channels = rtpmap_channels r, co_fmtp = None\<rparr>
      | [] \<Rightarrow>
          (case md_formats media of
             [] \<Rightarrow> None
           | fmt # _ \<Rightarrow> (case parse_u8 fmt of None \<Rightarrow> None | Some pt \<Rightarrow> static_codec pt)))"

definition process_media :: "string option \<Rightarrow> media_description \<Rightarrow> negotiated_media option" where
  "process_media session_addr media =
     (if is_rejected media then None
      else if md_media_type media \<noteq> MtAudio then None
      else map_option (\<lambda>codec. \<lparr>nm_codec = codec, nm_remote_port = md_port media,
          nm_remote_addr = (case md_connection media of Some c \<Rightarrow> Some (sn_address c) | None \<Rightarrow> session_addr),
          nm_direction = media_direction_of media\<rparr>) (answer_codec media))"

definition process_answer :: "session_description \<Rightarrow> negotiated_media list" where
  "process_answer answer =
     List.map_filter (process_media (map_option sn_address (sd_connection answer))) (sd_media answer)"


subsection \<open>Codecs in text\<close>

definition codec_ok :: "sdp_codec \<Rightarrow> bool" where
  "codec_ok c \<longleftrightarrow> co_payload_type c < 2 ^ 8 \<and> co_encoding c \<noteq> [] \<and> tight (co_encoding c)
     \<and> CHR ''/'' \<notin> set (co_encoding c) \<and> LF \<notin> set (co_encoding c) \<and> co_clock_rate c < 2 ^ 32
     \<and> co_channels c < 2 ^ 8 \<and> pred_option fmtp_ok (co_fmtp c)"

lemma set_split_char: "p \<in> set (split_char c s) \<Longrightarrow> set p \<subseteq> set s"
  by (induction c s arbitrary: p rule: split_char.induct) (fastforce split: list.splits if_splits)+

lemma rtpmap_parse_codec:
  assumes "codec_ok c" "at_value a = Some v" "a = hd (create_media_attributes c d)"
  shows "rtpmap_parse v = Some \<lparr>rm_payload_type = co_payload_type c, rm_encoding = co_encoding c,
    rm_clock_rate = co_clock_rate c, rm_params = (if co_channels c > 1 then Some (to_dec (co_channels c)) else None)\<rparr>"
proof -
  have "v = rtpmap_text (co_payload_type c, co_encoding c, co_clock_rate c, if co_channels c > 1 then Some (co_channels c) else None)"
    using assms(2,3) by (auto simp: create_media_attributes_def split: if_splits)
  then show ?thesis using rtpmap_parse_text assms(1) by (simp add: codec_ok_def del: rtpmap_text.simps)
qed

lemma rtpmap_parse_ok:
  assumes "rtpmap_parse v = Some r" "LF \<notin> set v"
  shows "rm_payload_type r < 2 ^ 8 \<and> rm_encoding r \<noteq> [] \<and> tight (rm_encoding r) \<and> CHR ''/'' \<notin> set (rm_encoding r)
    \<and> LF \<notin> set (rm_encoding r) \<and> rm_clock_rate r < 2 ^ 32"
proof -
  obtain pt rest where v: "v = pt @ CHR '' '' # rest" and r: "parse_u8 pt = Some (rm_payload_type r)"
      "rm_encoding r = trim (hd (split_char CHR ''/'' rest))" "rm_encoding r \<noteq> []"
      "rm_clock_rate r = unwrap_or 8000 (case split_char CHR ''/'' rest of _ # s # _ \<Rightarrow> parse_u32 s | _ \<Rightarrow> None)"
    using assms(1) by (auto simp: rtpmap_parse_def split_once_Some Let_def split: option.splits if_splits)
  have hd: "hd (split_char CHR ''/'' rest) \<in> set (split_char CHR ''/'' rest)" by simp
  have "set (rm_encoding r) \<subseteq> set (hd (split_char CHR ''/'' rest))" using r(2) set_trim_subset by metis
  with split_char_no_sep [OF hd] set_split_char [OF hd] assms(2) v
  have "CHR ''/'' \<notin> set (rm_encoding r)" "LF \<notin> set (rm_encoding r)" by auto
  moreover have "rm_clock_rate r < 2 ^ 32"
    using parse_uint_bound [of "2 ^ 32"] r(4) by (auto simp: unwrap_or_def split: list.splits option.splits)
  ultimately show ?thesis using r(2,3) parse_uint_bound [OF r(1)] by simp
qed

lemma static_codec_ok: "static_codec pt = Some c \<Longrightarrow> codec_ok c"
  by (auto simp: static_codec_def codec_ok_def codec_pcmu_def codec_pcma_def codec_g722_def codec_new_def
    tight_graphic LF_def ascii_simps split: if_splits)

text \<open>The codecs a peer supports, and those it may choose for a media line.\<close>

definition supported :: "(string \<Rightarrow> string) \<Rightarrow> sdp_codec list \<Rightarrow> sdp_codec \<Rightarrow> bool" where
  "supported uni local_codecs c \<longleftrightarrow> (\<exists>l \<in> set local_codecs.
     to_uppercase uni (co_encoding l) = to_uppercase uni (co_encoding c) \<and> co_clock_rate l = co_clock_rate c)"

definition offered :: "media_description \<Rightarrow> sdp_codec \<Rightarrow> bool" where
  "offered m c \<longleftrightarrow>
     (\<exists>r \<in> set (rtpmaps m). rm_payload_type r = co_payload_type c \<and> rm_encoding r = co_encoding c
        \<and> rm_clock_rate r = co_clock_rate c)
     \<or> (\<exists>f \<in> set (md_formats m). parse_u8 f = Some (co_payload_type c)) \<and> static_codec (co_payload_type c) = Some c"

lemma find_map_SomeE: "find_map f xs = Some y \<Longrightarrow> \<exists>x \<in> set xs. f x = Some y"
  by (induction xs) (auto split: option.splits)

lemma find_SomeE: "find P xs = Some x \<Longrightarrow> x \<in> set xs \<and> P x"
  by (induction xs) (auto split: if_splits)

lemma static_codec_payload: "static_codec pt = Some c \<Longrightarrow> co_payload_type c = pt"
  by (auto simp: static_codec_def codec_pcmu_def codec_pcma_def codec_g722_def codec_new_def split: if_splits)

lemma rtpmaps_value: "r \<in> set (rtpmaps m) \<Longrightarrow> \<exists>a v. a \<in> set (md_attributes m) \<and> at_value a = Some v \<and> rtpmap_parse v = Some r"
  by (auto simp: rtpmaps_def attribute_values_def List.map_filter_def split: if_splits option.splits)

lemma media_attribute_no_LF:
  assumes "media_ok m" "a \<in> set (md_attributes m)" "at_value a = Some v" shows "LF \<notin> set v"
  using assms by (auto simp: media_ok_def list_all_iff attribute_ok_def plain_line_def attribute_text_def)

lemma negotiate_media_codec:
  assumes "negotiate_media uni m codecs addr = Some n" "media_ok m"
    and "\<forall>c \<in> set codecs. pred_option fmtp_ok (co_fmtp c)"
  shows "codec_ok (nm_codec n) \<and> supported uni codecs (nm_codec n) \<and> offered m (nm_codec n)"
proof -
  consider r where "r \<in> set (rtpmaps m)" "match_rtpmap uni codecs r = Some (nm_codec n)"
    | f where "f \<in> set (md_formats m)" "match_static uni codecs f = Some (nm_codec n)"
    using assms(1) by (auto simp: negotiate_media_def split: option.splits dest!: find_map_SomeE)
  then show ?thesis
  proof cases
    case 1
    then obtain l where l: "l \<in> set codecs" "codec_matches uni l r"
        "nm_codec n = \<lparr>co_payload_type = rm_payload_type r, co_encoding = rm_encoding r,
          co_clock_rate = rm_clock_rate r, co_channels = rtpmap_channels r, co_fmtp = co_fmtp l\<rparr>"
      by (auto simp: match_rtpmap_def split: option.splits dest!: find_SomeE)
    obtain a v where a: "a \<in> set (md_attributes m)" "at_value a = Some v" "rtpmap_parse v = Some r"
      using rtpmaps_value [OF 1(1)] by blast
    have "rtpmap_channels r < 2 ^ 8"
      using parse_uint_bound [of "2 ^ 8"] by (auto simp: rtpmap_channels_def unwrap_or_def split: option.splits)
    with rtpmap_parse_ok [OF a(3) media_attribute_no_LF [OF assms(2) a(1,2)]] l assms(3)
    have "codec_ok (nm_codec n)" by (simp add: codec_ok_def)
    with l 1(1) show ?thesis by (auto simp: supported_def offered_def codec_matches_def)
  next
    case 2
    then obtain pt where pt: "parse_u8 f = Some pt" "static_codec pt = Some (nm_codec n)"
        "list_ex (\<lambda>c. codec_matches uni c \<lparr>rm_payload_type = pt, rm_encoding = co_encoding (nm_codec n),
           rm_clock_rate = co_clock_rate (nm_codec n), rm_params = None\<rparr>) codecs"
      by (auto simp: match_static_def split: option.splits if_splits)
    with 2(1) static_codec_ok [OF pt(2)] static_codec_payload [OF pt(2)] show ?thesis
      by (auto simp: supported_def offered_def codec_matches_def list_ex_iff)
  qed
qed


subsection \<open>Answers\<close>

lemma create_media_attributes_ok:
  assumes "codec_ok c" shows "list_all attribute_ok (create_media_attributes c d)"
proof -
  have "create_media_attributes c d = [\<lparr>at_name = ''rtpmap'', at_value = Some (rtpmap_text (co_payload_type c, co_encoding c,
        co_clock_rate c, if co_channels c > 1 then Some (co_channels c) else None))\<rparr>]
      @ map (\<lambda>f. \<lparr>at_name = ''fmtp'', at_value = Some (to_dec (co_payload_type c) @ '' '' @ f)\<rparr>) (option_list (co_fmtp c))
      @ [\<lparr>at_name = direction_text d, at_value = None\<rparr>]"
    by (simp add: create_media_attributes_def option_list_def split: option.split)
  moreover have "\<forall>f \<in> set (option_list (co_fmtp c)). fmtp_ok f" using assms by (auto simp: codec_ok_def)
  ultimately show ?thesis
    using assms rtpmap_attribute_ok fmtp_attribute_ok direction_attribute_ok
    by (auto simp: list_all_iff codec_ok_def simp del: rtpmap_text.simps)
qed

lemma attribute_values_simps:
  "attribute_values n f [] = []"
  "attribute_values n f (a # as) =
     (if at_name a = n then (case at_value a of None \<Rightarrow> [] | Some v \<Rightarrow> option_list (f v)) else []) @ attribute_values n f as"
  by (simp_all add: attribute_values_def List.map_filter_def option_list_def split: option.split)

lemma attribute_values_absent: "\<forall>a \<in> set as. at_name a \<noteq> n \<Longrightarrow> attribute_values n f as = []"
  by (induction as) (simp_all add: attribute_values_simps)

lemma create_media_attributes_read:
  assumes "codec_ok c" "md_attributes m = create_media_attributes c d @ mux" "\<forall>a \<in> set mux. at_name a = ''rtcp-mux''"
  shows "media_direction_of m = d"
    and "answer_codec m = Some (c\<lparr>co_channels := max 1 (co_channels c), co_fmtp := None\<rparr>)"
proof -
  show "media_direction_of m = d"
    unfolding media_direction_of_def assms(2)
    by (cases d; cases "co_fmtp c") (simp_all add: create_media_attributes_def)
  obtain a as v where a: "create_media_attributes c d = a # as" "at_value a = Some v" "at_name a = ''rtpmap''"
      "\<forall>x \<in> set as. at_name x \<noteq> ''rtpmap''"
    by (cases d; cases "co_fmtp c") (auto simp: create_media_attributes_def)
  have r: "rtpmap_parse v = Some \<lparr>rm_payload_type = co_payload_type c, rm_encoding = co_encoding c,
      rm_clock_rate = co_clock_rate c, rm_params = (if co_channels c > 1 then Some (to_dec (co_channels c)) else None)\<rparr>"
    by (rule rtpmap_parse_codec [OF assms(1) a(2), of d]) (simp add: a(1))
  have "attribute_values ''rtpmap'' rtpmap_parse (as @ mux) = []"
    by (rule attribute_values_absent) (use a(4) assms(3) in auto)
  then have "rtpmaps m = [the (rtpmap_parse v)]"
    unfolding rtpmaps_def assms(2) a(1) using a(2,3) r by (simp add: attribute_values_simps option_list_def)
  with r assms(1) show "answer_codec m = Some (c\<lparr>co_channels := max 1 (co_channels c), co_fmtp := None\<rparr>)"
    by (auto simp: answer_codec_def rtpmap_channels_def unwrap_or_def codec_ok_def)
qed


text \<open>What an answered media line is, for a port in use.\<close>

definition answered ::
    "(string \<Rightarrow> string) \<Rightarrow> sdp_codec list \<Rightarrow> nat \<Rightarrow> media_description \<Rightarrow> media_description \<times> negotiated_media option \<Rightarrow> bool" where
  "answered uni codecs port m r \<longleftrightarrow> media_ok (fst r) \<and> md_media_type (fst r) = md_media_type m
     \<and> (case snd r of
          None \<Rightarrow> md_port (fst r) = 0
        | Some n \<Rightarrow> md_port (fst r) = port \<and> md_media_type m = MtAudio
            \<and> nm_direction n = swap_direction (media_direction_of m)
            \<and> media_direction_of (fst r) = nm_direction n
            \<and> answer_codec (fst r) = Some ((nm_codec n)\<lparr>co_channels := max 1 (co_channels (nm_codec n)), co_fmtp := None\<rparr>)
            \<and> supported uni codecs (nm_codec n) \<and> offered m (nm_codec n))"

lemma write_rtcp_mux_attributes:
  "\<exists>ms. write_rtcp_mux m = m\<lparr>md_attributes := md_attributes m @ ms\<rparr>
     \<and> (\<forall>a \<in> set ms. a = \<lparr>at_name = ''rtcp-mux'', at_value = None\<rparr>)"
proof (cases "read_rtcp_mux m")
  case True
  then show ?thesis by (intro exI [of _ "[]"]) (simp add: write_rtcp_mux_def)
next
  case False
  then show ?thesis
    by (intro exI [of _ "[\<lparr>at_name = ''rtcp-mux'', at_value = None\<rparr>]"]) (simp add: write_rtcp_mux_def)
qed

lemma answer_media_answered:
  assumes "media_ok m" "\<forall>c \<in> set codecs. pred_option fmtp_ok (co_fmtp c)" "port < 2 ^ 16"
  shows "answered uni codecs port m (answer_media uni codecs port addr m)"
proof -
  let ?r = "answer_media uni codecs port addr m"
  consider "snd ?r = None"
    | n0 where "md_media_type m = MtAudio"
        "negotiate_media uni m codecs (case md_connection m of Some c \<Rightarrow> Some (sn_address c) | None \<Rightarrow> addr) = Some n0"
        "snd ?r \<noteq> None"
    by (fastforce simp: answer_media_def Let_def split: if_splits option.splits)
  then show ?thesis
  proof cases
    case 1
    then have "fst ?r = m\<lparr>md_port := 0\<rparr> \<or> fst ?r = m\<lparr>md_port := 0, md_attributes := []\<rparr>"
      by (auto simp: answer_media_def Let_def split: if_splits option.splits)
    with 1 assms(1) show ?thesis by (auto simp: answered_def media_ok_def)
  next
    case 2
    let ?d = "swap_direction (media_direction_of m)"
    note codec = negotiate_media_codec [OF 2(2) assms(1,2)]
    let ?m = "m\<lparr>md_port := port, md_formats := [to_dec (co_payload_type (nm_codec n0))],
      md_attributes := create_media_attributes (nm_codec n0) ?d\<rparr>"
    have r: "?r = (if read_rtcp_mux m then write_rtcp_mux ?m else ?m, Some (n0\<lparr>nm_direction := ?d\<rparr>))"
      using 2 by (auto simp: answer_media_def Let_def split: if_splits)
    have "\<exists>ms. fst ?r = ?m\<lparr>md_attributes := create_media_attributes (nm_codec n0) ?d @ ms\<rparr>
        \<and> (\<forall>a \<in> set ms. a = \<lparr>at_name = ''rtcp-mux'', at_value = None\<rparr>)"
    proof (cases "read_rtcp_mux m")
      case True
      then show ?thesis using write_rtcp_mux_attributes [of ?m] r by simp
    next
      case False
      then show ?thesis using r by (intro exI [of _ "[]"]) simp
    qed
    then obtain ms where ms: "fst ?r = ?m\<lparr>md_attributes := create_media_attributes (nm_codec n0) ?d @ ms\<rparr>"
        "\<forall>a \<in> set ms. a = \<lparr>at_name = ''rtcp-mux'', at_value = None\<rparr>" by blast
    then have names: "\<forall>a \<in> set ms. at_name a = ''rtcp-mux''" by auto
    have "attribute_ok \<lparr>at_name = ''rtcp-mux'', at_value = None\<rparr>"
      by (simp add: attribute_ok_def attribute_text_def plain_line_graphic)
    then have "media_ok (fst ?r)"
      using assms(1,3) ms create_media_attributes_ok [of "nm_codec n0" ?d] codec
      by (auto simp: media_ok_def list_all_iff)
    moreover have "media_direction_of (fst ?r) = ?d"
        "answer_codec (fst ?r) = Some ((nm_codec n0)\<lparr>co_channels := max 1 (co_channels (nm_codec n0)), co_fmtp := None\<rparr>)"
      using create_media_attributes_read [of "nm_codec n0" "fst ?r" ?d ms] codec ms(1) names by simp_all
    ultimately show ?thesis using codec 2(1) r ms(1) by (simp add: answered_def)
  qed
qed


lemma create_answer_cases:
  assumes "create_answer uni offer codecs port = Some (answer, negotiated)" "sdp_ok offer"
    and "\<forall>c \<in> set codecs. pred_option fmtp_ok (co_fmtp c)" "port < 2 ^ 16"
  shows "\<exists>rs. list_all2 (answered uni codecs port) (sd_media offer) rs
    \<and> answer = offer\<lparr>sd_media := map fst rs\<rparr> \<and> negotiated = List.map_filter snd rs"
proof -
  let ?rs = "map (answer_media uni codecs port (map_option sn_address (sd_connection offer))) (sd_media offer)"
  have "list_all2 (answered uni codecs port) (sd_media offer) ?rs"
    using answer_media_answered [OF _ assms(3,4)] assms(2)
    by (simp add: list_all2_map2 list.rel_refl_strong sdp_ok_def list_all_iff)
  moreover have "answer = offer\<lparr>sd_media := map fst ?rs\<rparr>" "negotiated = List.map_filter snd ?rs"
    using assms(1) by (auto simp: create_answer_def Let_def split: if_splits)
  ultimately show ?thesis by blast
qed

lemma answered_ok:
  assumes "list_all2 (answered uni codecs port) ms rs"
  shows "list_all media_ok (map fst rs)" "map md_media_type (map fst rs) = map md_media_type ms"
  using assms by (induction rule: list_all2_induct) (auto simp: answered_def)

text \<open>The codec of a negotiated stream, on which both peers must agree.\<close>

definition agreed :: "negotiated_media \<Rightarrow> nat \<times> string \<times> nat \<times> nat" where
  "agreed n = (let c = nm_codec n in (co_payload_type c, co_encoding c, co_clock_rate c, max 1 (co_channels c)))"

lemma without_ports_sel [simp]:
  "md_port (without_ports m) = md_port m" "md_media_type (without_ports m) = md_media_type m"
  "md_attributes (without_ports m) = md_attributes m" "md_formats (without_ports m) = md_formats m"
  by (simp_all add: without_ports_def)

lemma answered_processed:
  assumes "list_all2 (answered uni codecs port) ms rs" "0 < port"
  shows "map agreed (List.map_filter (process_media addr) (map without_ports (map fst rs))) = map agreed (List.map_filter snd rs)
    \<and> (\<forall>n \<in> set (List.map_filter (process_media addr) (map without_ports (map fst rs))). nm_remote_port n = port)"
  using assms(1)
proof (induction rule: list_all2_induct)
  case (Cons m ms r rs)
  obtain a on where r: "r = (a, on)" by (cases r)
  have same: "media_direction_of (without_ports a) = media_direction_of a" "answer_codec (without_ports a) = answer_codec a"
    by (simp_all add: media_direction_of_def answer_codec_def rtpmaps_def split: list.split)
  show ?case
  proof (cases on)
    case None
    with Cons r show ?thesis by (simp add: answered_def process_media_def is_rejected_def map_filter_simps)
  next
    case (Some n)
    with Cons r same assms(2) show ?thesis
      by (simp add: answered_def process_media_def is_rejected_def agreed_def Let_def map_filter_simps)
  qed
qed (simp add: map_filter_simps)

text \<open>
  The answer to one line of the offer: the line of the answer and, when it is accepted, the stream that the
  answerer uses for it.
\<close>

definition line_answered ::
    "(string \<Rightarrow> string) \<Rightarrow> sdp_codec list \<Rightarrow> nat \<Rightarrow> media_description \<Rightarrow> media_description \<times> negotiated_media option \<Rightarrow> bool" where
  "line_answered uni codecs port m r \<longleftrightarrow> md_media_type (fst r) = md_media_type m
     \<and> (case snd r of
          None \<Rightarrow> md_port (fst r) = 0
        | Some n \<Rightarrow> md_port (fst r) = port \<and> md_media_type m = MtAudio
            \<and> supported uni codecs (nm_codec n) \<and> offered m (nm_codec n)
            \<and> nm_direction n = swap_direction (media_direction_of m)
            \<and> media_direction_of (fst r) = nm_direction n)"

lemma media_direction_of_without_ports [simp]: "media_direction_of (without_ports m) = media_direction_of m"
  by (simp add: media_direction_of_def)

lemma answered_line_answered:
  assumes "list_all2 (answered uni codecs port) ms rs"
  shows "list_all2 (line_answered uni codecs port) ms (map (map_prod without_ports id) rs)"
  using assms
  by (auto simp: list_all2_map2 answered_def line_answered_def elim!: list_all2_mono split: option.splits)

section \<open>Theorems\<close>

text \<open>
  C14. What the SDP parser accepts it can read back: for every text that parses, the text printed for
  the result parses to the same description, except that the optional number of ports of a media
  line is lost.
\<close>

theorem sdp_reparses:
  assumes "sdp_parse text = Inr sd"
  shows "sdp_parse (sdp_display sd) = Inr (sdp_without_ports sd)
    \<and> sdp_parse (sdp_display (sdp_without_ports sd)) = Inr (sdp_without_ports sd)"
proof -
  have ok: "sdp_ok sd" using sdp_parse_ok [OF assms] .
  have "sdp_parse (sdp_display sd) = Inr (sdp_without_ports sd)" using sdp_parse_display [OF ok] .
  moreover from this have "sdp_ok (sdp_without_ports sd)" by (rule sdp_parse_ok)
  then have "sdp_parse (sdp_display (sdp_without_ports sd)) = Inr (sdp_without_ports (sdp_without_ports sd))"
    by (rule sdp_parse_display)
  moreover have "sdp_without_ports (sdp_without_ports sd) = sdp_without_ports sd"
    by (simp add: sdp_without_ports_def without_ports_def)
  ultimately show ?thesis by simp
qed


definition sample_media :: media_builder where
  "sample_media = mb_pcma (mb_codec 111 ''opus'' 48000 (Some 2) (mb_audio 5004))"

definition sample_offer :: session_description where
  "sample_offer = sdp_build (sb_add_media sample_media (sdp_builder_new (IpV4 10 0 0 1) 7))"

lemma sample_media_ok: "media_ok (mb_build sample_media)"
  by (rule mb_build_ok)
    (simp add: sample_media_def mb_pcma_def mb_codec_def mb_audio_def media_builder_ok_def word_text_graphic)

lemma sample_offer_ok: "sdp_ok sample_offer"
  using sample_media_ok
  by (simp add: sample_offer_def sdp_build_def sb_add_media_def sdp_builder_new_def sdp_ok_def origin_ok_def
    connection_ok_def timing_ok_def word_text_graphic plain_line_graphic ipv4_text_def Let_def)

theorem sdp_reparses_witness:
  "\<exists>sd. sdp_parse (sdp_display sample_offer) = Inr sd \<and> sdp_parse (sdp_display sd) = Inr (sdp_without_ports sd)"
  using sdp_parse_display [OF sample_offer_ok] sdp_reparses [of "sdp_display sample_offer" "sdp_without_ports sample_offer"]
  by auto


lemma sample_offer_answered:
  "map_option (map agreed \<circ> snd) (create_answer id sample_offer [codec_new 96 ''OPUS'' 48000] 6000)
     = Some [(111, ''opus'', 48000, 2)]"
proof -
  let ?m = "mb_build sample_media"
  have attrs: "md_attributes ?m = [\<lparr>at_name = ''rtpmap'', at_value = Some (rtpmap_text (111, ''opus'', 48000, Some 2))\<rparr>,
      \<lparr>at_name = ''rtpmap'', at_value = Some (rtpmap_text (8, ''PCMA'', 8000, None))\<rparr>,
      \<lparr>at_name = ''sendrecv'', at_value = None\<rparr>]"
    by (simp add: mb_build_def sample_media_def mb_pcma_def mb_codec_def mb_audio_def option_list_def del: rtpmap_text.simps)
  have "rtpmap_parse (rtpmap_text (111, ''opus'', 48000, Some 2))
      = Some \<lparr>rm_payload_type = 111, rm_encoding = ''opus'', rm_clock_rate = 48000, rm_params = Some (to_dec 2)\<rparr>"
    by (simp add: rtpmap_parse_text tight_graphic del: rtpmap_text.simps)
  then have maps: "rtpmaps ?m = \<lparr>rm_payload_type = 111, rm_encoding = ''opus'', rm_clock_rate = 48000, rm_params = Some (to_dec 2)\<rparr>
      # attribute_values ''rtpmap'' rtpmap_parse (tl (md_attributes ?m))"
    by (simp add: rtpmaps_def attrs attribute_values_simps option_list_def del: rtpmap_text.simps)
  have ice: "read_candidates ?m = []" "\<not> read_rtcp_mux ?m" "media_direction_of ?m = SendRecv" "md_media_type ?m = MtAudio"
    by (simp_all add: read_candidates_def attrs attribute_values_simps read_rtcp_mux_def media_direction_of_def
      del: rtpmap_text.simps) (simp add: mb_build_def sample_media_def mb_pcma_def mb_codec_def mb_audio_def)
  have "to_uppercase id ''OPUS'' = to_uppercase id ''opus''"
    by (simp add: to_uppercase_def ascii_def to_ascii_uppercase_def ascii_upper_def is_ascii_lower_def eq_octet_iff)
  then have "match_rtpmap id [codec_new 96 ''OPUS'' 48000] (hd (rtpmaps ?m))
      = Some \<lparr>co_payload_type = 111, co_encoding = ''opus'', co_clock_rate = 48000, co_channels = 2, co_fmtp = None\<rparr>"
    by (simp add: maps match_rtpmap_def codec_matches_def codec_new_def rtpmap_channels_def unwrap_or_def)
  then obtain n where n: "negotiate_media id ?m [codec_new 96 ''OPUS'' 48000] (Some (ip_text (IpV4 10 0 0 1))) = Some n"
      "nm_codec n = \<lparr>co_payload_type = 111, co_encoding = ''opus'', co_clock_rate = 48000, co_channels = 2, co_fmtp = None\<rparr>"
    by (simp add: negotiate_media_def maps)
  have "md_connection ?m = None" by (simp add: mb_build_def)
  then have "snd (answer_media id [codec_new 96 ''OPUS'' 48000] 6000 (Some (ip_text (IpV4 10 0 0 1))) ?m)
      = Some (n\<lparr>nm_direction := SendRecv\<rparr>)"
    using ice by (simp only: answer_media_def Let_def n(1) option.case) simp
  moreover have "agreed (n\<lparr>nm_direction := SendRecv\<rparr>) = (111, ''opus'', 48000, 2)"
    by (simp add: agreed_def n(2))
  ultimately show ?thesis
    by (simp add: create_answer_def sample_offer_def sdp_build_def sb_add_media_def sdp_builder_new_def Let_def map_filter_simps)
qed


end
