(* ===== verification/Sip_Auth.thy ===== *)
theory Sip_Auth
  imports Rust_Text
begin

section \<open>Digest authentication\<close>

text \<open>
  Digest authentication, \<open>sip/auth.rs\<close>: reading a challenge, computing the response and writing the
  \<open>Authorization\<close> value. The hash functions, HMAC, hexadecimal and base64 encoding come from crates;
  they are the fields of a record that the definitions take as an argument. The random octets of the
  client nonce are an argument as well.

  Parameter names are folded with \<open>str::to_lowercase\<close> and then compared with ASCII names that no
  character outside ASCII folds to, so that ASCII folding gives the same results.

  The theorem is about the other end: a server that reads the written value and computes the response
  that RFC 7616 prescribes from the parameters it finds there gets the value the client sent.
\<close>

subsection \<open>Data\<close>

record digest_crypto =
  dc_md5 :: "bytes \<Rightarrow> bytes"
  dc_sha256 :: "bytes \<Rightarrow> bytes"
  dc_hmac_md5 :: "bytes \<Rightarrow> bytes \<Rightarrow> bytes"
  dc_hex :: "bytes \<Rightarrow> string"
  dc_base64 :: "bytes \<Rightarrow> string"

datatype digest_auth_error =
    MissingField string
  | UnsupportedAlgorithm string
  | UnsupportedQop string
  | AuthParseError string

datatype qop = QopNone | QopAuth | QopAuthInt

fun qop_display :: "qop \<Rightarrow> string" where
  "qop_display QopNone = []"
| "qop_display QopAuth = ''auth''"
| "qop_display QopAuthInt = ''auth-int''"

datatype algorithm = Md5 | Md5Sess | Sha256 | Sha256Sess | AkaV1Md5 | AkaV2Md5

fun algorithm_display :: "algorithm \<Rightarrow> string" where
  "algorithm_display Md5 = ''MD5''"
| "algorithm_display Md5Sess = ''MD5-sess''"
| "algorithm_display Sha256 = ''SHA-256''"
| "algorithm_display Sha256Sess = ''SHA-256-sess''"
| "algorithm_display AkaV1Md5 = ''AKAv1-MD5''"
| "algorithm_display AkaV2Md5 = ''AKAv2-MD5''"

definition derive_akav2_password :: "digest_crypto \<Rightarrow> bytes \<Rightarrow> bytes \<Rightarrow> bytes \<Rightarrow> string" where
  "derive_akav2_password cr res ik ck =
     dc_base64 cr (dc_hmac_md5 cr (res @ ik @ ck) ''http-digest-akav2-password'')"

record digest_challenge =
  ch_realm :: string
  ch_nonce :: string
  ch_opaque :: "string option"
  ch_stale :: bool
  ch_algorithm :: algorithm
  ch_qop :: "qop option"
  ch_domain :: "string option"

record digest_credentials =
  cd_username :: string
  cd_password :: string

record digest_response =
  dr_username :: string
  dr_realm :: string
  dr_nonce :: string
  dr_uri :: string
  dr_response :: string
  dr_algorithm :: algorithm
  dr_opaque :: "string option"
  dr_qop :: "qop option"
  dr_cnonce :: "string option"
  dr_nc :: "nat option"

subsection \<open>Parameters of a header value\<close>

text \<open>\<open>trim_start_matches\<close> with a comma or white space.\<close>

function skip_separators :: "string \<Rightarrow> string" where
  "skip_separators s =
     (case s of
        [] \<Rightarrow> []
      | c # cs \<Rightarrow> if c = CHR '','' then skip_separators cs
                 else if ws_len s = 0 then s else skip_separators (drop (ws_len s) s))"
  by pat_completeness auto
termination
proof (relation "measure length")
  fix s :: string and c cs
  assume "s = c # cs" "ws_len s \<noteq> 0"
  with ws_len_le [of s] show "(drop (ws_len s) s, s) \<in> measure length" by simp
qed simp_all

declare skip_separators.simps [simp del]

lemma skip_separators_Nil [simp]: "skip_separators [] = []"
  by (subst skip_separators.simps) simp

lemma skip_separators_comma: "skip_separators (CHR '','' # s) = skip_separators s"
  by (subst skip_separators.simps) simp

lemma skip_separators_stop: "ws_len s = 0 \<Longrightarrow> s = [] \<or> hd s \<noteq> CHR '','' \<Longrightarrow> skip_separators s = s"
  by (subst skip_separators.simps) (cases s, simp_all)

lemma skip_separators_ws: "ws_len s \<noteq> 0 \<Longrightarrow> skip_separators s = skip_separators (drop (ws_len s) s)"
proof (cases s)
  case (Cons c cs)
  assume "ws_len s \<noteq> 0"
  with Cons have "c \<noteq> CHR '',''" using ws_len_graphic [of "CHR '',''" cs] by auto
  with Cons \<open>ws_len s \<noteq> 0\<close> show ?thesis by (subst skip_separators.simps) simp
qed simp

lemma skip_separators_suffix: "suffix (skip_separators s) s"
proof (induction s rule: skip_separators.induct)
  case (1 s)
  consider "s = []" | cs where "s = CHR '','' # cs" | "ws_len s \<noteq> 0" "s \<noteq> []" "hd s \<noteq> CHR '',''"
    | "ws_len s = 0" "s \<noteq> []" "hd s \<noteq> CHR '',''" by (cases s) auto
  then show ?case
  proof cases
    case 2
    with 1(1) show ?thesis by (simp add: skip_separators_comma suffix_ConsI)
  next
    case 3
    with 1(2) [of "hd s" "tl s"] have "suffix (skip_separators (drop (ws_len s) s)) (drop (ws_len s) s)" by simp
    then have "suffix (skip_separators (drop (ws_len s) s)) s"
      using suffix_drop suffix_order.trans by blast
    with 3 skip_separators_ws [of s] show ?thesis by simp
  qed (simp_all add: skip_separators_stop)
qed

lemma length_skip_separators: "length (skip_separators s) \<le> length s"
  using skip_separators_suffix by (rule suffix_length_le)

definition missing_equals :: "string \<Rightarrow> string" where
  "missing_equals remaining = ''expected '' @ [octet 39] @ ''='' @ [octet 39] @ '' in params: '' @ remaining"

function auth_params :: "string \<Rightarrow> (string \<rightharpoonup> string) \<Rightarrow> digest_auth_error + (string \<rightharpoonup> string)" where
  "auth_params remaining params =
     (let remaining = skip_separators remaining in
      if remaining = [] then Inr params
      else (case find_char (CHR ''='') remaining of
        None \<Rightarrow> Inl (AuthParseError (missing_equals remaining))
      | Some eq_pos \<Rightarrow>
          (let key = to_ascii_lowercase (trim (take eq_pos remaining));
               remaining = trim_start (drop (Suc eq_pos) remaining)
           in if starts_with [DQUOTE] remaining then
                (let remaining = drop 1 remaining in
                 case find_char DQUOTE remaining of
                   None \<Rightarrow> Inl (AuthParseError ''unterminated quoted string'')
                 | Some end_quote \<Rightarrow> auth_params (drop (Suc end_quote) remaining) (params(key \<mapsto> take end_quote remaining)))
              else
                (let e = (case find_char (CHR '','') remaining of Some i \<Rightarrow> i | None \<Rightarrow> length remaining) in
                 auth_params (drop e remaining) (params(key \<mapsto> trim (take e remaining)))))))"
  by pat_completeness auto
termination
proof (relation "measure (\<lambda>(s, _). length s)", goal_cases)
  case (2 s params r p key t u q)
  have "length t < length r"
    unfolding 2(5) using find_char_SomeD [OF 2(3)] length_trim_start_le [of "drop (Suc p) r"] by (simp; linarith)
  with 2(1,7) length_skip_separators [of s] show ?case by simp
next
  case (3 s params r p key t e)
  have "length t < length r"
    unfolding 3(5) using find_char_SomeD [OF 3(3)] length_trim_start_le [of "drop (Suc p) r"] by (simp; linarith)
  with 3(1) length_skip_separators [of s] show ?case by simp
qed simp

declare auth_params.simps [simp del]

definition parse_auth_params :: "string \<Rightarrow> digest_auth_error + (string \<rightharpoonup> string)" where
  "parse_auth_params params_str = auth_params (trim params_str) Map.empty"

subsection \<open>Challenges\<close>

definition parse_algorithm :: "string option \<Rightarrow> digest_auth_error + algorithm" where
  "parse_algorithm v =
     (case v of
        None \<Rightarrow> Inr Md5
      | Some s \<Rightarrow>
          if s = ''MD5'' then Inr Md5 else if s = ''MD5-sess'' then Inr Md5Sess
          else if s = ''SHA-256'' then Inr Sha256 else if s = ''SHA-256-sess'' then Inr Sha256Sess
          else if s = ''AKAv1-MD5'' then Inr AkaV1Md5 else if s = ''AKAv2-MD5'' then Inr AkaV2Md5
          else Inl (UnsupportedAlgorithm s))"

definition choose_qop :: "string \<Rightarrow> qop" where
  "choose_qop s =
     (if contains_sub ''auth-int'' s \<and> \<not> contains_sub ''auth,'' s then QopAuthInt
      else if contains_sub ''auth'' s then QopAuth else QopNone)"

definition challenge_parse :: "string \<Rightarrow> digest_auth_error + digest_challenge" where
  "challenge_parse header_value =
     (let header_value = trim header_value in
      if \<not> starts_with ''digest '' (to_ascii_lowercase header_value)
      then Inl (AuthParseError ''expected Digest authentication scheme'')
      else
        and_then (parse_auth_params (drop 7 header_value)) (\<lambda>params.
        and_then (ok_or (MissingField ''realm'') (params ''realm'')) (\<lambda>realm.
        and_then (ok_or (MissingField ''nonce'') (params ''nonce'')) (\<lambda>nonce.
        and_then (parse_algorithm (params ''algorithm'')) (\<lambda>algorithm.
        Inr \<lparr>ch_realm = realm, ch_nonce = nonce, ch_opaque = params ''opaque'',
             ch_stale = (case params ''stale'' of None \<Rightarrow> False | Some v \<Rightarrow> eq_ignore_ascii_case v ''true''),
             ch_algorithm = algorithm, ch_qop = map_option choose_qop (params ''qop''),
             ch_domain = params ''domain''\<rparr>)))))"

subsection \<open>Responses\<close>

definition hash_md5 :: "digest_crypto \<Rightarrow> bytes \<Rightarrow> string" where
  "hash_md5 cr data = dc_hex cr (dc_md5 cr data)"

definition hash_sha256 :: "digest_crypto \<Rightarrow> bytes \<Rightarrow> string" where
  "hash_sha256 cr data = dc_hex cr (dc_sha256 cr data)"

text \<open>\<open>{:08x}\<close>: lower-case hexadecimal, padded with zeros to eight digits.\<close>

definition hex_digit :: "nat \<Rightarrow> char" where
  "hex_digit n = (if n < 10 then octet (48 + n) else octet (87 + n))"

fun to_hex :: "nat \<Rightarrow> string" where
  "to_hex n = (if n < 16 then [hex_digit n] else to_hex (n div 16) @ [hex_digit (n mod 16)])"

declare to_hex.simps [simp del]

definition hex_08 :: "nat \<Rightarrow> string" where
  "hex_08 n = replicate (8 - length (to_hex n)) (CHR ''0'') @ to_hex n"

fun digest_hash :: "digest_crypto \<Rightarrow> algorithm \<Rightarrow> bytes \<Rightarrow> string" where
  "digest_hash cr Md5 = hash_md5 cr"
| "digest_hash cr Md5Sess = hash_md5 cr"
| "digest_hash cr AkaV1Md5 = hash_md5 cr"
| "digest_hash cr AkaV2Md5 = hash_md5 cr"
| "digest_hash cr Sha256 = hash_sha256 cr"
| "digest_hash cr Sha256Sess = hash_sha256 cr"

definition digest_ha1 ::
    "digest_crypto \<Rightarrow> string \<Rightarrow> string \<Rightarrow> string \<Rightarrow> string \<Rightarrow> algorithm \<Rightarrow> string option \<Rightarrow> string" where
  "digest_ha1 cr username password realm nonce algorithm cnonce =
     (let ha1_base = digest_hash cr algorithm (username @ '':'' @ realm @ '':'' @ password) in
      if algorithm = Md5Sess \<or> algorithm = Sha256Sess
      then digest_hash cr algorithm
             (ha1_base @ '':'' @ nonce @ '':'' @ (case cnonce of Some c \<Rightarrow> c | None \<Rightarrow> []))
      else ha1_base)"

definition digest_ha2 ::
    "digest_crypto \<Rightarrow> string \<Rightarrow> string \<Rightarrow> algorithm \<Rightarrow> qop option \<Rightarrow> bytes option \<Rightarrow> string" where
  "digest_ha2 cr method uri algorithm qop body =
     (if qop = Some QopAuthInt
      then digest_hash cr algorithm (method @ '':'' @ uri @ '':'' @
             digest_hash cr algorithm (case body of Some b \<Rightarrow> b | None \<Rightarrow> []))
      else digest_hash cr algorithm (method @ '':'' @ uri))"

definition compute_digest ::
    "digest_crypto \<Rightarrow> string \<Rightarrow> string \<Rightarrow> string \<Rightarrow> string \<Rightarrow> string \<Rightarrow> string \<Rightarrow> algorithm \<Rightarrow> qop option
      \<Rightarrow> string option \<Rightarrow> nat option \<Rightarrow> bytes option \<Rightarrow> string" where
  "compute_digest cr username password realm method uri nonce algorithm qop cnonce nc body =
     (let ha1 = digest_ha1 cr username password realm nonce algorithm cnonce;
          ha2 = digest_ha2 cr method uri algorithm qop body
      in case qop of
           Some q \<Rightarrow>
             if q \<noteq> QopNone then
               digest_hash cr algorithm (ha1 @ '':'' @ nonce @ '':'' @
                 hex_08 (case nc of Some n \<Rightarrow> n | None \<Rightarrow> 1) @ '':'' @
                 (case cnonce of Some c \<Rightarrow> c | None \<Rightarrow> []) @ '':'' @ qop_display q @ '':'' @ ha2)
             else digest_hash cr algorithm (ha1 @ '':'' @ nonce @ '':'' @ ha2)
         | None \<Rightarrow> digest_hash cr algorithm (ha1 @ '':'' @ nonce @ '':'' @ ha2))"

definition generate_cnonce :: "digest_crypto \<Rightarrow> bytes \<Rightarrow> string" where
  "generate_cnonce cr random_bytes = dc_hex cr random_bytes"

definition from_challenge ::
    "digest_crypto \<Rightarrow> bytes \<Rightarrow> digest_challenge \<Rightarrow> digest_credentials \<Rightarrow> string \<Rightarrow> string \<Rightarrow> bytes option
      \<Rightarrow> nat option \<Rightarrow> digest_auth_error + digest_response" where
  "from_challenge cr random_bytes challenge credentials method uri body nc =
     (if ch_realm challenge = [] then Inl (MissingField ''realm'')
      else if ch_nonce challenge = [] then Inl (MissingField ''nonce'')
      else
        (let qop = ch_qop challenge;
             (cnonce, nc) = (if qop \<noteq> None
               then (Some (generate_cnonce cr random_bytes), Some (case nc of Some n \<Rightarrow> n | None \<Rightarrow> 1))
               else (None, None));
             response = compute_digest cr (cd_username credentials) (cd_password credentials) (ch_realm challenge)
               method uri (ch_nonce challenge) (ch_algorithm challenge) qop cnonce nc body
         in Inr \<lparr>dr_username = cd_username credentials, dr_realm = ch_realm challenge,
              dr_nonce = ch_nonce challenge, dr_uri = uri, dr_response = response,
              dr_algorithm = ch_algorithm challenge, dr_opaque = ch_opaque challenge, dr_qop = qop,
              dr_cnonce = cnonce, dr_nc = nc\<rparr>))"

definition quoted :: "string \<Rightarrow> string" where
  "quoted s = [DQUOTE] @ s @ [DQUOTE]"

definition to_header_value :: "digest_response \<Rightarrow> string" where
  "to_header_value r =
     (let parts = [''Digest username='' @ quoted (dr_username r), ''realm='' @ quoted (dr_realm r),
            ''nonce='' @ quoted (dr_nonce r), ''uri='' @ quoted (dr_uri r), ''response='' @ quoted (dr_response r),
            ''algorithm='' @ algorithm_display (dr_algorithm r)];
          parts = parts @ (case dr_opaque r of Some v \<Rightarrow> [''opaque='' @ quoted v] | None \<Rightarrow> []);
          parts = parts @ (case dr_qop r of
            Some q \<Rightarrow>
              if q \<noteq> QopNone then
                [''qop='' @ qop_display q]
                @ (case dr_cnonce r of Some c \<Rightarrow> [''cnonce='' @ quoted c] | None \<Rightarrow> [])
                @ (case dr_nc r of Some n \<Rightarrow> [''nc='' @ hex_08 n] | None \<Rightarrow> [])
              else []
          | None \<Rightarrow> [])
      in join '', '' parts)"


subsection \<open>Reading back what was written\<close>

text \<open>One parameter as the writer forms it: its name, whether it is quoted, and its value.\<close>

type_synonym auth_param = "string \<times> bool \<times> string"

fun param_text :: "auth_param \<Rightarrow> string" where
  "param_text (k, q, v) = k @ ''='' @ (if q then quoted v else v)"

fun param_ok :: "auth_param \<Rightarrow> bool" where
  "param_ok (k, q, v) \<longleftrightarrow>
     k \<noteq> [] \<and> graphic k \<and> to_ascii_lowercase k = k \<and> CHR ''='' \<notin> set k \<and> CHR '','' \<notin> set k
     \<and> DQUOTE \<notin> set v \<and> (q \<or> v \<noteq> [] \<and> graphic v \<and> CHR '','' \<notin> set v)"

fun param_insert :: "auth_param \<Rightarrow> (string \<rightharpoonup> string) \<Rightarrow> (string \<rightharpoonup> string)" where
  "param_insert (k, q, v) m = m(k \<mapsto> v)"

lemma auth_params_skip: "skip_separators s = skip_separators t \<Longrightarrow> auth_params s m = auth_params t m"
  by (subst auth_params.simps, subst (2) auth_params.simps) simp

lemma auth_params_Nil [simp]: "auth_params [] m = Inr m"
  by (subst auth_params.simps) simp

lemma auth_params_gap: "auth_params ('', '' @ s) m = auth_params s m"
proof (rule auth_params_skip)
  have "skip_separators (CHR '' '' # s) = skip_separators s"
    using skip_separators_ws [of "CHR '' '' # s"] ws_len_ws1 [of "CHR '' ''" s] by (simp add: ws1_def)
  then show "skip_separators ('', '' @ s) = skip_separators s" by (simp add: skip_separators_comma)
qed

lemma DQUOTE_graphic: "33 \<le> code DQUOTE" "code DQUOTE \<le> 126"
  by simp_all

lemma auth_params_param:
  assumes "param_ok (k, q, v)" "rest = [] \<or> hd rest = CHR '',''"
  shows "auth_params (param_text (k, q, v) @ rest) m = auth_params rest (m(k \<mapsto> v))"
proof -
  let ?s = "param_text (k, q, v) @ rest" and ?t = "(if q then quoted v else v) @ rest"
  have k: "k \<noteq> []" "graphic k" "to_ascii_lowercase k = k" "CHR ''='' \<notin> set k" "hd k \<noteq> CHR '',''"
    using assms(1) by (auto dest: hd_in_set)
  then have "skip_separators ?s = ?s" by (intro skip_separators_stop) (cases k; simp)+
  moreover have "find_char (CHR ''='') ?s = Some (length k)" using k(4) by (simp add: find_char_append)
  moreover have "trim k = k" using k(2) tight_graphic by simp
  moreover have t: "trim_start ?t = ?t"
  proof (rule trim_start_id)
    show "ws_len ?t = 0"
      using assms(1) DQUOTE_graphic by (cases q; cases v) (auto simp: quoted_def)
  qed
  moreover have "?s \<noteq> []" "take (length k) ?s = k" "drop (Suc (length k)) ?s = ?t" by simp_all
  ultimately have *: "auth_params ?s m =
      (if starts_with [DQUOTE] ?t then
         (case find_char DQUOTE (drop 1 ?t) of
            None \<Rightarrow> Inl (AuthParseError ''unterminated quoted string'')
          | Some e \<Rightarrow> auth_params (drop (Suc e) (drop 1 ?t)) (m(k \<mapsto> take e (drop 1 ?t))))
       else
         (let e = (case find_char (CHR '','') ?t of Some i \<Rightarrow> i | None \<Rightarrow> length ?t) in
          auth_params (drop e ?t) (m(k \<mapsto> trim (take e ?t)))))"
    by (subst auth_params.simps) (simp only: Let_def if_False option.case k(3))
  show ?thesis
  proof (cases q)
    case True
    then have "?t = DQUOTE # v @ DQUOTE # rest" by (simp add: quoted_def)
    moreover have "find_char DQUOTE (v @ DQUOTE # rest) = Some (length v)"
      using assms(1) by (simp add: find_char_append)
    ultimately show ?thesis unfolding * by simp
  next
    case False
    with assms(1) have v: "v \<noteq> []" "graphic v" "CHR '','' \<notin> set v" "DQUOTE \<notin> set v" by auto
    then have "\<not> starts_with [DQUOTE] (v @ rest)" by (cases v) auto
    moreover have "(case find_char (CHR '','') (v @ rest) of Some i \<Rightarrow> i | None \<Rightarrow> length (v @ rest)) = length v"
      using assms(2) v(3)
      by (cases rest) (simp_all add: find_char_append find_char_None [THEN iffD2])
    ultimately show ?thesis unfolding * using False v(2) tight_graphic by (simp add: Let_def)
  qed
qed

lemma auth_params_join:
  assumes "\<forall>p \<in> set ps. param_ok p"
  shows "auth_params (join '', '' (map param_text ps)) m = Inr (fold param_insert ps m)"
  using assms
proof (induction ps arbitrary: m)
  case (Cons p ps)
  obtain k q v where p: "p = (k, q, v)" by (cases p)
  show ?case
  proof (cases ps)
    case Nil
    with Cons.prems p auth_params_param [of k q v "[]" m] show ?thesis
      by (simp add: fun_upd_def del: param_text.simps param_ok.simps)
  next
    case (Cons p' ps')
    let ?rest = "join '', '' (map param_text ps)"
    have "join '', '' (map param_text (p # ps)) = param_text (k, q, v) @ '', '' @ ?rest"
      using Cons p by (simp del: param_text.simps)
    moreover have "auth_params (param_text (k, q, v) @ '', '' @ ?rest) m = auth_params ('', '' @ ?rest) (m(k \<mapsto> v))"
      using Cons.prems p by (intro auth_params_param) (simp_all del: param_ok.simps)
    ultimately show ?thesis
      using Cons.IH Cons.prems p by (simp only: auth_params_gap) (simp del: param_ok.simps)
  qed
qed simp

text \<open>The parameters of a response.\<close>

definition response_params :: "digest_response \<Rightarrow> auth_param list" where
  "response_params r =
     [(''username'', True, dr_username r), (''realm'', True, dr_realm r), (''nonce'', True, dr_nonce r),
      (''uri'', True, dr_uri r), (''response'', True, dr_response r),
      (''algorithm'', False, algorithm_display (dr_algorithm r))]
     @ (case dr_opaque r of Some v \<Rightarrow> [(''opaque'', True, v)] | None \<Rightarrow> [])
     @ (case dr_qop r of
          Some q \<Rightarrow>
            if q \<noteq> QopNone then
              [(''qop'', False, qop_display q)]
              @ (case dr_cnonce r of Some c \<Rightarrow> [(''cnonce'', True, c)] | None \<Rightarrow> [])
              @ (case dr_nc r of Some n \<Rightarrow> [(''nc'', False, hex_08 n)] | None \<Rightarrow> [])
            else []
        | None \<Rightarrow> [])"

lemma join_prefix: "join sep ((a @ x) # xs) = a @ join sep (x # xs)"
  by (cases xs) simp_all

lemma to_header_value_params:
  "to_header_value r = ''Digest '' @ join '', '' (map param_text (response_params r))"
proof -
  have "to_header_value r = join '', '' ((''Digest '' @ param_text (''username'', True, dr_username r))
      # map param_text (tl (response_params r)))"
    by (simp add: to_header_value_def response_params_def split: option.splits)
  also have "\<dots> = ''Digest '' @ join '', '' (map param_text (response_params r))"
    unfolding join_prefix by (simp add: response_params_def)
  finally show ?thesis .
qed

lemma to_hex_digits: "c \<in> set (to_hex n) \<Longrightarrow> 48 \<le> code c \<and> code c \<le> 57 \<or> 97 \<le> code c \<and> code c \<le> 102"
proof (induction n rule: to_hex.induct)
  case (1 n)
  have d: "48 \<le> code (hex_digit i) \<and> code (hex_digit i) \<le> 57 \<or> 97 \<le> code (hex_digit i) \<and> code (hex_digit i) \<le> 102"
    if "i < 16" for i using that by (auto simp: hex_digit_def code_octet)
  show ?case
  proof (cases "n < 16")
    case True
    then have "to_hex n = [hex_digit n]" by (subst to_hex.simps) simp
    with 1(2) d [OF True] show ?thesis by simp
  next
    case False
    then have "to_hex n = to_hex (n div 16) @ [hex_digit (n mod 16)]" by (subst to_hex.simps) simp
    with 1 False d [of "n mod 16"] show ?thesis by auto
  qed
qed

lemma to_hex_not_Nil [simp]: "to_hex n \<noteq> []"
  by (subst to_hex.simps) simp

lemma hex_08_digits: "c \<in> set (hex_08 n) \<Longrightarrow> 48 \<le> code c \<and> code c \<le> 57 \<or> 97 \<le> code c \<and> code c \<le> 102"
  using to_hex_digits [of c n] by (auto simp: hex_08_def)

lemma hex_08_text: "hex_08 n \<noteq> []" "graphic (hex_08 n)" "CHR '','' \<notin> set (hex_08 n)" "DQUOTE \<notin> set (hex_08 n)"
proof -
  show "hex_08 n \<noteq> []" by (simp add: hex_08_def)
  show "graphic (hex_08 n)" using hex_08_digits [of _ n] by (fastforce simp: graphic_def)
  show "CHR '','' \<notin> set (hex_08 n)" "DQUOTE \<notin> set (hex_08 n)" using hex_08_digits [of _ n] by fastforce+
qed

lemma algorithm_text:
  "algorithm_display a \<noteq> []" "graphic (algorithm_display a)" "CHR '','' \<notin> set (algorithm_display a)"
  "DQUOTE \<notin> set (algorithm_display a)"
  by (cases a; simp add: ascii_simps DQUOTE_def)+

lemma qop_text:
  assumes "q \<noteq> QopNone"
  shows "qop_display q \<noteq> []" "graphic (qop_display q)" "CHR '','' \<notin> set (qop_display q)" "DQUOTE \<notin> set (qop_display q)"
  using assms by (cases q; simp add: ascii_simps DQUOTE_def)+

lemma tight_hd_last:
  assumes "s \<noteq> []" "graphic [hd s]" "graphic [last s]" shows "tight s"
proof -
  have "rev s = last s # rev (butlast s)" using assms(1) by (cases s rule: rev_cases) simp_all
  with assms show ?thesis by (cases s) (simp_all add: tight_def)
qed

lemma param_text_ends:
  assumes "param_ok p" shows "param_text p \<noteq> []" "graphic [hd (param_text p)]" "graphic [last (param_text p)]"
proof -
  obtain k q v where p: "p = (k, q, v)" by (cases p)
  show "param_text p \<noteq> []" "graphic [hd (param_text p)]" using p assms by (cases k; simp)+
  show "graphic [last (param_text p)]"
    using p assms last_in_set [of v] by (auto simp: quoted_def graphic_def)
qed

lemma tight_params:
  assumes "\<forall>p \<in> set ps. param_ok p" shows "tight (join '', '' (map param_text ps))"
proof (cases "ps = []")
  case False
  have "hd (join '', '' (map param_text ps)) = hd (param_text (hd ps)) \<and> join '', '' (map param_text ps) \<noteq> []
    \<and> last (join '', '' (map param_text ps)) = last (param_text (last ps))"
    if "ps \<noteq> []" "\<forall>p \<in> set ps. param_ok p" for ps
    using that
  proof (induction ps)
    case (Cons p ps)
    then show ?case using param_text_ends(1) [of p] by (cases ps) (auto simp del: param_text.simps param_ok.simps)
  qed simp
  from this [OF False assms] show ?thesis
    using assms False param_text_ends(2) [of "hd ps"] param_text_ends(3) [of "last ps"] by (intro tight_hd_last) simp_all
qed simp

lemma parse_written_params:
  assumes "\<forall>p \<in> set (response_params r). param_ok p"
  shows "parse_auth_params (drop 7 (to_header_value r)) = Inr (fold param_insert (response_params r) Map.empty)"
  using tight_params [OF assms] auth_params_join [OF assms]
  by (simp add: parse_auth_params_def to_header_value_params)


subsection \<open>What a server computes\<close>

text \<open>
  The response of RFC 7616, from the parameters of an \<open>Authorization\<close> value and the password on file.
  An absent client nonce counts as empty.
\<close>

definition param_value :: "(string \<rightharpoonup> string) \<Rightarrow> string \<Rightarrow> string" where
  "param_value p k = (case p k of Some v \<Rightarrow> v | None \<Rightarrow> [])"

definition rfc_hash :: "digest_crypto \<Rightarrow> string \<Rightarrow> bytes \<Rightarrow> string" where
  "rfc_hash cr algorithm data =
     dc_hex cr ((if algorithm \<in> {''SHA-256'', ''SHA-256-sess''} then dc_sha256 cr else dc_md5 cr) data)"

definition rfc_response :: "digest_crypto \<Rightarrow> string \<Rightarrow> string \<Rightarrow> bytes \<Rightarrow> (string \<rightharpoonup> string) \<Rightarrow> string" where
  "rfc_response cr password method body p =
     (let v = param_value p; h = rfc_hash cr (v ''algorithm'');
          secret = h (join '':'' [v ''username'', v ''realm'', password]);
          ha1 = (if v ''algorithm'' \<in> {''MD5-sess'', ''SHA-256-sess''}
                 then h (join '':'' [secret, v ''nonce'', v ''cnonce'']) else secret);
          ha2 = (if p ''qop'' = Some ''auth-int'' then h (join '':'' [method, v ''uri'', h body])
                 else h (join '':'' [method, v ''uri'']))
      in if p ''qop'' = None then h (join '':'' [ha1, v ''nonce'', ha2])
         else h (join '':'' [ha1, v ''nonce'', v ''nc'', v ''cnonce'', v ''qop'', ha2]))"

text \<open>
  What a value needs to stand between quotes, which the writer does not escape; and the algorithms
  whose first hash covers the client nonce.
\<close>

definition quotable :: "string \<Rightarrow> bool" where
  "quotable s \<longleftrightarrow> DQUOTE \<notin> set s"

definition session_algorithm :: "algorithm \<Rightarrow> bool" where
  "session_algorithm a \<longleftrightarrow> a = Md5Sess \<or> a = Sha256Sess"

lemma digest_hash_quotable: "\<forall>b. quotable (dc_hex cr b) \<Longrightarrow> quotable (digest_hash cr a b)"
  by (cases a) (simp_all add: hash_md5_def hash_sha256_def)

lemma compute_digest_hash: "\<exists>x. compute_digest cr u pw realm me uri nonce a qop cnonce nc body = digest_hash cr a x"
  by (auto simp: compute_digest_def Let_def split: option.splits)

lemma param_names_ok:
  "param_ok (''username'', True, v) \<longleftrightarrow> quotable v" "param_ok (''realm'', True, v) \<longleftrightarrow> quotable v"
  "param_ok (''nonce'', True, v) \<longleftrightarrow> quotable v" "param_ok (''uri'', True, v) \<longleftrightarrow> quotable v"
  "param_ok (''response'', True, v) \<longleftrightarrow> quotable v" "param_ok (''opaque'', True, v) \<longleftrightarrow> quotable v"
  "param_ok (''cnonce'', True, v) \<longleftrightarrow> quotable v"
  "param_ok (''algorithm'', False, algorithm_display a)" "param_ok (''nc'', False, hex_08 n)"
  "q \<noteq> QopNone \<Longrightarrow> param_ok (''qop'', False, qop_display q)"
  by (simp_all add: quotable_def ascii_simps algorithm_text qop_text hex_08_text)

lemma rfc_hash_display: "rfc_hash cr (algorithm_display a) = digest_hash cr a"
  by (cases a) (simp_all add: rfc_hash_def hash_md5_def hash_sha256_def fun_eq_iff)

lemma session_display: "algorithm_display a \<in> {''MD5-sess'', ''SHA-256-sess''} \<longleftrightarrow> session_algorithm a"
  by (cases a) (simp_all add: session_algorithm_def)

lemma from_challenge_params_ok:
  assumes "\<forall>b. quotable (dc_hex cr b)"
    and "\<forall>s \<in> {cd_username cd, uri, ch_realm ch, ch_nonce ch} \<union> set_option (ch_opaque ch). quotable s"
    and "from_challenge cr rnd ch cd me uri body nc = Inr r"
  shows "\<forall>p \<in> set (response_params r). param_ok p"
proof -
  have "quotable (dr_response r)" "dr_cnonce r = None \<or> dr_cnonce r = Some (dc_hex cr rnd)"
    "dr_username r = cd_username cd" "dr_uri r = uri" "dr_realm r = ch_realm ch" "dr_nonce r = ch_nonce ch"
    "dr_opaque r = ch_opaque ch"
    using assms(3) digest_hash_quotable [OF assms(1)]
    by (auto simp: from_challenge_def generate_cnonce_def Let_def split: if_splits prod.splits)
      (metis compute_digest_hash)+
  with assms(1,2) show ?thesis
    by (auto simp: response_params_def param_names_ok simp del: param_ok.simps split: option.splits)
qed

text \<open>What the server finds under each name.\<close>

lemma response_params_lookup:
  fixes r :: digest_response
  defines "p \<equiv> fold param_insert (response_params r) Map.empty"
    and "prot \<equiv> dr_qop r \<noteq> None \<and> dr_qop r \<noteq> Some QopNone"
  shows "p ''username'' = Some (dr_username r)" "p ''realm'' = Some (dr_realm r)" "p ''nonce'' = Some (dr_nonce r)"
    "p ''uri'' = Some (dr_uri r)" "p ''response'' = Some (dr_response r)"
    "p ''algorithm'' = Some (algorithm_display (dr_algorithm r))" "p ''opaque'' = dr_opaque r"
    "p ''qop'' = (if prot then map_option qop_display (dr_qop r) else None)"
    "p ''cnonce'' = (if prot then dr_cnonce r else None)"
    "p ''nc'' = (if prot then map_option hex_08 (dr_nc r) else None)"
  unfolding p_def prot_def response_params_def
  by (cases "dr_opaque r"; cases "dr_qop r"; cases "dr_cnonce r"; cases "dr_nc r"; simp)+

lemma qop_option_cases:
  obtains "x = None" | "x = Some QopNone" | "x = Some QopAuth" | "x = Some QopAuthInt"
  by (cases x) (auto elim: qop.exhaust)

lemma rfc_response_written:
  assumes "from_challenge cr rnd ch cd me uri body nc = Inr r"
    and "ch_qop ch = Some QopNone \<Longrightarrow> \<not> session_algorithm (ch_algorithm ch)"
  shows "rfc_response cr (cd_password cd) me (case body of Some b \<Rightarrow> b | None \<Rightarrow> [])
    (fold param_insert (response_params r) Map.empty) = dr_response r"
proof -
  have r: "r = \<lparr>dr_username = cd_username cd, dr_realm = ch_realm ch, dr_nonce = ch_nonce ch, dr_uri = uri,
      dr_response = compute_digest cr (cd_username cd) (cd_password cd) (ch_realm ch) me uri (ch_nonce ch)
        (ch_algorithm ch) (ch_qop ch) (if ch_qop ch \<noteq> None then Some (dc_hex cr rnd) else None)
        (if ch_qop ch \<noteq> None then Some (case nc of Some n \<Rightarrow> n | None \<Rightarrow> 1) else None) body,
      dr_algorithm = ch_algorithm ch, dr_opaque = ch_opaque ch, dr_qop = ch_qop ch,
      dr_cnonce = (if ch_qop ch \<noteq> None then Some (dc_hex cr rnd) else None),
      dr_nc = (if ch_qop ch \<noteq> None then Some (case nc of Some n \<Rightarrow> n | None \<Rightarrow> 1) else None)\<rparr>"
    using assms(1) by (auto simp: from_challenge_def generate_cnonce_def Let_def split: if_splits)
  let ?p = "fold param_insert (response_params r) Map.empty"
  have alg: "param_value ?p ''algorithm'' = algorithm_display (ch_algorithm ch)"
    and vals: "param_value ?p ''username'' = cd_username cd" "param_value ?p ''realm'' = ch_realm ch"
      "param_value ?p ''nonce'' = ch_nonce ch" "param_value ?p ''uri'' = uri"
    unfolding param_value_def response_params_lookup by (simp_all add: r)
  have optional: "?p ''qop'' = (if ch_qop ch \<in> {None, Some QopNone} then None else map_option qop_display (ch_qop ch))"
      "param_value ?p ''qop'' = (if ch_qop ch \<in> {None, Some QopNone} then [] else qop_display (the (ch_qop ch)))"
      "param_value ?p ''cnonce'' = (if ch_qop ch \<in> {None, Some QopNone} then [] else dc_hex cr rnd)"
      "param_value ?p ''nc'' = (if ch_qop ch \<in> {None, Some QopNone} then [] else hex_08 (case nc of Some n \<Rightarrow> n | None \<Rightarrow> 1))"
    unfolding param_value_def response_params_lookup by (auto simp: r)
  have resp: "dr_response r = compute_digest cr (cd_username cd) (cd_password cd) (ch_realm ch) me uri (ch_nonce ch)
        (ch_algorithm ch) (ch_qop ch) (if ch_qop ch \<noteq> None then Some (dc_hex cr rnd) else None)
        (if ch_qop ch \<noteq> None then Some (case nc of Some n \<Rightarrow> n | None \<Rightarrow> 1) else None) body"
    by (simp add: r)
  show ?thesis
    using assms(2)
    unfolding resp rfc_response_def Let_def alg vals optional rfc_hash_display session_display compute_digest_def
      digest_ha1_def digest_ha2_def session_algorithm_def [symmetric]
    by (cases "ch_qop ch" rule: qop_option_cases) (simp_all del: digest_hash.simps)
qed

text \<open>
  C11. A server that knows the password accepts the client. For every challenge, credentials, method,
  URI and body, the header value written for the response to the challenge can be read back; it returns
  the realm, nonce and opaque value of the challenge and the nonce count; and its response is the one
  that RFC 7616 prescribes for the parameters read. Values between quotes must not contain a quote
  themselves, which the writer does not escape, and an algorithm with a session key must not meet a
  quality of protection that is present but unknown, where the client nonce is hashed and not sent.
\<close>

theorem digest_accepted:
  assumes "\<forall>b. quotable (dc_hex cr b)"
    and "\<forall>s \<in> {cd_username cd, uri, ch_realm ch, ch_nonce ch} \<union> set_option (ch_opaque ch). quotable s"
    and "ch_qop ch = Some QopNone \<longrightarrow> \<not> session_algorithm (ch_algorithm ch)"
    and "from_challenge cr rnd ch cd me uri body nc = Inr r"
  shows "starts_with ''Digest '' (to_header_value r)
    \<and> (\<exists>p. parse_auth_params (drop 7 (to_header_value r)) = Inr p
         \<and> p ''response'' = Some (rfc_response cr (cd_password cd) me (case body of Some b \<Rightarrow> b | None \<Rightarrow> []) p)
         \<and> p ''username'' = Some (cd_username cd) \<and> p ''uri'' = Some uri \<and> p ''realm'' = Some (ch_realm ch)
         \<and> p ''nonce'' = Some (ch_nonce ch) \<and> p ''opaque'' = ch_opaque ch
         \<and> (ch_qop ch \<in> {Some QopAuth, Some QopAuthInt} \<longrightarrow>
              p ''nc'' = Some (hex_08 (case nc of Some n \<Rightarrow> n | None \<Rightarrow> 1))))"
proof -
  let ?p = "fold param_insert (response_params r) Map.empty"
  have "dr_username r = cd_username cd" "dr_uri r = uri" "dr_realm r = ch_realm ch" "dr_nonce r = ch_nonce ch"
    "dr_opaque r = ch_opaque ch" "dr_qop r = ch_qop ch"
    "ch_qop ch \<noteq> None \<Longrightarrow> dr_nc r = Some (case nc of Some n \<Rightarrow> n | None \<Rightarrow> 1)"
    using assms(4) by (auto simp: from_challenge_def Let_def split: if_splits prod.splits)
  moreover have "rfc_response cr (cd_password cd) me (case body of Some b \<Rightarrow> b | None \<Rightarrow> []) ?p = dr_response r"
    using rfc_response_written [OF assms(4)] assms(3) by simp
  moreover have "starts_with ''Digest '' (to_header_value r)" by (simp add: to_header_value_params starts_with_def)
  ultimately show ?thesis
    using parse_written_params [OF from_challenge_params_ok [OF assms(1,2,4)]] response_params_lookup [of r]
    by (intro conjI exI [of _ ?p] impI) (simp_all, auto)
qed

definition sample_crypto :: digest_crypto where
  "sample_crypto = \<lparr>dc_md5 = rev, dc_sha256 = id, dc_hmac_md5 = (\<lambda>k d. k @ d),
     dc_hex = (\<lambda>b. concat (map (\<lambda>c. [hex_digit (code c div 16), hex_digit (code c mod 16)]) b)), dc_base64 = id\<rparr>"

definition sample_challenge :: digest_challenge where
  "sample_challenge = \<lparr>ch_realm = ''r'', ch_nonce = ''n'', ch_opaque = Some ''o'', ch_stale = False,
     ch_algorithm = Sha256Sess, ch_qop = Some QopAuthInt, ch_domain = None\<rparr>"

lemma sample_hex_quotable: "quotable (dc_hex sample_crypto b)"
proof -
  have "DQUOTE \<noteq> hex_digit i" if "i < 16" for i
    using that by (auto simp: hex_digit_def eq_octet_iff)
  moreover have "code c div 16 < 16" for c
    using code_less [of c] by (simp add: less_mult_imp_div_less)
  ultimately show ?thesis by (simp add: sample_crypto_def quotable_def)
qed

theorem digest_accepted_witness:
  "\<exists>r p. from_challenge sample_crypto ''xy'' sample_challenge \<lparr>cd_username = ''u'', cd_password = ''w''\<rparr>
       ''REGISTER'' ''sip:h'' None (Some 2) = Inr r
     \<and> parse_auth_params (drop 7 (to_header_value r)) = Inr p
     \<and> p ''response'' = Some (rfc_response sample_crypto ''w'' ''REGISTER'' [] p) \<and> p ''nc'' = Some ''00000002''"
proof -
  obtain r where r: "from_challenge sample_crypto ''xy'' sample_challenge \<lparr>cd_username = ''u'', cd_password = ''w''\<rparr>
       ''REGISTER'' ''sip:h'' None (Some 2) = Inr r"
    by (simp add: from_challenge_def sample_challenge_def Let_def)
  have "to_hex 2 = ''2''" by (subst to_hex.simps) (simp add: hex_digit_def ascii_simps)
  then have "hex_08 2 = ''00000002''" by (simp add: hex_08_def numeral_eq_Suc)
  moreover have "\<forall>s \<in> {''u'', ''sip:h'', ch_realm sample_challenge, ch_nonce sample_challenge}
      \<union> set_option (ch_opaque sample_challenge). quotable s"
    by (simp add: sample_challenge_def quotable_def ascii_simps DQUOTE_def)
  moreover have "ch_qop sample_challenge = Some QopAuthInt" by (simp add: sample_challenge_def)
  ultimately obtain p where "parse_auth_params (drop 7 (to_header_value r)) = Inr p"
      "p ''response'' = Some (rfc_response sample_crypto ''w'' ''REGISTER'' [] p)" "p ''nc'' = Some ''00000002''"
    using digest_accepted [OF _ _ _ r] sample_hex_quotable by fastforce
  with r show ?thesis by blast
qed

end
