(* ===== verification/Spec2Isabelle.thy ===== *)
theory Spec2Isabelle
  imports Txn_Manager Dialog_Manager Srtp_Stream Rtp_Session Rtp_Dtmf Media_Jitter Session_Hold Sdp_Negotiation Sip_Auth
begin

text \<open>
  Verification of the rsiprtp stack: the SIP signalling, SDP and RTP media code of the crate under
  \<open>src/crates/rsiprtp/src\<close>. File names below are relative to that directory.

  \<^bold>\<open>The program.\<close> Octets from a transport are framed and parsed into SIP messages (\<open>sip/\<close>). The
  transaction layer (\<open>transaction/\<close>) matches messages to client and server transactions, which
  retransmit and time out. Dialogs (\<open>dialog/\<close>) relate the requests of a call. The bodies of INVITE
  requests carry session descriptions (\<open>sdp/\<close>), offered and answered to agree on codecs, directions and
  ICE candidates (\<open>ice/\<close>). The agreed media travel as RTP with RTCP reports and feedback (\<open>rtp/\<close>), are
  encrypted by SRTP (\<open>srtp/\<close>), and are put back in order by the jitter buffer (\<open>media/jitter.rs\<close>). The
  session layer holds and resumes calls (\<open>session/hold.rs\<close>) and answers authentication challenges with
  \<open>sip/auth.rs\<close>.

  \<^bold>\<open>Conventions.\<close> A \<open>str\<close> is a list of octets (\<^typ>\<open>char\<close>), and media buffers are lists of \<^typ>\<open>8 word\<close>.
  \<open>Result\<close> is a sum with the error on the left. A panic is the value \<open>None\<close>. Fixed-width integers are
  words, or naturals with their bound, and wrap as in a release build. Structures are records, hash maps
  are maps or association lists in an arbitrary order, and methods with \<open>&mut self\<close> return the new state.
  Clock readings, random numbers and the results of floating-point operations are arguments, so that the
  theorems hold for every value. Crates outside the repository (AES, HMAC, hashes, base64) are record
  arguments; what a theorem needs of them is a hypothesis that its witness meets with concrete functions.

  \<^bold>\<open>Theories.\<close>

  \<^item> \<open>Rust_Prelude\<close> (standard library operations on text, numbers, UTF-8, durations), \<open>Rust_Text\<close> (facts
    on trimming, splitting and lines), \<open>Wire_Octets\<close> (big-endian fields, slices and cursors) and
    \<open>Net_Addr\<close> (IP and socket addresses as text) are the library that the components share.

  \<^item> \<open>Sip_Header\<close> models \<open>sip/parser/method.rs\<close>, \<open>status.rs\<close> and \<open>header.rs\<close>; \<open>Sip_Uri\<close> models
    \<open>sip/uri.rs\<close>; \<open>Sip_Framing\<close> models \<open>sip/parser/framing.rs\<close> and \<open>message.rs\<close>; \<open>Sip_Typed\<close> models
    \<open>sip/parser/name_addr.rs\<close>, \<open>sip/parser/typed/\<close> and \<open>sip/headers.rs\<close>; \<open>Sip_Message\<close> models the
    accessors and builders of \<open>sip/message.rs\<close>; \<open>Sip_Auth\<close> models \<open>sip/auth.rs\<close>. Shown: printing and
    parsing are inverse for URIs, typed headers and whole messages; what a builder sets an accessor reads;
    a response mirrors its request; a server that computes the digest of RFC 7616 accepts the
    authorization written for its challenge. The locales \<open>codec\<close> and \<open>header_codec\<close> state the contract of
    a printer and its parser once and are interpreted for each header.

  \<^item> \<open>Txn_Timer\<close> models \<open>transaction/timer.rs\<close> and holds the contracts of a transaction as locales
    (\<open>forward_machine\<close>, \<open>deadline_machine\<close>, \<open>transaction_machine\<close>, \<open>outcome_machine\<close>).
    \<open>Txn_Client_Invite\<close>, \<open>Txn_Client_NonInvite\<close>, \<open>Txn_Server_NonInvite\<close>, \<open>Txn_Reliable\<close> and
    \<open>Txn_Server_Invite\<close> model \<open>transaction/client/\<close> and \<open>transaction/server/\<close> and interpret them.
    \<open>Txn_Manager\<close> models \<open>transaction/manager.rs\<close>. Shown: no transaction is ever stuck, outcomes are
    reported once, retransmissions follow the schedule, failures are acknowledged, reliable provisional
    responses are watched, and the manager refines a table of transactions in every call, PRACK included.

  \<^item> \<open>Dialog_Invite\<close> models \<open>dialog/state.rs\<close> and \<open>dialog/invite.rs\<close>, \<open>Dialog_Manager\<close> models
    \<open>dialog/manager.rs\<close>. Shown: the life cycle of a dialog, growing sequence numbers, agreement of the two
    indexes, and that for a call set up between two managers the BYE of the caller reaches exactly the
    callee's dialog and ends it.

  \<^item> \<open>Sdp_Parser\<close> models \<open>sdp/parser.rs\<close>, \<open>Sdp_Display\<close> models \<open>sdp/builder.rs\<close>, \<open>Ice_Candidate\<close> models
    \<open>ice/candidate.rs\<close>, and \<open>Sdp_Negotiation\<close> models \<open>sdp/negotiation.rs\<close> and \<open>sdp/ice_attrs.rs\<close>. Shown:
    what parses prints and parses again to the same description; an answer has a line for each line of the
    offer, with a common codec and the mirrored direction where it is accepted; and offerer and answerer
    find the same codecs.

  \<^item> \<open>Rtp_Packet\<close>, \<open>Rtp_Dtmf\<close> and \<open>Rtp_Session\<close> model \<open>rtp/packet.rs\<close>, \<open>rtp/dtmf.rs\<close> and
    \<open>rtp/session.rs\<close>; \<open>Rtcp_Report\<close>, \<open>Rtcp_Sdes\<close>, \<open>Rtcp_Feedback\<close> and \<open>Rtcp_Compound\<close> model
    \<open>rtp/rtcp.rs\<close>. Shown: parsing never reads outside its buffer and is exact, packets survive the round
    trip (report blocks without cumulative losses, feedback messages with their own parsers), each key press is reported once, and losses are counted.

  \<^item> \<open>Srtp_Kdf\<close>, \<open>Srtp_Context\<close> and \<open>Srtp_Stream\<close> model \<open>srtp/kdf.rs\<close> and \<open>srtp/context.rs\<close>. Shown: only
    authentic packets are accepted, the rollover counter is the closest one, and a stream with bounded
    reordering is recovered across wrap-arounds.

  \<^item> \<open>Media_Jitter\<close> models \<open>media/jitter.rs\<close>: frames are neither lost nor played twice by the buffer, and
    are played in order. \<open>Session_Hold\<close> models \<open>session/hold.rs\<close>: the two ends agree on who holds.

  \<^bold>\<open>Bounds.\<close> No definition uses fuel: loops over a buffer are recursive functions with the length of the
  remaining input as measure, and every definition is total. Bounds in theorems are those of the code
  (limits on headers, ports below \<open>2 ^ 16\<close>, timestamps below \<open>2 ^ 31\<close> where the jitter buffer compares them
  as plain numbers).

  \<^bold>\<open>Not modelled.\<close> Sockets, DNS, TLS and keep-alive (\<open>transport/\<close>), the STUN and TURN clients and the ICE
  agent (\<open>ice/stun.rs\<close>, \<open>ice/turn.rs\<close>, \<open>ice/agent.rs\<close>), which are asynchronous programs around sockets;
  the message formats in these three files are not covered either. The codecs (\<open>media/codec/\<close>) call
  libraries outside the repository. The mixer (\<open>media/mixer.rs\<close>) and the congestion controller of
  \<open>rtp/session.rs\<close> are floating-point arithmetic. \<open>media/wav.rs\<close> is file access. \<open>srtp/sdes.rs\<close> is mostly
  base64 of a crate. Calls, the call manager, registration and transfer (\<open>session/call.rs\<close>, \<open>manager.rs\<close>,
  \<open>registration.rs\<close>, \<open>transfer.rs\<close>) drive the modelled parts for an application and are not covered. Of
  modelled files, plain getters, \<open>Debug\<close> output, test hooks and floating-point \<open>q\<close> values are left out.
  The application in \<open>crates/gabby\<close>, the examples and the tools are programs around the library.
\<close>

end
